(* ===== verification/Prelude.thy ===== *)
theory Prelude
  imports Main "HOL-Library.Word" "HOL-Library.Multiset" "HOL-Library.Char_ord"
    "HOL-Library.List_Lexorder"
begin

text \<open>
  The shared vocabulary of the development. A Go string is a byte sequence, here a
  \<open>string\<close> (a list of 8-bit characters). This theory holds the functions of Go's
  \<open>strings\<close>, \<open>strconv\<close>, \<open>sort\<close> and \<open>unicode/utf8\<close> packages that the program
  calls, with the lemmas about them that the components share, and the contract of
  \<open>sort.Interface\<close> as a locale. The names start with \<open>go_\<close> when they model a
  function of the standard library.
\<close>

named_theorems go_simps \<open>defining equations of the small Go library functions\<close>

subsection \<open>Bytes and characters\<close>

definition byte :: "char \<Rightarrow> nat" where
  "byte c = of_char c"

lemma byte_less [simp]: "byte c < 256"
  by (simp add: byte_def)

lemma byte_inject [simp]: "byte c = byte d \<longleftrightarrow> c = d"
  by (simp add: byte_def)

lemma char_of_byte [simp]: "(char_of (byte c) :: char) = c"
  by (simp add: byte_def)

lemma byte_char_of: "n < 256 \<Longrightarrow> byte (char_of n) = n"
  by (simp add: byte_def)

subsection \<open>Searching, cutting and splitting (package strings)\<close>

fun go_has_prefix :: "string \<Rightarrow> string \<Rightarrow> bool" where
  "go_has_prefix s [] = True"
| "go_has_prefix [] (p # ps) = False"
| "go_has_prefix (c # s) (p # ps) = (c = p \<and> go_has_prefix s ps)"

lemma go_has_prefix_iff: "go_has_prefix s p \<longleftrightarrow> (\<exists>r. s = p @ r)"
  by (induction s p rule: go_has_prefix.induct) auto

lemma go_has_prefix_append [simp]: "go_has_prefix (p @ r) p"
  by (auto simp: go_has_prefix_iff)

definition go_has_suffix :: "string \<Rightarrow> string \<Rightarrow> bool" where
  "go_has_suffix s p = go_has_prefix (rev s) (rev p)"

lemma go_has_suffix_iff: "go_has_suffix s p \<longleftrightarrow> (\<exists>r. s = r @ p)"
proof
  assume "go_has_suffix s p"
  then obtain r where "rev s = rev p @ r" by (auto simp: go_has_suffix_def go_has_prefix_iff)
  then have "s = rev r @ p" by (metis rev_append rev_rev_ident)
  then show "\<exists>r. s = r @ p" by blast
next
  assume "\<exists>r. s = r @ p"
  then show "go_has_suffix s p" by (auto simp: go_has_suffix_def)
qed

definition go_trim_prefix :: "string \<Rightarrow> string \<Rightarrow> string" where
  "go_trim_prefix s p = (if go_has_prefix s p then drop (length p) s else s)"

definition go_trim_suffix :: "string \<Rightarrow> string \<Rightarrow> string" where
  "go_trim_suffix s p = (if go_has_suffix s p then take (length s - length p) s else s)"

text \<open>\<open>strings.Index\<close>: the first position at which a substring occurs (\<open>None\<close> is -1).\<close>

fun go_index :: "string \<Rightarrow> string \<Rightarrow> nat option" where
  "go_index [] p = (if p = [] then Some 0 else None)"
| "go_index (c # s) p =
     (if go_has_prefix (c # s) p then Some 0 else map_option Suc (go_index s p))"

lemma go_index_SomeD:
  "go_index s p = Some i \<Longrightarrow> i + length p \<le> length s \<and> go_has_prefix (drop i s) p"
proof (induction s arbitrary: i)
  case Nil
  then show ?case by (auto split: if_splits)
next
  case (Cons c s)
  show ?case
  proof (cases "go_has_prefix (c # s) p")
    case True
    with Cons.prems show ?thesis by (auto simp: go_has_prefix_iff) (metis length_Cons length_append le_add1)
  next
    case False
    with Cons show ?thesis by auto
  qed
qed

lemma go_index_char_append:
  "c \<notin> set s \<Longrightarrow> go_index (s @ c # r) [c] = Some (length s)"
  by (induction s) auto

lemma go_index_char_None: "go_index s [c] = None \<longleftrightarrow> c \<notin> set s"
  by (induction s) auto

text \<open>
  \<open>strings.Split\<close> for a separator that is not empty, and \<open>strings.SplitN(s, sep, 2)\<close>.
  The accumulator holds the current piece, reversed.
\<close>

function go_split_aux :: "string \<Rightarrow> string \<Rightarrow> string \<Rightarrow> string list" where
  "go_split_aux sep acc [] = [rev acc]"
| "go_split_aux sep acc (c # s) =
     (if sep \<noteq> [] \<and> go_has_prefix (c # s) sep
      then rev acc # go_split_aux sep [] (drop (length sep) (c # s))
      else go_split_aux sep (c # acc) s)"
  by pat_completeness auto
termination
  by (relation "measure (\<lambda>(sep, acc, s). length s)") auto

definition go_split :: "string \<Rightarrow> string \<Rightarrow> string list" where
  "go_split s sep = go_split_aux sep [] s"

definition go_split2 :: "string \<Rightarrow> string \<Rightarrow> string list" where
  "go_split2 s sep =
     (case go_index s sep of
        None \<Rightarrow> [s]
      | Some i \<Rightarrow> [take i s, drop (i + length sep) s])"

fun go_join :: "string list \<Rightarrow> string \<Rightarrow> string" where
  "go_join [] sep = []"
| "go_join [x] sep = x"
| "go_join (x # y # ys) sep = x @ sep @ go_join (y # ys) sep"

lemma go_split_aux_nonempty [simp]: "go_split_aux sep acc s \<noteq> []"
  by (induction sep acc s rule: go_split_aux.induct) auto

lemma go_split_nonempty [simp]: "go_split s sep \<noteq> []"
  by (simp add: go_split_def)

lemma go_join_cons: "xs \<noteq> [] \<Longrightarrow> go_join (x # xs) sep = x @ sep @ go_join xs sep"
  by (cases xs) auto

lemma go_join_split_aux: "go_join (go_split_aux sep acc s) sep = rev acc @ s"
proof (induction sep acc s rule: go_split_aux.induct)
  case (1 sep acc)
  then show ?case by simp
next
  case (2 sep acc c s)
  show ?case
  proof (cases "sep \<noteq> [] \<and> go_has_prefix (c # s) sep")
    case True
    then obtain r where r: "c # s = sep @ r" by (auto simp: go_has_prefix_iff)
    from True "2.IH"(1) have "go_join (go_split_aux sep [] r) sep = r"
      by (simp only: r) simp
    moreover have "drop (length sep) (c # s) = r" by (simp only: r) simp
    then have "go_split_aux sep acc (c # s) = rev acc # go_split_aux sep [] r"
      using True by (simp only: go_split_aux.simps if_True simp_thms)
    ultimately show ?thesis
      by (simp only: r go_join_cons go_split_aux_nonempty not_False_eq_True)
  next
    case False
    with "2.IH"(2) show ?thesis by auto
  qed
qed

text \<open>Joining the pieces with the separator gives the string back.\<close>

lemma go_join_split: "go_join (go_split s sep) sep = s"
  by (simp add: go_split_def go_join_split_aux)

lemma has_prefix_hd: "sep \<noteq> [] \<Longrightarrow> hd sep \<noteq> c \<Longrightarrow> \<not> go_has_prefix (c # s) sep"
  by (cases sep) auto

lemma go_split_aux_none:
  "sep \<noteq> [] \<Longrightarrow> hd sep \<notin> set s \<Longrightarrow> go_split_aux sep acc s = [rev acc @ s]"
  by (induction s arbitrary: acc) (auto simp: has_prefix_hd)

lemma go_split_none: "sep \<noteq> [] \<Longrightarrow> hd sep \<notin> set s \<Longrightarrow> go_split s sep = [s]"
  by (simp add: go_split_def go_split_aux_none)

lemma go_split_aux_cons:
  "sep \<noteq> [] \<Longrightarrow> hd sep \<notin> set x \<Longrightarrow>
   go_split_aux sep acc (x @ sep @ r) = (rev acc @ x) # go_split_aux sep [] r"
proof (induction x arbitrary: acc)
  case Nil
  then obtain c p where sep: "sep = c # p" by (cases sep) auto
  have "go_has_prefix (sep @ r) sep" by (rule go_has_prefix_append)
  then show ?case by (simp add: sep)
qed (auto simp: has_prefix_hd)

lemma go_split_cons:
  "sep \<noteq> [] \<Longrightarrow> hd sep \<notin> set x \<Longrightarrow> go_split (x @ sep @ r) sep = x # go_split r sep"
  by (simp add: go_split_def go_split_aux_cons)

lemma go_split_join:
  "xs \<noteq> [] \<Longrightarrow> sep \<noteq> [] \<Longrightarrow> \<forall>x \<in> set xs. hd sep \<notin> set x \<Longrightarrow> go_split (go_join xs sep) sep = xs"
proof (induction xs)
  case Nil
  then show ?case by simp
next
  case (Cons x xs)
  then show ?case
    by (cases xs) (auto simp: go_split_none go_split_cons)
qed

text \<open>
  \<open>strings.TrimSpace\<close> removes leading and trailing Unicode white space: the ASCII blanks
  and the UTF-8 encodings of the other runes for which \<open>unicode.IsSpace\<close> holds.
\<close>

definition go_spaces :: "string list" where
  "go_spaces = map (map char_of)
     ([[9], [10], [11], [12], [13], [32::nat], [194, 133], [194, 160], [225, 154, 128]]
      @ map (\<lambda>i. [226, 128, 128 + i]) [0,1,2,3,4,5,6,7,8,9,10]
      @ [[226, 128, 168], [226, 128, 169], [226, 128, 175], [226, 129, 159], [227, 128, 128]])"

lemma go_spaces_nonempty: "sp \<in> set go_spaces \<Longrightarrow> sp \<noteq> []"
  by (auto simp: go_spaces_def)

function go_drop_any :: "string list \<Rightarrow> string \<Rightarrow> string" where
  "go_drop_any sps s =
     (case filter (\<lambda>sp. sp \<noteq> [] \<and> go_has_prefix s sp) sps of
        [] \<Rightarrow> s
      | sp # _ \<Rightarrow> go_drop_any sps (drop (length sp) s))"
  by pat_completeness auto
termination
proof (relation "measure (\<lambda>(sps, s). length s)")
  fix sps s sp rest
  assume "filter (\<lambda>sp. sp \<noteq> [] \<and> go_has_prefix s sp) sps = sp # rest"
  then have "sp \<in> set (filter (\<lambda>sp. sp \<noteq> [] \<and> go_has_prefix s sp) sps)" by simp
  then have "sp \<noteq> []" "go_has_prefix s sp" by auto
  then show "((sps, drop (length sp) s), (sps, s)) \<in> measure (\<lambda>(sps, s). length s)"
    by (cases sp; cases s) auto
qed auto

declare go_drop_any.simps [simp del]

definition go_trim_left_space :: "string \<Rightarrow> string" where
  "go_trim_left_space s = go_drop_any go_spaces s"

definition go_trim_right_space :: "string \<Rightarrow> string" where
  "go_trim_right_space s = rev (go_drop_any (map rev go_spaces) (rev s))"

definition go_trim_space :: "string \<Rightarrow> string" where
  "go_trim_space s = go_trim_right_space (go_trim_left_space s)"

lemma go_drop_any_stop:
  "\<forall>sp \<in> set sps. sp = [] \<or> \<not> go_has_prefix s sp \<Longrightarrow> go_drop_any sps s = s"
  by (subst go_drop_any.simps) (auto split: list.splits simp: filter_eq_Cons_iff)

text \<open>A string without blanks or bytes above 127 is its own trimming.\<close>

definition go_graphic :: "char \<Rightarrow> bool" where
  "go_graphic c \<longleftrightarrow> 32 < byte c \<and> byte c < 128"

lemma go_drop_any_graphic:
  assumes "s = [] \<or> go_graphic (hd s)"
    and "\<And>sp. sp \<in> set sps \<Longrightarrow> sp \<noteq> [] \<Longrightarrow> \<not> go_graphic (hd sp)"
  shows "go_drop_any sps s = s"
proof (rule go_drop_any_stop, rule ballI)
  fix sp assume sp: "sp \<in> set sps"
  show "sp = [] \<or> \<not> go_has_prefix s sp"
  proof (cases "sp = []")
    case False
    with assms(2) sp have "\<not> go_graphic (hd sp)" by blast
    with False assms(1) show ?thesis by (cases s; cases sp) auto
  qed simp
qed

lemma go_spaces_not_graphic:
  "sp \<in> set go_spaces \<Longrightarrow> \<not> go_graphic (hd sp) \<and> \<not> go_graphic (last sp)"
  by (auto simp: go_spaces_def go_graphic_def byte_def)

lemma go_trim_space_graphic:
  assumes "\<forall>c \<in> set s. go_graphic c"
  shows "go_trim_space s = s"
proof -
  have "go_drop_any go_spaces s = s"
  proof (rule go_drop_any_graphic)
    show "s = [] \<or> go_graphic (hd s)" using assms by (cases s) auto
    show "\<not> go_graphic (hd sp)" if "sp \<in> set go_spaces" "sp \<noteq> []" for sp
      using that go_spaces_not_graphic by blast
  qed
  moreover have "go_drop_any (map rev go_spaces) (rev s) = rev s"
  proof (rule go_drop_any_graphic)
    show "rev s = [] \<or> go_graphic (hd (rev s))"
      using assms by (cases s rule: rev_cases) auto
    show "\<not> go_graphic (hd sp)" if "sp \<in> set (map rev go_spaces)" "sp \<noteq> []" for sp
      using that go_spaces_not_graphic by (auto simp: hd_rev)
  qed
  ultimately show ?thesis
    by (simp add: go_trim_space_def go_trim_left_space_def go_trim_right_space_def)
qed


subsection \<open>Sorting (package sort)\<close>

text \<open>
  \<open>sort.Sort\<close> promises a permutation of its input in which no element is \<open>Less\<close> than an
  earlier one, provided \<open>Less\<close> is a strict weak order. \<open>go_sort\<close> is one such
  permutation. The locale \<open>sort_less\<close> states what \<open>sort.Interface\<close> asks of \<open>Less\<close>;
  \<open>sort_total\<close> adds that on a carrier only equal elements are incomparable, and then the
  result of every correct sorting algorithm is the one of \<open>go_sort\<close>.
\<close>

fun go_insort :: "('a \<Rightarrow> 'a \<Rightarrow> bool) \<Rightarrow> 'a \<Rightarrow> 'a list \<Rightarrow> 'a list" where
  "go_insort lt x [] = [x]"
| "go_insort lt x (y # ys) =
     (if lt y x then y # go_insort lt x ys else x # y # ys)"

fun go_sort :: "('a \<Rightarrow> 'a \<Rightarrow> bool) \<Rightarrow> 'a list \<Rightarrow> 'a list" where
  "go_sort lt [] = []"
| "go_sort lt (x # xs) = go_insort lt x (go_sort lt xs)"

text \<open>\<open>sort.IsSorted\<close> compares neighbours only.\<close>

fun go_is_sorted :: "('a \<Rightarrow> 'a \<Rightarrow> bool) \<Rightarrow> 'a list \<Rightarrow> bool" where
  "go_is_sorted lt [] = True"
| "go_is_sorted lt [x] = True"
| "go_is_sorted lt (x # y # ys) = (\<not> lt y x \<and> go_is_sorted lt (y # ys))"

lemma mset_go_insort [simp]: "mset (go_insort lt x xs) = add_mset x (mset xs)"
  by (induction xs) auto

lemma mset_go_sort [simp]: "mset (go_sort lt xs) = mset xs"
  by (induction xs) auto

lemma set_go_sort [simp]: "set (go_sort lt xs) = set xs"
  by (metis mset_go_sort set_mset_mset)

lemma length_go_sort [simp]: "length (go_sort lt xs) = length xs"
  by (metis mset_go_sort size_mset)

locale sort_less =
  fixes lt :: "'a \<Rightarrow> 'a \<Rightarrow> bool"
  assumes less_irrefl: "\<not> lt x x"
    and less_trans: "lt x y \<Longrightarrow> lt y z \<Longrightarrow> lt x z"
    and nless_trans: "\<not> lt x y \<Longrightarrow> \<not> lt y z \<Longrightarrow> \<not> lt x z"
begin

definition le :: "'a \<Rightarrow> 'a \<Rightarrow> bool" where
  "le x y = (\<not> lt y x)"

lemma less_asym: "lt x y \<Longrightarrow> \<not> lt y x"
  using less_trans less_irrefl by blast

lemma le_trans: "le x y \<Longrightarrow> le y z \<Longrightarrow> le x z"
  unfolding le_def using nless_trans by blast

lemma le_refl: "le x x"
  by (simp add: le_def less_irrefl)

lemma less_le_trans: "lt x y \<Longrightarrow> le y z \<Longrightarrow> lt x z"
  unfolding le_def using less_trans nless_trans by blast

lemma le_less_trans: "le x y \<Longrightarrow> lt y z \<Longrightarrow> lt x z"
  unfolding le_def using less_trans nless_trans by blast

lemma sorted_insort: "sorted_wrt le xs \<Longrightarrow> sorted_wrt le (go_insort lt x xs)"
proof (induction xs)
  case Nil
  then show ?case by simp
next
  case (Cons y ys)
  have "set (go_insort lt x ys) = insert x (set ys)"
    by (metis mset_go_insort set_mset_add_mset_insert set_mset_mset)
  with Cons show ?case
    by (auto simp: le_def dest: less_asym) (metis less_asym nless_trans)
qed

lemma sorted_sort: "sorted_wrt le (go_sort lt xs)"
  by (induction xs) (auto intro: sorted_insort)

lemma is_sorted_iff: "go_is_sorted lt xs \<longleftrightarrow> sorted_wrt le xs"
proof (induction xs)
  case Nil
  then show ?case by simp
next
  case (Cons x xs)
  then show ?case
    by (cases xs) (auto simp: le_def[symmetric] intro: le_trans)
qed

lemma is_sorted_sort: "go_is_sorted lt (go_sort lt xs)"
  by (simp add: is_sorted_iff sorted_sort)

lemma insort_le: "\<forall>y \<in> set ys. le x y \<Longrightarrow> go_insort lt x ys = x # ys"
  by (cases ys) (auto simp: le_def)

lemma sort_sorted: "sorted_wrt le xs \<Longrightarrow> go_sort lt xs = xs"
  by (induction xs) (auto simp: insort_le)

end

locale sort_total = sort_less lt for lt :: "'a \<Rightarrow> 'a \<Rightarrow> bool" +
  fixes carrier :: "'a set"
  assumes less_total: "x \<in> carrier \<Longrightarrow> y \<in> carrier \<Longrightarrow> lt x y \<or> x = y \<or> lt y x"
begin

lemma sorted_unique:
  "set xs \<subseteq> carrier \<Longrightarrow> mset xs = mset ys \<Longrightarrow> sorted_wrt le xs \<Longrightarrow> sorted_wrt le ys \<Longrightarrow> xs = ys"
proof (induction xs arbitrary: ys)
  case Nil
  then show ?case by simp
next
  case (Cons x xs)
  from Cons.prems(2) obtain y zs where ys: "ys = y # zs" by (cases ys) auto
  have sets: "set (x # xs) = set ys" using Cons.prems(2) mset_eq_setD by blast
  have yx: "y \<in> set (x # xs)" and xy: "x \<in> set ys" using sets by (auto simp: ys)
  have "le x y" using yx Cons.prems(3) by (auto simp: le_refl)
  moreover have "le y x" using xy Cons.prems(4) by (auto simp: ys le_refl)
  ultimately have "x = y"
    using less_total[of x y] Cons.prems(1) yx by (auto simp: le_def)
  with Cons ys show ?case by auto
qed

lemma sort_unique:
  "set xs \<subseteq> carrier \<Longrightarrow> mset ys = mset xs \<Longrightarrow> sorted_wrt le ys \<Longrightarrow> ys = go_sort lt xs"
  by (rule sorted_unique) (auto simp: sorted_sort dest: mset_eq_setD)

end

text \<open>\<open>sort.Strings\<close> compares byte by byte, which is the lexical order of lists of bytes.\<close>

definition string_less :: "string \<Rightarrow> string \<Rightarrow> bool" where
  "string_less a b = (a < b)"

interpretation strings: sort_total string_less UNIV
  by unfold_locales (auto simp: string_less_def)

definition sort_strings :: "string list \<Rightarrow> string list" where
  "sort_strings xs = go_sort string_less xs"

lemma sort_strings_sorted: "sorted (sort_strings xs)"
proof -
  have "strings.le = (\<le>)" by (intro ext) (auto simp: strings.le_def string_less_def)
  then show ?thesis using strings.sorted_sort[of xs] by (simp add: sort_strings_def)
qed

end
