(* ===== verification/Strconv.thy ===== *)
theory Strconv
  imports Prelude
begin

text \<open>
  Go's \<open>strconv\<close> as the program uses it: \<open>FormatUint(v, 10)\<close> and \<open>Itoa\<close>, \<open>ParseUint\<close>
  with base 0 (prefixes 0b, 0o, 0x and 0, underscores between digits) or 10, and
  \<open>ParseInt(s, 10, 64)\<close> with its alias \<open>Atoi\<close>. A parse returns the number or one of the
  two error kinds; the number Go returns beside an error is not used by the program.
\<close>

datatype strconv_error = ErrSyntax | ErrRange

subsection \<open>Printing\<close>

definition digit_char :: "nat \<Rightarrow> char" where
  "digit_char d = char_of (48 + d)"

fun go_digits :: "nat \<Rightarrow> string" where
  "go_digits n = (if n < 10 then [digit_char n] else go_digits (n div 10) @ [digit_char (n mod 10)])"

declare go_digits.simps [simp del]

definition go_itoa :: "int \<Rightarrow> string" where
  "go_itoa i = (if i < 0 then CHR ''-'' # go_digits (nat (- i)) else go_digits (nat i))"

subsection \<open>Parsing\<close>

definition lower :: "nat \<Rightarrow> nat" where
  "lower b = (if b div 32 mod 2 = 0 then b + 32 else b)" \<comment> \<open>\<open>c | 0x20\<close>\<close>

definition digit_val :: "char \<Rightarrow> nat option" where
  "digit_val c =
     (let b = byte c in
      if 48 \<le> b \<and> b \<le> 57 then Some (b - 48)
      else if 97 \<le> lower b \<and> lower b \<le> 122 then Some (lower b - 97 + 10)
      else None)"

fun go_parse_digits :: "nat \<Rightarrow> bool \<Rightarrow> nat \<Rightarrow> nat \<Rightarrow> string \<Rightarrow> strconv_error + nat" where
  "go_parse_digits base base0 maxv n [] = Inr n"
| "go_parse_digits base base0 maxv n (c # s) =
     (if c = CHR ''_'' \<and> base0 then go_parse_digits base base0 maxv n s
      else case digit_val c of
             None \<Rightarrow> Inl ErrSyntax
           | Some d \<Rightarrow>
               if base \<le> d then Inl ErrSyntax
               else if maxv < n * base + d then Inl ErrRange
               else go_parse_digits base base0 maxv (n * base + d) s)"

text \<open>
  \<open>underscoreOK\<close>: underscores must separate digits; a base prefix counts as a digit. The
  last class of character seen is a digit (\<open>0\<close>), an underscore, something else, or none.
\<close>

fun underscore_scan :: "bool \<Rightarrow> char \<Rightarrow> string \<Rightarrow> bool" where
  "underscore_scan hex saw [] = (saw \<noteq> CHR ''_'')"
| "underscore_scan hex saw (c # s) =
     (if 48 \<le> byte c \<and> byte c \<le> 57 \<or> hex \<and> 97 \<le> lower (byte c) \<and> lower (byte c) \<le> 102
      then underscore_scan hex CHR ''0'' s
      else if c = CHR ''_'' then saw = CHR ''0'' \<and> underscore_scan hex CHR ''_'' s
      else saw \<noteq> CHR ''_'' \<and> underscore_scan hex CHR ''!'' s)"

definition underscore_ok :: "string \<Rightarrow> bool" where
  "underscore_ok s0 =
     (let s = (case s0 of c # r \<Rightarrow> if c = CHR ''-'' \<or> c = CHR ''+'' then r else s0 | [] \<Rightarrow> s0)
      in case s of
           c # d # r \<Rightarrow>
             if c = CHR ''0'' \<and> lower (byte d) \<in> {98, 111, 120}
             then underscore_scan (lower (byte d) = 120) CHR ''0'' r
             else underscore_scan False CHR ''^'' s
         | _ \<Rightarrow> underscore_scan False CHR ''^'' s)"

definition go_parse_uint :: "nat \<Rightarrow> string \<Rightarrow> strconv_error + nat" where
  "go_parse_uint base0 s0 =
     (if s0 = [] then Inl ErrSyntax
      else let (base, s) =
          (if base0 \<noteq> 0 then (base0, s0)
           else if hd s0 \<noteq> CHR ''0'' then (10, s0)
           else if 3 \<le> length s0 \<and> lower (byte (s0 ! 1)) = 98 then (2, drop 2 s0)
           else if 3 \<le> length s0 \<and> lower (byte (s0 ! 1)) = 111 then (8, drop 2 s0)
           else if 3 \<le> length s0 \<and> lower (byte (s0 ! 1)) = 120 then (16, drop 2 s0)
           else (8, drop 1 s0))
        in case go_parse_digits base (base0 = 0) (2 ^ 64 - 1) 0 s of
             Inl e \<Rightarrow> Inl e
           | Inr n \<Rightarrow>
               if base0 = 0 \<and> CHR ''_'' \<in> set s \<and> \<not> underscore_ok s0 then Inl ErrSyntax
               else Inr n)"

definition go_parse_int10 :: "string \<Rightarrow> strconv_error + int" where
  "go_parse_int10 s =
     (if s = [] then Inl ErrSyntax
      else let neg = (hd s = CHR ''-'');
               u = (if hd s = CHR ''+'' \<or> neg then tl s else s)
        in case go_parse_uint 10 u of
             Inl ErrSyntax \<Rightarrow> Inl ErrSyntax
           | Inl ErrRange \<Rightarrow> Inl ErrRange
           | Inr un \<Rightarrow>
               if \<not> neg \<and> 2 ^ 63 \<le> un then Inl ErrRange
               else if neg \<and> 2 ^ 63 < un then Inl ErrRange
               else Inr (if neg then - int un else int un))"

subsection \<open>Printing and parsing agree\<close>

lemma byte_digit_char [simp]: "d < 10 \<Longrightarrow> byte (digit_char d) = 48 + d"
  by (simp add: digit_char_def byte_char_of)

lemma digit_val_char [simp]: "d < 10 \<Longrightarrow> digit_val (digit_char d) = Some d"
  by (simp add: digit_val_def Let_def)

lemma digit_char_eq: "d < 10 \<Longrightarrow> digit_char d = c \<longleftrightarrow> 48 + d = byte c"
  by (metis byte_digit_char byte_inject)

lemma digit_char_neq [simp]:
  "d < 10 \<Longrightarrow> digit_char d \<noteq> CHR ''_''" "d < 10 \<Longrightarrow> digit_char d \<noteq> CHR ''-''"
  "d < 10 \<Longrightarrow> digit_char d \<noteq> CHR ''+''" "d < 10 \<Longrightarrow> digit_char d \<noteq> CHR ''.''"
  by (simp_all add: digit_char_eq, simp_all add: byte_def)

lemma digit_char_zero: "d < 10 \<Longrightarrow> digit_char d = CHR ''0'' \<longleftrightarrow> d = 0"
  by (simp add: digit_char_eq, simp add: byte_def)

lemma go_digits_nonempty [simp]: "go_digits n \<noteq> []"
  by (subst go_digits.simps) simp

lemma go_digits_chars: "c \<in> set (go_digits n) \<Longrightarrow> \<exists>d < 10. c = digit_char d"
proof (induction n rule: go_digits.induct)
  case (1 n)
  have "n mod 10 < 10" by simp
  then have "\<exists>d < 10. digit_char (n mod 10) = digit_char d" by blast
  with 1 show ?case
    by (cases "n < 10") (auto simp: go_digits.simps[of n])
qed

lemma digit_char_graphic: "d < 10 \<Longrightarrow> go_graphic (digit_char d)"
  by (simp add: go_graphic_def digit_char_def byte_char_of)

lemma go_digits_graphic: "c \<in> set (go_digits n) \<Longrightarrow> go_graphic c"
  by (auto dest!: go_digits_chars intro: digit_char_graphic)

lemma hd_go_digits: "0 < n \<Longrightarrow> hd (go_digits n) \<noteq> CHR ''0''"
proof (induction n rule: go_digits.induct)
  case (1 n)
  then show ?case
    by (cases "n < 10") (auto simp: go_digits.simps[of n] digit_char_zero hd_append)
qed

lemma go_parse_digits_append:
  "go_parse_digits b z m n (s @ r) =
     (case go_parse_digits b z m n s of Inl e \<Rightarrow> Inl e | Inr k \<Rightarrow> go_parse_digits b z m k r)"
  by (induction b z m n s rule: go_parse_digits.induct) (auto split: option.splits)

lemma go_parse_digits_go_digits:
  "n \<le> m \<Longrightarrow> go_parse_digits 10 z m 0 (go_digits n) = Inr n"
proof (induction n rule: go_digits.induct)
  case (1 n)
  show ?case
  proof (cases "n < 10")
    case True
    with "1.prems" show ?thesis by (simp add: go_digits.simps[of n])
  next
    case False
    have "n div 10 * 10 + n mod 10 = n" by simp
    with False "1.IH" "1.prems" show ?thesis
      by (simp add: go_digits.simps[of n] go_parse_digits_append)
  qed
qed

lemma hd_go_digits_notin:
  "hd (go_digits n) \<noteq> CHR ''-''" "hd (go_digits n) \<noteq> CHR ''+''"
  using go_digits_chars[OF hd_in_set, of n] digit_char_neq by fastforce+

lemma underscore_notin_digits: "CHR ''_'' \<notin> set (go_digits n)"
    and point_notin_digits: "CHR ''.'' \<notin> set (go_digits n)"
  by (auto dest!: go_digits_chars dest: sym)

lemma go_parse_uint_go_digits:
  assumes "n < 2 ^ 64" "b = 0 \<or> b = 10"
  shows "go_parse_uint b (go_digits n) = Inr n"
proof (cases "b = 0 \<and> n = 0")
  case True
  then show ?thesis by (simp add: go_parse_uint_def go_digits.simps[of 0] digit_char_zero)
next
  case False
  have "go_parse_digits 10 z (2 ^ 64 - 1) 0 (go_digits n) = Inr n" for z
    by (rule go_parse_digits_go_digits) (use assms in simp)
  with False assms show ?thesis
    by (auto simp: go_parse_uint_def Let_def hd_go_digits underscore_notin_digits)
qed

lemma go_parse_int10_itoa:
  assumes "- (2 ^ 63) \<le> i" "i < 2 ^ 63"
  shows "go_parse_int10 (go_itoa i) = Inr i"
proof (cases "i < 0")
  case True
  then have "go_parse_uint 10 (go_digits (nat (- i))) = Inr (nat (- i))"
    by (intro go_parse_uint_go_digits) (use assms in auto)
  with True assms show ?thesis by (simp add: go_parse_int10_def go_itoa_def)
next
  case False
  then have "go_parse_uint 10 (go_digits (nat i)) = Inr (nat i)"
    by (intro go_parse_uint_go_digits) (use assms in auto)
  with False assms show ?thesis
    by (simp add: go_parse_int10_def go_itoa_def hd_go_digits_notin Let_def)
qed

end
