(* ===== verification/Utf8.thy ===== *)
theory Utf8
  imports Prelude
begin

text \<open>
  Package \<open>unicode/utf8\<close> and the conversion \<open>string(r)\<close> of a rune, as the lexer uses them.
  A rune is a natural number. An invalid encoding decodes to U+FFFD with width 1, and a
  rune that is not a Unicode scalar value encodes as U+FFFD.
\<close>

type_synonym rune = nat

definition rune_error :: rune where
  "rune_error = 65533"

definition cont_byte :: "nat \<Rightarrow> bool" where
  "cont_byte b \<longleftrightarrow> 128 \<le> b \<and> b \<le> 191"

text \<open>The second byte of a three or four byte sequence has a range that depends on the first.\<close>

definition second_ok :: "nat \<Rightarrow> nat \<Rightarrow> bool" where
  "second_ok b0 b1 \<longleftrightarrow>
     (if b0 = 224 then 160 \<le> b1 \<and> b1 \<le> 191
      else if b0 = 237 then 128 \<le> b1 \<and> b1 \<le> 159
      else if b0 = 240 then 144 \<le> b1 \<and> b1 \<le> 191
      else if b0 = 244 then 128 \<le> b1 \<and> b1 \<le> 143
      else cont_byte b1)"

fun decode2 :: "nat \<Rightarrow> nat list \<Rightarrow> rune \<times> nat" where
  "decode2 b0 (b1 # bs) =
     (if cont_byte b1 then ((b0 - 192) * 64 + (b1 - 128), 2) else (rune_error, 1))"
| "decode2 b0 bs = (rune_error, 1)"

fun decode3 :: "nat \<Rightarrow> nat list \<Rightarrow> rune \<times> nat" where
  "decode3 b0 (b1 # b2 # bs) =
     (if second_ok b0 b1 \<and> cont_byte b2
      then ((b0 - 224) * 4096 + (b1 - 128) * 64 + (b2 - 128), 3) else (rune_error, 1))"
| "decode3 b0 bs = (rune_error, 1)"

fun decode4 :: "nat \<Rightarrow> nat list \<Rightarrow> rune \<times> nat" where
  "decode4 b0 (b1 # b2 # b3 # bs) =
     (if second_ok b0 b1 \<and> cont_byte b2 \<and> cont_byte b3
      then ((b0 - 240) * 262144 + (b1 - 128) * 4096 + (b2 - 128) * 64 + (b3 - 128), 4)
      else (rune_error, 1))"
| "decode4 b0 bs = (rune_error, 1)"

fun decode_bytes :: "nat list \<Rightarrow> rune \<times> nat" where
  "decode_bytes [] = (rune_error, 0)"
| "decode_bytes (b0 # bs) =
     (if b0 < 128 then (b0, 1)
      else if 194 \<le> b0 \<and> b0 \<le> 223 then decode2 b0 bs
      else if 224 \<le> b0 \<and> b0 \<le> 239 then decode3 b0 bs
      else if 240 \<le> b0 \<and> b0 \<le> 244 then decode4 b0 bs
      else (rune_error, 1))"

definition decode_rune :: "string \<Rightarrow> rune \<times> nat" where
  "decode_rune s = decode_bytes (map byte (take 4 s))"

definition valid_rune :: "rune \<Rightarrow> bool" where
  "valid_rune r \<longleftrightarrow> r < 55296 \<or> 57343 < r \<and> r \<le> 1114111"

definition encode_bytes :: "rune \<Rightarrow> nat list" where
  "encode_bytes r0 =
     (let r = (if valid_rune r0 then r0 else rune_error) in
      if r < 128 then [r]
      else if r < 2048 then [192 + r div 64, 128 + r mod 64]
      else if r < 65536 then [224 + r div 4096, 128 + r div 64 mod 64, 128 + r mod 64]
      else [240 + r div 262144, 128 + r div 4096 mod 64, 128 + r div 64 mod 64, 128 + r mod 64])"

definition string_of_rune :: "rune \<Rightarrow> string" where
  "string_of_rune r = map char_of (encode_bytes r)"

text \<open>\<open>utf8.RuneCountInString\<close>: an invalid byte counts as one rune.\<close>

function rune_count :: "string \<Rightarrow> nat" where
  "rune_count s = (if s = [] then 0 else Suc (rune_count (drop (max 1 (snd (decode_rune s))) s)))"
  by pat_completeness auto
termination
  by (relation "measure length") auto

declare rune_count.simps [simp del]

subsection \<open>Widths\<close>

lemma decode2_width: "1 \<le> snd (decode2 b0 bs) \<and> snd (decode2 b0 bs) \<le> Suc (length bs)"
  by (cases bs) auto

lemma decode3_width: "1 \<le> snd (decode3 b0 bs) \<and> snd (decode3 b0 bs) \<le> Suc (length bs)"
  by (cases "(b0, bs)" rule: decode3.cases) auto

lemma decode4_width: "1 \<le> snd (decode4 b0 bs) \<and> snd (decode4 b0 bs) \<le> Suc (length bs)"
  by (cases "(b0, bs)" rule: decode4.cases) auto

lemma decode_bytes_width:
  "bs \<noteq> [] \<Longrightarrow> 1 \<le> snd (decode_bytes bs) \<and> snd (decode_bytes bs) \<le> length bs"
  by (cases bs) (simp_all add: decode2_width decode3_width decode4_width del: One_nat_def)

lemma decode_rune_width:
  assumes "s \<noteq> []"
  shows "1 \<le> snd (decode_rune s)" and "snd (decode_rune s) \<le> length s"
  using decode_bytes_width[of "map byte (take 4 s)"] assms
  by (auto simp: decode_rune_def)

lemma second_ok_range: "second_ok b0 b1 \<Longrightarrow> 128 \<le> b1 \<and> b1 \<le> 191"
  by (simp add: second_ok_def cont_byte_def split: if_splits)

lemma cont_byte_range: "cont_byte b \<Longrightarrow> 128 \<le> b \<and> b \<le> 191"
  by (simp add: cont_byte_def)

lemma sub_128: "128 \<le> b \<and> b \<le> 191 \<Longrightarrow> b - 128 < (64::nat)"
  by arith

lemma decode2_range:
  assumes "194 \<le> b0" "b0 \<le> 223"
  shows "fst (decode2 b0 bs) < 2097152 \<and> 128 \<le> fst (decode2 b0 bs)"
proof (cases "\<exists>b1 r. bs = b1 # r \<and> cont_byte b1")
  case True
  then obtain b1 r where b: "bs = b1 # r" "cont_byte b1" by blast
  with assms show ?thesis using sub_128[OF cont_byte_range[OF b(2)]] by (simp; linarith)
next
  case False
  then show ?thesis by (cases bs) (auto simp: rune_error_def)
qed

lemma decode3_range:
  assumes "224 \<le> b0" "b0 \<le> 239"
  shows "fst (decode3 b0 bs) < 2097152 \<and> 128 \<le> fst (decode3 b0 bs)"
proof (cases "\<exists>b1 b2 r. bs = b1 # b2 # r \<and> second_ok b0 b1 \<and> cont_byte b2")
  case True
  then obtain b1 b2 r where b: "bs = b1 # b2 # r" "second_ok b0 b1" "cont_byte b2" by blast
  have "b1 - 128 < 64" "b2 - 128 < 64"
    using b(2,3) sub_128 second_ok_range cont_byte_range by blast+
  moreover have "32 \<le> b1 - 128" if "b0 = 224" using b(2) that by (simp add: second_ok_def, arith)
  moreover have "b0 - 224 < 16" using assms by simp
  ultimately show ?thesis using b assms by (cases "b0 = 224") (simp; linarith)+
next
  case False
  then show ?thesis by (cases "(b0, bs)" rule: decode3.cases) (auto simp: rune_error_def)
qed

lemma decode4_range:
  assumes "240 \<le> b0" "b0 \<le> 244"
  shows "fst (decode4 b0 bs) < 2097152 \<and> 128 \<le> fst (decode4 b0 bs)"
proof (cases "\<exists>b1 b2 b3 r. bs = b1 # b2 # b3 # r \<and> second_ok b0 b1 \<and> cont_byte b2 \<and> cont_byte b3")
  case True
  then obtain b1 b2 b3 r where b: "bs = b1 # b2 # b3 # r" "second_ok b0 b1" "cont_byte b2" "cont_byte b3"
    by blast
  have "b1 - 128 < 64" "b2 - 128 < 64" "b3 - 128 < 64"
    using b(2-4) sub_128 second_ok_range cont_byte_range by blast+
  moreover have "16 \<le> b1 - 128" if "b0 = 240" using b(2) that by (simp add: second_ok_def, arith)
  moreover have "b0 - 240 < 5" using assms by simp
  ultimately show ?thesis using b assms by (cases "b0 = 240") (simp; linarith)+
next
  case False
  then show ?thesis by (cases "(b0, bs)" rule: decode4.cases) (auto simp: rune_error_def)
qed

lemma decode_bytes_bound: "fst (decode_bytes bs) < 2097152"
  by (cases bs) (simp_all add: decode2_range decode3_range decode4_range rune_error_def)

lemma decode_rune_bound: "fst (decode_rune s) < 2097152"
  by (simp add: decode_rune_def decode_bytes_bound)

text \<open>One ASCII byte decodes to itself; no longer encoding decodes to an ASCII rune.\<close>

lemma decode_rune_ascii: "byte c < 128 \<Longrightarrow> decode_rune (c # s) = (byte c, 1)"
  by (simp add: decode_rune_def)

lemma decode_bytes_high: "128 \<le> b \<Longrightarrow> 128 \<le> fst (decode_bytes (b # bs))"
  by (simp add: decode2_range decode3_range decode4_range rune_error_def)

lemma decode_rune_high: "128 \<le> byte c \<Longrightarrow> 128 \<le> fst (decode_rune (c # s))"
  by (simp only: decode_rune_def take_Cons' list.map) (simp add: decode_bytes_high del: decode_bytes.simps)

lemma decode_rune_ascii_iff:
  "n < 128 \<Longrightarrow> fst (decode_rune (c # s)) = n \<longleftrightarrow> byte c = n"
  by (cases "byte c < 128") (use decode_rune_high[of c s] in \<open>auto simp: decode_rune_ascii\<close>)

subsection \<open>Encoding and decoding\<close>

lemma string_of_rune_ascii: "r < 128 \<Longrightarrow> string_of_rune r = [char_of r]"
  by (simp add: string_of_rune_def encode_bytes_def valid_rune_def Let_def)

lemma div_64_4096: "r div 4096 = r div 64 div 64" for r :: nat
  by (simp add: div_mult2_eq[symmetric])

lemma div_64_262144: "r div 262144 = r div 64 div 64 div 64" for r :: nat
  by (simp add: div_mult2_eq[symmetric])

lemma digits64:
  fixes r :: nat
  shows "r div 64 div 64 * 4096 + r div 64 mod 64 * 64 + r mod 64 = r" (is ?three)
    and "r div 64 div 64 div 64 * 262144 + r div 64 div 64 mod 64 * 4096
         + r div 64 mod 64 * 64 + r mod 64 = r" (is ?four)
    and "r mod 64 < 64" "r div 64 mod 64 < 64" "r div 64 div 64 mod 64 < 64"
proof -
  have 1: "r div 64 * 64 + r mod 64 = r"
    and 2: "r div 64 div 64 * 64 + r div 64 mod 64 = r div 64"
    and 3: "r div 64 div 64 div 64 * 64 + r div 64 div 64 mod 64 = r div 64 div 64"
    by (rule div_mult_mod_eq)+
  from 1 2 show ?three by linarith
  from 1 2 3 show ?four by linarith
qed simp_all

lemma decode_encode_bytes:
  assumes "valid_rune r"
  shows "decode_bytes (encode_bytes r @ bs) = (r, length (encode_bytes r))"
proof -
  note d = digits64[of r]
  consider "r < 128" | "128 \<le> r" "r < 2048" | "2048 \<le> r" "r < 65536" | "65536 \<le> r" by linarith
  then show ?thesis
  proof cases
    case 1
    then show ?thesis using assms by (simp add: encode_bytes_def)
  next
    case 2
    then have "2 \<le> r div 64" "r div 64 < 32" by auto
    with 2 assms show ?thesis by (simp add: encode_bytes_def cont_byte_def)
  next
    case 3
    define q where "q = r div 64 div 64"
    define m where "m = r div 64 mod 64"
    define k where "k = r mod 64"
    have rk: "q * 4096 + m * 64 + k = r" "m < 64" "k < 64" using d by (simp_all add: q_def m_def k_def)
    have "q < 16" and "q = 0 \<Longrightarrow> 32 \<le> m" and "q = 13 \<Longrightarrow> m \<le> 31"
      using 3 rk assms unfolding valid_rune_def by linarith+
    then have "decode_bytes ([224 + q, 128 + m, 128 + k] @ bs) = (q * 4096 + m * 64 + k, 3)"
      using rk by (simp add: cont_byte_def second_ok_def)
    moreover have "encode_bytes r = [224 + q, 128 + m, 128 + k]"
      using 3 assms by (simp add: encode_bytes_def div_64_4096 q_def m_def k_def)
    ultimately show ?thesis using rk by simp
  next
    case 4
    define p where "p = r div 64 div 64 div 64"
    define q where "q = r div 64 div 64 mod 64"
    define m where "m = r div 64 mod 64"
    define k where "k = r mod 64"
    have rk: "p * 262144 + q * 4096 + m * 64 + k = r" "q < 64" "m < 64" "k < 64"
      using d by (simp_all add: p_def q_def m_def k_def)
    have "p \<le> 4" and "p = 0 \<Longrightarrow> 16 \<le> q" and "p = 4 \<Longrightarrow> q \<le> 15"
      using 4 rk assms unfolding valid_rune_def by linarith+
    then have "decode_bytes ([240 + p, 128 + q, 128 + m, 128 + k] @ bs)
        = (p * 262144 + q * 4096 + m * 64 + k, 4)"
      using rk by (simp add: cont_byte_def second_ok_def)
    moreover have "encode_bytes r = [240 + p, 128 + q, 128 + m, 128 + k]"
      using 4 assms by (simp add: encode_bytes_def div_64_4096 div_64_262144 p_def q_def m_def k_def)
    ultimately show ?thesis using rk by simp
  qed
qed

lemma encode_bytes_byte: "b \<in> set (encode_bytes r) \<Longrightarrow> b < 256"
proof -
  have mods: "k mod 64 < 64" for k :: nat by simp
  have "k div 262144 < 16" if "valid_rune k" for k
    by (rule less_mult_imp_div_less) (use that in \<open>auto simp: valid_rune_def\<close>)
  moreover have "k div 4096 < 16" if "k < 65536" for k :: nat
    using that by (simp add: less_mult_imp_div_less)
  moreover have "k div 64 < 32" if "k < 2048" for k :: nat
    using that by (simp add: less_mult_imp_div_less)
  moreover assume "b \<in> set (encode_bytes r)"
  ultimately show ?thesis
    using mods[of r] mods[of "r div 64"] mods[of "r div 4096"]
    by (auto simp: encode_bytes_def rune_error_def Let_def split: if_splits; fastforce)
qed

lemma length_encode_bytes: "length (encode_bytes r) \<le> 4"
  by (simp add: encode_bytes_def Let_def)

text \<open>What \<open>string(r)\<close> writes, \<open>DecodeRuneInString\<close> reads back.\<close>

lemma decode_string_of_rune:
  assumes "valid_rune r"
  shows "decode_rune (string_of_rune r @ s) = (r, length (string_of_rune r))"
proof -
  have "map byte (string_of_rune r) = encode_bytes r"
    using encode_bytes_byte by (simp add: string_of_rune_def byte_char_of cong: map_cong)
  moreover have "take 4 (string_of_rune r @ s) = string_of_rune r @ take (4 - length (string_of_rune r)) s"
    using length_encode_bytes[of r] by (simp add: string_of_rune_def)
  ultimately show ?thesis
    using decode_encode_bytes[OF assms] by (simp add: decode_rune_def string_of_rune_def)
qed

end
