(* ===== verification/Numbers.thy ===== *)
theory Numbers
  imports Complex_Main Prelude Strconv
begin

text \<open>
  The numbers of \<open>pkg/yang/types_builtin.go\<close>: \<open>Number\<close> with its 64-bit absolute value,
  the comparison \<open>Less\<close>, the step \<open>addQuantum\<close>, conversion to int64, and parsing of
  integers and decimals. \<open>num_val\<close> gives the rational number a \<open>Number\<close> stands for;
  the lemmas show that \<open>Less\<close> is the order of the rationals on canonical numbers, that it
  is a strict weak order on all of them, and that printing and parsing agree.
\<close>

record number =
  Value :: "64 word"
  FractionDigits :: "8 word"
  Negative :: bool

text \<open>The error values of the package's number functions.\<close>

datatype number_error =
    EmptyNumber                  \<comment> \<open>converting empty string to number\<close>
  | SignOnly                     \<comment> \<open>sign with no value\<close>
  | BadUint strconv_error        \<comment> \<open>the error of \<open>strconv.ParseUint\<close>\<close>
  | BadFractionDigits "8 word"   \<comment> \<open>invalid number of fraction digits\<close>
  | TooPrecise string            \<comment> \<open>too much precision\<close>
  | NotDecimal string strconv_error \<comment> \<open>not a valid decimal number\<close>
  | IntOnDecimal                 \<comment> \<open>called Int() on decimal64 value\<close>
  | IntOverflow                  \<comment> \<open>signed integer overflow\<close>

definition MaxInt64 :: int where "MaxInt64 = 2 ^ 63 - 1"
definition MinInt64 :: int where "MinInt64 = - (2 ^ 63)"
definition AbsMinInt64 :: int where "AbsMinInt64 = 2 ^ 63"
definition MaxEnum :: int where "MaxEnum = 2 ^ 31 - 1"
definition MinEnum :: int where "MinEnum = - (2 ^ 31)"
definition MaxBitfieldSize :: int where "MaxBitfieldSize = 2 ^ 32"
definition MaxFractionDigits :: "8 word" where "MaxFractionDigits = 18"
definition space18 :: string where "space18 = replicate 18 CHR ''0''"

definition mk_number :: "64 word \<Rightarrow> 8 word \<Rightarrow> bool \<Rightarrow> number" where
  "mk_number v f neg = \<lparr>Value = v, FractionDigits = f, Negative = neg\<rparr>"

lemma mk_number_sel [simp]:
  "Value (mk_number v f neg) = v" "FractionDigits (mk_number v f neg) = f"
  "Negative (mk_number v f neg) = neg"
  by (simp_all add: mk_number_def)

subsection \<open>Operations\<close>

definition IsDecimal :: "number \<Rightarrow> bool" where
  "IsDecimal n \<longleftrightarrow> FractionDigits n \<noteq> 0"

fun pow10_loop :: "nat \<Rightarrow> 64 word \<Rightarrow> 64 word" where
  "pow10_loop 0 out = out"
| "pow10_loop (Suc k) out = pow10_loop k (out * 10)"

definition pow10 :: "8 word \<Rightarrow> 64 word" where
  "pow10 e = pow10_loop (unat e) 1"

definition Trunc :: "number \<Rightarrow> 64 word" where
  "Trunc n = Value n div pow10 (FractionDigits n)"

definition frac :: "number \<Rightarrow> 64 word" where
  "frac n =
     (let fd = FractionDigits n; i = Trunc n * pow10 fd
      in (Value n - i) * pow10 (18 - fd))"

definition Less :: "number \<Rightarrow> number \<Rightarrow> bool" where
  "Less n m =
     (if Negative n \<and> \<not> Negative m then True
      else if \<not> Negative n \<and> Negative m then False
      else let nt = Trunc n; mt = Trunc m; nf = frac n; mf = frac m
        in if nt = mt \<and> nf = mf then False
           else let lt = (if nt = mt then nf < mf else nt < mt)
             in if Negative n then \<not> lt else lt)"

definition Equal :: "number \<Rightarrow> number \<Rightarrow> bool" where
  "Equal n m \<longleftrightarrow> \<not> Less n m \<and> \<not> Less m n"

definition addQuantum :: "number \<Rightarrow> 64 word \<Rightarrow> number" where
  "addQuantum n i =
     (if Negative n then
        (if Value n \<le> i then n\<lparr>Value := i - Value n, Negative := False\<rparr>
         else n\<lparr>Value := Value n - i\<rparr>)
      else n\<lparr>Value := Value n + i\<rparr>)"

text \<open>\<open>Int\<close>: the int64 result is given as an integer; \<open>-int64(v)\<close> wraps.\<close>

definition Number_Int :: "number \<Rightarrow> number_error + int" where
  "Number_Int n =
     (if IsDecimal n then Inl IntOnDecimal
      else if Negative n then Inr (sint (- Value n))
      else if uint (Value n) \<le> MaxInt64 then Inr (sint (Value n))
      else Inl IntOverflow)"

text \<open>
  \<open>String\<close>. The code's \<open>ofd := len(out) - fd\<close> is at most zero iff \<open>length out \<le> fd\<close>, and then
  \<open>-ofd+1\<close> zeros are put in front; \<open>None\<close> is the slice bounds panic of
  \<open>space18[:-ofd+1]\<close>, which needs more than 18 fraction digits.
\<close>

definition number_string :: "number \<Rightarrow> string option" where
  "number_string n =
     (let out = go_digits (unat (Value n)); sign = (if Negative n then ''-'' else [])
      in if \<not> IsDecimal n then Some (sign @ out)
         else let fd = unat (FractionDigits n)
           in if length out \<le> fd then
                (if 18 < fd - length out + 1 then None
                 else let out' = take (fd - length out + 1) space18 @ out
                   in Some (sign @ take 1 out' @ ''.'' @ drop 1 out'))
              else Some (sign @ take (length out - fd) out @ ''.'' @ drop (length out - fd) out))"

definition FromInt :: "int \<Rightarrow> number" where
  "FromInt i = (if i < 0 then mk_number (of_int (- i)) 0 True else mk_number (of_int i) 0 False)"

definition FromUint :: "64 word \<Rightarrow> number" where
  "FromUint i = mk_number i 0 False"

definition ParseInt :: "string \<Rightarrow> number_error + number" where
  "ParseInt s0 =
     (let s = go_trim_space s0
      in if s = [] then Inl EmptyNumber
         else if s = ''+'' \<or> s = ''-'' then Inl SignOnly
         else let ns = (if hd s = CHR ''+'' \<or> hd s = CHR ''-'' then tl s else s)
           in case go_parse_uint 0 ns of
                Inl e \<Rightarrow> Inl (BadUint e)
              | Inr v \<Rightarrow> Inr (mk_number (of_nat v) 0 (hd s = CHR ''-'')))"

definition decimalValueFromString :: "string \<Rightarrow> 8 word \<Rightarrow> number_error + number" where
  "decimalValueFromString numStr fdr =
     (if MaxFractionDigits < fdr \<or> fdr < 1 then Inl (BadFractionDigits fdr)
      else let (fracDig, s) =
          (case go_index numStr ''.'' of
             None \<Rightarrow> (0 :: 8 word, numStr)
           | Some dx \<Rightarrow> (of_nat (length numStr - 1 - dx), take dx numStr @ drop (dx + 1) numStr))
        in if fdr < fracDig then Inl (TooPrecise s)
           else case go_parse_int10 (s @ take (unat (fdr - fracDig)) space18) of
                  Inl e \<Rightarrow> Inl (NotDecimal numStr e)
                | Inr v \<Rightarrow> Inr (mk_number (of_int \<bar>v\<bar>) fdr (v < 0)))"

definition ParseDecimal :: "string \<Rightarrow> 8 word \<Rightarrow> number_error + number" where
  "ParseDecimal s0 fdr =
     (let s = go_trim_space s0
      in if s = [] then Inl EmptyNumber
         else if s = ''+'' \<or> s = ''-'' then Inl SignOnly
         else decimalValueFromString s fdr)"

subsection \<open>The value of a number\<close>

definition num_int :: "number \<Rightarrow> int" where
  "num_int n = (if Negative n then - int (unat (Value n)) else int (unat (Value n)))"

definition num_val :: "number \<Rightarrow> rat" where
  "num_val n = of_int (num_int n) / 10 ^ unat (FractionDigits n)"

text \<open>A number is canonical if it has at most 18 fraction digits and is not minus zero.\<close>

definition canonical :: "number \<Rightarrow> bool" where
  "canonical n \<longleftrightarrow> unat (FractionDigits n) \<le> 18 \<and> (Negative n \<longrightarrow> Value n \<noteq> 0)"

lemma pow10_loop_eq: "pow10_loop k out = out * 10 ^ k"
  by (induction k arbitrary: out) (simp_all add: algebra_simps)

lemma pow10_eq: "pow10 e = 10 ^ unat e"
  by (simp add: pow10_def pow10_loop_eq)

lemma ten_pow_bound: "k \<le> 18 \<Longrightarrow> (10::nat) ^ k < 2 ^ 64"
proof -
  assume "k \<le> 18"
  then have "(10::nat) ^ k \<le> 10 ^ 18" by (intro power_increasing) auto
  then show ?thesis by simp
qed

lemma unat_less64: "unat (w :: 64 word) < 2 ^ 64"
  using unsigned_less[of w] by simp

lemma unat_pow10: "unat e \<le> 18 \<Longrightarrow> unat (pow10 e) = 10 ^ unat e"
proof -
  assume "unat e \<le> 18"
  then have "(10::nat) ^ unat e < 2 ^ 64" by (rule ten_pow_bound)
  moreover have "pow10 e = of_nat (10 ^ unat e)" by (simp add: pow10_eq)
  ultimately show ?thesis by (simp only: unat_of_nat) simp
qed

lemma unat_Trunc:
  "unat (FractionDigits n) \<le> 18 \<Longrightarrow> unat (Trunc n) = unat (Value n) div 10 ^ unat (FractionDigits n)"
  by (simp add: Trunc_def unat_div unat_pow10)

lemma unat_18_minus: "unat (f :: 8 word) \<le> 18 \<Longrightarrow> unat (18 - f) = 18 - unat f"
  by (simp add: unat_sub word_le_nat_alt)

lemma unat_frac:
  assumes "unat (FractionDigits n) \<le> 18"
  shows "unat (frac n) = (unat (Value n) mod 10 ^ unat (FractionDigits n)) * 10 ^ (18 - unat (FractionDigits n))"
    and "unat (frac n) < 10 ^ 18"
proof -
  let ?f = "unat (FractionDigits n)" let ?v = "unat (Value n)"
  have le: "?v div 10 ^ ?f * 10 ^ ?f \<le> ?v" by simp
  have i: "unat (Trunc n * pow10 (FractionDigits n)) = ?v div 10 ^ ?f * 10 ^ ?f"
    using order_le_less_trans[OF le unat_less64] assms
    by (simp add: unat_word_ariths unat_Trunc unat_pow10)
  then have d: "unat (Value n - Trunc n * pow10 (FractionDigits n)) = ?v mod 10 ^ ?f"
    using le by (simp add: unat_sub word_le_nat_alt minus_div_mult_eq_mod)
  have p: "(10::nat) ^ ?f * 10 ^ (18 - ?f) = 10 ^ 18"
    using assms by (simp add: power_add[symmetric])
  have "?v mod 10 ^ ?f * 10 ^ (18 - ?f) < 10 ^ ?f * 10 ^ (18 - ?f)"
    by (simp add: mult_strict_right_mono)
  then have b: "?v mod 10 ^ ?f * 10 ^ (18 - ?f) < 10 ^ 18" by (simp only: p)
  moreover have "(10::nat) ^ 18 < 2 ^ 64" by simp
  ultimately have "?v mod 10 ^ ?f * 10 ^ (18 - ?f) < 2 ^ 64" by linarith
  with assms show e: "unat (frac n) = ?v mod 10 ^ ?f * 10 ^ (18 - ?f)"
    by (simp add: frac_def Let_def unat_word_ariths d unat_pow10 unat_18_minus)
  show "unat (frac n) < 10 ^ 18" using b by (simp only: e)
qed

text \<open>The absolute value in units of the eighteenth fraction digit.\<close>

definition scaled :: "number \<Rightarrow> nat" where
  "scaled n = unat (Value n) * 10 ^ (18 - unat (FractionDigits n))"

lemma scaled_eq:
  assumes "unat (FractionDigits n) \<le> 18"
  shows "scaled n = unat (Trunc n) * 10 ^ 18 + unat (frac n)"
proof -
  let ?f = "unat (FractionDigits n)" let ?v = "unat (Value n)"
  have p: "(10::nat) ^ 18 = 10 ^ ?f * 10 ^ (18 - ?f)"
    using assms by (simp add: power_add[symmetric])
  have "?v = ?v div 10 ^ ?f * 10 ^ ?f + ?v mod 10 ^ ?f" by (simp only: div_mult_mod_eq)
  then have "?v * 10 ^ (18 - ?f) = (?v div 10 ^ ?f * 10 ^ ?f + ?v mod 10 ^ ?f) * 10 ^ (18 - ?f)"
    by (rule arg_cong)
  then show ?thesis
    by (simp only: scaled_def unat_Trunc[OF assms] unat_frac(1)[OF assms] p algebra_simps)
qed

lemma num_val_scaled:
  assumes "unat (FractionDigits n) \<le> 18"
  shows "num_val n * 10 ^ 18 = (if Negative n then - of_nat (scaled n) else of_nat (scaled n))"
proof -
  let ?f = "unat (FractionDigits n)"
  have p: "(10::rat) ^ 18 = 10 ^ ?f * 10 ^ (18 - ?f)"
    using assms by (simp add: power_add[symmetric])
  have "num_val n * 10 ^ 18 = of_int (num_int n) * 10 ^ (18 - ?f)"
    by (simp only: num_val_def p) simp
  then show ?thesis by (simp add: num_int_def scaled_def)
qed


subsection \<open>Less is the order of the rational values\<close>

lemma lex_scaled:
  fixes a b c d k :: nat
  assumes "b < k" "d < k"
  shows "a * k + b < c * k + d \<longleftrightarrow> a < c \<or> a = c \<and> b < d"
proof -
  have "a * k + b < c * k + d" if "a < c"
  proof -
    from that have "Suc a * k \<le> c * k" by (intro mult_right_mono) auto
    with assms show ?thesis by simp
  qed
  moreover have "c * k + d < a * k + b" if "c < a"
  proof -
    from that have "Suc c * k \<le> a * k" by (intro mult_right_mono) auto
    with assms show ?thesis by simp
  qed
  ultimately show ?thesis by (metis linorder_neqE_nat nat_add_left_cancel_less order_less_asym)
qed

lemma abs_less_iff:
  assumes "unat (FractionDigits n) \<le> 18" "unat (FractionDigits m) \<le> 18"
  shows "(if Trunc n = Trunc m then frac n < frac m else Trunc n < Trunc m) \<longleftrightarrow> scaled n < scaled m"
    and "Trunc n = Trunc m \<and> frac n = frac m \<longleftrightarrow> scaled n = scaled m"
proof -
  note b = unat_frac(2)[OF assms(1)] unat_frac(2)[OF assms(2)]
  note e = scaled_eq[OF assms(1)] scaled_eq[OF assms(2)]
  have "(if Trunc n = Trunc m then frac n < frac m else Trunc n < Trunc m) \<longleftrightarrow>
      unat (Trunc n) < unat (Trunc m) \<or> unat (Trunc n) = unat (Trunc m) \<and> unat (frac n) < unat (frac m)"
    by (simp only: word_less_nat_alt word_unat_eq_iff split: if_split) linarith
  then show "(if Trunc n = Trunc m then frac n < frac m else Trunc n < Trunc m) \<longleftrightarrow> scaled n < scaled m"
    by (simp only: e lex_scaled[OF b])
  show "Trunc n = Trunc m \<and> frac n = frac m \<longleftrightarrow> scaled n = scaled m"
    using lex_scaled[OF b, of "unat (Trunc n)" "unat (Trunc m)"]
      lex_scaled[OF b(2,1), of "unat (Trunc m)" "unat (Trunc n)"]
    by (simp only: e word_unat_eq_iff) (metis linorder_neqE_nat order_less_irrefl)
qed

lemma scaled_pos: "canonical n \<Longrightarrow> Negative n \<Longrightarrow> 0 < scaled n"
  by (auto simp: canonical_def scaled_def unat_gt_0)

lemma Less_scaled:
  assumes "canonical n" "canonical m"
  shows "Less n m \<longleftrightarrow>
    (if Negative n then - int (scaled n) else int (scaled n))
    < (if Negative m then - int (scaled m) else int (scaled m))"
proof -
  have f: "unat (FractionDigits n) \<le> 18" "unat (FractionDigits m) \<le> 18"
    using assms by (auto simp: canonical_def)
  note ab = abs_less_iff[OF f]
  have "Less n m \<longleftrightarrow>
     (if Negative n \<and> \<not> Negative m then True
      else if \<not> Negative n \<and> Negative m then False
      else if scaled n = scaled m then False
      else if Negative n then \<not> scaled n < scaled m else scaled n < scaled m)"
    unfolding Less_def Let_def ab by (rule refl)
  then show ?thesis using scaled_pos[OF assms(1)] scaled_pos[OF assms(2)] by auto
qed

lemma Less_num_val:
  assumes "canonical n" "canonical m"
  shows "Less n m \<longleftrightarrow> num_val n < num_val m"
proof -
  have f: "unat (FractionDigits n) \<le> 18" "unat (FractionDigits m) \<le> 18"
    using assms by (auto simp: canonical_def)
  have e: "num_val k * 10 ^ 18 = of_int (if Negative k then - int (scaled k) else int (scaled k))"
    if "unat (FractionDigits k) \<le> 18" for k
    by (simp only: num_val_scaled[OF that]) simp
  have "num_val n < num_val m \<longleftrightarrow> num_val n * 10 ^ 18 < num_val m * 10 ^ 18"
    by (rule mult_less_cancel_right_pos[symmetric]) simp
  then show ?thesis by (simp only: e[OF f(1)] e[OF f(2)] of_int_less_iff Less_scaled[OF assms])
qed

lemma Equal_num_val: "canonical n \<Longrightarrow> canonical m \<Longrightarrow> Equal n m \<longleftrightarrow> num_val n = num_val m"
  by (auto simp: Equal_def Less_num_val)

text \<open>On all numbers, \<open>Less\<close> is what \<open>sort.Interface\<close> asks for.\<close>

interpretation number: sort_less Less
proof
  fix x y z :: number
  show "\<not> Less x x" by (simp add: Less_def)
  show "Less x z" if "Less x y" "Less y z"
    using that by (auto simp: Less_def Let_def split: if_splits)
  show "\<not> Less x z" if "\<not> Less x y" "\<not> Less y z"
    using that by (auto simp: Less_def Let_def split: if_splits)
qed

text \<open>With one precision, \<open>Less\<close> is the order of the scaled integers.\<close>

definition same_precision :: "8 word \<Rightarrow> number \<Rightarrow> bool" where
  "same_precision f n \<longleftrightarrow> FractionDigits n = f \<and> canonical n"

lemma same_precision_canonical: "same_precision f n \<Longrightarrow> canonical n"
  by (simp add: same_precision_def)

lemma num_val_same:
  "same_precision f n \<Longrightarrow> same_precision f m \<Longrightarrow> num_val n < num_val m \<longleftrightarrow> num_int n < num_int m"
  by (simp add: num_val_def same_precision_def divide_less_cancel)

lemma Less_num_int:
  "same_precision f n \<Longrightarrow> same_precision f m \<Longrightarrow> Less n m \<longleftrightarrow> num_int n < num_int m"
  by (simp add: Less_num_val same_precision_canonical num_val_same)

lemma num_int_inject:
  assumes "same_precision f n" "same_precision f m" "num_int n = num_int m"
  shows "n = m"
proof -
  have pos: "0 < unat (Value k)" if "same_precision f k" "Negative k" for k
    using that by (simp add: same_precision_def canonical_def unat_gt_0)
  have "Negative n = Negative m"
    using assms(3) pos[OF assms(1)] pos[OF assms(2)] by (auto simp: num_int_def simp del: of_nat_unat split: if_splits)
  moreover from this assms(3) have "Value n = Value m"
    by (auto simp: num_int_def word_unat_eq_iff simp del: of_nat_unat split: if_splits)
  ultimately show ?thesis using assms(1,2) by (simp add: same_precision_def)
qed

lemma addQuantum_one:
  assumes "same_precision f n" "num_int n < 2 ^ 64 - 1"
  shows "same_precision f (addQuantum n 1)" and "num_int (addQuantum n 1) = num_int n + 1"
proof -
  have neg: "Value n \<le> 1 \<longleftrightarrow> Value n = 1" and ne: "Value n \<noteq> 0" if "Negative n"
    using assms(1) that
    by (auto simp: same_precision_def canonical_def word_le_nat_alt word_unat_eq_iff)
  have sub: "unat (Value n - 1) = unat (Value n) - 1" "0 < unat (Value n)" if "Negative n"
    using ne[OF that] by (simp_all add: unat_minus_one unat_gt_0)
  have add: "unat (Value n + 1) = unat (Value n) + 1" if "\<not> Negative n"
    using assms(2) that by (simp add: num_int_def unat_word_ariths del: of_nat_unat)
  show "same_precision f (addQuantum n 1)"
    using assms(1) neg by (auto simp: same_precision_def canonical_def addQuantum_def)
  show "num_int (addQuantum n 1) = num_int n + 1"
    using neg sub add by (auto simp: num_int_def addQuantum_def of_nat_diff simp del: of_nat_unat)
qed


subsection \<open>Int, printing and parsing\<close>

lemma uint_positive: "w \<noteq> 0 \<Longrightarrow> 0 < uint w"
  by (metis uint_0_iff uint_ge_0 order_le_less)

lemma sint_small: "uint w < 2 ^ 63 \<Longrightarrow> sint (w :: 64 word) = uint w"
proof -
  assume "uint w < 2 ^ 63"
  moreover have "- (2 ^ 63) \<le> uint w" by (rule order_trans[OF _ uint_ge_0]) simp
  ultimately have "signed_take_bit 63 (uint w) = uint w"
    by (intro signed_take_bit_int_eq_self)
  then show ?thesis by (simp add: sint_uint)
qed

lemma Int_in_range:
  assumes "FractionDigits n = 0" "MinInt64 \<le> num_int n" "num_int n \<le> MaxInt64"
  shows "Number_Int n = Inr (num_int n)"
proof (cases "Negative n")
  case False
  with assms show ?thesis
    by (simp add: Number_Int_def IsDecimal_def num_int_def MaxInt64_def sint_small)
next
  case True
  have "sint (- Value n) = sint (word_of_int (- uint (Value n)) :: 64 word)" by simp
  also have "\<dots> = signed_take_bit 63 (- uint (Value n))"
    by (simp only: signed_of_int) simp
  also have "\<dots> = - uint (Value n)"
  proof (rule signed_take_bit_int_eq_self)
    show "- (2 ^ 63) \<le> - uint (Value n)" using True assms by (simp add: num_int_def MinInt64_def)
    show "- uint (Value n) < 2 ^ 63"
      by (rule order_le_less_trans[of _ 0]) simp_all
  qed
  finally show ?thesis using True assms by (simp add: Number_Int_def IsDecimal_def num_int_def)
qed

lemma num_int_negative: "Negative n \<Longrightarrow> num_int n \<le> 0"
  by (simp add: num_int_def)

lemma Int_positive_overflow:
  assumes "FractionDigits n = 0" "MaxInt64 < num_int n"
  shows "Number_Int n = Inl IntOverflow"
proof -
  have "\<not> Negative n" using num_int_negative[of n] assms(2) by (auto simp: MaxInt64_def)
  with assms show ?thesis by (simp add: Number_Int_def IsDecimal_def num_int_def)
qed

text \<open>Printing an integer: the digits after a sign.\<close>

definition sign_string :: "number \<Rightarrow> string" where
  "sign_string n = (if Negative n then ''-'' else [])"

lemma number_string_integer:
  "FractionDigits n = 0 \<Longrightarrow> number_string n = Some (sign_string n @ go_digits (unat (Value n)))"
  by (simp add: number_string_def IsDecimal_def sign_string_def)

lemma go_graphic_literals [simp]: "go_graphic CHR ''-''" "go_graphic CHR ''.''" "go_graphic CHR ''0''"
  by (simp_all add: go_graphic_def byte_def)

lemma ParseInt_digits:
  assumes "v < 2 ^ 64"
  shows "ParseInt ((if neg then ''-'' else []) @ go_digits v) = Inr (mk_number (of_nat v) 0 neg)"
proof -
  let ?s = "(if neg then ''-'' else []) @ go_digits v"
  have "go_trim_space ?s = ?s"
    by (rule go_trim_space_graphic) (auto dest: go_digits_graphic)
  moreover have "go_digits v \<noteq> ''+''" "go_digits v \<noteq> ''-''"
    using hd_go_digits_notin[of v] by auto
  ultimately show ?thesis
    using assms go_parse_uint_go_digits[of v 0] hd_go_digits_notin[of v]
    by (cases "go_digits v") (simp_all add: ParseInt_def)
qed

lemma ParseInt_number_string:
  assumes "FractionDigits n = 0"
  shows "map_option ParseInt (number_string n) = Some (Inr n)"
  using assms ParseInt_digits[OF unat_less64[of "Value n"], of "Negative n"]
  by (simp add: number_string_integer sign_string_def mk_number_def)

text \<open>Printing a decimal splits the digits, padded with zeros, at the decimal point.\<close>

lemma parse_zeros:
  "go_parse_digits 10 z m 0 (replicate k CHR ''0'' @ s) = go_parse_digits 10 z m 0 s"
  by (induction k) (simp_all add: digit_val_def byte_def)

lemma number_string_decimal:
  assumes "0 < unat (FractionDigits n)" "unat (FractionDigits n) \<le> 18"
  shows "\<exists>a b k. number_string n = Some (sign_string n @ a @ ''.'' @ b) \<and> a \<noteq> []
    \<and> length b = unat (FractionDigits n)
    \<and> a @ b = replicate k CHR ''0'' @ go_digits (unat (Value n))"
proof -
  let ?out = "go_digits (unat (Value n))" let ?f = "unat (FractionDigits n)"
  have dec: "IsDecimal n" using assms(1) by (auto simp: IsDecimal_def)
  show ?thesis
  proof (cases "length ?out \<le> ?f")
    case True
    define k where "k = ?f - length ?out + 1"
    define o' where "o' = replicate k CHR ''0'' @ ?out"
    have pos: "0 < length ?out" by simp
    have k18: "k \<le> 18" using True assms pos unfolding k_def by linarith
    from k18 have tk: "take k space18 = replicate k CHR ''0''" by (simp add: space18_def)
    have "number_string n = Some (sign_string n @ take 1 o' @ ''.'' @ drop 1 o')"
      using dec True k18 tk by (simp add: number_string_def Let_def sign_string_def o'_def k_def)
    moreover have "take 1 o' \<noteq> []" "length (drop 1 o') = ?f" "take 1 o' @ drop 1 o' = o'"
      using True by (auto simp: o'_def k_def)
    ultimately show ?thesis unfolding o'_def by blast
  next
    case False
    let ?k = "length ?out - ?f"
    have "number_string n = Some (sign_string n @ take ?k ?out @ ''.'' @ drop ?k ?out)"
      using dec False by (simp add: number_string_def Let_def sign_string_def)
    moreover have "take ?k ?out \<noteq> []" "length (drop ?k ?out) = ?f"
      "take ?k ?out @ drop ?k ?out = replicate 0 CHR ''0'' @ ?out"
      using False by auto
    ultimately show ?thesis by blast
  qed
qed

lemma index_point:
  assumes "CHR ''.'' \<notin> set a"
  shows "go_index (sign_string n @ a @ ''.'' @ b) ''.'' = Some (length (sign_string n @ a))"
  using go_index_char_append[of "CHR ''.''" "sign_string n @ a" b] assms
  by (simp add: sign_string_def)

lemma go_parse_int10_padded:
  assumes "set (replicate k CHR ''0'' @ ds) = set x" "x = replicate k CHR ''0'' @ ds"
    "ds = go_digits v" "v \<le> (if neg then 2 ^ 63 else 2 ^ 63 - 1)"
  shows "go_parse_int10 ((if neg then ''-'' else []) @ x) = Inr (if neg then - int v else int v)"
proof -
  have "go_parse_uint 10 x = Inr v"
    using assms parse_zeros[of False "2 ^ 64 - 1" k ds] go_parse_digits_go_digits[of v "2 ^ 64 - 1" False]
    by (simp add: go_parse_uint_def split: if_splits)
  moreover have "x \<noteq> []" "hd x \<noteq> CHR ''-''" "hd x \<noteq> CHR ''+''"
    using assms hd_go_digits_notin[of v] by (cases k; auto)+
  ultimately show ?thesis
    using assms(4) by (cases neg) (auto simp: go_parse_int10_def Let_def)
qed

lemma ParseDecimal_number_string:
  assumes "canonical n" "0 < unat (FractionDigits n)"
    "MinInt64 \<le> num_int n" "num_int n \<le> MaxInt64"
  shows "map_option (\<lambda>s. ParseDecimal s (FractionDigits n)) (number_string n) = Some (Inr n)"
proof -
  let ?f = "unat (FractionDigits n)"
  have f18: "?f \<le> 18" using assms(1) by (simp add: canonical_def)
  obtain a b k where str: "number_string n = Some (sign_string n @ a @ ''.'' @ b)"
    and ab: "a \<noteq> []" "length b = ?f" "a @ b = replicate k CHR ''0'' @ go_digits (unat (Value n))"
    using number_string_decimal[OF assms(2) f18] by blast
  let ?s = "sign_string n @ a @ ''.'' @ b"
  have set_ab: "set (a @ b) \<subseteq> insert CHR ''0'' (set (go_digits (unat (Value n))))"
    unfolding ab(3) by (cases k) auto
  then have graphic: "go_graphic c" if "c \<in> set a \<union> set b" for c
    using that go_digits_graphic by auto
  have "go_trim_space ?s = ?s"
    by (rule go_trim_space_graphic) (auto simp: sign_string_def graphic)
  moreover have "CHR ''.'' \<notin> set a" using set_ab point_notin_digits[of "unat (Value n)"] by auto
  then have idx: "go_index ?s ''.'' = Some (length (sign_string n @ a))" by (rule index_point)
  have "go_parse_int10 (sign_string n @ a @ b) = Inr (num_int n)"
    using go_parse_int10_padded[OF _ ab(3) refl, of "Negative n"] assms(3,4)
    by (auto simp: sign_string_def num_int_def MinInt64_def MaxInt64_def ab(3)
        simp del: of_nat_unat split: if_splits)
  moreover have "mk_number (of_int \<bar>num_int n\<bar>) (FractionDigits n) (num_int n < 0) = n"
    using assms(1) uint_positive[of "Value n"]
    by (cases "Negative n") (simp_all add: num_int_def mk_number_def canonical_def)
  moreover have "(of_nat ?f :: 8 word) = FractionDigits n" by simp
  ultimately have "decimalValueFromString ?s (FractionDigits n) = Inr n"
    using assms(2) f18 ab(2) idx
    by (simp add: decimalValueFromString_def Let_def MaxFractionDigits_def word_less_nat_alt)
  then show ?thesis using str ab(1) \<open>go_trim_space ?s = ?s\<close>
    by (auto simp: ParseDecimal_def Let_def Cons_eq_append_conv append_eq_Cons_conv)
qed


lemma Int_negative_overflow:
  assumes "FractionDigits n = 0" "num_int n < MinInt64"
  shows "Number_Int n = Inr (num_int n + 2 ^ 64)"
proof -
  have "0 \<le> num_int n" if "\<not> Negative n" using that by (simp add: num_int_def)
  then have neg: "Negative n" using assms(2) by (fastforce simp: MinInt64_def)
  with assms(2) have big: "2 ^ 63 < uint (Value n)" by (simp add: num_int_def MinInt64_def)
  have lt: "uint (Value n) < 2 ^ 64" using uint_lt2p[of "Value n"] by simp
  have "uint (- Value n) = (- uint (Value n)) mod 2 ^ 64" by (simp add: uint_word_arith_bintrs take_bit_eq_mod)
  also have "\<dots> = (- uint (Value n) + 2 ^ 64) mod 2 ^ 64" by simp
  also have "\<dots> = - uint (Value n) + 2 ^ 64" by (rule mod_pos_pos_trivial) (use big lt in auto)
  finally have u: "uint (- Value n) = 2 ^ 64 - uint (Value n)" by simp
  then have "uint (- Value n) < 2 ^ 63" using big by simp
  with u neg assms(1) show ?thesis
    by (simp add: Number_Int_def IsDecimal_def sint_small num_int_def)
qed

subsection \<open>Properties\<close>

text \<open>C33: for numbers with at most 18 fraction digits that are not minus zero, \<open>Less\<close> and
  \<open>Equal\<close> decide the order of the rationals the numbers denote, whatever their precisions: the
  comparison of whole and fractional parts in 64-bit words never overflows. This holds of an integer and a
  decimal as well, where the comment on \<open>Less\<close> says that it panics: it does not, and compares them.\<close>

theorem number_order:
  assumes "canonical n" "canonical m"
  shows "(Less n m \<longleftrightarrow> num_val n < num_val m) \<and> (Equal n m \<longleftrightarrow> num_val n = num_val m)"
  using Less_num_val[OF assms] Equal_num_val[OF assms] by simp

lemma number_order_witness:
  "Less (mk_number 21 1 True) (mk_number 205 2 True) \<and> \<not> Equal (mk_number 21 1 True) (mk_number 205 2 True)"
  using number_order[of "mk_number 21 1 True" "mk_number 205 2 True"]
  by (simp add: canonical_def num_val_def num_int_def)

text \<open>C34: printing a number and parsing the text gives the number back: with \<open>ParseInt\<close> for every
  integer of 64 bits and a sign, and with \<open>ParseDecimal\<close> for every canonical decimal that fits a
  signed 64-bit word.\<close>

theorem number_print_parse:
  "(FractionDigits n = 0 \<longrightarrow> map_option ParseInt (number_string n) = Some (Inr n)) \<and>
   (canonical n \<and> 0 < unat (FractionDigits n) \<and> MinInt64 \<le> num_int n \<and> num_int n \<le> MaxInt64 \<longrightarrow>
    map_option (\<lambda>s. ParseDecimal s (FractionDigits n)) (number_string n) = Some (Inr n))"
  using ParseInt_number_string[of n] ParseDecimal_number_string[of n] by blast

lemma number_print_parse_witness:
  "map_option (\<lambda>s. ParseDecimal s 3) (number_string (mk_number 25 3 True)) = Some (Inr (mk_number 25 3 True)) \<and>
   map_option ParseInt (number_string (mk_number 25 0 True)) = Some (Inr (mk_number 25 0 True))"
  using number_print_parse[of "mk_number 25 3 True"] number_print_parse[of "mk_number 25 0 True"]
  by (simp add: canonical_def num_int_def MinInt64_def MaxInt64_def)

text \<open>\<open>Number.Int\<close> on every number: decimals and integers above the signed 64-bit maximum
  are refused, integers in range are returned, and integers below the signed 64-bit minimum are not
  refused but returned with \<open>2 ^ 64\<close> added.\<close>

lemma number_int_cases:
  "Number_Int n =
     (if FractionDigits n \<noteq> 0 then Inl IntOnDecimal
      else if MaxInt64 < num_int n then Inl IntOverflow
      else if num_int n < MinInt64 then Inr (num_int n + 2 ^ 64)
      else Inr (num_int n))"
  using Int_in_range[of n] Int_positive_overflow[of n] Int_negative_overflow[of n]
  by (auto simp: Number_Int_def IsDecimal_def)

end
