(* ===== verification/Ranges.thy ===== *)
theory Ranges
  imports Numbers
begin

text \<open>
  The range lists of \<open>pkg/yang/types_builtin.go\<close>: \<open>YRange\<close>, \<open>YangRange\<close> with its sorting,
  validation and containment test, \<open>coalesce\<close>, and \<open>parseChildRanges\<close>, which reads the
  argument of a YANG range or length statement against the parent's range. \<open>ranges_ints\<close>
  is the set of integers (in units of the last fraction digit) that a range list admits.
\<close>

record yrange =
  rmin :: number  \<comment> \<open>Min\<close>
  rmax :: number  \<comment> \<open>Max\<close>

type_synonym yang_range = "yrange list"

definition mk_range :: "number \<Rightarrow> number \<Rightarrow> yrange" where
  "mk_range a b = \<lparr>rmin = a, rmax = b\<rparr>"

lemma mk_range_sel [simp]: "rmin (mk_range a b) = a" "rmax (mk_range a b) = b"
  by (simp_all add: mk_range_def)

definition Valid :: "yrange \<Rightarrow> bool" where
  "Valid r \<longleftrightarrow> \<not> Less (rmax r) (rmin r)"

definition range_string :: "yrange \<Rightarrow> string option" where
  "range_string r =
     (if Equal (rmin r) (rmax r) then number_string (rmin r)
      else case (number_string (rmin r), number_string (rmax r)) of
             (Some a, Some b) \<Rightarrow> Some (a @ ''..'' @ b)
           | _ \<Rightarrow> None)"

definition range_Equal :: "yrange \<Rightarrow> yrange \<Rightarrow> bool" where
  "range_Equal r s \<longleftrightarrow> Equal (rmin r) (rmin s) \<and> Equal (rmax r) (rmax s)"

fun range_strings :: "yang_range \<Rightarrow> string list option" where
  "range_strings [] = Some []"
| "range_strings (r # rs) =
     (case (range_string r, range_strings rs) of
        (Some a, Some as) \<Rightarrow> Some (a # as)
      | _ \<Rightarrow> None)"

definition ranges_string :: "yang_range \<Rightarrow> string option" where
  "ranges_string rs = map_option (\<lambda>ss. go_join ss ''|'') (range_strings rs)"

text \<open>\<open>Less(i, j)\<close> on two elements of the slice.\<close>

definition range_less :: "yrange \<Rightarrow> yrange \<Rightarrow> bool" where
  "range_less a b =
     (if Less (rmin a) (rmin b) then True
      else if Less (rmin b) (rmin a) then False
      else Less (rmax a) (rmax b))"

datatype validate_error = NotSorted | InvalidNumber | Overlapping

definition Validate :: "yang_range \<Rightarrow> validate_error option" where
  "Validate r =
     (if \<not> go_is_sorted range_less r then Some NotSorted
      else case r of
             [] \<Rightarrow> None
           | p # rest \<Rightarrow>
               if \<not> Valid p then Some InvalidNumber
               else if list_ex (\<lambda>n. Less (rmin n) (rmax p)) rest then Some Overlapping
               else None)"

definition Sort :: "yang_range \<Rightarrow> yang_range" where
  "Sort r = go_sort range_less r"

definition ranges_Equal :: "yang_range \<Rightarrow> yang_range \<Rightarrow> bool" where
  "ranges_Equal r q \<longleftrightarrow> length r = length q \<and> list_all2 range_Equal r q"

text \<open>The loop of \<open>Contains\<close>: the index \<open>ri\<close> is the suffix of \<open>r\<close> that starts there.\<close>

fun contains_from :: "yang_range \<Rightarrow> yang_range \<Rightarrow> bool" where
  "contains_from rs [] = True"
| "contains_from rs (ss # s) =
     (case dropWhile (\<lambda>r. Less (rmax r) (rmin ss)) rs of
        [] \<Rightarrow> False
      | r # rs' \<Rightarrow>
          if Less (rmin ss) (rmin r) \<or> Less (rmax r) (rmax ss) then False
          else contains_from (r # rs') s)"

definition Contains :: "yang_range \<Rightarrow> yang_range \<Rightarrow> bool" where
  "Contains r s = (if r = [] \<or> s = [] then True else contains_from r s)"

text \<open>The loop of \<open>coalesce\<close>; \<open>cur\<close> is \<open>cr[i]\<close>.\<close>

fun coalesce_from :: "yrange \<Rightarrow> yang_range \<Rightarrow> yang_range" where
  "coalesce_from cur [] = [cur]"
| "coalesce_from cur (r1 # rs) =
     (if Less (addQuantum (rmax cur) 1) (rmin r1) then cur # coalesce_from r1 rs
      else if Less (rmax cur) (rmax r1) then coalesce_from (cur\<lparr>rmax := rmax r1\<rparr>) rs
      else coalesce_from cur rs)"

definition coalesce :: "yang_range \<Rightarrow> yang_range" where
  "coalesce r = (case r of [] \<Rightarrow> [] | [x] \<Rightarrow> [x] | x # xs \<Rightarrow> coalesce_from x xs)"

datatype range_error =
    RNumber number_error       \<comment> \<open>a bound does not parse\<close>
  | NoMax                      \<comment> \<open>cannot resolve 'max' keyword\<close>
  | NoMin                      \<comment> \<open>cannot resolve 'min' keyword\<close>
  | TooManyDots string
  | OutOfOrder string
  | NotWithin string
  | RValidate validate_error

definition parseNumber :: "yang_range \<Rightarrow> bool \<Rightarrow> 8 word \<Rightarrow> string \<Rightarrow> range_error + number" where
  "parseNumber y decimal fdr s =
     (if s = ''max'' then
        (if y = [] then Inl NoMax else Inr ((rmax (last y))\<lparr>FractionDigits := fdr\<rparr>))
      else if s = ''min'' then
        (if y = [] then Inl NoMin else Inr ((rmin (hd y))\<lparr>FractionDigits := fdr\<rparr>))
      else case (if decimal then ParseDecimal s fdr else ParseInt s) of
             Inl e \<Rightarrow> Inl (RNumber e)
           | Inr n \<Rightarrow> Inr n)"

definition parse_part :: "yang_range \<Rightarrow> bool \<Rightarrow> 8 word \<Rightarrow> string \<Rightarrow> range_error + yrange" where
  "parse_part y decimal fdr s =
     (let parts = go_split s ''..''
      in case parseNumber y decimal fdr (go_trim_space (hd parts)) of
           Inl e \<Rightarrow> Inl e
         | Inr mn \<Rightarrow>
             (case (case parts of
                      [_] \<Rightarrow> Inr mn
                    | [_, p] \<Rightarrow> parseNumber y decimal fdr (go_trim_space p)
                    | _ \<Rightarrow> Inl (TooManyDots s)) of
                Inl e \<Rightarrow> Inl e
              | Inr mx \<Rightarrow> if Less mx mn then Inl (OutOfOrder s) else Inr (mk_range mn mx)))"

fun parse_parts :: "yang_range \<Rightarrow> bool \<Rightarrow> 8 word \<Rightarrow> string list \<Rightarrow> range_error + yang_range" where
  "parse_parts y decimal fdr [] = Inr []"
| "parse_parts y decimal fdr (s # ss) =
     (case parse_part y decimal fdr s of
        Inl e \<Rightarrow> Inl e
      | Inr r \<Rightarrow>
          (case parse_parts y decimal fdr ss of Inl e \<Rightarrow> Inl e | Inr rs \<Rightarrow> Inr (r # rs)))"

definition parseChildRanges :: "yang_range \<Rightarrow> string \<Rightarrow> bool \<Rightarrow> 8 word \<Rightarrow> range_error + yang_range" where
  "parseChildRanges y s decimal fdr =
     (case parse_parts y decimal fdr (go_split s ''|'') of
        Inl e \<Rightarrow> Inl e
      | Inr r0 \<Rightarrow>
          let r = coalesce (Sort r0)
          in if \<not> Contains y r then Inl (NotWithin s)
             else case Validate r of Some e \<Rightarrow> Inl (RValidate e) | None \<Rightarrow> Inr r)"

definition ParseRangesInt :: "string \<Rightarrow> range_error + yang_range" where
  "ParseRangesInt s = parseChildRanges [] s False 0"

definition ParseRangesDecimal :: "string \<Rightarrow> 8 word \<Rightarrow> range_error + yang_range" where
  "ParseRangesDecimal s fdr = parseChildRanges [] s True fdr"

text \<open>\<open>None\<close> is the panic.\<close>

definition mustParseRangesInt :: "string \<Rightarrow> yang_range option" where
  "mustParseRangesInt s = (case ParseRangesInt s of Inl _ \<Rightarrow> None | Inr r \<Rightarrow> Some r)"

definition mustParseRangesDecimal :: "string \<Rightarrow> 8 word \<Rightarrow> yang_range option" where
  "mustParseRangesDecimal s fdr = (case ParseRangesDecimal s fdr of Inl _ \<Rightarrow> None | Inr r \<Rightarrow> Some r)"

text \<open>The package variables, as the initialisation computes them.\<close>

definition default_range_texts :: "(string \<times> string) list" where
  "default_range_texts =
     [(''int8'', ''-128..127''),
      (''int16'', ''-32768..32767''),
      (''int32'', ''-2147483648..2147483647''),
      (''int64'', ''-9223372036854775808..9223372036854775807''),
      (''uint8'', ''0..255''),
      (''uint16'', ''0..65535''),
      (''uint32'', ''0..4294967295''),
      (''uint64'', ''0..18446744073709551615'')]"

definition default_range :: "string \<Rightarrow> yang_range option" where
  "default_range ty = Option.bind (map_of default_range_texts ty) mustParseRangesInt"

definition Uint64Range :: yang_range where
  "Uint64Range = [mk_range (FromUint 0) (FromUint (- 1))]"

subsection \<open>The integers in a range\<close>

definition prec :: "8 word \<Rightarrow> number \<Rightarrow> bool" where
  "prec f n \<longleftrightarrow> FractionDigits n = f \<and> unat f \<le> 18"

definition range_prec :: "8 word \<Rightarrow> yrange \<Rightarrow> bool" where
  "range_prec f r \<longleftrightarrow> prec f (rmin r) \<and> prec f (rmax r)"

definition range_ints :: "yrange \<Rightarrow> int set" where
  "range_ints r = {num_int (rmin r) .. num_int (rmax r)}"

definition ranges_ints :: "yang_range \<Rightarrow> int set" where
  "ranges_ints rs = (\<Union>r \<in> set rs. range_ints r)"

lemma ranges_ints_simps [simp]:
  "ranges_ints [] = {}" "ranges_ints (r # rs) = range_ints r \<union> ranges_ints rs"
  by (auto simp: ranges_ints_def)

lemma same_precision_prec: "same_precision f n \<Longrightarrow> prec f n"
  by (auto simp: same_precision_def canonical_def prec_def)

text \<open>With minus zero admitted, \<open>Less\<close> and the integer order differ only at zero.\<close>

lemma scaled_prec:
  assumes "prec f n" "prec f m"
  shows "scaled n < scaled m \<longleftrightarrow> unat (Value n) < unat (Value m)"
    and "scaled n = scaled m \<longleftrightarrow> unat (Value n) = unat (Value m)"
  using assms by (simp_all add: scaled_def prec_def)

lemma Less_prec:
  assumes "prec f n" "prec f m"
  shows "Less n m \<longleftrightarrow>
    (if Negative n \<and> \<not> Negative m then True
     else if \<not> Negative n \<and> Negative m then False
     else if Negative n then unat (Value m) < unat (Value n) else unat (Value n) < unat (Value m))"
proof -
  have f: "unat (FractionDigits n) \<le> 18" "unat (FractionDigits m) \<le> 18"
    using assms by (auto simp: prec_def)
  have "Less n m \<longleftrightarrow>
     (if Negative n \<and> \<not> Negative m then True
      else if \<not> Negative n \<and> Negative m then False
      else if scaled n = scaled m then False
      else if Negative n then \<not> scaled n < scaled m else scaled n < scaled m)"
    unfolding Less_def Let_def abs_less_iff[OF f] by (rule refl)
  then show ?thesis by (auto simp: scaled_prec[OF assms])
qed

lemma Less_if_num_int:
  "prec f n \<Longrightarrow> prec f m \<Longrightarrow> num_int n < num_int m \<Longrightarrow> Less n m"
  by (auto simp: Less_prec num_int_def simp del: of_nat_unat split: if_splits)

lemma num_int_if_Less:
  "prec f n \<Longrightarrow> prec f m \<Longrightarrow> Less n m \<Longrightarrow> num_int n \<le> num_int m"
  by (auto simp: Less_prec num_int_def simp del: of_nat_unat split: if_splits)

lemma num_int_if_not_Less:
  "prec f n \<Longrightarrow> prec f m \<Longrightarrow> \<not> Less n m \<Longrightarrow> num_int m \<le> num_int n"
  using Less_if_num_int[of f n m] by linarith

lemma prec_addQuantum: "prec f n \<Longrightarrow> prec f (addQuantum n i)"
  by (simp add: prec_def addQuantum_def)

lemma num_int_bounds: "- (2 ^ 64 - 1) \<le> num_int n" "num_int n \<le> 2 ^ 64 - 1"
  using unat_less64[of "Value n"] by (auto simp: num_int_def simp del: of_nat_unat)

lemma num_int_addQuantum:
  "num_int (addQuantum n 1) = (if num_int n = 2 ^ 64 - 1 then 0 else num_int n + 1)"
proof (cases "Negative n")
  case True
  show ?thesis
  proof (cases "Value n \<le> 1")
    case le: True
    then have "Value n = 0 \<or> Value n = 1" by (auto simp: word_le_nat_alt word_unat_eq_iff)
    with True show ?thesis by (auto simp: addQuantum_def num_int_def)
  next
    case False
    then have "Value n \<noteq> 0" and big: "1 < unat (Value n)" by (auto simp: word_le_nat_alt)
    then have "unat (Value n - 1) = unat (Value n) - 1" by (simp add: unat_minus_one)
    with True False big show ?thesis
      by (auto simp: addQuantum_def num_int_def of_nat_diff simp del: of_nat_unat)
  qed
next
  case False
  then show ?thesis using unat_less64[of "Value n"]
    by (auto simp: addQuantum_def num_int_def unat_word_ariths mod_Suc simp del: of_nat_unat)
qed


subsection \<open>Sorting\<close>

interpretation ranges: sort_less range_less
proof
  fix x y z :: yrange
  show "\<not> range_less x x" by (simp add: range_less_def number.less_irrefl)
  show "range_less x z" if "range_less x y" "range_less y z"
    using that number.less_trans[of "rmin x" "rmin y" "rmin z"]
      number.nless_trans[of "rmin z" "rmin y" "rmin x"]
      number.less_le_trans[of "rmin x" "rmin y" "rmin z"]
      number.le_less_trans[of "rmin x" "rmin y" "rmin z"]
      number.less_trans[of "rmax x" "rmax y" "rmax z"]
      number.less_asym
    by (auto simp: range_less_def number.le_def split: if_splits)
  show "\<not> range_less x z" if "\<not> range_less x y" "\<not> range_less y z"
    using that number.nless_trans[of "rmin x" "rmin y" "rmin z"]
      number.less_le_trans[of "rmin z" "rmin y" "rmin x"]
      number.le_less_trans[of "rmin z" "rmin y" "rmin x"]
      number.less_trans[of "rmin z" "rmin y" "rmin x"]
      number.nless_trans[of "rmax x" "rmax y" "rmax z"]
    by (auto simp: range_less_def number.le_def split: if_splits)
qed

definition range_canonical :: "8 word \<Rightarrow> yrange \<Rightarrow> bool" where
  "range_canonical f r \<longleftrightarrow> same_precision f (rmin r) \<and> same_precision f (rmax r)"

lemma range_canonical_prec: "range_canonical f r \<Longrightarrow> range_prec f r"
  by (simp add: range_canonical_def range_prec_def same_precision_prec)

text \<open>On ranges of one precision only equal ranges tie, so the result of sorting is unique.\<close>

interpretation canonical_ranges: sort_total range_less "{r. range_canonical f r}" for f
proof
  fix x y assume "x \<in> {r. range_canonical f r}" "y \<in> {r. range_canonical f r}"
  then show "range_less x y \<or> x = y \<or> range_less y x"
    using num_int_inject[of f "rmin x" "rmin y"] num_int_inject[of f "rmax x" "rmax y"]
    by (auto simp: range_canonical_def range_less_def Less_num_int[of f] intro!: yrange.equality)
qed

text \<open>Sorted lists have increasing lower bounds.\<close>

definition min_le :: "yrange \<Rightarrow> yrange \<Rightarrow> bool" where
  "min_le a b \<longleftrightarrow> num_int (rmin a) \<le> num_int (rmin b)"

lemma min_le_update [simp]: "min_le (r\<lparr>rmax := m\<rparr>) x = min_le r x"
  by (simp add: min_le_def)

lemma min_le_trans: "min_le a b \<Longrightarrow> min_le b c \<Longrightarrow> min_le a c"
  by (simp add: min_le_def)

lemma ranges_le_min_le:
  "range_prec f a \<Longrightarrow> range_prec f b \<Longrightarrow> ranges.le a b \<Longrightarrow> min_le a b"
  using num_int_if_not_Less[of f "rmin b" "rmin a"]
  by (auto simp: ranges.le_def range_less_def range_prec_def min_le_def split: if_splits)

lemma sorted_min_le:
  "\<forall>r \<in> set rs. range_prec f r \<Longrightarrow> sorted_wrt ranges.le rs \<Longrightarrow> sorted_wrt min_le rs"
  by (rule sorted_wrt_mono_rel[of rs ranges.le]) (auto intro: ranges_le_min_le)

subsection \<open>Coalescing\<close>

lemma merge_ints:
  assumes "a \<le> c" "c \<le> b + 1 \<or> c \<le> (b::int)"
  shows "{a..b} \<union> {c..d} = {a..max b d}"
  using assms by auto

lemma not_beyond:
  assumes "prec f b" "prec f c" "\<not> Less (addQuantum b 1) c"
  shows "num_int c \<le> num_int b + 1"
  using num_int_if_not_Less[OF prec_addQuantum[OF assms(1)] assms(2,3)]
  by (auto simp: num_int_addQuantum split: if_splits)

lemma coalesce_from_ints:
  "range_prec f cur \<Longrightarrow> \<forall>r \<in> set rs. range_prec f r \<Longrightarrow> sorted_wrt min_le (cur # rs) \<Longrightarrow>
   ranges_ints (coalesce_from cur rs) = range_ints cur \<union> ranges_ints rs"
proof (induction cur rs rule: coalesce_from.induct)
  case (1 cur)
  then show ?case by simp
next
  case (2 cur r1 rs)
  note p = "2.prems"
  have pr: "prec f (rmax cur)" "prec f (rmin r1)" "prec f (rmax r1)"
    and le: "num_int (rmin cur) \<le> num_int (rmin r1)"
    using p by (auto simp: range_prec_def min_le_def)
  show ?case
  proof (cases "Less (addQuantum (rmax cur) 1) (rmin r1)")
    case True
    with "2.IH"(1) p show ?thesis by auto
  next
    case False
    note m = merge_ints[OF le disjI1[OF not_beyond[OF pr(1,2) False]], of "num_int (rmax r1)"]
    show ?thesis
    proof (cases "Less (rmax cur) (rmax r1)")
      case True
      let ?cur = "cur\<lparr>rmax := rmax r1\<rparr>"
      have "range_prec f ?cur" "sorted_wrt min_le (?cur # rs)"
        using p by (auto simp: range_prec_def)
      moreover have "range_ints ?cur = range_ints cur \<union> range_ints r1"
        using m num_int_if_Less[OF pr(1,3) True] by (simp add: range_ints_def max_def)
      ultimately show ?thesis using "2.IH"(2)[OF False True] p False True
        by (auto simp: Un_assoc)
    next
      case notless: False
      have "sorted_wrt min_le (cur # rs)" using p by auto
      moreover have "range_ints cur = range_ints cur \<union> range_ints r1"
        using m num_int_if_not_Less[OF pr(1,3) notless] by (simp add: range_ints_def max_def)
      ultimately show ?thesis using "2.IH"(3)[OF False notless] p False notless by auto
    qed
  qed
qed

lemma coalesce_ints:
  assumes "\<forall>r \<in> set rs. range_prec f r" "sorted_wrt min_le rs"
  shows "ranges_ints (coalesce rs) = ranges_ints rs"
proof (cases rs rule: remdups_adj.cases)
  case (3 x y xs)
  with assms show ?thesis
    by (simp only: coalesce_def list.case)
      (subst coalesce_from_ints[of f], auto)
qed (simp_all add: coalesce_def)

lemma coalesce_from_prec:
  "range_prec f cur \<Longrightarrow> \<forall>r \<in> set rs. range_prec f r \<Longrightarrow> \<forall>r \<in> set (coalesce_from cur rs). range_prec f r"
  by (induction cur rs rule: coalesce_from.induct) (auto simp: range_prec_def)

lemma coalesce_prec: "\<forall>r \<in> set rs. range_prec f r \<Longrightarrow> \<forall>r \<in> set (coalesce rs). range_prec f r"
  using coalesce_from_prec[of f "hd rs" "tl rs"] by (cases rs rule: remdups_adj.cases) (auto simp: coalesce_def)

lemma coalesce_empty_iff [simp]: "coalesce rs = [] \<longleftrightarrow> rs = []"
proof -
  have "coalesce_from c xs \<noteq> []" for c xs by (induction c xs rule: coalesce_from.induct) auto
  then show ?thesis by (auto simp: coalesce_def split: list.splits)
qed

text \<open>The result has gaps between its ranges, if no bound is the largest 64-bit number.\<close>

definition gap :: "yrange \<Rightarrow> yrange \<Rightarrow> bool" where
  "gap a b \<longleftrightarrow> num_int (rmax a) + 1 < num_int (rmin b)"

definition nonempty_range :: "yrange \<Rightarrow> bool" where
  "nonempty_range r \<longleftrightarrow> num_int (rmin r) \<le> num_int (rmax r)"

lemma Valid_nonempty: "range_prec f r \<Longrightarrow> Valid r \<Longrightarrow> nonempty_range r"
  using num_int_if_not_Less[of f "rmax r" "rmin r"]
  by (auto simp: Valid_def range_prec_def nonempty_range_def)

lemma coalesce_from_gap:
  "range_canonical f cur \<Longrightarrow> \<forall>r \<in> set rs. range_canonical f r \<and> nonempty_range r \<Longrightarrow> nonempty_range cur \<Longrightarrow>
   sorted_wrt min_le (cur # rs) \<Longrightarrow>
   \<forall>r \<in> set (cur # rs). num_int (rmax r) < 2 ^ 64 - 1 \<Longrightarrow>
   sorted_wrt gap (coalesce_from cur rs) \<and>
   (\<forall>r \<in> set (coalesce_from cur rs). range_canonical f r \<and> nonempty_range r \<and> min_le cur r)"
proof (induction cur rs rule: coalesce_from.induct)
  case (1 cur)
  then show ?case by (auto simp: min_le_def)
next
  case (2 cur r1 rs)
  note p = "2.prems"
  have sp: "same_precision f (rmax cur)" "same_precision f (rmin r1)" "same_precision f (rmax r1)"
    using p by (auto simp: range_canonical_def)
  have lt: "num_int (rmax cur) < 2 ^ 64 - 1" using p(5) by simp
  have q: "Less (addQuantum (rmax cur) 1) (rmin r1) \<longleftrightarrow> num_int (rmax cur) + 1 < num_int (rmin r1)"
    using Less_num_int[OF addQuantum_one(1)[OF sp(1) lt] sp(2)] addQuantum_one(2)[OF sp(1) lt] by simp
  show ?case
  proof (cases "Less (addQuantum (rmax cur) 1) (rmin r1)")
    case True
    from True p have IH: "sorted_wrt gap (coalesce_from r1 rs)"
      "\<forall>r \<in> set (coalesce_from r1 rs). range_canonical f r \<and> nonempty_range r \<and> min_le r1 r"
      using "2.IH"(1) by auto
    have "gap cur x" if "min_le r1 x" for x using that True q by (simp add: gap_def min_le_def)
    moreover have "min_le cur x" if "min_le r1 x" for x using that p by (auto intro: min_le_trans)
    moreover have "min_le cur cur" by (simp add: min_le_def)
    ultimately show ?thesis using True IH p(1,3) by simp
  next
    case False
    show ?thesis
    proof (cases "Less (rmax cur) (rmax r1)")
      case True
      let ?cur = "cur\<lparr>rmax := rmax r1\<rparr>"
      have "range_canonical f ?cur" using p(1,2) by (simp add: range_canonical_def)
      moreover have "\<forall>r \<in> set rs. range_canonical f r \<and> nonempty_range r" using p(2) by simp
      moreover have "nonempty_range ?cur"
        using p(3) True Less_num_int[OF sp(1,3)] by (simp add: nonempty_range_def)
      moreover have "sorted_wrt min_le (?cur # rs)" using p(4) by simp
      moreover have "\<forall>r \<in> set (?cur # rs). num_int (rmax r) < 2 ^ 64 - 1" using p(5) by simp
      ultimately have "sorted_wrt gap (coalesce_from ?cur rs) \<and>
          (\<forall>r \<in> set (coalesce_from ?cur rs). range_canonical f r \<and> nonempty_range r \<and> min_le ?cur r)"
        by (rule "2.IH"(2)[OF False True])
      with False True show ?thesis by simp
    next
      case notless: False
      have "sorted_wrt min_le (cur # rs)" "\<forall>r \<in> set rs. range_canonical f r \<and> nonempty_range r"
        "\<forall>r \<in> set (cur # rs). num_int (rmax r) < 2 ^ 64 - 1"
        using p(2,4,5) by simp_all
      then show ?thesis using "2.IH"(3)[OF False notless p(1) _ p(3)] False notless by simp
    qed
  qed
qed

lemma coalesce_gap:
  assumes "\<forall>r \<in> set rs. range_canonical f r \<and> nonempty_range r \<and> num_int (rmax r) < 2 ^ 64 - 1"
    and "sorted_wrt min_le rs"
  shows "sorted_wrt gap (coalesce rs)"
    and "\<forall>r \<in> set (coalesce rs). range_canonical f r \<and> nonempty_range r"
proof -
  have "sorted_wrt gap (coalesce rs) \<and> (\<forall>r \<in> set (coalesce rs). range_canonical f r \<and> nonempty_range r)"
  proof (cases rs rule: remdups_adj.cases)
    case (3 x y xs)
    then have e: "coalesce rs = coalesce_from x (y # xs)" by (simp add: coalesce_def)
    have "range_canonical f x" "nonempty_range x"
      "\<forall>r \<in> set (y # xs). range_canonical f r \<and> nonempty_range r"
      "\<forall>r \<in> set (x # y # xs). num_int (rmax r) < 2 ^ 64 - 1" "sorted_wrt min_le (x # y # xs)"
      using assms unfolding 3 by simp_all
    note c = coalesce_from_gap[OF this(1,3,2,5,4)]
    from c show ?thesis unfolding e by blast
  qed (use assms in \<open>auto simp: coalesce_def\<close>)
  then show "sorted_wrt gap (coalesce rs)"
    and "\<forall>r \<in> set (coalesce rs). range_canonical f r \<and> nonempty_range r" by auto
qed

subsection \<open>Containment\<close>

lemma dropWhile_Cons_mem: "dropWhile P xs = y # ys \<Longrightarrow> \<not> P y \<and> set (y # ys) \<subseteq> set xs"
  using hd_dropWhile[of P xs] set_dropWhileD[of _ P xs] by auto

lemma contains_from_sound:
  "\<forall>r \<in> set rs. range_prec f r \<Longrightarrow> \<forall>r \<in> set s. range_prec f r \<Longrightarrow> contains_from rs s \<Longrightarrow>
   ranges_ints s \<subseteq> ranges_ints rs"
proof (induction rs s rule: contains_from.induct)
  case (1 rs)
  then show ?case by simp
next
  case (2 rs ss s)
  from "2.prems"(3) obtain r rs' where dw: "dropWhile (\<lambda>r. Less (rmax r) (rmin ss)) rs = r # rs'"
    and nl: "\<not> Less (rmin ss) (rmin r)" "\<not> Less (rmax r) (rmax ss)" and c: "contains_from (r # rs') s"
    by (auto split: list.splits if_splits)
  note m = dropWhile_Cons_mem[OF dw]
  have pr: "range_prec f r" "range_prec f ss" using m "2.prems" by auto
  then have "range_ints ss \<subseteq> range_ints r"
    using num_int_if_not_Less[OF _ _ nl(1), of f] num_int_if_not_Less[OF _ _ nl(2), of f]
    by (auto simp: range_prec_def range_ints_def)
  moreover have "ranges_ints (r # rs') \<subseteq> ranges_ints rs" using m by (auto simp: ranges_ints_def)
  moreover have "ranges_ints s \<subseteq> ranges_ints (r # rs')"
    using "2.IH"[OF dw] m nl c "2.prems" by auto
  ultimately show ?case by auto
qed

lemma Contains_sound:
  assumes "\<forall>r \<in> set rs. range_prec f r" "\<forall>r \<in> set s. range_prec f r" "Contains rs s" "rs \<noteq> []"
  shows "ranges_ints s \<subseteq> ranges_ints rs"
  using assms contains_from_sound by (cases "s = []") (auto simp: Contains_def)

lemma contains_from_complete:
  "\<forall>r \<in> set rs. range_canonical f r \<and> nonempty_range r \<Longrightarrow> sorted_wrt gap rs \<Longrightarrow>
   \<forall>r \<in> set s. range_canonical f r \<and> nonempty_range r \<Longrightarrow> sorted_wrt min_le s \<Longrightarrow>
   ranges_ints s \<subseteq> ranges_ints rs \<Longrightarrow> contains_from rs s"
proof (induction rs s rule: contains_from.induct)
  case (1 rs)
  then show ?case by simp
next
  case (2 rs ss s)
  note p = "2.prems"
  let ?P = "\<lambda>r. Less (rmax r) (rmin ss)"
  have css: "range_canonical f ss" and ness: "nonempty_range ss" using p(3) by auto
  have P: "?P r \<longleftrightarrow> num_int (rmax r) < num_int (rmin ss)" if "r \<in> set rs" for r
    using that p(1) css by (auto simp: range_canonical_def Less_num_int[of f])
  have "num_int (rmin ss) \<in> ranges_ints rs" using p(5) ness by (auto simp: range_ints_def nonempty_range_def)
  then obtain r where r: "r \<in> set rs" "num_int (rmin r) \<le> num_int (rmin ss)" "num_int (rmin ss) \<le> num_int (rmax r)"
    by (auto simp: ranges_ints_def range_ints_def)
  define ds where "ds = takeWhile ?P rs"
  have "\<exists>x \<in> set rs. \<not> ?P x" using r P by (intro bexI[of _ r]) auto
  then obtain r0 rs' where dw: "dropWhile ?P rs = r0 # rs'"
    by (metis dropWhile_eq_Nil_conv neq_Nil_conv)
  have rs: "rs = ds @ r0 # rs'" using dw takeWhile_dropWhile_id[of ?P rs] by (simp add: ds_def)
  have ds: "num_int (rmax d) < num_int (rmin ss)" if "d \<in> set ds" for d
    using that P by (auto simp: ds_def dest: set_takeWhileD)
  have "num_int (rmin ss) \<le> num_int (rmax r0)"
    using dropWhile_Cons_mem[OF dw] P[of r0] by (auto simp: rs)
  moreover have "r = r0"
    using r ds calculation p(2) rs by (fastforce simp: sorted_wrt_append gap_def)
  ultimately have r0: "num_int (rmin r0) \<le> num_int (rmin ss)" "num_int (rmin ss) \<le> num_int (rmax r0)"
    using r by auto
  have mx: "num_int (rmax ss) \<le> num_int (rmax r0)"
  proof (rule ccontr)
    assume "\<not> ?thesis"
    then have "num_int (rmax r0) + 1 \<in> range_ints ss" using r0 by (auto simp: range_ints_def)
    then have "num_int (rmax r0) + 1 \<in> ranges_ints rs" using p(5) by auto
    then obtain r2 where r2: "r2 \<in> set rs" "num_int (rmin r2) \<le> num_int (rmax r0) + 1"
      "num_int (rmax r0) + 1 \<le> num_int (rmax r2)"
      by (auto simp: ranges_ints_def range_ints_def)
    then show False using p(2) rs ds r0 by (fastforce simp: sorted_wrt_append gap_def)
  qed
  have "ranges_ints s \<subseteq> ranges_ints (r0 # rs')"
  proof
    fix x assume x: "x \<in> ranges_ints s"
    then have "num_int (rmin ss) \<le> x" using p(4) by (auto simp: ranges_ints_def range_ints_def min_le_def)
    moreover have "x \<in> ranges_ints rs" using x p(5) by auto
    ultimately show "x \<in> ranges_ints (r0 # rs')" using ds
      by (fastforce simp: rs ranges_ints_def range_ints_def)
  qed
  moreover have "sorted_wrt gap (r0 # rs')" "\<forall>r \<in> set (r0 # rs'). range_canonical f r \<and> nonempty_range r"
    using p(1,2) by (auto simp: rs sorted_wrt_append)
  moreover have "\<not> Less (rmin ss) (rmin r0)" "\<not> Less (rmax r0) (rmax ss)"
    using r0(1) mx css p(1) rs by (auto simp: range_canonical_def Less_num_int[of f])
  ultimately show ?case using "2.IH"[OF dw] p(3,4) dw by auto
qed


subsection \<open>Parsing a range list\<close>

lemma ParseInt_prec: "ParseInt s = Inr n \<Longrightarrow> prec 0 n"
  by (auto simp: ParseInt_def prec_def Let_def split: if_splits sum.splits)

lemma ParseDecimal_prec: "ParseDecimal s f = Inr n \<Longrightarrow> prec f n"
  by (auto simp: ParseDecimal_def decimalValueFromString_def prec_def Let_def MaxFractionDigits_def
      word_le_nat_alt linorder_not_less split: if_splits sum.splits option.splits prod.splits)

lemma parseNumber_prec:
  "parseNumber y decimal f s = Inr n \<Longrightarrow> decimal \<or> f = 0 \<Longrightarrow> unat f \<le> 18 \<Longrightarrow> prec f n"
  by (auto simp: parseNumber_def prec_def dest!: ParseInt_prec ParseDecimal_prec
      split: if_splits sum.splits)

lemma parse_part_prec:
  assumes "parse_part y decimal f s = Inr r" "decimal \<or> f = 0" "unat f \<le> 18"
  shows "range_prec f r \<and> nonempty_range r"
proof -
  obtain mn mx where r: "r = mk_range mn mx" and mn: "prec f mn" and mx: "prec f mx" and le: "\<not> Less mx mn"
    using assms by (auto simp: parse_part_def Let_def dest: parseNumber_prec
        split: sum.splits list.splits if_splits)
  from num_int_if_not_Less[OF mx mn le] show ?thesis
    by (simp add: r mn mx range_prec_def nonempty_range_def)
qed

lemma parse_parts_prec:
  assumes "decimal \<or> f = 0" "unat f \<le> 18"
  shows "parse_parts y decimal f ss = Inr rs \<Longrightarrow>
    length rs = length ss \<and> (\<forall>r \<in> set rs. range_prec f r \<and> nonempty_range r)"
proof (induction ss arbitrary: rs)
  case (Cons a ss)
  then obtain r rs' where "parse_part y decimal f a = Inr r" "parse_parts y decimal f ss = Inr rs'"
    "rs = r # rs'" by (auto split: sum.splits)
  with Cons.IH parse_part_prec[OF _ assms] show ?case by auto
qed simp

lemma coalesce_from_nonempty:
  "range_prec f cur \<Longrightarrow> \<forall>r \<in> set rs. range_prec f r \<and> nonempty_range r \<Longrightarrow> nonempty_range cur \<Longrightarrow>
   \<forall>r \<in> set (coalesce_from cur rs). nonempty_range r"
proof (induction cur rs rule: coalesce_from.induct)
  case (2 cur r1 rs)
  have "nonempty_range (cur\<lparr>rmax := rmax r1\<rparr>)" if "Less (rmax cur) (rmax r1)"
    using that "2.prems" num_int_if_Less[of f "rmax cur" "rmax r1"]
    by (auto simp: nonempty_range_def range_prec_def)
  moreover have "range_prec f (cur\<lparr>rmax := rmax r1\<rparr>)" using "2.prems" by (auto simp: range_prec_def)
  ultimately show ?case using 2 by auto
qed simp

lemma coalesce_nonempty:
  "\<forall>r \<in> set rs. range_prec f r \<and> nonempty_range r \<Longrightarrow> \<forall>r \<in> set (coalesce rs). nonempty_range r"
  using coalesce_from_nonempty[of f "hd rs" "tl rs"]
  by (cases rs rule: remdups_adj.cases) (auto simp: coalesce_def)

lemma Validate_sorted: "Validate r = None \<Longrightarrow> sorted_wrt ranges.le r"
  by (auto simp: Validate_def ranges.is_sorted_iff[symmetric] split: if_splits)

lemma parseChildRanges_spec:
  assumes "\<forall>r \<in> set y. range_prec f r" "decimal \<or> f = 0" "unat f \<le> 18"
    and "parseChildRanges y s decimal f = Inr rs"
  shows "rs \<noteq> []" "\<forall>r \<in> set rs. range_prec f r \<and> nonempty_range r" "sorted_wrt min_le rs"
    "y \<noteq> [] \<longrightarrow> ranges_ints rs \<subseteq> ranges_ints y"
    "\<exists>ps. parse_parts y decimal f (go_split s ''|'') = Inr ps \<and> ranges_ints rs = ranges_ints ps"
proof -
  obtain ps where ps: "parse_parts y decimal f (go_split s ''|'') = Inr ps"
    and rs: "rs = coalesce (Sort ps)" and c: "Contains y rs" and v: "Validate rs = None"
    using assms(4) by (auto simp: parseChildRanges_def Let_def split: sum.splits if_splits option.splits)
  have pp: "length ps = length (go_split s ''|'')" "\<forall>r \<in> set ps. range_prec f r \<and> nonempty_range r"
    using parse_parts_prec[OF assms(2,3) ps] by auto
  have sp: "\<forall>r \<in> set (Sort ps). range_prec f r \<and> nonempty_range r" using pp by (simp add: Sort_def)
  have srt: "sorted_wrt min_le (Sort ps)"
    using sorted_min_le[of "Sort ps" f] sp ranges.sorted_sort by (simp add: Sort_def)
  have "ps \<noteq> []" using pp(1) by auto
  then show "rs \<noteq> []" by (simp add: rs Sort_def) (metis length_go_sort length_0_conv)
  show rp: "\<forall>r \<in> set rs. range_prec f r \<and> nonempty_range r"
    using coalesce_prec[of "Sort ps" f] coalesce_nonempty[of "Sort ps" f] sp by (auto simp: rs)
  show "sorted_wrt min_le rs"
    using sorted_min_le[of rs f] rp Validate_sorted[OF v] by blast
  show "y \<noteq> [] \<longrightarrow> ranges_ints rs \<subseteq> ranges_ints y"
    using Contains_sound[of y f rs] assms(1) rp c by blast
  have "ranges_ints rs = ranges_ints (Sort ps)"
    using coalesce_ints[of "Sort ps" f] sp srt by (simp add: rs)
  then show "\<exists>ps. parse_parts y decimal f (go_split s ''|'') = Inr ps \<and> ranges_ints rs = ranges_ints ps"
    using ps by (auto simp: ranges_ints_def Sort_def)
qed

subsection \<open>Printing a range list and parsing it back\<close>

lemma coalesce_from_id:
  "sorted_wrt gap (cur # rs) \<Longrightarrow> \<forall>r \<in> set (cur # rs). range_canonical f r \<Longrightarrow>
   coalesce_from cur rs = cur # rs"
proof (induction rs arbitrary: cur)
  case Nil
  then show ?case by simp
next
  case (Cons r1 rs)
  have sp: "same_precision f (rmax cur)" "same_precision f (rmin r1)"
    using Cons.prems by (auto simp: range_canonical_def)
  have g: "num_int (rmax cur) + 1 < num_int (rmin r1)" using Cons.prems by (simp add: gap_def)
  then have lt: "num_int (rmax cur) < 2 ^ 64 - 1" using num_int_bounds(2)[of "rmin r1"] by linarith
  have "Less (addQuantum (rmax cur) 1) (rmin r1)"
    using Less_num_int[OF addQuantum_one(1)[OF sp(1) lt] sp(2)] addQuantum_one(2)[OF sp(1) lt] g by simp
  with Cons show ?case by simp
qed

lemma coalesce_id:
  assumes "sorted_wrt gap rs" "\<forall>r \<in> set rs. range_canonical f r"
  shows "coalesce rs = rs"
  using coalesce_from_id[of "hd rs" "tl rs" f] assms
  by (cases rs rule: remdups_adj.cases) (auto simp: coalesce_def)

lemma gap_sorted_le:
  assumes "sorted_wrt gap rs" "\<forall>r \<in> set rs. range_canonical f r \<and> nonempty_range r"
  shows "sorted_wrt ranges.le rs"
proof (rule sorted_wrt_mono_rel[OF _ assms(1)])
  fix x y assume xy: "x \<in> set rs" "y \<in> set rs" "gap x y"
  then have "num_int (rmin x) < num_int (rmin y)"
    using assms(2) by (force simp: gap_def nonempty_range_def)
  then show "ranges.le x y"
    using assms(2) xy by (auto simp: ranges.le_def range_less_def range_canonical_def Less_num_int[of f])
qed

lemma Validate_gap:
  assumes "sorted_wrt gap rs" "\<forall>r \<in> set rs. range_canonical f r \<and> nonempty_range r"
  shows "Validate rs = None"
proof -
  have "go_is_sorted range_less rs"
    using gap_sorted_le[OF assms] by (simp add: ranges.is_sorted_iff)
  moreover have "Valid p" if "p \<in> set rs" for p
    using that assms(2) by (auto simp: Valid_def range_canonical_def Less_num_int[of f] nonempty_range_def)
  moreover have "\<not> list_ex (\<lambda>n. Less (rmin n) (rmax p)) rest" if "rs = p # rest" for p rest
    using that assms by (auto simp: list_ex_iff range_canonical_def Less_num_int[of f] gap_def)
  ultimately show ?thesis by (auto simp: Validate_def split: list.split)
qed

text \<open>The text of one integer range.\<close>

lemma integer_text:
  assumes "FractionDigits n = 0"
  shows "\<exists>t. number_string n = Some t \<and> ParseInt t = Inr n
    \<and> (\<forall>c \<in> set t. go_graphic c) \<and> CHR ''.'' \<notin> set t \<and> CHR ''|'' \<notin> set t \<and> t \<noteq> ''max'' \<and> t \<noteq> ''min''"
proof -
  let ?t = "sign_string n @ go_digits (unat (Value n))"
  have bar: "CHR ''|'' \<notin> set (go_digits k)" and m: "CHR ''m'' \<notin> set (go_digits k)" for k
    by (auto dest!: go_digits_chars dest: sym simp: digit_char_eq byte_def)
  have "number_string n = Some ?t" by (rule number_string_integer[OF assms])
  moreover have "ParseInt ?t = Inr n"
    using ParseInt_number_string[OF assms] calculation by simp
  moreover have "\<forall>c \<in> set ?t. go_graphic c" by (auto simp: sign_string_def go_digits_graphic)
  moreover have "CHR ''m'' \<notin> set ?t" using m by (auto simp: sign_string_def)
  ultimately show ?thesis
    using bar[of "unat (Value n)"] point_notin_digits by (force simp: sign_string_def)
qed

lemma parseNumber_text:
  assumes "ParseInt t = Inr n" "t \<noteq> ''max''" "t \<noteq> ''min''" "\<forall>c \<in> set t. go_graphic c"
  shows "parseNumber y False 0 (go_trim_space t) = Inr n"
  using assms by (simp add: parseNumber_def go_trim_space_graphic)

lemma range_text:
  assumes "range_canonical 0 r" "nonempty_range r"
  shows "\<exists>t. range_string r = Some t \<and> parse_part y False 0 t = Inr r \<and> CHR ''|'' \<notin> set t"
proof -
  obtain a where a: "number_string (rmin r) = Some a" "ParseInt a = Inr (rmin r)"
    "\<forall>c \<in> set a. go_graphic c" "CHR ''.'' \<notin> set a" "CHR ''|'' \<notin> set a" "a \<noteq> ''max''" "a \<noteq> ''min''"
    using integer_text[of "rmin r"] assms(1) by (auto simp: range_canonical_def same_precision_def)
  obtain b where b: "number_string (rmax r) = Some b" "ParseInt b = Inr (rmax r)"
    "\<forall>c \<in> set b. go_graphic c" "CHR ''.'' \<notin> set b" "CHR ''|'' \<notin> set b" "b \<noteq> ''max''" "b \<noteq> ''min''"
    using integer_text[of "rmax r"] assms(1) by (auto simp: range_canonical_def same_precision_def)
  note na = parseNumber_text[OF a(2,6,7,3), of y] and nb = parseNumber_text[OF b(2,6,7,3), of y]
  have le: "\<not> Less (rmax r) (rmin r)"
    using assms by (auto simp: range_canonical_def nonempty_range_def Less_num_int[of 0])
  have r: "mk_range (rmin r) (rmax r) = r" by (simp add: mk_range_def)
  show ?thesis
  proof (cases "Equal (rmin r) (rmax r)")
    case True
    then have "rmin r = rmax r"
      using assms num_int_inject[of 0 "rmin r" "rmax r"]
      by (auto simp: Equal_def range_canonical_def Less_num_int[of 0])
    with True r na a le show ?thesis
      by (auto simp: range_string_def parse_part_def go_split_none)
  next
    case False
    then have "range_string r = Some (a @ ''..'' @ b)" using a b by (simp add: range_string_def)
    moreover have "go_split (a @ ''..'' @ b) ''..'' = [a, b]"
      using go_split_cons[of "''..''" a b] go_split_none[of "''..''" b] a b by simp
    ultimately show ?thesis using na nb le r a b
      by (auto simp: parse_part_def)
  qed
qed

lemma ranges_texts:
  assumes "\<forall>r \<in> set rs. range_canonical 0 r \<and> nonempty_range r"
  shows "\<exists>ts. range_strings rs = Some ts \<and> parse_parts y False 0 ts = Inr rs
    \<and> (\<forall>t \<in> set ts. CHR ''|'' \<notin> set t) \<and> length ts = length rs"
  using assms
proof (induction rs)
  case Nil
  then show ?case by simp
next
  case (Cons r rs)
  then obtain ts t where "range_strings rs = Some ts" "parse_parts y False 0 ts = Inr rs"
    "\<forall>t \<in> set ts. CHR ''|'' \<notin> set t" "length ts = length rs"
    "range_string r = Some t" "parse_part y False 0 t = Inr r" "CHR ''|'' \<notin> set t"
    using range_text[of r y] by auto
  then show ?case by auto
qed

lemma ParseRangesInt_ranges_string:
  assumes "rs \<noteq> []" "sorted_wrt gap rs" "\<forall>r \<in> set rs. range_canonical 0 r \<and> nonempty_range r"
  shows "map_option ParseRangesInt (ranges_string rs) = Some (Inr rs)"
proof -
  obtain ts where ts: "range_strings rs = Some ts" "parse_parts [] False 0 ts = Inr rs"
    "\<forall>t \<in> set ts. CHR ''|'' \<notin> set t" "length ts = length rs"
    using ranges_texts[OF assms(3)] by blast
  have "go_split (go_join ts ''|'') ''|'' = ts"
    by (rule go_split_join) (use ts assms(1) in auto)
  moreover have "Sort rs = rs"
    using gap_sorted_le[OF assms(2,3)] by (simp add: Sort_def ranges.sort_sorted)
  moreover have "coalesce rs = rs" using coalesce_id[of rs 0] assms by blast
  ultimately show ?thesis using ts Validate_gap[OF assms(2,3)]
    by (simp add: ranges_string_def ParseRangesInt_def parseChildRanges_def Contains_def)
qed


text \<open>Evaluating the parser on a concrete range argument.\<close>

lemmas range_eval = parseChildRanges_def parse_part_def parseNumber_def ParseInt_def go_split_def
  go_trim_space_graphic go_graphic_def byte_def go_parse_uint_def digit_val_def lower_def
  coalesce_def Sort_def Contains_def Validate_def range_less_def Less_def Let_def
  Trunc_def frac_def pow10_eq addQuantum_def mk_range_def mk_number_def FromUint_def Valid_def

subsection \<open>Properties\<close>

text \<open>C31: for coalesced lists (sorted, with gaps, one precision) the single pass of
  \<open>Contains\<close> decides inclusion of the sets of admitted integers; the empty receiver stands for
  min..max.\<close>

theorem contains_iff_subset:
  assumes "\<forall>r \<in> set rs. range_canonical f r \<and> nonempty_range r" "sorted_wrt gap rs"
    and "\<forall>r \<in> set s. range_canonical f r \<and> nonempty_range r" "sorted_wrt gap s"
  shows "Contains rs s \<longleftrightarrow> rs = [] \<or> ranges_ints s \<subseteq> ranges_ints rs"
proof -
  have pr: "\<forall>r \<in> set rs. range_prec f r" "\<forall>r \<in> set s. range_prec f r"
    using assms by (auto intro: range_canonical_prec)
  have "sorted_wrt min_le s"
    using sorted_min_le[OF pr(2)] gap_sorted_le[OF assms(4,3)] by blast
  from contains_from_complete[OF assms(1-3) this] Contains_sound[OF pr]
  show ?thesis by (auto simp: Contains_def)
qed

lemma contains_iff_subset_witness:
  "Contains [mk_range (FromInt (- 5)) (FromInt 3), mk_range (FromInt 7) (FromInt 9)]
     [mk_range (FromInt 1) (FromInt 2), mk_range (FromInt 8) (FromInt 8)] \<longleftrightarrow>
   [mk_range (FromInt (- 5)) (FromInt 3), mk_range (FromInt 7) (FromInt 9)] = [] \<or>
   ranges_ints [mk_range (FromInt 1) (FromInt 2), mk_range (FromInt 8) (FromInt 8)] \<subseteq>
   ranges_ints [mk_range (FromInt (- 5)) (FromInt 3), mk_range (FromInt 7) (FromInt 9)]"
  by (rule contains_iff_subset[of _ 0])
    (simp_all add: FromInt_def range_canonical_def same_precision_def canonical_def nonempty_range_def
      num_int_def gap_def)

text \<open>C32: \<open>coalesce\<close> keeps the set of admitted integers of a sorted list, and, when no
  bound is the largest 64-bit number (where \<open>addQuantum\<close> wraps), leaves a gap of at least one
  integer between any two ranges and no empty range.\<close>

theorem coalesce_normalises:
  assumes "\<forall>r \<in> set rs. range_canonical f r \<and> nonempty_range r" "sorted_wrt min_le rs"
  shows "ranges_ints (coalesce rs) = ranges_ints rs \<and>
    ((\<forall>r \<in> set rs. num_int (rmax r) < 2 ^ 64 - 1) \<longrightarrow>
     sorted_wrt gap (coalesce rs) \<and> (\<forall>r \<in> set (coalesce rs). range_canonical f r \<and> nonempty_range r))"
proof -
  have "\<forall>r \<in> set rs. range_prec f r" using assms(1) by (auto intro: range_canonical_prec)
  note i = coalesce_ints[OF this assms(2)]
  have "sorted_wrt gap (coalesce rs) \<and> (\<forall>r \<in> set (coalesce rs). range_canonical f r \<and> nonempty_range r)"
    if "\<forall>r \<in> set rs. num_int (rmax r) < 2 ^ 64 - 1"
  proof -
    have "\<forall>r \<in> set rs. range_canonical f r \<and> nonempty_range r \<and> num_int (rmax r) < 2 ^ 64 - 1"
      using assms(1) that by blast
    from coalesce_gap[OF this assms(2)] show ?thesis by blast
  qed
  with i show ?thesis by blast
qed

lemma coalesce_normalises_witness:
  "ranges_ints (coalesce [mk_range (FromInt 1) (FromInt 3), mk_range (FromInt 4) (FromInt 9), mk_range (FromInt 11) (FromInt 12)])
     = {1..3} \<union> {4..9} \<union> {11..12} \<and>
   sorted_wrt gap (coalesce [mk_range (FromInt 1) (FromInt 3), mk_range (FromInt 4) (FromInt 9), mk_range (FromInt 11) (FromInt 12)])"
  using coalesce_normalises[of "[mk_range (FromInt 1) (FromInt 3), mk_range (FromInt 4) (FromInt 9),
    mk_range (FromInt 11) (FromInt 12)]" 0]
  by (simp add: FromInt_def range_canonical_def same_precision_def canonical_def nonempty_range_def
      num_int_def min_le_def range_ints_def Un_assoc)

text \<open>C19: a range argument that \<open>parseChildRanges\<close> accepts is not empty, is sorted, has only
  non-empty ranges of the requested precision, admits exactly the integers of the parts the
  argument lists, and admits nothing the parent range excludes.\<close>

theorem parse_child_ranges:
  assumes "\<forall>r \<in> set y. range_prec f r" "decimal \<or> f = 0" "unat f \<le> 18"
    and "parseChildRanges y s decimal f = Inr rs"
  shows "rs \<noteq> [] \<and> sorted_wrt min_le rs \<and> (\<forall>r \<in> set rs. range_prec f r \<and> nonempty_range r)
    \<and> (\<exists>ps. parse_parts y decimal f (go_split s ''|'') = Inr ps \<and> ranges_ints rs = ranges_ints ps)
    \<and> (y \<noteq> [] \<longrightarrow> ranges_ints rs \<subseteq> ranges_ints y)"
  using parseChildRanges_spec[OF assms] by blast

lemma parse_child_ranges_witness:
  "\<exists>ps. parse_parts [mk_range (FromUint 0) (FromUint 20)] False 0 [''5..max'', ''1'', ''2''] = Inr ps \<and>
     ranges_ints [mk_range (FromUint 1) (FromUint 2), mk_range (FromUint 5) (FromUint 20)] = ranges_ints ps"
proof -
  let ?y = "[mk_range (FromUint 0) (FromUint 20)]" and ?s = "''5..max|1|2''"
  let ?rs = "[mk_range (FromUint 1) (FromUint 2), mk_range (FromUint 5) (FromUint 20)]"
  have y: "\<forall>r \<in> set ?y. range_prec 0 r" by (simp add: range_prec_def prec_def FromUint_def)
  have p: "parseChildRanges ?y ?s False 0 = Inr ?rs" by (simp add: range_eval)
  have sp: "go_split ?s ''|'' = [''5..max'', ''1'', ''2'']" by (simp add: go_split_def)
  have f: "False \<or> (0 :: 8 word) = 0" "unat (0 :: 8 word) \<le> 18" by simp_all
  show ?thesis using parse_child_ranges[OF y f p] unfolding sp by blast
qed

text \<open>C22: the text \<open>YangRange.String\<close> prints for a coalesced integer range list parses
  back, with \<open>ParseRangesInt\<close>, to the same list.\<close>

theorem ranges_print_parse:
  assumes "rs \<noteq> []" "sorted_wrt gap rs" "\<forall>r \<in> set rs. range_canonical 0 r \<and> nonempty_range r"
  shows "map_option ParseRangesInt (ranges_string rs) = Some (Inr rs)"
  using assms by (rule ParseRangesInt_ranges_string)

lemma ranges_print_parse_witness:
  "map_option ParseRangesInt (ranges_string [mk_range (FromInt (- 4)) (FromInt 4), mk_range (FromInt 9) (FromInt 9)])
   = Some (Inr [mk_range (FromInt (- 4)) (FromInt 4), mk_range (FromInt 9) (FromInt 9)])"
  by (rule ranges_print_parse)
    (simp_all add: FromInt_def range_canonical_def same_precision_def canonical_def nonempty_range_def
      num_int_def gap_def)

text \<open>The largest 64-bit number wraps to zero in \<open>addQuantum\<close>, so a range that ends there
  absorbs nothing after it; and \<open>Validate\<close> compares every range with the first one only, so
  the overlap that is left is not reported.\<close>

lemma overlapping_ranges_accepted:
  "ParseRangesInt ''1..2|5..18446744073709551615|7..8'' =
     Inr [mk_range (FromUint 1) (FromUint 2), mk_range (FromUint 5) (FromUint 18446744073709551615),
          mk_range (FromUint 7) (FromUint 8)]"
  by (simp add: ParseRangesInt_def range_eval)

lemma Validate_misses_overlap:
  "Validate [mk_range (FromUint 0) (FromUint 1), mk_range (FromUint 2) (FromUint 9),
     mk_range (FromUint 5) (FromUint 6)] = None"
  by (simp add: range_eval)

lemma default_ranges:
  "map (\<lambda>(ty, _). default_range ty) default_range_texts =
   map (\<lambda>(lo, hi). Some [mk_range (FromInt lo) (FromInt hi)])
     [(- (2 ^ 7), 2 ^ 7 - 1), (- (2 ^ 15), 2 ^ 15 - 1), (- (2 ^ 31), 2 ^ 31 - 1), (MinInt64, MaxInt64),
      (0, 2 ^ 8 - 1), (0, 2 ^ 16 - 1), (0, 2 ^ 32 - 1), (0, 2 ^ 64 - 1)]"
  by (simp add: default_range_texts_def default_range_def mustParseRangesInt_def ParseRangesInt_def
      FromInt_def MaxInt64_def MinInt64_def range_eval)

end
