(* ===== verification/Enums.thy ===== *)
theory Enums
  imports Numbers "HOL-Library.AList"
begin

text \<open>
  \<open>EnumType\<close> of \<open>pkg/yang/types_builtin.go\<close>, used for enumerations and bits. The two Go
  maps are association lists with distinct keys (the newest name is last in \<open>toInt\<close>); an
  operation that mutates its receiver returns the new value, and \<open>Inl\<close> leaves it unchanged.
  Every stored number lies between \<open>- 2 ^ 31\<close> and \<open>2 ^ 32 - 1\<close>, so that the 64-bit sum
  \<open>last + 1\<close> is the sum of integers.
\<close>

record enum_type =
  et_last :: int
  et_min :: int
  et_max :: int
  et_unique :: bool
  et_toString :: "(int \<times> string) list"
  et_toInt :: "(string \<times> int) list"

datatype enum_error =
    AlreadyAssigned string
  | ConflictOn string string int
  | TooSmall int string int
  | TooLarge int string int
  | MustSpecify string

definition NewEnumType :: enum_type where
  "NewEnumType =
     \<lparr>et_last = - 1, et_min = MinEnum, et_max = MaxEnum, et_unique = True, et_toString = [], et_toInt = []\<rparr>"

definition NewBitfield :: enum_type where
  "NewBitfield =
     \<lparr>et_last = - 1, et_min = 0, et_max = MaxBitfieldSize - 1, et_unique = False, et_toString = [], et_toInt = []\<rparr>"

definition enum_Set :: "enum_type \<Rightarrow> string \<Rightarrow> int \<Rightarrow> enum_error + enum_type" where
  "enum_Set e name v =
     (if map_of (et_toInt e) name \<noteq> None then Inl (AlreadyAssigned name)
      else case (et_unique e, map_of (et_toString e) v) of
             (True, Some oname) \<Rightarrow> Inl (ConflictOn name oname v)
           | _ \<Rightarrow>
               if v < et_min e then Inl (TooSmall v name (et_min e))
               else if et_max e < v then Inl (TooLarge v name (et_max e))
               else Inr (e\<lparr>et_toString := AList.update v name (et_toString e),
                           et_toInt := AList.update name v (et_toInt e),
                           et_last := (if et_last e \<le> v then v else et_last e)\<rparr>))"

definition enum_SetNext :: "enum_type \<Rightarrow> string \<Rightarrow> enum_error + enum_type" where
  "enum_SetNext e name =
     (if et_last e = MaxEnum then Inl (MustSpecify name)
      else enum_Set e name (et_last e + 1))"

definition enum_Name :: "enum_type \<Rightarrow> int \<Rightarrow> string" where
  "enum_Name e v = (case map_of (et_toString e) v of None \<Rightarrow> [] | Some n \<Rightarrow> n)"

definition enum_Value :: "enum_type \<Rightarrow> string \<Rightarrow> int" where
  "enum_Value e name = (case map_of (et_toInt e) name of None \<Rightarrow> 0 | Some v \<Rightarrow> v)"

definition enum_IsDefined :: "enum_type \<Rightarrow> string \<Rightarrow> bool" where
  "enum_IsDefined e name = (map_of (et_toInt e) name \<noteq> None)"

definition enum_Names :: "enum_type \<Rightarrow> string list" where
  "enum_Names e = go_sort string_less (map fst (et_toInt e))"

definition enum_Values :: "enum_type \<Rightarrow> int list" where
  "enum_Values e = go_sort (<) (map snd (et_toInt e))"

definition enum_NameMap :: "enum_type \<Rightarrow> (string \<times> int) list" where
  "enum_NameMap e = fold (\<lambda>(name, v) m. AList.update name v m) (et_toInt e) []"

definition enum_ValueMap :: "enum_type \<Rightarrow> (int \<times> string) list" where
  "enum_ValueMap e = fold (\<lambda>(v, name) m. AList.update v name m) (et_toString e) []"

subsection \<open>Sequences of operations\<close>

datatype enum_op = OpSet string int | OpNext string

fun enum_apply :: "enum_op \<Rightarrow> enum_type \<Rightarrow> enum_error + enum_type" where
  "enum_apply (OpSet name v) e = enum_Set e name v"
| "enum_apply (OpNext name) e = enum_SetNext e name"

fun enum_run :: "enum_op list \<Rightarrow> enum_type \<Rightarrow> enum_type" where
  "enum_run [] e = e"
| "enum_run (c # cs) e = enum_run cs (case enum_apply c e of Inl _ \<Rightarrow> e | Inr e' \<Rightarrow> e')"

subsection \<open>The invariant\<close>

definition enum_ok :: "enum_type \<Rightarrow> bool" where
  "enum_ok e \<longleftrightarrow>
     distinct (map fst (et_toInt e)) \<and> distinct (map fst (et_toString e)) \<and>
     - 1 \<le> et_last e \<and> et_last e \<le> et_max e \<and>
     (\<forall>name v. map_of (et_toInt e) name = Some v \<longrightarrow> et_min e \<le> v \<and> v \<le> et_last e) \<and>
     (\<forall>v name. map_of (et_toString e) v = Some name \<longrightarrow> map_of (et_toInt e) name = Some v) \<and>
     (\<forall>name v. map_of (et_toInt e) name = Some v \<longrightarrow> map_of (et_toString e) v \<noteq> None) \<and>
     (et_unique e \<longrightarrow> (\<forall>name v. map_of (et_toInt e) name = Some v \<longrightarrow> map_of (et_toString e) v = Some name))"

lemma enum_okD:
  assumes "enum_ok e"
  shows "distinct (map fst (et_toInt e))" "distinct (map fst (et_toString e))"
    "- 1 \<le> et_last e" "et_last e \<le> et_max e"
    "map_of (et_toInt e) name = Some v \<Longrightarrow> et_min e \<le> v \<and> v \<le> et_last e"
    "map_of (et_toString e) v = Some name \<Longrightarrow> map_of (et_toInt e) name = Some v"
    "map_of (et_toInt e) name = Some v \<Longrightarrow> map_of (et_toString e) v \<noteq> None"
    "et_unique e \<Longrightarrow> map_of (et_toInt e) name = Some v \<Longrightarrow> map_of (et_toString e) v = Some name"
  using assms unfolding enum_ok_def by blast+

lemma enum_ok_new: "enum_ok NewEnumType" "enum_ok NewBitfield"
  by (simp_all add: enum_ok_def NewEnumType_def NewBitfield_def MinEnum_def MaxEnum_def MaxBitfieldSize_def)

text \<open>What a successful \<open>Set\<close> does.\<close>

lemma enum_Set_Inr:
  "enum_Set e name v = Inr e' \<longleftrightarrow>
     map_of (et_toInt e) name = None \<and> (et_unique e \<longrightarrow> map_of (et_toString e) v = None) \<and>
     et_min e \<le> v \<and> v \<le> et_max e \<and>
     e' = e\<lparr>et_toString := AList.update v name (et_toString e),
            et_toInt := AList.update name v (et_toInt e),
            et_last := max (et_last e) v\<rparr>"
  by (auto simp: enum_Set_def max_def split: bool.splits option.splits)

lemma enum_ok_Set:
  assumes "enum_ok e" "enum_Set e name v = Inr e'"
  shows "enum_ok e'"
proof -
  note s = assms(2)[unfolded enum_Set_Inr]
  have ne: "n \<noteq> name" if "map_of (et_toInt e) n = Some w" for n w using that s by auto
  have "distinct (map fst (et_toInt e'))" "distinct (map fst (et_toString e'))"
    using s enum_okD(1,2)[OF assms(1)] by (simp_all add: distinct_update)
  moreover have "- 1 \<le> et_last e'" "et_last e' \<le> et_max e'"
    using s enum_okD(3,4)[OF assms(1)] by auto
  moreover have "et_min e' \<le> w \<and> w \<le> et_last e'" if "map_of (et_toInt e') n = Some w" for n w
    using that s enum_okD(5)[OF assms(1), of n w] by (auto simp: update_conv' split: if_splits)
  moreover have "map_of (et_toInt e') n = Some w" if "map_of (et_toString e') w = Some n" for n w
    using that s ne[of n w] enum_okD(6)[OF assms(1), of w n] by (auto simp: update_conv' split: if_splits)
  moreover have "map_of (et_toString e') w \<noteq> None" if "map_of (et_toInt e') n = Some w" for n w
    using that s enum_okD(7)[OF assms(1), of n w] by (auto simp: update_conv' split: if_splits)
  moreover have "map_of (et_toString e') w = Some n"
    if "et_unique e'" "map_of (et_toInt e') n = Some w" for n w
    using that s enum_okD(8)[OF assms(1), of n w] by (auto simp: update_conv' split: if_splits)
  ultimately show ?thesis unfolding enum_ok_def by blast
qed

lemma enum_Set_frame:
  "enum_Set e name v = Inr e' \<Longrightarrow>
   et_min e' = et_min e \<and> et_max e' = et_max e \<and> et_unique e' = et_unique e"
  by (auto simp: enum_Set_Inr)

lemma enum_apply_ok:
  "enum_ok e \<Longrightarrow> enum_apply c e = Inr e' \<Longrightarrow>
   enum_ok e' \<and> et_min e' = et_min e \<and> et_max e' = et_max e \<and> et_unique e' = et_unique e"
  by (cases c) (auto simp: enum_SetNext_def dest: enum_ok_Set enum_Set_frame split: if_splits)

lemma enum_run_ok:
  "enum_ok e \<Longrightarrow> enum_ok (enum_run cs e) \<and> et_min (enum_run cs e) = et_min e
     \<and> et_max (enum_run cs e) = et_max e \<and> et_unique (enum_run cs e) = et_unique e"
proof (induction cs arbitrary: e)
  case (Cons c cs)
  show ?case
  proof (cases "enum_apply c e")
    case (Inr e')
    with enum_apply_ok[OF Cons.prems Inr] Cons.IH[of e'] show ?thesis by simp
  qed (use Cons in simp)
qed simp

subsection \<open>Listing\<close>

interpretation ints: sort_total "(<) :: int \<Rightarrow> int \<Rightarrow> bool" UNIV
  by unfold_locales auto

lemma fold_update_map_of:
  "distinct (map fst al) \<Longrightarrow> map_of (fold (\<lambda>(k, v) m. AList.update k v m) al m) = map_of m ++ map_of al"
proof (induction al arbitrary: m)
  case (Cons a al)
  obtain k v where a: "a = (k, v)" by (cases a)
  have "k \<notin> dom (map_of al)" using Cons.prems by (simp add: a dom_map_of_conv_image_fst)
  then show ?case using Cons
    by (auto simp: a update_conv' map_add_def fun_eq_iff domIff split: option.splits)
qed simp

lemma enum_NameMap_map: "enum_ok e \<Longrightarrow> map_of (enum_NameMap e) = map_of (et_toInt e)"
  using fold_update_map_of[of "et_toInt e" "[]"] enum_okD(1) by (simp add: enum_NameMap_def)

lemma enum_ValueMap_map: "enum_ok e \<Longrightarrow> map_of (enum_ValueMap e) = map_of (et_toString e)"
  using fold_update_map_of[of "et_toString e" "[]"] enum_okD(2) by (simp add: enum_ValueMap_def)


subsection \<open>Properties\<close>

text \<open>C35: whatever sequence of \<open>Set\<close> and \<open>SetNext\<close> calls builds an enumeration,
  failing calls included, names and numbers are in bijection, every number lies in the 32-bit
  range, and \<open>last\<close> is an upper bound of them that itself stays in range.\<close>

theorem enum_bijection:
  "let e = enum_run cs NewEnumType
   in (\<forall>name v. map_of (et_toInt e) name = Some v \<longleftrightarrow> map_of (et_toString e) v = Some name) \<and>
      (\<forall>v \<in> ran (map_of (et_toInt e)). MinEnum \<le> v \<and> v \<le> et_last e) \<and> et_last e \<le> MaxEnum"
proof -
  let ?e = "enum_run cs NewEnumType"
  have ok: "enum_ok ?e" and f: "et_min ?e = MinEnum" "et_max ?e = MaxEnum" "et_unique ?e"
    using enum_run_ok[OF enum_ok_new(1), of cs] by (simp_all add: NewEnumType_def)
  have "map_of (et_toInt ?e) name = Some v \<longleftrightarrow> map_of (et_toString ?e) v = Some name" for name v
    using enum_okD(6)[OF ok, of v name] enum_okD(8)[OF ok f(3), of name v] by blast
  moreover have "MinEnum \<le> v \<and> v \<le> et_last ?e" if "v \<in> ran (map_of (et_toInt ?e))" for v
    using that enum_okD(5)[OF ok] f by (auto simp: ran_def)
  ultimately show ?thesis using enum_okD(4)[OF ok] f by (simp add: Let_def)
qed

lemma enum_bijection_witness:
  "map_of (et_toInt (enum_run [OpSet ''a'' 3, OpNext ''b'', OpSet ''c'' 3] NewEnumType)) ''b'' = Some 4 \<longleftrightarrow>
   map_of (et_toString (enum_run [OpSet ''a'' 3, OpNext ''b'', OpSet ''c'' 3] NewEnumType)) 4 = Some ''b''"
  using enum_bijection[of "[OpSet ''a'' 3, OpNext ''b'', OpSet ''c'' 3]"] unfolding Let_def by blast

text \<open>In a well-formed enumeration or bitfield \<open>SetNext\<close> fails only at position
  \<open>2 ^ 31 - 1\<close>, at the type's own maximum or for a name in use; otherwise it assigns a number
  greater than all earlier ones, which reads back under the name and keeps the earlier names.\<close>

theorem enum_set_next:
  assumes "enum_ok e" "et_last e \<noteq> MaxEnum" "et_last e < et_max e" "et_min e \<le> 0" "\<not> enum_IsDefined e name"
  shows "\<exists>e'. enum_SetNext e name = Inr e' \<and> enum_ok e' \<and>
    (\<forall>v \<in> ran (map_of (et_toInt e)). v < et_last e + 1) \<and>
    enum_Value e' name = et_last e + 1 \<and> enum_Name e' (et_last e + 1) = name \<and>
    (\<forall>n. n \<noteq> name \<longrightarrow> enum_Value e' n = enum_Value e n) \<and>
    (\<forall>v. v \<noteq> et_last e + 1 \<longrightarrow> enum_Name e' v = enum_Name e v)"
proof -
  let ?v = "et_last e + 1"
  have le: "v \<le> et_last e" if "map_of (et_toInt e) n = Some v" for n v
    using enum_okD(5)[OF assms(1) that] by blast
  have free: "map_of (et_toString e) ?v = None"
    using enum_okD(6)[OF assms(1), of ?v] le[of _ ?v] by (cases "map_of (et_toString e) ?v") auto
  obtain e' where e': "enum_Set e name ?v = Inr e'"
    using assms(3-5) enum_okD(3)[OF assms(1)] free unfolding enum_Set_Inr enum_IsDefined_def by auto
  note s = e'[unfolded enum_Set_Inr]
  have "enum_SetNext e name = Inr e'" using e' assms(2) by (simp add: enum_SetNext_def)
  moreover have "enum_ok e'" by (rule enum_ok_Set[OF assms(1) e'])
  moreover have "\<forall>v \<in> ran (map_of (et_toInt e)). v < ?v" using le by (force simp: ran_def)
  moreover have "enum_Value e' name = ?v" "enum_Name e' ?v = name"
    using s by (simp_all add: enum_Value_def enum_Name_def update_conv')
  moreover have "\<forall>n. n \<noteq> name \<longrightarrow> enum_Value e' n = enum_Value e n"
    "\<forall>v. v \<noteq> ?v \<longrightarrow> enum_Name e' v = enum_Name e v"
    using s by (simp_all add: enum_Value_def enum_Name_def update_conv')
  ultimately show ?thesis by blast
qed

lemma enum_set_next_witness:
  "\<exists>e'. enum_SetNext NewBitfield ''up'' = Inr e' \<and> enum_ok e' \<and>
    (\<forall>v \<in> ran (map_of (et_toInt NewBitfield)). v < et_last NewBitfield + 1) \<and>
    enum_Value e' ''up'' = et_last NewBitfield + 1 \<and> enum_Name e' (et_last NewBitfield + 1) = ''up'' \<and>
    (\<forall>n. n \<noteq> ''up'' \<longrightarrow> enum_Value e' n = enum_Value NewBitfield n) \<and>
    (\<forall>v. v \<noteq> et_last NewBitfield + 1 \<longrightarrow> enum_Name e' v = enum_Name NewBitfield v)"
  by (rule enum_set_next[OF enum_ok_new(2)])
    (simp_all add: NewBitfield_def MaxEnum_def MaxBitfieldSize_def enum_IsDefined_def)

text \<open>C36: \<open>Names\<close> and \<open>Values\<close> list each name once and the number of every name, in
  increasing order, and \<open>NameMap\<close> and \<open>ValueMap\<close> are the two maps, for every enumeration
  that calls of \<open>Set\<close> and \<open>SetNext\<close> build.\<close>

theorem enum_listings:
  "let e = enum_run cs NewEnumType
   in sorted (enum_Names e) \<and> set (enum_Names e) = dom (map_of (et_toInt e)) \<and> distinct (enum_Names e) \<and>
      sorted (enum_Values e) \<and> set (enum_Values e) = ran (map_of (et_toInt e)) \<and> distinct (enum_Values e) \<and>
      map_of (enum_NameMap e) = map_of (et_toInt e) \<and> map_of (enum_ValueMap e) = map_of (et_toString e)"
proof -
  let ?e = "enum_run cs NewEnumType"
  have ok: "enum_ok ?e" and u: "et_unique ?e"
    using enum_run_ok[OF enum_ok_new(1), of cs] by (simp_all add: NewEnumType_def)
  have le: "ints.le = (\<le>)" by (intro ext) (auto simp: ints.le_def)
  have d: "distinct (map fst (et_toInt ?e))" by (rule enum_okD(1)[OF ok])
  have m: "mset (enum_Names ?e) = mset (map fst (et_toInt ?e))"
    "mset (enum_Values ?e) = mset (map snd (et_toInt ?e))"
    by (simp_all add: enum_Names_def enum_Values_def)
  have "inj_on snd (set (et_toInt ?e))"
    using enum_okD(8)[OF ok u] d by (auto simp: inj_on_def map_of_eq_Some_iff) (metis option.inject)
  then have d2: "distinct (map snd (et_toInt ?e))" using d by (simp add: distinct_map)
  have "sorted (enum_Names ?e)" "sorted (enum_Values ?e)"
    using sort_strings_sorted ints.sorted_sort[of "map snd (et_toInt ?e)"]
    by (simp_all add: enum_Names_def enum_Values_def sort_strings_def le)
  moreover have "distinct (enum_Names ?e)" "distinct (enum_Values ?e)"
    using d d2 mset_eq_imp_distinct_iff[OF m(1)] mset_eq_imp_distinct_iff[OF m(2)] by simp_all
  moreover have "set (enum_Names ?e) = dom (map_of (et_toInt ?e))"
    "set (enum_Values ?e) = ran (map_of (et_toInt ?e))"
    using mset_eq_setD[OF m(1)] mset_eq_setD[OF m(2)]
    by (simp_all add: dom_map_of_conv_image_fst ran_distinct[OF d])
  ultimately show ?thesis
    using enum_NameMap_map[OF ok] enum_ValueMap_map[OF ok] by (simp add: Let_def)
qed

text \<open>A bitfield may hold positions up to \<open>2 ^ 32 - 1\<close>, but \<open>SetNext\<close> compares with the
  maximum of enumerations and refuses to go on after position \<open>2 ^ 31 - 1\<close>.\<close>

lemma bitfield_next_refused:
  "enum_SetNext (enum_run [OpSet ''a'' (2 ^ 31 - 1)] NewBitfield) ''b'' = Inl (MustSpecify ''b'') \<and>
   enum_Value (enum_run [OpSet ''a'' (2 ^ 31 - 1), OpSet ''b'' (2 ^ 31)] NewBitfield) ''b'' = 2 ^ 31"
  by (simp add: enum_SetNext_def enum_Set_def NewBitfield_def MaxEnum_def MaxBitfieldSize_def enum_Value_def)

text \<open>After a negative number the next one is zero, not the successor of the highest.\<close>

lemma next_after_negative:
  "enum_Value (enum_run [OpSet ''a'' (- 5), OpNext ''b''] NewEnumType) ''b'' = 0"
  by (simp add: enum_SetNext_def enum_Set_def NewEnumType_def MaxEnum_def MinEnum_def enum_Value_def)

end
