(* ===== verification/Names.thy ===== *)
theory Names
  imports Prelude
begin

text \<open>
  \<open>pkg/yang/camelcase.go\<close>: the conversions between YANG identifiers and the CamelCase names
  of generated code. An index into the Go string is the suffix of the list that starts there,
  with a flag for an index greater than zero.
\<close>

definition knownWords :: "(string \<times> string) list" where
  "knownWords = [(''Ietf'', ''IETF'')]"

definition knownWordsIndirect :: "(string \<times> string) list" where
  "knownWordsIndirect = [(''IETF'', ''Ietf'')]"

definition isASCIILower :: "char \<Rightarrow> bool" where
  "isASCIILower c \<longleftrightarrow> 97 \<le> byte c \<and> byte c \<le> 122"

definition isASCIIUpper :: "char \<Rightarrow> bool" where
  "isASCIIUpper c \<longleftrightarrow> 65 \<le> byte c \<and> byte c \<le> 90"

definition isASCIIDigit :: "char \<Rightarrow> bool" where
  "isASCIIDigit c \<longleftrightarrow> 48 \<le> byte c \<and> byte c \<le> 57"

text \<open>\<open>c ^= ' '\<close>\<close>

definition xor_space :: "char \<Rightarrow> char" where
  "xor_space c = char_of (if odd (byte c div 32) then byte c - 32 else byte c + 32)"

definition fix_char :: "char \<Rightarrow> char" where
  "fix_char c = (if c = CHR ''-'' \<or> c = CHR ''.'' then CHR ''_'' else c)"

definition known_word :: "string \<Rightarrow> string" where
  "known_word w = (case map_of knownWords w of Some kn \<Rightarrow> (if kn \<noteq> [] then kn else w) | None \<Rightarrow> w)"

function camel_from :: "bool \<Rightarrow> bool \<Rightarrow> string \<Rightarrow> string" where
  "camel_from pascal pos [] = []"
| "camel_from pascal pos (c0 # s) =
     (let c = fix_char c0
      in if c = CHR ''_'' \<and> s \<noteq> [] \<and> isASCIILower (hd s) then camel_from pascal True s
         else if isASCIIDigit c then c # camel_from pascal True s
         else let c' = (if isASCIILower c \<and> (pos \<or> pascal) then xor_space c else c)
              in known_word (c' # takeWhile isASCIILower s)
                 @ camel_from pascal True (dropWhile isASCIILower s))"
  by pat_completeness auto
termination
  by (relation "measure (\<lambda>(pascal, pos, s). length s)")
    (auto simp: le_imp_less_Suc length_dropWhile_le)

definition CamelCase :: "bool \<Rightarrow> string \<Rightarrow> string" where
  "CamelCase pascal s =
     (if s = [] then []
      else if fix_char (hd s) = CHR ''_'' then
        (if pascal then CHR ''X'' else CHR ''x'') # camel_from pascal True (tl s)
      else camel_from pascal False s)"

text \<open>The optional arguments: \<open>CamelCase(s)\<close> and \<open>CamelCaseToDash(s)\<close>.\<close>

definition CamelCase_default :: "bool list \<Rightarrow> string \<Rightarrow> string" where
  "CamelCase_default opt s = CamelCase (case opt of [] \<Rightarrow> True | p # _ \<Rightarrow> p) s"

text \<open>The search for a known word at the current index: the bytes to append and the rest.\<close>

definition dash_known :: "string \<Rightarrow> string \<times> string" where
  "dash_known s =
     (case filter (\<lambda>(val, kn). go_has_prefix s val) knownWordsIndirect of
        [] \<Rightarrow> ([], s)
      | (val, kn) # _ \<Rightarrow> (kn, drop (length val) s))"

lemma dash_known_length: "dash_known s = (pre, r) \<Longrightarrow> length r \<le> length s"
  by (auto simp: dash_known_def split: list.splits prod.splits)

function dash_from :: "bool \<Rightarrow> string \<Rightarrow> string" where
  "dash_from hyphenateDigit s =
     (case dash_known s of
        (pre, []) \<Rightarrow> pre
      | (pre, c # r) \<Rightarrow>
          pre @ (if isASCIIDigit c \<and> \<not> hyphenateDigit then [c]
                 else if c = CHR ''_'' then ''-''
                 else (if isASCIIUpper c then xor_space c else c)
                      # (if r \<noteq> [] \<and> isASCIIUpper (hd r) then ''-'' else []))
              @ dash_from hyphenateDigit r)"
  by pat_completeness auto
termination
  by (relation "measure (\<lambda>(h, s). length s)") (auto dest!: dash_known_length[OF sym])

declare dash_from.simps [simp del]

definition CamelCaseToDash :: "bool list \<Rightarrow> string \<Rightarrow> string" where
  "CamelCaseToDash hyphenateAfterDigit s =
     dash_from (case hyphenateAfterDigit of [] \<Rightarrow> False | h # _ \<Rightarrow> h) s"

subsection \<open>The CamelCase form\<close>

lemma class_disjoint:
  "isASCIILower c \<Longrightarrow> \<not> isASCIIDigit c" "isASCIILower c \<Longrightarrow> \<not> isASCIIUpper c"
  "isASCIILower c \<Longrightarrow> c \<noteq> CHR ''_'' \<and> c \<noteq> CHR ''-'' \<and> c \<noteq> CHR ''.''"
  "isASCIIUpper c \<Longrightarrow> \<not> isASCIIDigit c \<and> c \<noteq> CHR ''_'' \<and> c \<noteq> CHR ''-'' \<and> c \<noteq> CHR ''.''"
  "isASCIIDigit c \<Longrightarrow> c \<noteq> CHR ''_'' \<and> c \<noteq> CHR ''-'' \<and> c \<noteq> CHR ''.''"
  by (auto simp: isASCIILower_def isASCIIUpper_def isASCIIDigit_def byte_def)

lemma xor_space_lower: "isASCIILower c \<Longrightarrow> isASCIIUpper (xor_space c)"
proof -
  assume a: "isASCIILower c"
  then have "byte c div 32 = 3" by (auto simp: isASCIILower_def)
  then have "byte (xor_space c) = byte c - 32" by (simp add: xor_space_def byte_char_of)
  with a show ?thesis unfolding isASCIILower_def isASCIIUpper_def by linarith
qed

lemma xor_space_upper: "isASCIIUpper c \<Longrightarrow> isASCIILower (xor_space c)"
proof -
  assume a: "isASCIIUpper c"
  then have "byte c div 32 = 2" by (auto simp: isASCIIUpper_def)
  then show ?thesis using a by (simp add: xor_space_def isASCIILower_def isASCIIUpper_def byte_char_of)
qed

lemma xor_space_twice: "isASCIILower c \<Longrightarrow> xor_space (xor_space c) = c"
proof -
  assume a: "isASCIILower c"
  then have d: "byte c div 32 = 3" by (auto simp: isASCIILower_def)
  then have e: "byte (xor_space c) = byte c - 32" by (simp add: xor_space_def byte_char_of)
  have "(byte c - 32) div 32 = 2" using a d by (auto simp: isASCIILower_def)
  then have "byte (xor_space (xor_space c)) = byte c"
    using a by (simp add: xor_space_def[of "xor_space c"] e byte_char_of isASCIILower_def)
  then show ?thesis by simp
qed

text \<open>
  What the conversion produces: no dash or point, no underscore before a lower-case letter, no
  word that begins in lower case, and no word that is still to be replaced.
\<close>

function camel_ok :: "string \<Rightarrow> bool" where
  "camel_ok [] = True"
| "camel_ok (c # s) =
     (c \<noteq> CHR ''-'' \<and> c \<noteq> CHR ''.'' \<and> (c = CHR ''_'' \<longrightarrow> s = [] \<or> \<not> isASCIILower (hd s)) \<and>
      (if isASCIIDigit c then camel_ok s
       else \<not> isASCIILower c \<and> known_word (c # takeWhile isASCIILower s) = c # takeWhile isASCIILower s
            \<and> camel_ok (dropWhile isASCIILower s)))"
  by pat_completeness auto
termination
  by (relation "measure length") (auto simp: le_imp_less_Suc length_dropWhile_le)

lemma camel_ok_hd: "camel_ok t \<Longrightarrow> t \<noteq> [] \<Longrightarrow> \<not> isASCIILower (hd t)"
  by (cases t) (auto split: if_splits dest: class_disjoint)

lemma lower_append:
  assumes "\<forall>c \<in> set w. isASCIILower c" "t = [] \<or> \<not> isASCIILower (hd t)"
  shows "takeWhile isASCIILower (w @ t) = w" "dropWhile isASCIILower (w @ t) = t"
  using assms by (cases t; simp)+

lemma known_word_cases: "known_word w = w \<or> w = ''Ietf'' \<and> known_word w = ''IETF''"
  by (auto simp: known_word_def knownWords_def)

lemma camel_ok_word:
  assumes "camel_ok t" "\<forall>x \<in> set w. isASCIILower x" "c \<noteq> CHR ''-''" "c \<noteq> CHR ''.''" "\<not> isASCIILower c"
    and "c = CHR ''_'' \<longrightarrow> w = []" "\<not> isASCIIDigit c"
  shows "camel_ok (known_word (c # w) @ t)"
proof -
  have h: "t = [] \<or> \<not> isASCIILower (hd t)" using camel_ok_hd[OF assms(1)] by blast
  note l = lower_append[OF assms(2) h]
  have hd: "w = [] \<Longrightarrow> w @ t = [] \<or> \<not> isASCIILower (hd (w @ t))" using h by simp
  consider "known_word (c # w) = c # w" | "known_word (c # w) = ''IETF''"
    using known_word_cases by blast
  then show ?thesis
  proof cases
    case 1
    with assms l hd show ?thesis by simp
  next
    case 2
    have up: "\<not> isASCIILower x \<and> \<not> isASCIIDigit x \<and> x \<noteq> CHR ''-'' \<and> x \<noteq> CHR ''.'' \<and> x \<noteq> CHR ''_''"
      if "x \<in> set ''IETF''" for x using that by (auto simp: isASCIILower_def isASCIIDigit_def byte_def)
    have "takeWhile isASCIILower t = []" "dropWhile isASCIILower t = t"
      using lower_append[of "[]" t] h by simp_all
    with 2 assms(1) up show ?thesis by (simp add: known_word_def knownWords_def)
  qed
qed

lemma camel_from_ok: "pos \<or> pascal \<Longrightarrow> camel_ok (camel_from pascal pos s)"
proof (induction pascal pos s rule: camel_from.induct)
  case (2 pascal pos c0 s)
  let ?c = "fix_char c0" let ?w = "takeWhile isASCIILower s"
  show ?case
  proof (cases "?c = CHR ''_'' \<and> s \<noteq> [] \<and> isASCIILower (hd s)")
    case True
    with "2.IH"(1)[OF refl True] show ?thesis by simp
  next
    case us: False
    show ?thesis
    proof (cases "isASCIIDigit ?c")
      case True
      with us "2.IH"(2)[OF refl us True] class_disjoint(5)[OF True] show ?thesis by (simp add: Let_def)
    next
      case nd: False
      define c' where "c' = (if isASCIILower ?c \<and> (pos \<or> pascal) then xor_space ?c else ?c)"
      have f: "?c \<noteq> CHR ''-''" "?c \<noteq> CHR ''.''" by (auto simp: fix_char_def)
      have c': "c' \<noteq> CHR ''-'' \<and> c' \<noteq> CHR ''.'' \<and> \<not> isASCIILower c' \<and> \<not> isASCIIDigit c'
          \<and> (c' = CHR ''_'' \<longrightarrow> ?c = CHR ''_'')"
        using f nd "2.prems" class_disjoint(2,4) xor_space_lower[of ?c]
        by (cases "isASCIILower ?c") (auto simp: c'_def)
      have "c' = CHR ''_'' \<longrightarrow> ?w = []" using us c' by (cases s) auto
      moreover have "camel_ok (camel_from pascal True (dropWhile isASCIILower s))"
        using "2.IH"(3)[OF refl us nd refl] by simp
      ultimately have "camel_ok (known_word (c' # ?w) @ camel_from pascal True (dropWhile isASCIILower s))"
        using c' by (intro camel_ok_word) (auto dest: set_takeWhileD)
      with us nd show ?thesis by (auto simp: Let_def c'_def)
    qed
  qed
qed simp

lemma camel_from_id: "camel_ok t \<Longrightarrow> camel_from pascal pos t = t"
proof (induction t arbitrary: pos rule: camel_ok.induct)
  case (2 c s)
  then have "fix_char c = c" by (simp add: fix_char_def)
  with 2 show ?case by (cases "isASCIIDigit c") (auto simp: Let_def)
qed simp

text \<open>The first word of the non-exported form may begin in lower case.\<close>

lemma camel_from_lead:
  assumes "isASCIILower x \<or> isASCIIUpper x" "known_word [x] = [x]" "pascal \<longrightarrow> \<not> isASCIILower x"
  shows "camel_from pascal False (x # camel_from p True r) = x # camel_from p True r"
proof -
  let ?t = "camel_from p True r"
  have ok: "camel_ok ?t" by (rule camel_from_ok) simp
  have h: "?t = [] \<or> \<not> isASCIILower (hd ?t)" using camel_ok_hd[OF ok] by blast
  have "takeWhile isASCIILower ?t = []" "dropWhile isASCIILower ?t = ?t" using lower_append[of "[]" ?t] h by simp_all
  moreover have "fix_char x = x" using assms(1) class_disjoint(3,4)[of x] by (auto simp: fix_char_def)
  ultimately show ?thesis
    using assms camel_from_id[OF ok] class_disjoint[of x] by (auto simp: Let_def)
qed

lemma camel_from_stable:
  assumes "fix_char c0 \<noteq> CHR ''_''"
  shows "\<exists>x t. camel_from pascal False (c0 # s) = x # t \<and> fix_char x \<noteq> CHR ''_'' \<and>
    camel_from pascal False (x # t) = x # t"
proof -
  have f: "fix_char c0 = c0" "c0 \<noteq> CHR ''-''" "c0 \<noteq> CHR ''.''" "c0 \<noteq> CHR ''_''"
    using assms by (auto simp: fix_char_def split: if_splits)
  let ?w = "takeWhile isASCIILower s" and ?t = "camel_from pascal True (dropWhile isASCIILower s)"
  have t: "camel_ok ?t" "camel_ok (camel_from pascal True s)" by (rule camel_from_ok, simp)+
  have h: "?t = [] \<or> \<not> isASCIILower (hd ?t)" using camel_ok_hd[OF t(1)] by blast
  have wl: "\<forall>x \<in> set ?w. isASCIILower x" by (auto dest: set_takeWhileD)
  consider "isASCIIDigit c0" | "isASCIILower c0" "\<not> pascal" | "\<not> isASCIIDigit c0" "isASCIILower c0 \<longrightarrow> pascal"
    by blast
  then show ?thesis
  proof cases
    case 1
    then have "camel_ok (c0 # camel_from pascal True s)" using t f by simp
    from camel_from_id[OF this] 1 f show ?thesis by (auto simp: Let_def)
  next
    case 2
    have "known_word (c0 # ?w) = c0 # ?w"
      using known_word_cases[of "c0 # ?w"] 2(1) by (auto simp: isASCIILower_def byte_def)
    with 2 f class_disjoint(1)[OF 2(1)] lower_append[OF wl h] camel_from_id[OF t(1)] show ?thesis
      by (auto simp: Let_def)
  next
    case 3
    define c' where "c' = (if isASCIILower c0 then xor_space c0 else c0)"
    have e: "camel_from pascal False (c0 # s) = known_word (c' # ?w) @ ?t"
      using 3 f by (auto simp: c'_def Let_def)
    have c': "c' \<noteq> CHR ''-'' \<and> c' \<noteq> CHR ''.'' \<and> c' \<noteq> CHR ''_'' \<and> \<not> isASCIILower c' \<and> \<not> isASCIIDigit c'"
      using f 3 class_disjoint(2,4) xor_space_lower[of c0] by (cases "isASCIILower c0") (auto simp: c'_def)
    then have ok: "camel_ok (known_word (c' # ?w) @ ?t)" using t(1) wl by (intro camel_ok_word) auto
    obtain x u where x: "known_word (c' # ?w) = x # u" "fix_char x \<noteq> CHR ''_''"
      using known_word_cases[of "c' # ?w"] c' by (auto simp: fix_char_def)
    have "camel_from pascal False (x # u @ ?t) = x # u @ ?t"
      using camel_from_id[OF ok] x by simp
    then show ?thesis using e x(2) unfolding x(1) append_Cons by blast
  qed
qed

subsection \<open>Identifiers made of lower-case words\<close>

definition plain_word :: "string \<Rightarrow> bool" where
  "plain_word w \<longleftrightarrow> 2 \<le> length w \<and> (\<forall>c \<in> set w. isASCIILower c) \<and> w \<noteq> ''ietf''"

definition capital :: "string \<Rightarrow> string" where
  "capital w = (case w of [] \<Rightarrow> [] | c # r \<Rightarrow> xor_space c # r)"

definition dashed :: "string list \<Rightarrow> string" where
  "dashed ws = concat (map ((#) CHR ''-'') ws)"

lemma go_join_dash: "go_join (w # ws) ''-'' = w @ dashed ws"
  by (induction ws arbitrary: w) (simp_all add: dashed_def)

lemma dashed_hd: "dashed ws = [] \<or> \<not> isASCIILower (hd (dashed ws))"
  by (cases ws) (auto simp: dashed_def isASCIILower_def byte_def)

lemma known_word_plain:
  assumes "plain_word (c # r)"
  shows "known_word (xor_space c # r) = xor_space c # r"
proof (rule ccontr)
  assume "known_word (xor_space c # r) \<noteq> xor_space c # r"
  then have e: "xor_space c # r = ''Ietf''" using known_word_cases[of "xor_space c # r"] by auto
  then have "xor_space (xor_space c) = xor_space CHR ''I''" by simp
  also have "\<dots> = CHR ''i''" by code_simp
  finally have "c = CHR ''i''" using assms xor_space_twice[of c] by (simp add: plain_word_def)
  with e assms show False by (simp add: plain_word_def)
qed

lemma camel_from_word:
  assumes "plain_word w"
  shows "camel_from True pos (w @ dashed ws) = capital w @ camel_from True True (dashed ws)"
proof -
  obtain c r where w: "w = c # r" using assms by (cases w) (auto simp: plain_word_def)
  have l: "isASCIILower c" "\<forall>x \<in> set r. isASCIILower x" using assms by (auto simp: w plain_word_def)
  have f: "fix_char c = c" using class_disjoint(3)[OF l(1)] by (simp add: fix_char_def)
  show ?thesis
    using class_disjoint[of c] l f lower_append[OF l(2) dashed_hd] known_word_plain assms
    by (simp add: w Let_def capital_def)
qed

lemma camel_from_dashed:
  "\<forall>w \<in> set ws. plain_word w \<Longrightarrow> camel_from True True (dashed ws) = concat (map capital ws)"
proof (induction ws)
  case (Cons w ws)
  then obtain c r where w: "w = c # r" "isASCIILower c" by (cases w) (auto simp: plain_word_def)
  have "camel_from True True (dashed (w # ws)) = camel_from True True (w @ dashed ws)"
    using w by (simp add: dashed_def fix_char_def)
  with Cons camel_from_word[of w True ws] show ?case by simp
qed (simp add: dashed_def)

lemma dash_known_plain:
  "s = [] \<or> isASCIILower (hd s) \<or> tl s \<noteq> [] \<and> isASCIILower (hd (tl s)) \<Longrightarrow> dash_known s = ([], s)"
  by (cases s; cases "tl s")
    (auto simp: dash_known_def knownWordsIndirect_def isASCIILower_def byte_def split: list.splits)

lemma dash_from_lower:
  "w \<noteq> [] \<Longrightarrow> \<forall>c \<in> set w. isASCIILower c \<Longrightarrow> t = [] \<or> isASCIIUpper (hd t) \<Longrightarrow>
   dash_from h (w @ t) = w @ (if t = [] then [] else CHR ''-'' # dash_from h t)"
proof (induction w)
  case (Cons c w)
  have k: "dash_known ((c # w) @ t) = ([], (c # w) @ t)" using Cons.prems by (intro dash_known_plain) simp
  have "dash_from h ((c # w) @ t) =
      c # (if w @ t \<noteq> [] \<and> isASCIIUpper (hd (w @ t)) then ''-'' else []) @ dash_from h (w @ t)"
    using k Cons.prems class_disjoint[of c] by (subst dash_from.simps) simp
  moreover have "dash_from h [] = []" by (subst dash_from.simps) (simp add: dash_known_plain)
  moreover have "\<not> isASCIIUpper (hd w)" if "w \<noteq> []" using that Cons.prems(2) class_disjoint by simp
  ultimately show ?case using Cons by (cases "w = []") (auto simp: hd_append)
qed simp

lemma dash_from_capitals:
  "\<forall>w \<in> set ws. plain_word w \<Longrightarrow> plain_word w \<Longrightarrow>
   dash_from h (capital w @ concat (map capital ws)) = go_join (w # ws) ''-''"
proof (induction ws arbitrary: w)
  case (Cons v vs)
  obtain c d r where w: "w = c # d # r" using Cons.prems(2)
    by (cases w rule: remdups_adj.cases) (auto simp: plain_word_def)
  obtain e f where v: "v = e # f" "isASCIILower e" using Cons.prems(1) by (cases v) (auto simp: plain_word_def)
  have l: "isASCIILower c" "isASCIILower d" "\<forall>x \<in> set (d # r). isASCIILower x"
    using Cons.prems(2) by (auto simp: w plain_word_def)
  let ?t = "capital v @ concat (map capital vs)"
  have t: "?t = [] \<or> isASCIIUpper (hd ?t)" "?t \<noteq> []"
    using v xor_space_lower[OF v(2)] by (simp_all add: capital_def)
  have u: "isASCIIUpper (xor_space c)" by (rule xor_space_lower[OF l(1)])
  have k: "dash_known (xor_space c # d # r @ ?t) = ([], xor_space c # d # r @ ?t)"
    using l by (intro dash_known_plain) simp
  have "dash_from h (xor_space c # d # r @ ?t) = c # dash_from h ((d # r) @ ?t)"
    using k u l class_disjoint(4)[OF u] class_disjoint(2)[OF l(2)]
    by (simp add: dash_from.simps[of h "xor_space c # d # r @ ?t"] xor_space_twice)
  also have "dash_from h ((d # r) @ ?t) = (d # r) @ CHR ''-'' # dash_from h ?t"
    using dash_from_lower[OF _ l(3) t(1)] t(2) by simp
  finally show ?case using Cons by (simp add: w capital_def[of "c # d # r"])
next
  case Nil
  obtain c d r where w: "w = c # d # r" using Nil.prems(2)
    by (cases w rule: remdups_adj.cases) (auto simp: plain_word_def)
  have l: "isASCIILower c" "isASCIILower d" "\<forall>x \<in> set (d # r). isASCIILower x"
    using Nil.prems(2) by (auto simp: w plain_word_def)
  have u: "isASCIIUpper (xor_space c)" by (rule xor_space_lower[OF l(1)])
  have k: "dash_known (xor_space c # d # r) = ([], xor_space c # d # r)"
    using l by (intro dash_known_plain) simp
  have "dash_from h (xor_space c # d # r) = c # dash_from h ((d # r) @ [])"
    using k u l class_disjoint(4)[OF u] class_disjoint(2)[OF l(2)]
    by (simp add: dash_from.simps[of h "xor_space c # d # r"] xor_space_twice)
  also have "dash_from h ((d # r) @ []) = d # r" using dash_from_lower[OF _ l(3), of "[]"] by simp
  finally show ?case by (simp add: w capital_def)
qed

subsection \<open>Properties\<close>

text \<open>C39: \<open>CamelCase\<close> is idempotent in both modes: the name it makes holds no dash, no point,
  no underscore before a lower-case letter and no word left to replace, and converting it again
  changes nothing.\<close>

theorem camel_case_idempotent: "CamelCase pascal (CamelCase pascal s) = CamelCase pascal s"
proof (cases s)
  case (Cons c0 r)
  show ?thesis
  proof (cases "fix_char c0 = CHR ''_''")
    case True
    have "known_word ''X'' = ''X''" "known_word ''x'' = ''x''" by (simp_all add: known_word_def knownWords_def)
    with camel_from_lead[of "CHR ''X''" pascal pascal r] camel_from_lead[of "CHR ''x''" pascal pascal r] True Cons
    show ?thesis
      by (cases pascal) (simp_all add: CamelCase_def fix_char_def isASCIIUpper_def isASCIILower_def byte_def)
  next
    case False
    obtain x t where "camel_from pascal False (c0 # r) = x # t" "fix_char x \<noteq> CHR ''_''"
      "camel_from pascal False (x # t) = x # t"
      using camel_from_stable[OF False, of pascal r] by blast
    with Cons False show ?thesis by (simp add: CamelCase_def del: camel_from.simps)
  qed
qed (simp add: CamelCase_def)

text \<open>C40: on identifiers made of words joined by dashes, each word consisting of at least two letters, all of them
  lower-case, and not being \<open>ietf\<close>, \<open>CamelCaseToDash\<close> undoes \<open>CamelCase\<close>, whatever its option. With the word
  \<open>ietf\<close> it does not, see \<open>camel_case_dash_ietf\<close>.\<close>

theorem camel_case_dash_roundtrip:
  assumes "\<forall>w \<in> set (w # ws). plain_word w"
  shows "CamelCaseToDash opt (CamelCase True (go_join (w # ws) ''-'')) = go_join (w # ws) ''-''"
proof -
  obtain c r where w: "w = c # r" "isASCIILower c" using assms by (cases w) (auto simp: plain_word_def)
  then have "fix_char c \<noteq> CHR ''_''" "fix_char c = c" using class_disjoint(3)[of c] by (auto simp: fix_char_def)
  then have "CamelCase True (go_join (w # ws) ''-'') = camel_from True False (w @ dashed ws)"
    using w unfolding go_join_dash by (simp add: CamelCase_def)
  also have "\<dots> = capital w @ concat (map capital ws)"
    using camel_from_word[of w False ws] camel_from_dashed[of ws] assms by simp
  finally show ?thesis using dash_from_capitals[of ws w] assms by (simp add: CamelCaseToDash_def)
qed

lemma camel_case_dash_roundtrip_witness:
  "CamelCaseToDash [] (CamelCase True (go_join [''if'', ''index''] ''-'')) = go_join [''if'', ''index''] ''-''"
  by (rule camel_case_dash_roundtrip) (auto simp: plain_word_def isASCIILower_def byte_def)

text \<open>The special word does not come back: it keeps a capital and gets no dash before the next word.\<close>

lemma camel_case_dash_ietf:
  "CamelCaseToDash [] (CamelCase True ''ietf-types'') = ''Ietftypes''"
  by code_simp

end
