(* ===== verification/Indent.thy ===== *)
theory Indent
  imports Prelude
begin

text \<open>
  \<open>pkg/indent/indent.go\<close>: \<open>String\<close>, \<open>Bytes\<close> and the writer \<open>iw\<close> that prefixes
  the lines written through it. Strings and byte slices are both lists of bytes. The writer
  underneath is an argument \<open>wr\<close> of \<open>iw_Write\<close>; what \<open>io.Writer\<close> promises of it is the
  locale \<open>io_writer\<close>, which \<open>strings.Builder\<close> provides.
\<close>

definition nl :: char where "nl = CHR 0x0A"

subsection \<open>Operations\<close>

text \<open>\<open>strings.SplitAfter(s, "\n")\<close>\<close>

fun split_after_nl :: "string \<Rightarrow> string list" where
  "split_after_nl [] = [[]]"
| "split_after_nl (c # s) =
     (if c = nl then [c] # split_after_nl s
      else case split_after_nl s of [] \<Rightarrow> [[c]] | l # ls \<Rightarrow> (c # l) # ls)"

definition split_lines :: "string \<Rightarrow> string list" where
  "split_lines s =
     (let lines = split_after_nl s in if last lines = [] then butlast lines else lines)"

definition indent_String :: "string \<Rightarrow> string \<Rightarrow> string" where
  "indent_String ind s =
     (if ind = [] \<or> s = [] then s else go_join ([] # split_lines s) ind)"

definition indent_Bytes :: "string \<Rightarrow> string \<Rightarrow> string" where
  "indent_Bytes ind b =
     (if length ind = 0 \<or> length b = 0 then b else go_join ([] # split_lines b) ind)"

definition GetPrefix :: "int \<Rightarrow> string" where
  "GetPrefix num = replicate (nat num) CHR '' ''"

record iw =
  iw_prefix :: string
  iw_partial :: bool  \<comment> \<open>true if next line's indent already written\<close>

text \<open>\<open>NewWriter\<close> with an empty indent is the writer itself (\<open>None\<close>).\<close>

definition NewWriter :: "string \<Rightarrow> iw option" where
  "NewWriter ind = (if ind = [] then None else Some \<lparr>iw_prefix = ind, iw_partial = False\<rparr>)"

fun actualWrittenSize_from :: "int \<Rightarrow> int \<Rightarrow> int \<Rightarrow> string list \<Rightarrow> int" where
  "actualWrittenSize_from actual remain prefix [] = actual"
| "actualWrittenSize_from actual remain prefix (line # lines) =
     (if length line = 0 then actualWrittenSize_from actual remain prefix lines
      else let addition = remain - prefix
        in if addition \<le> 0 then actual
           else if addition \<le> int (length line) then actual + addition
           else actualWrittenSize_from (actual + int (length line)) (remain - (prefix + int (length line))) prefix lines)"

definition actualWrittenSize :: "int \<Rightarrow> int \<Rightarrow> string list \<Rightarrow> int" where
  "actualWrittenSize underlay prefix lines = actualWrittenSize_from 0 underlay prefix lines"

text \<open>
  \<open>iw.Write\<close>: \<open>wr\<close> is the \<open>Write\<close> of the writer underneath, from its state and the bytes
  to its new state, the number of bytes it took, and its error.
\<close>

definition iw_Write ::
  "('w \<Rightarrow> string \<Rightarrow> 'w \<times> nat \<times> 'e option) \<Rightarrow> iw \<times> 'w \<Rightarrow> string \<Rightarrow> (iw \<times> 'w) \<times> int \<times> 'e option" where
  "iw_Write wr x buf =
     (let (w, u) = x
      in if length buf = 0 then (x, 0, None)
         else let lines0 = split_lines buf;
                  lines = (if iw_partial w then lines0 else [] # lines0);
                  joined = go_join lines (iw_prefix w);
                  w' = w\<lparr>iw_partial := last joined \<noteq> nl\<rparr>;
                  (u', n, err) = wr u joined
           in case err of
                Some e \<Rightarrow> ((w', u'), actualWrittenSize (int n) (int (length (iw_prefix w))) lines, Some e)
              | None \<Rightarrow> ((w', u'), int (length buf), None))"

subsection \<open>The specification, byte by byte\<close>

text \<open>\<open>mid\<close>: the line has been started, so its indent is written already.\<close>

fun indent_spec :: "string \<Rightarrow> bool \<Rightarrow> string \<Rightarrow> string" where
  "indent_spec ind mid [] = []"
| "indent_spec ind mid (c # s) = (if mid then [] else ind) @ c # indent_spec ind (c \<noteq> nl) s"

definition mid_after :: "bool \<Rightarrow> string \<Rightarrow> bool" where
  "mid_after mid s = (if s = [] then mid else last s \<noteq> nl)"

lemma indent_spec_append:
  "indent_spec ind mid (a @ b) = indent_spec ind mid a @ indent_spec ind (mid_after mid a) b"
  by (induction a arbitrary: mid) (auto simp: mid_after_def)

lemma mid_after_append: "mid_after (mid_after mid a) b = mid_after mid (a @ b)"
  by (simp add: mid_after_def)

lemma split_after_nonempty [simp]: "split_after_nl s \<noteq> []"
  by (induction s) (auto split: list.splits)

lemma split_lines_Nil [simp]: "split_lines [] = []"
  by (simp add: split_lines_def)

lemma split_lines_Cons:
  "split_lines (c # s) =
     (if c = nl then [c] # split_lines s
      else case split_lines s of [] \<Rightarrow> [[c]] | l # ls \<Rightarrow> (c # l) # ls)"
  by (cases "split_after_nl s") (auto simp: split_lines_def Let_def split: list.splits)

lemma split_lines_nonempty: "s \<noteq> [] \<Longrightarrow> split_lines s \<noteq> []"
  by (cases s) (auto simp: split_lines_Cons split: list.splits)

lemma split_lines_no_empty: "\<forall>l \<in> set (split_lines s). l \<noteq> []"
  by (induction s) (auto simp: split_lines_Cons split: list.splits)

lemma concat_split_lines [simp]: "concat (split_lines s) = s"
  by (induction s) (auto simp: split_lines_Cons split: list.splits)

lemma go_join_Cons: "go_join (x # xs) sep = x @ concat (map ((@) sep) xs)"
  by (induction xs arbitrary: x) simp_all

lemma split_lines_spec:
  "concat (map ((@) ind) (split_lines s)) = indent_spec ind False s"
  "s \<noteq> [] \<Longrightarrow> go_join (split_lines s) ind = indent_spec ind True s"
proof (induction s)
  case (Cons c s)
  { case 1
    show ?case using Cons.IH
      by (cases "split_lines s"; cases "s = []") (auto simp: split_lines_Cons go_join_Cons dest: split_lines_nonempty) }
  { case 2
    show ?case using Cons.IH
      by (cases "split_lines s"; cases "s = []") (auto simp: split_lines_Cons go_join_Cons dest: split_lines_nonempty) }
qed simp_all

lemma indent_String_spec: "indent_String ind s = indent_spec ind False s"
proof -
  have "indent_spec [] m s = s" for m by (induction s arbitrary: m) auto
  then show ?thesis using split_lines_spec(1)[of ind s]
    by (auto simp: indent_String_def go_join_Cons)
qed

lemma indent_spec_last: "s \<noteq> [] \<Longrightarrow> indent_spec ind mid s \<noteq> [] \<and> last (indent_spec ind mid s) = last s"
  by (induction s arbitrary: mid) (auto simp: neq_Nil_conv)

lemma iw_joined:
  assumes "buf \<noteq> []"
  shows "go_join (if mid then split_lines buf else [] # split_lines buf) ind = indent_spec ind mid buf"
  using split_lines_spec(1)[of ind buf] split_lines_spec(2)[of buf ind] assms by (simp add: go_join_Cons)

lemma iw_Write_nonempty:
  assumes "buf \<noteq> []" "wr u (indent_spec (iw_prefix w) (iw_partial w) buf) = (u', n, err)"
  shows "iw_Write wr (w, u) buf =
    ((w\<lparr>iw_partial := mid_after (iw_partial w) buf\<rparr>, u'),
     (case err of
        None \<Rightarrow> int (length buf)
      | Some e \<Rightarrow> actualWrittenSize (int n) (int (length (iw_prefix w)))
                   (if iw_partial w then split_lines buf else [] # split_lines buf)),
     err)"
  using assms iw_joined[OF assms(1), of "iw_partial w" "iw_prefix w"]
    indent_spec_last[OF assms(1), of "iw_prefix w" "iw_partial w"]
  by (auto simp: iw_Write_def Let_def mid_after_def split: option.splits)

subsection \<open>What the writer underneath promises\<close>

locale io_writer =
  fixes wr :: "'w \<Rightarrow> string \<Rightarrow> 'w \<times> nat \<times> 'e option"
    and contents :: "'w \<Rightarrow> string"
  assumes wr_all: "wr u b = (u', n, None) \<Longrightarrow> contents u' = contents u @ b \<and> n = length b"
    and wr_some: "wr u b = (u', n, Some e) \<Longrightarrow> contents u' = contents u @ take n b \<and> n \<le> length b"
begin

lemma iw_Write_contents:
  assumes "iw_Write wr (w, u) b = ((w', u'), k, err)"
  shows "iw_prefix w' = iw_prefix w \<and> iw_partial w' = mid_after (iw_partial w) b \<and>
    (\<exists>m. contents u' = contents u @ take m (indent_spec (iw_prefix w) (iw_partial w) b)) \<and>
    (err = None \<longrightarrow> contents u' = contents u @ indent_spec (iw_prefix w) (iw_partial w) b \<and> k = int (length b))"
proof (cases "b = []")
  case True
  with assms show ?thesis by (auto simp: iw_Write_def mid_after_def)
next
  case False
  let ?out = "indent_spec (iw_prefix w) (iw_partial w) b"
  obtain u1 n e where r: "wr u ?out = (u1, n, e)" using prod_cases3 by blast
  note s = assms[unfolded iw_Write_nonempty[OF False, of wr u w, OF r]]
  have u: "u1 = u'" "e = err" "w' = w\<lparr>iw_partial := mid_after (iw_partial w) b\<rparr>" using s by simp_all
  show ?thesis
  proof (cases err)
    case None
    with s u wr_all[of u ?out u' n] r have "contents u' = contents u @ ?out" "k = int (length b)" by simp_all
    then have "contents u' = contents u @ take (length ?out) ?out" "k = int (length b)" by simp_all
    with u None \<open>contents u' = contents u @ ?out\<close> show ?thesis by (simp del: take_all) blast
  next
    case (Some x)
    with u wr_some[of u ?out u' n x] r have "contents u' = contents u @ take n ?out" by simp
    with u Some show ?thesis by (simp del: take_all) blast
  qed
qed

end

text \<open>A sequence of writes, up to the first error.\<close>

fun iw_writes ::
  "('w \<Rightarrow> string \<Rightarrow> 'w \<times> nat \<times> 'e option) \<Rightarrow> iw \<times> 'w \<Rightarrow> string list \<Rightarrow> (iw \<times> 'w) \<times> 'e option" where
  "iw_writes wr x [] = (x, None)"
| "iw_writes wr x (b # bs) =
     (case iw_Write wr x b of
        (x', n, Some e) \<Rightarrow> (x', Some e)
      | (x', n, None) \<Rightarrow> iw_writes wr x' bs)"

context io_writer begin

lemma iw_writes_contents:
  "iw_writes wr (w, u) bs = ((w', u'), err) \<Longrightarrow>
   iw_prefix w' = iw_prefix w \<and>
   (err = None \<longrightarrow> contents u' = contents u @ indent_spec (iw_prefix w) (iw_partial w) (concat bs))"
proof (induction bs arbitrary: w u)
  case (Cons b bs)
  obtain w1 u1 k e where s: "iw_Write wr (w, u) b = ((w1, u1), k, e)" by (metis prod.collapse)
  show ?case
  proof (cases e)
    case None
    with Cons.prems s have r: "iw_writes wr (w1, u1) bs = ((w', u'), err)" by simp
    from Cons.IH[OF r] iw_Write_contents[OF s] None show ?thesis by (simp add: indent_spec_append)
  qed (use Cons.prems s iw_Write_contents[OF s] in auto)
qed simp

end

text \<open>\<open>strings.Builder\<close>, as the library documents it: a write appends all its bytes.\<close>

definition builder_Write :: "string \<Rightarrow> string \<Rightarrow> string \<times> nat \<times> unit option" where
  "builder_Write u b = (u @ b, length b, None)"

interpretation builder: io_writer builder_Write "\<lambda>u. u"
  by unfold_locales (auto simp: builder_Write_def)

lemma iw_writes_builder_total: "snd (iw_writes builder_Write x bs) = None"
proof (induction bs arbitrary: x)
  case (Cons b bs)
  have "snd (snd (iw_Write builder_Write x b)) = None"
    by (cases x) (auto simp: iw_Write_def builder_Write_def Let_def)
  with Cons show ?case by (cases "iw_Write builder_Write x b") auto
qed simp

subsection \<open>Counting after a short write\<close>

text \<open>For each byte of the indented text, whether it comes from the source.\<close>

definition source_marks :: "nat \<Rightarrow> string list \<Rightarrow> bool list" where
  "source_marks p lines = concat (map (\<lambda>l. replicate p False @ replicate (length l) True) lines)"

definition source_bytes :: "nat \<Rightarrow> string list \<Rightarrow> nat \<Rightarrow> nat" where
  "source_bytes p lines n = length (filter id (take n (source_marks p lines)))"

lemma filter_id_replicate: "length (filter id (replicate k b)) = (if b then k else 0)"
  by (induction k) auto

lemma source_bytes_Cons:
  "source_bytes p (l # ls) n =
     min (length l) (n - p) + source_bytes p ls (n - p - length l)"
  by (simp add: source_bytes_def source_marks_def filter_id_replicate take_replicate min_def)

lemma actualWrittenSize_from_count:
  "\<forall>l \<in> set lines. l \<noteq> [] \<Longrightarrow>
   actualWrittenSize_from a r (int p) lines = a + int (source_bytes p lines (nat r))"
proof (induction lines arbitrary: a r)
  case Nil
  then show ?case by (simp add: source_bytes_def source_marks_def)
next
  case (Cons l ls)
  have z: "source_bytes p ls 0 = 0" by (simp add: source_bytes_def)
  consider "r - int p \<le> 0" | "0 < r - int p" "r - int p \<le> int (length l)" | "int (length l) < r - int p"
    by linarith
  then show ?case
  proof cases
    case 1
    then have "nat r - p = 0" by linarith
    with 1 Cons.prems z show ?thesis by (simp add: source_bytes_Cons Let_def)
  next
    case 2
    then have "nat r - p - length l = 0" "min (length l) (nat r - p) = nat r - p" "int (nat r - p) = r - int p"
      by linarith+
    with 2 Cons.prems z show ?thesis by (simp add: source_bytes_Cons Let_def)
  next
    case 3
    then have "min (length l) (nat r - p) = length l"
      "nat (r - (int p + int (length l))) = nat r - p - length l" "0 < r - int p"
      by linarith+
    with 3 Cons show ?thesis by (simp add: source_bytes_Cons Let_def)
  qed
qed

subsection \<open>Properties\<close>

text \<open>C36: writing a text to \<open>NewWriter(b, indent)\<close> in any number of pieces, cut anywhere, leaves
  in the builder exactly \<open>String(indent, text)\<close>, and no write fails.\<close>

theorem indent_writer_chunks:
  "case NewWriter ind of
     None \<Rightarrow> indent_String ind (concat bufs) = concat bufs
   | Some w \<Rightarrow>
       \<exists>w'. iw_writes builder_Write (w, u) bufs = ((w', u @ indent_String ind (concat bufs)), None)"
proof (cases "NewWriter ind")
  case None
  then show ?thesis by (simp add: NewWriter_def indent_String_def split: if_splits)
next
  case (Some w)
  obtain w' u' err where r: "iw_writes builder_Write (w, u) bufs = ((w', u'), err)" by (metis prod.collapse)
  have "err = None" using iw_writes_builder_total[of "(w, u)" bufs] r by simp
  then show ?thesis
    using builder.iw_writes_contents[OF r] r Some
    by (auto simp: indent_String_spec NewWriter_def split: if_splits)
qed

text \<open>C39: when the writer underneath fails after \<open>n\<close> bytes and the write began at the start of a
  line, \<open>Write\<close> reports the number of bytes of its own argument among those \<open>n\<close>.\<close>

theorem indent_short_write:
  assumes "buf \<noteq> []" "\<not> iw_partial w"
    and "wr u (indent_spec (iw_prefix w) False buf) = (u', n, Some e)"
  shows "iw_Write wr (w, u) buf =
    ((w\<lparr>iw_partial := last buf \<noteq> nl\<rparr>, u'),
     int (source_bytes (length (iw_prefix w)) (split_lines buf) n), Some e)"
proof -
  have "actualWrittenSize (int n) (int p) ([] # split_lines buf) = int (source_bytes p (split_lines buf) n)" for p
    using actualWrittenSize_from_count[OF split_lines_no_empty, of 0 "int n" p buf]
    by (simp add: actualWrittenSize_def)
  with iw_Write_nonempty[of buf wr u w u' n "Some e"] assms show ?thesis
    by (simp add: mid_after_def)
qed

lemma indent_short_write_witness:
  "iw_Write (\<lambda>(u :: string) b. (u, 5 :: nat, Some ())) (\<lparr>iw_prefix = ''  '', iw_partial = False\<rparr>, []) ''abcd'' =
    ((\<lparr>iw_prefix = ''  '', iw_partial = True\<rparr>, []), 3, Some ())"
proof -
  have "source_bytes (Suc (Suc 0)) (split_lines ''abcd'') 5 = 3" "nl \<noteq> CHR ''d''" by code_simp+
  with indent_short_write[of "''abcd''" "\<lparr>iw_prefix = ''  '', iw_partial = False\<rparr>"
      "\<lambda>u b. (u, 5, Some ())" "[]" "[]" 5 "()"]
  show ?thesis by simp
qed

text \<open>In the middle of a line the first piece has no indent before it, but the count still
  subtracts one: of four bytes written, all from the source, two are reported.\<close>

lemma short_write_mid_line:
  "iw_Write (\<lambda>(u :: string) b. (u, 4 :: nat, Some ())) (\<lparr>iw_prefix = ''  '', iw_partial = True\<rparr>, []) ''abcdef'' =
    ((\<lparr>iw_prefix = ''  '', iw_partial = True\<rparr>, []), 2, Some ())"
  by (simp add: iw_Write_def actualWrittenSize_def split_lines_Cons nl_def Let_def)

end
