(* ===== verification/Lexer.thy ===== *)
theory Lexer
  imports Strconv Utf8 Indent
begin

text \<open>
  \<open>pkg/yang/lex.go\<close>: the YANG lexer. The record \<open>lexer\<close> has the fields of the Go struct
  (debug output apart); a method that changes its receiver returns the new one. The buffered
  channel \<open>items\<close> is a list of at most \<open>maxErrors\<close> tokens, filled without blocking, so that a
  token sent to a full channel is dropped. A state function is a constructor of \<open>lex_state\<close>.
  \<open>errout\<close> is the text written so far, which the parser shares.
\<close>

subsection \<open>Tokens\<close>

definition eof :: rune where "eof = 2147483647"
definition maxErrors :: nat where "maxErrors = 8"
definition tooMany :: string where "tooMany = ''too many errors...'' @ [nl]"

datatype code = TEOF | TError | TString | TUnquoted | TChar rune

record token =
  tk_code :: code
  tk_Text :: string
  tk_File :: string
  tk_Line :: int
  tk_Col :: int

definition token_Code :: "token option \<Rightarrow> code" where
  "token_Code t = (case t of None \<Rightarrow> TEOF | Some tk \<Rightarrow> tk_code tk)"

definition code_int :: "code \<Rightarrow> int" where
  "code_int c = (case c of TEOF \<Rightarrow> - 1 | TError \<Rightarrow> - 2 | TString \<Rightarrow> - 3 | TUnquoted \<Rightarrow> - 4 | TChar r \<Rightarrow> int r)"

definition code_string :: "code \<Rightarrow> string" where
  "code_string c =
     (case c of
        TError \<Rightarrow> ''Error''
      | TString \<Rightarrow> ''String''
      | TUnquoted \<Rightarrow> ''Unquoted''
      | _ \<Rightarrow>
          if code_int c < 0 \<or> 126 < code_int c then go_itoa (code_int c)
          else [CHR 0x27] @ string_of_rune (nat (code_int c)) @ [CHR 0x27])"

definition token_string :: "token \<Rightarrow> string" where
  "token_string t =
     (if tk_File t \<noteq> [] then tk_File t @ '':'' else [])
     @ (if tk_Line t \<noteq> 0 then go_itoa (tk_Line t) @ '':'' @ go_itoa (tk_Col t) @ '':'' else [])
     @ (if tk_Text t = [] then '' '' @ code_string (tk_code t) else '' '' @ tk_Text t)"

subsection \<open>The lexer\<close>

datatype lex_state = Ground | QString | Unquoted

record lexer =
  lx_errout :: string
  lx_errcnt :: nat
  lx_file :: string
  lx_input :: string
  lx_start :: nat
  lx_pos :: nat
  lx_line :: int
  lx_col :: int
  lx_inPattern :: bool
  lx_items :: "token list"
  lx_tcol :: int
  lx_scol :: int
  lx_sline :: int
  lx_state :: "lex_state option"
  lx_width :: nat

definition newLexer :: "string \<Rightarrow> string \<Rightarrow> lexer" where
  "newLexer input path =
     \<lparr>lx_errout = [], lx_errcnt = 0, lx_file = path,
      lx_input = (if 0 < length input \<and> last input \<noteq> nl then input @ [nl] else input),
      lx_start = 0, lx_pos = 0, lx_line = 1, lx_col = 0, lx_inPattern = False, lx_items = [],
      lx_tcol = 0, lx_scol = 0, lx_sline = 0, lx_state = Some Ground, lx_width = 0\<rparr>"

definition lex_consume :: "lexer \<Rightarrow> lexer" where
  "lex_consume l = l\<lparr>lx_start := lx_pos l\<rparr>"

definition emitText :: "code \<Rightarrow> string \<Rightarrow> lexer \<Rightarrow> lexer" where
  "emitText c txt l =
     (let t = \<lparr>tk_code = c, tk_Text = txt, tk_File = lx_file l, tk_Line = lx_sline l, tk_Col = lx_scol l + 1\<rparr>
      in lex_consume (if length (lx_items l) < maxErrors then l\<lparr>lx_items := lx_items l @ [t]\<rparr> else l))"

definition lex_text :: "lexer \<Rightarrow> string" where
  "lex_text l = take (lx_pos l - lx_start l) (drop (lx_start l) (lx_input l))"

definition lex_emit :: "code \<Rightarrow> lexer \<Rightarrow> lexer" where
  "lex_emit c l = emitText c (lex_text l) l"

definition lex_backup :: "lexer \<Rightarrow> lexer" where
  "lex_backup l =
     (let l1 = l\<lparr>lx_pos := lx_pos l - lx_width l\<rparr>
      in if 0 < lx_width l then
           (let l2 = l1\<lparr>lx_col := lx_col l - 1, lx_tcol := lx_tcol l - 1\<rparr>
            in if lx_col l2 < 0 then l2\<lparr>lx_line := lx_line l2 - 1, lx_col := 0, lx_tcol := 0\<rparr> else l2)
         else l1)"

definition lex_next :: "lexer \<Rightarrow> rune \<times> lexer" where
  "lex_next l =
     (if length (lx_input l) \<le> lx_pos l then (eof, l\<lparr>lx_width := 0\<rparr>)
      else let (r, w) = decode_rune (drop (lx_pos l) (lx_input l));
               l1 = l\<lparr>lx_width := w, lx_pos := lx_pos l + w\<rparr>
        in (r, if r = 10 then l1\<lparr>lx_line := lx_line l + 1, lx_col := 0, lx_tcol := 0\<rparr>
               else if r = 9 then l1\<lparr>lx_tcol := (lx_tcol l + 8) div 8 * 8, lx_col := lx_col l + 1\<rparr>
               else l1\<lparr>lx_tcol := lx_tcol l + 1, lx_col := lx_col l + 1\<rparr>))"

definition lex_peek :: "lexer \<Rightarrow> rune \<times> lexer" where
  "lex_peek l = (let (r, l1) = lex_next l in (r, lex_backup l1))"

text \<open>Where the next rune is read from.\<close>

definition lex_rest :: "lexer \<Rightarrow> nat" where
  "lex_rest l = length (lx_input l) - lx_pos l"

lemma lex_next_eof_iff: "fst (lex_next l) = eof \<longleftrightarrow> length (lx_input l) \<le> lx_pos l"
  using decode_rune_bound[of "drop (lx_pos l) (lx_input l)"]
  by (auto simp: lex_next_def eof_def Let_def split: prod.splits)

lemma lex_next_rest:
  assumes "lex_next l = (r, l1)" "r \<noteq> eof"
  shows "lex_rest l1 < lex_rest l" "lx_pos l < lx_pos l1" "lx_pos l1 \<le> length (lx_input l1)"
proof -
  let ?s = "drop (lx_pos l) (lx_input l)"
  have lt: "lx_pos l < length (lx_input l)"
    using assms lex_next_eof_iff[of l] by (auto simp: linorder_not_le[symmetric])
  then have "?s \<noteq> []" by simp
  from decode_rune_width[OF this] lt assms
  show "lex_rest l1 < lex_rest l" "lx_pos l < lx_pos l1" "lx_pos l1 \<le> length (lx_input l1)"
    by (auto simp: lex_next_def lex_rest_def Let_def split: prod.splits if_splits)
qed

text \<open>\<open>strings.ContainsRune(valid, r)\<close> for a set of ASCII characters.\<close>

definition contains_rune :: "string \<Rightarrow> rune \<Rightarrow> bool" where
  "contains_rune valid r \<longleftrightarrow> r \<in> byte ` set valid"

lemma contains_rune_not_eof: "contains_rune valid r \<Longrightarrow> r \<noteq> eof"
proof -
  have "byte x \<noteq> eof" for x
    by (rule less_imp_neq, rule less_le_trans[OF byte_less]) (simp add: eof_def)
  then show "contains_rune valid r \<Longrightarrow> r \<noteq> eof" by (auto simp: contains_rune_def)
qed

function acceptRun_loop :: "string \<Rightarrow> bool \<Rightarrow> lexer \<Rightarrow> bool \<times> lexer" where
  "acceptRun_loop valid ret l =
     (let (r, l1) = lex_next l
      in if contains_rune valid r then acceptRun_loop valid True l1
         else (ret, lex_backup l1))"
  by pat_completeness auto
termination
  by (relation "measure (\<lambda>(v, ret, l). lex_rest l)")
    (auto dest!: sym[of _ "lex_next _"] intro: lex_next_rest(1) dest: contains_rune_not_eof)

declare acceptRun_loop.simps [simp del]

definition acceptRun :: "string \<Rightarrow> lexer \<Rightarrow> bool \<times> lexer" where
  "acceptRun valid l = acceptRun_loop valid False l"

definition updateCursor :: "nat \<Rightarrow> lexer \<Rightarrow> lexer" where
  "updateCursor n l =
     (let s = take n (drop (lx_pos l) (lx_input l));
          l1 = l\<lparr>lx_pos := lx_pos l + n, lx_width := n\<rparr>;
          c = length (filter (\<lambda>x. x = nl) s);
          l2 = (if 0 < c then l1\<lparr>lx_line := lx_line l1 + int c, lx_col := 0\<rparr> else l1)
      in l2\<lparr>lx_col := lx_col l2 + int (rune_count (rev (takeWhile (\<lambda>x. x \<noteq> nl) (rev s))))\<rparr>)"

definition skipTo :: "string \<Rightarrow> lexer \<Rightarrow> bool \<times> lexer" where
  "skipTo s l =
     (case go_index (drop (lx_pos l) (lx_input l)) s of
        Some x \<Rightarrow> (True, updateCursor x l)
      | None \<Rightarrow> (False, l))"

subsection \<open>Errors\<close>

definition adderror :: "string \<Rightarrow> lexer \<Rightarrow> lexer" where
  "adderror err l =
     (if lx_errcnt l = maxErrors then
        l\<lparr>lx_pos := 0, lx_start := 0, lx_input := [], lx_errout := lx_errout l @ tooMany,
          lx_errcnt := lx_errcnt l + 1\<rparr>
      else if lx_errcnt l = maxErrors + 1 then l
      else l\<lparr>lx_errout := lx_errout l @ err, lx_errcnt := lx_errcnt l + 1\<rparr>)"

text \<open>
  \<open>Fprintf\<close> of a format without arguments. The formats of the lexer have no verb, except that
  the one for an invalid escape ends in the rune that was escaped, which may be a percent sign.
\<close>

definition format0 :: "string \<Rightarrow> string" where
  "format0 f = (if f \<noteq> [] \<and> last f = CHR ''%'' then butlast f @ ''%!(NOVERB)'' else f)"

definition lex_Errorf :: "string \<Rightarrow> lexer \<Rightarrow> lexer" where
  "lex_Errorf f l =
     (let b = lx_file l @ '':'' @ go_itoa (lx_line l) @ '':'' @ go_itoa (lx_col l + 1) @ '': '' @ format0 f;
          buf = (if last b \<noteq> nl then b @ [nl] else b)
      in adderror buf (lex_emit TError l))"

definition ErrorfAt :: "int \<Rightarrow> int \<Rightarrow> string \<Rightarrow> lexer \<Rightarrow> lexer" where
  "ErrorfAt line col f l =
     (lex_Errorf f (l\<lparr>lx_line := line, lx_col := col\<rparr>))\<lparr>lx_line := lx_line l, lx_col := lx_col l\<rparr>"

subsection \<open>The states\<close>

definition quote1 :: char where "quote1 = CHR 0x27"
definition quote2 :: char where "quote2 = CHR 0x22"
definition backslash :: char where "backslash = CHR 0x5C"

definition lex_spaces :: string where "lex_spaces = [CHR '' '', CHR 0x09, CHR 0x0D, CHR 0x0A]"

text \<open>
  A state function returns the lexer and the next state (\<open>None\<close> for nil). \<open>lexGround\<close>, after
  the leading blanks, branches on the next rune.
\<close>

definition ground_quote1 :: "lexer \<Rightarrow> lexer \<times> lex_state option" where
  "ground_quote1 l =
     (let l = lex_consume (snd (lex_next l));
          (found, l) = skipTo [quote1] l
      in if \<not> found then (ErrorfAt (lx_line l) (lx_col l - 1) (''missing closing '' @ [quote1]) l, None)
         else (snd (lex_next (lex_emit TString l)), Some Ground))"

definition ground_slash :: "lexer \<Rightarrow> lexer \<times> lex_state option" where
  "ground_slash l =
     (let l = snd (lex_next l);
          (c, l) = lex_peek l
      in if c = 47 then
           (let (found, l) = skipTo [nl] l
            in if \<not> found then
                 (ErrorfAt (lx_line l) (lx_col l - 1)
                    ''lexer internal error: all lines should be newline-terminated.'' l, None)
               else (l, Some Ground))
         else if c = 42 then
           (let (found, l) = skipTo ''*/'' l
            in if \<not> found then (ErrorfAt (lx_line l) (lx_col l - 1) ''missing closing */'' l, None)
               else (snd (lex_next (snd (lex_next l))), Some Ground))
         else (l, Some Unquoted))"

definition ground_plus :: "lexer \<Rightarrow> lexer \<times> lex_state option" where
  "ground_plus l =
     (let l = snd (lex_next l);
          (c, l) = lex_peek l
      in if c = byte quote2 \<or> c = byte quote1 then (lex_emit TUnquoted l, Some Ground)
         else (l, Some Unquoted))"

definition lexGround :: "lexer \<Rightarrow> lexer \<times> lex_state option" where
  "lexGround l =
     (let l = lex_consume (snd (acceptRun lex_spaces l));
          l = l\<lparr>lx_sline := lx_line l, lx_scol := lx_col l\<rparr>;
          (c, l) = lex_peek l
      in if c = eof then (l, None)
         else if c = 59 \<or> c = 123 \<or> c = 125 then (lex_emit (TChar c) (snd (lex_next l)), Some Ground)
         else if c = byte quote1 then ground_quote1 l
         else if c = byte quote2 then (snd (lex_next l), Some QString)
         else if c = 47 then ground_slash l
         else if c = 43 then ground_plus l
         else (l, Some Unquoted))"

definition trim_blanks :: "string \<Rightarrow> string" where
  "trim_blanks txt = rev (dropWhile (\<lambda>c. c = CHR '' '' \<or> c = CHR 0x09) (rev txt))"

text \<open>The rune after a backslash: what is appended, and the lexer after a possible error.\<close>

definition qstring_escape :: "rune \<Rightarrow> lexer \<Rightarrow> string \<times> lexer" where
  "qstring_escape c l =
     (if c = byte CHR ''n'' then ([nl], l)
      else if c = byte CHR ''t'' then ([CHR 0x09], l)
      else if c = byte quote2 \<or> c = byte backslash then (string_of_rune c, l)
      else (backslash # string_of_rune c,
            if lx_inPattern l then l
            else ErrorfAt (lx_line l) (lx_col l - 2) (''invalid escape sequence: '' @ [backslash] @ string_of_rune c) l))"

text \<open>Nothing but \<open>next\<close> moves forward, and an error can only clear the input.\<close>

lemma adderror_rest: "lex_rest (adderror e l) \<le> lex_rest l"
  by (simp add: adderror_def lex_rest_def)

lemma emit_rest [simp]: "lex_rest (lex_emit c l) = lex_rest l" "lex_rest (emitText c t l) = lex_rest l"
  by (simp_all add: lex_emit_def emitText_def lex_rest_def lex_consume_def Let_def)

lemma Errorf_rest: "lex_rest (lex_Errorf f l) \<le> lex_rest l"
  unfolding lex_Errorf_def Let_def by (rule order_trans[OF adderror_rest]) simp

lemma ErrorfAt_rest: "lex_rest (ErrorfAt line col f l) \<le> lex_rest l"
  using Errorf_rest[of f "l\<lparr>lx_line := line, lx_col := col\<rparr>"]
  by (simp add: ErrorfAt_def lex_rest_def)

lemma qstring_escape_rest: "lex_rest (snd (qstring_escape c l)) \<le> lex_rest l"
  by (simp add: qstring_escape_def ErrorfAt_rest)

lemma lex_next_rest_le: "lex_rest (snd (lex_next l)) \<le> lex_rest l"
  using lex_next_rest(1)[of l "fst (lex_next l)" "snd (lex_next l)"]
  by (cases "length (lx_input l) \<le> lx_pos l")
    (simp_all add: lex_next_eof_iff lex_rest_def less_imp_le, simp add: lex_next_def)

text \<open>
  The loop of \<open>lexQString\<close>: \<open>indent\<close> is the column of the text, \<open>line\<close> and \<open>col\<close> the
  place of the opening quote, \<open>over\<close> is false up to the indent of a continuation line.
\<close>

function qstring_loop :: "int \<Rightarrow> int \<Rightarrow> int \<Rightarrow> string \<Rightarrow> bool \<Rightarrow> lexer \<Rightarrow> lexer \<times> lex_state option" where
  "qstring_loop indent line col txt over l =
     (let (c, l1) = lex_next l
      in if c = eof then (ErrorfAt line col (''missing closing '' @ [quote2]) l1, None)
         else if c = byte quote2 then (emitText TString txt l1, Some Ground)
         else if c = 10 then qstring_loop indent line col (trim_blanks txt @ [nl]) False l1
         else if c = 32 \<or> c = 9 then
           (if \<not> over \<and> lx_tcol l1 \<le> indent then qstring_loop indent line col txt over l1
            else qstring_loop indent line col (txt @ string_of_rune c) True l1)
         else if c = byte backslash then
           (let (c2, l2) = lex_next l1;
                (esc, l3) = qstring_escape c2 l2
            in qstring_loop indent line col (txt @ esc) True l3)
         else qstring_loop indent line col (txt @ string_of_rune c) True l1)"
  by pat_completeness auto
termination
proof (relation "measure (\<lambda>(i, ln, c, t, ov, l). lex_rest l)", goal_cases)
  case (5 indent line col tx over l x c l1 y c2 l2 z esc l3)
  then have e: "qstring_escape c2 l2 = (esc, l3)" "lex_next l1 = (c2, l2)" "lex_next l = (c, l1)" "c \<noteq> eof"
    by auto
  have "lex_rest l3 \<le> lex_rest l2" using qstring_escape_rest[of c2 l2] by (simp add: e(1))
  also have "\<dots> \<le> lex_rest l1" using lex_next_rest_le[of l1] by (simp add: e(2))
  also have "\<dots> < lex_rest l" by (rule lex_next_rest(1)[OF e(3,4)])
  finally show ?case by simp
qed (auto dest!: sym[of _ "lex_next _"] intro: lex_next_rest(1))

declare qstring_loop.simps [simp del]

definition lexQString :: "lexer \<Rightarrow> lexer \<times> lex_state option" where
  "lexQString l = qstring_loop (lx_tcol l) (lx_line l) (lx_col l - 1) [] True l"

definition unquoted_end :: "rune \<Rightarrow> bool" where
  "unquoted_end c \<longleftrightarrow> c \<in> {32, 13, 10, 9, 59, 34, 39, 123, 125, eof}"

function lexUnquoted :: "lexer \<Rightarrow> lexer \<times> lex_state option" where
  "lexUnquoted l =
     (let (c, l1) = lex_peek l
      in if unquoted_end c then (lex_emit TUnquoted l1, Some Ground)
         else lexUnquoted (snd (lex_next l1)))"
  by pat_completeness auto
termination
proof (relation "measure lex_rest", goal_cases)
  case (2 l x c l1)
  then have c: "c = fst (lex_next l)" "c \<noteq> eof" and l1: "l1 = lex_backup (snd (lex_next l))"
    by (auto simp: lex_peek_def unquoted_end_def split: prod.splits)
  then have lt: "lx_pos l < length (lx_input l)" using lex_next_eof_iff[of l] by auto
  have "lx_pos l1 = lx_pos l" "lx_input l1 = lx_input l" using l1 lt
    by (auto simp: lex_backup_def lex_next_def Let_def split: prod.splits if_splits)
  then have "lex_rest l1 = lex_rest l" "fst (lex_next l1) \<noteq> eof" using lt lex_next_eof_iff[of l1]
    by (auto simp: lex_rest_def)
  then show ?case using lex_next_rest(1)[of l1 "fst (lex_next l1)" "snd (lex_next l1)"] by simp
qed simp

declare lexUnquoted.simps [simp del]

definition lex_step :: "lex_state \<Rightarrow> lexer \<Rightarrow> lexer \<times> lex_state option" where
  "lex_step st l = (case st of Ground \<Rightarrow> lexGround l | QString \<Rightarrow> lexQString l | Unquoted \<Rightarrow> lexUnquoted l)"

subsection \<open>Cost: tokens in the channel and bytes still to be read\<close>

definition lex_cost :: "lexer \<Rightarrow> nat" where
  "lex_cost l = length (lx_items l) + 3 * lex_rest l"

lemma lex_consume_cost [simp]:
  "lex_cost (lex_consume l) = lex_cost l" "lex_rest (lex_consume l) = lex_rest l"
  by (simp_all add: lex_cost_def lex_rest_def lex_consume_def)

lemma lex_cost_update [simp]:
  "lex_cost (l\<lparr>lx_line := a\<rparr>) = lex_cost l" "lex_cost (l\<lparr>lx_col := a\<rparr>) = lex_cost l"
  "lex_cost (l\<lparr>lx_sline := a\<rparr>) = lex_cost l" "lex_cost (l\<lparr>lx_scol := a\<rparr>) = lex_cost l"
  "lex_cost (l\<lparr>lx_state := st\<rparr>) = lex_cost l" "lex_cost (l\<lparr>lx_inPattern := b\<rparr>) = lex_cost l"
  "lex_rest (l\<lparr>lx_line := a\<rparr>) = lex_rest l" "lex_rest (l\<lparr>lx_col := a\<rparr>) = lex_rest l"
  "lex_rest (l\<lparr>lx_sline := a\<rparr>) = lex_rest l" "lex_rest (l\<lparr>lx_scol := a\<rparr>) = lex_rest l"
  "lex_rest (l\<lparr>lx_state := st\<rparr>) = lex_rest l" "lex_rest (l\<lparr>lx_inPattern := b\<rparr>) = lex_rest l"
  by (simp_all add: lex_cost_def lex_rest_def)

lemma emitText_cost: "lex_cost (emitText c t l) \<le> lex_cost l + 1"
  by (simp add: emitText_def lex_cost_def lex_rest_def lex_consume_def Let_def)

lemma lex_emit_cost: "lex_cost (lex_emit c l) \<le> lex_cost l + 1"
  by (simp only: lex_emit_def emitText_cost)

lemma emit_items [simp]: "lx_items (emitText c t l) \<noteq> []" "lx_items (lex_emit c l) \<noteq> []"
  by (auto simp: lex_emit_def emitText_def lex_consume_def maxErrors_def Let_def)

lemma adderror_items [simp]: "lx_items (adderror e l) = lx_items l"
  by (simp add: adderror_def)

lemma Errorf_cost: "lex_cost (lex_Errorf f l) \<le> lex_cost l + 1"
proof -
  have "lex_cost (adderror e k) \<le> lex_cost k" for e k
    using adderror_rest[of e k] by (simp add: lex_cost_def)
  then show ?thesis unfolding lex_Errorf_def Let_def by (rule order_trans[OF _ lex_emit_cost])
qed

lemma ErrorfAt_cost: "lex_cost (ErrorfAt line col f l) \<le> lex_cost l + 1"
  using Errorf_cost[of f "l\<lparr>lx_line := line, lx_col := col\<rparr>"] by (simp add: ErrorfAt_def)

lemma ErrorfAt_items [simp]: "lx_items (ErrorfAt line col f l) \<noteq> []"
  by (simp add: ErrorfAt_def lex_Errorf_def Let_def)

lemma lex_next_items [simp]: "lx_items (snd (lex_next l)) = lx_items l"
  by (auto simp: lex_next_def Let_def split: prod.splits)

lemma lex_next_cost_le: "lex_cost (snd (lex_next l)) \<le> lex_cost l"
  using lex_next_rest_le[of l] by (simp add: lex_cost_def)

lemma lex_next_cost: "fst (lex_next l) \<noteq> eof \<Longrightarrow> lex_cost (snd (lex_next l)) + 3 \<le> lex_cost l"
  using lex_next_rest(1)[of l "fst (lex_next l)" "snd (lex_next l)"] by (simp add: lex_cost_def)

text \<open>Looking ahead leaves the position alone.\<close>

lemma lex_backup_next:
  "lx_pos (lex_backup (snd (lex_next l))) = lx_pos l"
  "lx_input (lex_backup (snd (lex_next l))) = lx_input l"
  "lx_items (lex_backup (snd (lex_next l))) = lx_items l"
  "lx_start (lex_backup (snd (lex_next l))) = lx_start l"
  by (auto simp: lex_backup_def lex_next_def Let_def split: prod.splits)

lemma lex_next_fst_cong: "lx_pos l = lx_pos k \<Longrightarrow> lx_input l = lx_input k \<Longrightarrow> fst (lex_next l) = fst (lex_next k)"
  by (simp add: lex_next_def Let_def split: prod.splits)

lemma lex_peek_eq: "lex_peek l = (fst (lex_next l), lex_backup (snd (lex_next l)))"
  by (simp add: lex_peek_def split: prod.splits)

lemma lex_backup_cost [simp]:
  "lex_cost (lex_backup (snd (lex_next l))) = lex_cost l" "lex_rest (lex_backup (snd (lex_next l))) = lex_rest l"
  "fst (lex_next (lex_backup (snd (lex_next l)))) = fst (lex_next l)"
  by (simp_all add: lex_cost_def lex_rest_def lex_backup_next)
    (rule lex_next_fst_cong, simp_all add: lex_backup_next)

lemma acceptRun_loop_le:
  "lex_cost (snd (acceptRun_loop v ret l)) \<le> lex_cost l \<and> lex_rest (snd (acceptRun_loop v ret l)) \<le> lex_rest l"
proof (induction v ret l rule: acceptRun_loop.induct)
  case (1 v ret l)
  obtain r l1 where n: "lex_next l = (r, l1)" by (cases "lex_next l")
  then have l1: "l1 = snd (lex_next l)" by simp
  have le: "lex_cost l1 \<le> lex_cost l" "lex_rest l1 \<le> lex_rest l"
    "lex_cost (lex_backup l1) = lex_cost l" "lex_rest (lex_backup l1) = lex_rest l"
    using lex_next_cost_le[of l] lex_next_rest_le[of l] lex_backup_cost(1,2)[of l] by (simp_all add: n)
  show ?case
  proof (cases "contains_rune v r")
    case True
    then have "acceptRun_loop v ret l = acceptRun_loop v True l1" by (simp add: acceptRun_loop.simps[of v ret l] n)
    with "1.IH"[OF n[symmetric] refl True] le show ?thesis by simp
  next
    case False
    then have "acceptRun_loop v ret l = (ret, lex_backup l1)" by (simp add: acceptRun_loop.simps[of v ret l] n)
    with le show ?thesis by simp
  qed
qed

lemma acceptRun_le:
  "lex_cost (snd (acceptRun v l)) \<le> lex_cost l" "lex_rest (snd (acceptRun v l)) \<le> lex_rest l"
  using acceptRun_loop_le by (simp_all add: acceptRun_def)

lemma acceptRun_loop_stop: "\<not> contains_rune v (fst (lex_next (snd (acceptRun_loop v ret l))))"
proof (induction v ret l rule: acceptRun_loop.induct)
  case (1 v ret l)
  obtain r l1 where n: "lex_next l = (r, l1)" by (cases "lex_next l")
  have "fst (lex_next (lex_backup l1)) = r" using lex_backup_cost(3)[of l] by (simp add: n)
  with "1.IH"[OF n[symmetric] refl] n show ?case
    by (cases "contains_rune v r") (simp_all add: acceptRun_loop.simps[of v ret l])
qed

lemma acceptRun_stop: "\<not> contains_rune v (fst (lex_next (snd (acceptRun v l))))"
  by (simp add: acceptRun_def acceptRun_loop_stop)

lemma updateCursor_le: "lex_cost (updateCursor n l) \<le> lex_cost l" "lex_rest (updateCursor n l) \<le> lex_rest l"
  by (auto simp: updateCursor_def Let_def lex_cost_def lex_rest_def)

lemma skipTo_le: "lex_cost (snd (skipTo s l)) \<le> lex_cost l" "lex_rest (snd (skipTo s l)) \<le> lex_rest l"
  by (simp_all add: skipTo_def updateCursor_le split: option.splits)

subsection \<open>Each state reads or emits\<close>

text \<open>The weight of a state: what it may still add to the cost.\<close>

definition state_weight :: "lex_state option \<Rightarrow> lexer \<Rightarrow> nat" where
  "state_weight st l =
     (case st of
        None \<Rightarrow> 0
      | Some Ground \<Rightarrow> 1
      | Some QString \<Rightarrow> 2
      | Some Unquoted \<Rightarrow> (if unquoted_end (fst (lex_next l)) then 2 else 1))"

lemma state_weight_simps [simp]:
  "state_weight None l = 0" "state_weight (Some Ground) l = 1" "state_weight (Some QString) l = 2"
  by (simp_all add: state_weight_def)

lemma state_weight_Unquoted: "1 \<le> state_weight (Some Unquoted) l \<and> state_weight (Some Unquoted) l \<le> 2"
  by (simp add: state_weight_def)

lemma lexUnquoted_cost:
  "snd (lexUnquoted l) = Some Ground \<and> lx_items (fst (lexUnquoted l)) \<noteq> [] \<and>
   lex_rest (fst (lexUnquoted l)) \<le> lex_rest l \<and>
   lex_cost (fst (lexUnquoted l)) + 1 \<le> lex_cost l + state_weight (Some Unquoted) l"
proof (induction l rule: lexUnquoted.induct)
  case (1 l)
  let ?c = "fst (lex_next l)" let ?l = "lex_backup (snd (lex_next l))"
  show ?case
  proof (cases "unquoted_end ?c")
    case True
    have "lexUnquoted l = (lex_emit TUnquoted ?l, Some Ground)"
      using True by (simp add: lexUnquoted.simps[of l] lex_peek_eq)
    then show ?thesis using lex_emit_cost[of TUnquoted ?l] True by (simp add: state_weight_def)
  next
    case False
    then have ne: "?c \<noteq> eof" by (auto simp: unquoted_end_def)
    have e: "lexUnquoted l = lexUnquoted (snd (lex_next ?l))"
      using False by (simp add: lexUnquoted.simps[of l] lex_peek_eq)
    have "lex_cost (snd (lex_next ?l)) + 3 \<le> lex_cost l" "lex_rest (snd (lex_next ?l)) \<le> lex_rest l"
      using lex_next_cost[of ?l] lex_next_rest_le[of ?l] ne by simp_all
    moreover have "state_weight (Some Unquoted) l = 1" using False by (simp add: state_weight_def)
    ultimately show ?thesis using state_weight_Unquoted[of "snd (lex_next ?l)"] "1.IH"[OF lex_peek_eq[of l, symmetric, unfolded prod.collapse] refl] False
      unfolding e by (auto simp: lex_peek_eq)
  qed
qed

lemma qstring_escape_cost: "lex_cost (snd (qstring_escape c l)) \<le> lex_cost l + 1"
  using ErrorfAt_cost by (auto simp: qstring_escape_def)

text \<open>What a state may do: \<open>k\<close> is the weight it starts with.\<close>

definition state_result :: "nat \<Rightarrow> lexer \<Rightarrow> lexer \<times> lex_state option \<Rightarrow> bool" where
  "state_result k l x \<longleftrightarrow>
     lex_rest (fst x) \<le> lex_rest l \<and> lex_cost (fst x) + state_weight (snd x) (fst x) \<le> lex_cost l + k"

lemma state_resultI:
  "lex_rest l' \<le> lex_rest l \<Longrightarrow> lex_cost l' + state_weight st l' \<le> lex_cost l + k \<Longrightarrow> state_result k l (l', st)"
  by (simp add: state_result_def)

lemma state_result_mono:
  "state_result k l1 x \<Longrightarrow> lex_rest l1 \<le> lex_rest l \<Longrightarrow> lex_cost l1 + k \<le> lex_cost l + m \<Longrightarrow> state_result m l x"
  by (simp add: state_result_def)

lemma qstring_loop_result:
  "state_result 2 l (qstring_loop indent line col tx over l) \<and>
   lx_items (fst (qstring_loop indent line col tx over l)) \<noteq> [] \<and>
   snd (qstring_loop indent line col tx over l) \<in> {None, Some Ground}"
proof (induction indent line col tx over l rule: qstring_loop.induct)
  case (1 indent line col tx over l)
  obtain c l1 where n: "lex_next l = (c, l1)" by (cases "lex_next l")
  have le: "lex_cost l1 \<le> lex_cost l" "lex_rest l1 \<le> lex_rest l"
    using lex_next_cost_le[of l] lex_next_rest_le[of l] by (simp_all add: n)
  have ne: "c \<noteq> eof \<Longrightarrow> lex_cost l1 + 3 \<le> lex_cost l" using lex_next_cost[of l] by (simp add: n)
  note eq = qstring_loop.simps[of indent line col tx over l] n
  note IH = "1.IH"[OF n[symmetric] refl]
  note mono = state_result_mono[where k = 2 and m = 2 and l = l, OF _ le(2)]
  consider "c = eof" | "c \<noteq> eof" "c = byte quote2" | "c \<noteq> eof" "c \<noteq> byte quote2" "c = 10"
    | "c \<noteq> eof" "c \<noteq> byte quote2" "c \<noteq> 10" "c = 32 \<or> c = 9" "\<not> over \<and> lx_tcol l1 \<le> indent"
    | "c \<noteq> eof" "c \<noteq> byte quote2" "c \<noteq> 10" "c = 32 \<or> c = 9" "\<not> (\<not> over \<and> lx_tcol l1 \<le> indent)"
    | "c \<noteq> eof" "c \<noteq> byte quote2" "c \<noteq> 10" "\<not> (c = 32 \<or> c = 9)" "c = byte backslash"
    | "c \<noteq> eof" "c \<noteq> byte quote2" "c \<noteq> 10" "\<not> (c = 32 \<or> c = 9)" "c \<noteq> byte backslash"
    by blast
  then show ?case
  proof cases
    case 1
    then show ?thesis
      using ErrorfAt_cost[of line col "''missing closing '' @ [quote2]" l1]
        ErrorfAt_rest[of line col "''missing closing '' @ [quote2]" l1] le
      by (simp add: eq state_result_def)
  next
    case 2
    then show ?thesis using emitText_cost[of TString tx l1] le ne by (simp add: eq state_result_def)
  next
    case 3
    then show ?thesis using IH(1)[OF 3] mono le(1) by (simp add: eq)
  next
    case 4
    have "qstring_loop indent line col tx over l = qstring_loop indent line col tx over l1"
      by (subst qstring_loop.simps) (use 4 n in simp)
    then show ?thesis using IH(2)[OF 4] mono le(1) by auto
  next
    case 5
    have "qstring_loop indent line col tx over l = qstring_loop indent line col (tx @ string_of_rune c) True l1"
      by (subst qstring_loop.simps) (use 5 n in auto)
    then show ?thesis using IH(3)[OF 5] mono le(1) by auto
  next
    case 6
    obtain c2 l2 esc l3 where n2: "lex_next l1 = (c2, l2)" "qstring_escape c2 l2 = (esc, l3)"
      by (metis prod.collapse)
    have "lex_cost l2 \<le> lex_cost l1" "lex_rest l2 \<le> lex_rest l1" "lex_cost l3 \<le> lex_cost l2 + 1"
      "lex_rest l3 \<le> lex_rest l2"
      using lex_next_cost_le[of l1] lex_next_rest_le[of l1] qstring_escape_cost[of c2 l2]
        qstring_escape_rest[of c2 l2] by (simp_all add: n2)
    then have "lex_cost l3 \<le> lex_cost l" "lex_rest l3 \<le> lex_rest l" using le ne 6(1) by linarith+
    then show ?thesis
      using IH(4)[OF 6 n2(1)[symmetric] refl n2(2)[symmetric] refl] state_result_mono[of 2 l3 _ l 2] 6
      by (simp add: eq n2)
  next
    case 7
    then show ?thesis using IH(5)[OF 7] mono le(1) by (simp add: eq)
  qed
qed

lemma lexQString_result:
  "state_result 2 l (lexQString l)" "lx_items (fst (lexQString l)) \<noteq> []" "snd (lexQString l) \<in> {None, Some Ground}"
  using qstring_loop_result by (simp_all add: lexQString_def)

text \<open>A ground state that stays in the ground state has read something.\<close>

definition ground_result :: "lexer \<Rightarrow> lexer \<times> lex_state option \<Rightarrow> bool" where
  "ground_result l x \<longleftrightarrow> state_result 1 l x \<and> (snd x = Some Ground \<longrightarrow> lex_rest (fst x) < lex_rest l)"

lemma ground_resultI:
  assumes "fst (lex_next l) \<noteq> eof"
    and "lex_rest (fst x) \<le> lex_rest (snd (lex_next l))"
    and "lex_cost (fst x) + state_weight (snd x) (fst x) \<le> lex_cost (snd (lex_next l)) + 3"
  shows "ground_result l x"
  using lex_next_cost[OF assms(1)] lex_next_rest(1)[of l "fst (lex_next l)" "snd (lex_next l)"] assms
  by (simp add: ground_result_def state_result_def)

definition lex_le :: "nat \<Rightarrow> lexer \<Rightarrow> lexer \<Rightarrow> bool" where
  "lex_le k l l' \<longleftrightarrow> lex_rest l' \<le> lex_rest l \<and> lex_cost l' \<le> lex_cost l + k"

lemma lex_le_refl: "lex_le k l l"
  by (simp add: lex_le_def)

lemma lex_le_next: "lex_le k l l1 \<Longrightarrow> lex_le k l (snd (lex_next l1))"
  using lex_next_rest_le[of l1] lex_next_cost_le[of l1] by (simp add: lex_le_def)

lemma lex_le_peek: "lex_le k l l1 \<Longrightarrow> lex_le k l (lex_backup (snd (lex_next l1)))"
  by (simp add: lex_le_def)

lemma lex_le_consume: "lex_le k l l1 \<Longrightarrow> lex_le k l (lex_consume l1)"
  by (simp add: lex_le_def)

lemma lex_le_skipTo: "lex_le k l l1 \<Longrightarrow> skipTo s l1 = (b, l2) \<Longrightarrow> lex_le k l l2"
  using skipTo_le[of s l1] by (simp add: lex_le_def)

lemma lex_le_emit: "lex_le 0 l l1 \<Longrightarrow> lex_le (Suc 0) l (lex_emit c l1)"
  using lex_emit_cost[of c l1] by (simp add: lex_le_def)

lemma lex_le_ErrorfAt: "lex_le 0 l l1 \<Longrightarrow> lex_le (Suc 0) l (ErrorfAt a b f l1)"
  using ErrorfAt_cost[of a b f l1] ErrorfAt_rest[of a b f l1] by (simp add: lex_le_def)

lemma lex_le_Suc: "lex_le 0 l l1 \<Longrightarrow> lex_le (Suc 0) l l1"
  by (simp add: lex_le_def)

lemmas lex_le_intros = lex_le_refl lex_le_next lex_le_peek lex_le_consume lex_le_emit lex_le_ErrorfAt

lemma ground_quote1_le:
  "lex_le (Suc 0) (snd (lex_next l)) (fst (ground_quote1 l)) \<and> snd (ground_quote1 l) \<in> {None, Some Ground}"
proof -
  let ?l1 = "lex_consume (snd (lex_next l))"
  obtain b l2 where s: "skipTo [quote1] ?l1 = (b, l2)" by (cases "skipTo [quote1] ?l1")
  have "lex_le 0 (snd (lex_next l)) l2" by (rule lex_le_skipTo[OF _ s]) (intro lex_le_intros)
  then show ?thesis by (simp add: ground_quote1_def s lex_le_intros)
qed

lemma ground_slash_le: "lex_le (Suc 0) (snd (lex_next l)) (fst (ground_slash l))"
proof -
  let ?l1 = "snd (lex_next l)" let ?l2 = "lex_backup (snd (lex_next ?l1))"
  have l2: "lex_le 0 ?l1 ?l2" by (intro lex_le_intros)
  obtain b3 l3 b4 l4 where s: "skipTo [nl] ?l2 = (b3, l3)" "skipTo ''*/'' ?l2 = (b4, l4)"
    by (metis prod.collapse)
  have "lex_le 0 ?l1 l3" "lex_le 0 ?l1 l4" using lex_le_skipTo[OF l2] s by blast+
  then show ?thesis using l2
    by (simp add: ground_slash_def lex_peek_eq Let_def s lex_le_intros lex_le_Suc)
qed

lemma ground_plus_le: "lex_le (Suc 0) (snd (lex_next l)) (fst (ground_plus l))"
proof -
  let ?l1 = "snd (lex_next l)" let ?l2 = "lex_backup (snd (lex_next ?l1))"
  have "lex_le 0 ?l1 ?l2" by (intro lex_le_intros)
  then show ?thesis
    by (simp add: ground_plus_def lex_peek_eq Let_def lex_le_intros lex_le_Suc)
qed

lemma lexGround_result: "ground_result l (lexGround l)"
proof -
  define l1 where "l1 = lex_consume (snd (acceptRun lex_spaces l))"
  define l2 where "l2 = l1\<lparr>lx_sline := lx_line l1, lx_scol := lx_col l1\<rparr>"
  define l3 where "l3 = lex_backup (snd (lex_next l2))"
  have c3: "fst (lex_next l3) = fst (lex_next l2)" "lex_rest l3 \<le> lex_rest l" "lex_cost l3 \<le> lex_cost l"
    using acceptRun_le[of lex_spaces l] by (simp_all add: l3_def l2_def l1_def)
  let ?c = "fst (lex_next l2)"
  have pk: "lex_peek l2 = (?c, l3)" by (simp add: lex_peek_eq l3_def)
  have le: "ground_result l x"
    if "?c \<noteq> eof" "lex_le (Suc 0) (snd (lex_next l3)) (fst x)" for x
  proof -
    have "state_weight (snd x) (fst x) \<le> 2" using state_weight_Unquoted[of "fst x"]
      by (cases "snd x") (auto simp: state_weight_def split: lex_state.splits)
    then have "ground_result l3 x" using that c3 by (intro ground_resultI) (auto simp: lex_le_def)
    then show ?thesis using c3 by (auto simp: ground_result_def state_result_def)
  qed
  have unq: "ground_result l (l3, Some Unquoted)" if "\<not> unquoted_end ?c"
    using that c3 by (simp add: ground_result_def state_result_def state_weight_def)
  have "fst (lex_next l2) = fst (lex_next (snd (acceptRun lex_spaces l)))"
    by (rule lex_next_fst_cong) (simp_all add: l2_def l1_def lex_consume_def)
  then have "\<not> contains_rune lex_spaces ?c" using acceptRun_stop[of lex_spaces l] by simp
  then have nb: "?c \<noteq> 32" "?c \<noteq> 9" "?c \<noteq> 13" "?c \<noteq> 10"
    by (auto simp: contains_rune_def lex_spaces_def byte_def)
  have e: "lexGround l =
     (if ?c = eof then (l3, None)
      else if ?c = 59 \<or> ?c = 123 \<or> ?c = 125 then (lex_emit (TChar ?c) (snd (lex_next l3)), Some Ground)
      else if ?c = byte quote1 then ground_quote1 l3
      else if ?c = byte quote2 then (snd (lex_next l3), Some QString)
      else if ?c = 47 then ground_slash l3
      else if ?c = 43 then ground_plus l3
      else (l3, Some Unquoted))"
    unfolding lexGround_def l1_def[symmetric] Let_def l2_def[symmetric] pk by simp
  show ?thesis
  proof (cases "?c = eof")
    case True
    then show ?thesis using c3 by (simp add: e ground_result_def state_result_def)
  next
    case False
    note le = le[OF False]
    have "lex_le (Suc 0) (snd (lex_next l3)) (snd (lex_next l3))" by (rule lex_le_refl)
    then have "ground_result l (lex_emit (TChar ?c) (snd (lex_next l3)), Some Ground)"
      "ground_result l (ground_quote1 l3)" "ground_result l (snd (lex_next l3), Some QString)"
      "ground_result l (ground_slash l3)" "ground_result l (ground_plus l3)"
      by (intro le; simp add: lex_le_intros ground_quote1_le ground_slash_le ground_plus_le)+
    then show ?thesis
      using unq False nb unfolding e by (auto simp: unquoted_end_def quote1_def quote2_def byte_def)
  qed
qed

subsection \<open>NextToken\<close>

function NextToken :: "lexer \<Rightarrow> token option \<times> lexer" where
  "NextToken l =
     (case lx_items l of
        item # items \<Rightarrow> (Some item, l\<lparr>lx_items := items\<rparr>)
      | [] \<Rightarrow>
          (case lx_state l of
             None \<Rightarrow> (None, l)
           | Some st \<Rightarrow> NextToken (let (l1, st1) = lex_step st l in l1\<lparr>lx_state := st1\<rparr>)))"
  by pat_completeness auto

definition token_measure :: "lexer \<Rightarrow> nat" where
  "token_measure l =
     (if lx_items l \<noteq> [] then 0
      else case lx_state l of None \<Rightarrow> 0 | Some Ground \<Rightarrow> 2 + 2 * lex_rest l | Some _ \<Rightarrow> 1 + 2 * lex_rest l)"

lemma lex_step_result:
  "state_result (state_weight (Some st) l) l (lex_step st l)"
  "st \<noteq> Ground \<Longrightarrow> lx_items (fst (lex_step st l)) \<noteq> []"
  "st = Ground \<Longrightarrow> snd (lex_step st l) = Some Ground \<Longrightarrow> lex_rest (fst (lex_step st l)) < lex_rest l"
  using lexGround_result[of l] lexQString_result[of l] lexUnquoted_cost[of l]
  by (cases st; auto simp: lex_step_def ground_result_def state_result_def)+

termination NextToken
proof (relation "measure token_measure", simp, goal_cases)
  case (1 l st)
  obtain l1 st1 where s: "lex_step st l = (l1, st1)" by (cases "lex_step st l")
  have "token_measure (l1\<lparr>lx_state := st1\<rparr>) < token_measure l"
  proof (cases "lx_items l1 = []")
    case True
    with lex_step_result(2)[of st l] have g: "st = Ground" by (auto simp: s)
    have "lex_rest l1 \<le> lex_rest l" using lex_step_result(1)[of st l] by (simp add: s state_result_def)
    moreover have "lex_rest l1 < lex_rest l" if "st1 = Some Ground"
      using lex_step_result(3)[OF g, of l] that by (simp add: s)
    ultimately show ?thesis using g 1 True
      by (auto simp: token_measure_def split: option.splits lex_state.splits)
  qed (use 1 in \<open>auto simp: token_measure_def split: lex_state.splits\<close>)
  then show ?case by (simp add: s)
qed

declare NextToken.simps [simp del]

text \<open>The potential of a lexer: it bounds the tokens that are still to come.\<close>

definition lex_potential :: "lexer \<Rightarrow> nat" where
  "lex_potential l = lex_cost l + state_weight (lx_state l) l"

lemma state_weight_cong:
  "lx_pos l = lx_pos k \<Longrightarrow> lx_input l = lx_input k \<Longrightarrow> state_weight st l = state_weight st k"
  unfolding state_weight_def by (simp add: lex_next_fst_cong[of l k] split: option.splits lex_state.splits)

lemma lex_step_potential:
  "lex_step st l = (l1, st1) \<Longrightarrow> lx_state l = Some st \<Longrightarrow> lex_potential (l1\<lparr>lx_state := st1\<rparr>) \<le> lex_potential l"
  using lex_step_result(1)[of st l] state_weight_cong[of "l1\<lparr>lx_state := st1\<rparr>" l1 st1]
  by (simp add: lex_potential_def state_result_def)

lemma NextToken_potential:
  "(case NextToken l of
      (Some t, l') \<Rightarrow> lex_potential l' < lex_potential l
    | (None, l') \<Rightarrow> lex_potential l' \<le> lex_potential l \<and> lx_items l' = [] \<and> lx_state l' = None)"
proof (induction l rule: NextToken.induct)
  case (1 l)
  show ?case
  proof (cases "lx_items l")
    case (Cons item items)
    then have "lex_potential (l\<lparr>lx_items := items\<rparr>) < lex_potential l"
      using state_weight_cong[of "l\<lparr>lx_items := items\<rparr>" l "lx_state l"]
      by (simp add: lex_potential_def lex_cost_def lex_rest_def)
    then show ?thesis by (simp add: NextToken.simps[of l] Cons)
  next
    case Nil
    show ?thesis
    proof (cases "lx_state l")
      case None
      then show ?thesis by (simp add: NextToken.simps[of l] Nil)
    next
      case (Some st)
      obtain l1 st1 where s: "lex_step st l = (l1, st1)" by (cases "lex_step st l")
      have e: "NextToken l = NextToken (l1\<lparr>lx_state := st1\<rparr>)"
        by (simp add: NextToken.simps[of l] Nil Some s)
      show ?thesis using "1.IH"[OF Nil Some] lex_step_potential[OF s Some]
        unfolding e by (auto simp: s split: prod.splits option.splits)
    qed
  qed
qed

subsection \<open>Sources of tokens\<close>

text \<open>
  What the parser needs of a source of tokens: a potential that every token uses up, and that
  the end is final.
\<close>

locale token_source =
  fixes nt :: "'l \<Rightarrow> token option \<times> 'l" and pot :: "'l \<Rightarrow> nat"
  assumes token_uses: "nt l = (Some t, l') \<Longrightarrow> pot l' < pot l"
    and end_final: "nt l = (None, l') \<Longrightarrow> pot l' \<le> pot l \<and> nt l' = (None, l')"

text \<open>The first \<open>n\<close> tokens of a source.\<close>

fun drain :: "('l \<Rightarrow> token option \<times> 'l) \<Rightarrow> nat \<Rightarrow> 'l \<Rightarrow> token list \<times> 'l" where
  "drain nt 0 l = ([], l)"
| "drain nt (Suc n) l =
     (case nt l of
        (None, l') \<Rightarrow> ([], l')
      | (Some t, l') \<Rightarrow> (let (ts, l'') = drain nt n l' in (t # ts, l'')))"

context token_source begin

lemma drain_bound: "length (fst (drain nt n l)) \<le> pot l"
proof (induction n arbitrary: l)
  case (Suc n)
  obtain t l' where n: "nt l = (t, l')" by (cases "nt l")
  show ?case
  proof (cases t)
    case (Some tk)
    with n token_uses[of l tk l'] Suc[of l'] show ?thesis by (auto split: prod.splits)
  qed (simp add: n)
qed simp

lemma drain_end: "pot l < n \<Longrightarrow> nt (snd (drain nt n l)) = (None, snd (drain nt n l))"
proof (induction n arbitrary: l)
  case (Suc n)
  obtain t l' where n: "nt l = (t, l')" by (cases "nt l")
  show ?case
  proof (cases t)
    case None
    with n end_final[of l l'] show ?thesis by simp
  next
    case (Some tk)
    with n token_uses[of l tk l'] Suc.prems Suc.IH[of l'] show ?thesis by (auto split: prod.splits)
  qed
qed simp

end

interpretation lex_tokens: token_source NextToken lex_potential
proof
  fix l t l'
  show "NextToken l = (Some t, l') \<Longrightarrow> lex_potential l' < lex_potential l"
    using NextToken_potential[of l] by simp
  assume n: "NextToken l = (None, l')"
  with NextToken_potential[of l] have "lx_items l' = []" "lx_state l' = None" by simp_all
  then have "NextToken l' = (None, l')" by (simp add: NextToken.simps[of l'])
  with n NextToken_potential[of l] show "lex_potential l' \<le> lex_potential l \<and> NextToken l' = (None, l')" by simp
qed

subsection \<open>Positions stay inside the input\<close>

text \<open>With this every slice of the input that the Go code takes is in bounds.\<close>

definition lex_ok :: "lexer \<Rightarrow> bool" where
  "lex_ok l \<longleftrightarrow> lx_start l \<le> lx_pos l \<and> lx_pos l \<le> length (lx_input l) \<and>
     length (lx_items l) \<le> maxErrors \<and> lx_errcnt l \<le> maxErrors + 1"

named_theorems lex_ok_rules

lemma lex_ok_update [simp]:
  "lex_ok (l\<lparr>lx_line := a\<rparr>) = lex_ok l" "lex_ok (l\<lparr>lx_col := a\<rparr>) = lex_ok l"
  "lex_ok (l\<lparr>lx_sline := a\<rparr>) = lex_ok l" "lex_ok (l\<lparr>lx_scol := a\<rparr>) = lex_ok l"
  "lex_ok (l\<lparr>lx_state := st\<rparr>) = lex_ok l" "lex_ok (l\<lparr>lx_inPattern := b\<rparr>) = lex_ok l"
  "lex_ok (l\<lparr>lx_errout := e\<rparr>) = lex_ok l"
  by (simp_all add: lex_ok_def)

lemma lex_ok_new: "lex_ok (newLexer input path)"
  by (simp add: lex_ok_def newLexer_def)

lemma lex_ok_next [lex_ok_rules]: "lex_ok l \<Longrightarrow> lex_ok (snd (lex_next l))"
  using decode_rune_width(2)[of "drop (lx_pos l) (lx_input l)"]
  by (auto simp: lex_ok_def lex_next_def Let_def split: prod.splits)

lemma lex_backup_errcnt [simp]: "lx_errcnt (lex_backup (snd (lex_next l))) = lx_errcnt l"
  by (auto simp: lex_backup_def lex_next_def Let_def split: prod.splits)

lemma lex_ok_backup [lex_ok_rules]: "lex_ok l \<Longrightarrow> lex_ok (lex_backup (snd (lex_next l)))"
  by (simp add: lex_ok_def lex_backup_next)

lemma lex_ok_consume [lex_ok_rules]: "lex_ok l \<Longrightarrow> lex_ok (lex_consume l)"
  by (simp add: lex_ok_def lex_consume_def)

lemma lex_ok_emitText [lex_ok_rules]: "lex_ok l \<Longrightarrow> lex_ok (emitText c t l)"
  by (auto simp: lex_ok_def emitText_def lex_consume_def Let_def)

lemma lex_ok_emit [lex_ok_rules]: "lex_ok l \<Longrightarrow> lex_ok (lex_emit c l)"
  by (simp add: lex_emit_def lex_ok_emitText)

lemma lex_ok_adderror [lex_ok_rules]: "lex_ok l \<Longrightarrow> lex_ok (adderror e l)"
  by (auto simp: lex_ok_def adderror_def)

lemma lex_ok_ErrorfAt [lex_ok_rules]: "lex_ok l \<Longrightarrow> lex_ok (ErrorfAt a b f l)"
  by (simp add: ErrorfAt_def lex_Errorf_def Let_def lex_ok_adderror lex_ok_emit)

lemma lex_ok_skipTo [lex_ok_rules]: "lex_ok l \<Longrightarrow> lex_ok (snd (skipTo s l))"
  by (auto simp: lex_ok_def skipTo_def updateCursor_def Let_def dest!: go_index_SomeD split: option.splits)

lemma lex_ok_acceptRun_loop: "lex_ok l \<Longrightarrow> lex_ok (snd (acceptRun_loop v ret l))"
proof (induction v ret l rule: acceptRun_loop.induct)
  case (1 v ret l)
  obtain r l1 where n: "lex_next l = (r, l1)" by (cases "lex_next l")
  have "lex_ok l1" "lex_ok (lex_backup l1)" using lex_ok_next[OF "1.prems"] lex_ok_backup[OF "1.prems"] by (simp_all add: n)
  with "1.IH"[OF n[symmetric] refl] n show ?case
    by (cases "contains_rune v r") (simp_all add: acceptRun_loop.simps[of v ret l])
qed

lemma lex_ok_acceptRun [lex_ok_rules]: "lex_ok l \<Longrightarrow> lex_ok (snd (acceptRun v l))"
  by (simp add: acceptRun_def lex_ok_acceptRun_loop)

lemma lex_ok_ground_parts:
  "lex_ok l \<Longrightarrow> lex_ok (fst (ground_quote1 l))" "lex_ok l \<Longrightarrow> lex_ok (fst (ground_slash l))"
  "lex_ok l \<Longrightarrow> lex_ok (fst (ground_plus l))"
  by (auto simp: ground_quote1_def ground_slash_def ground_plus_def Let_def lex_peek_eq case_prod_beta
      intro!: lex_ok_rules)

lemma lex_ok_Ground: "lex_ok l \<Longrightarrow> lex_ok (fst (lexGround l))"
  by (simp add: lexGround_def Let_def lex_peek_eq lex_ok_rules lex_ok_ground_parts)

lemma lex_ok_Unquoted: "lex_ok l \<Longrightarrow> lex_ok (fst (lexUnquoted l))"
proof (induction l rule: lexUnquoted.induct)
  case (1 l)
  show ?case
    using "1.IH"[OF lex_peek_eq[symmetric, of l, unfolded prod.collapse] refl] "1.prems"
    by (cases "unquoted_end (fst (lex_next l))")
      (simp_all add: lexUnquoted.simps[of l] lex_peek_eq lex_ok_rules)
qed

lemma lex_ok_escape: "lex_ok l \<Longrightarrow> lex_ok (snd (qstring_escape c l))"
  by (simp add: qstring_escape_def lex_ok_ErrorfAt)

lemma lex_ok_qstring_loop: "lex_ok l \<Longrightarrow> lex_ok (fst (qstring_loop indent line col tx over l))"
proof (induction indent line col tx over l rule: qstring_loop.induct)
  case (1 indent line col tx over l)
  obtain c l1 where n: "lex_next l = (c, l1)" by (cases "lex_next l")
  obtain c2 l2 esc l3 where n2: "lex_next l1 = (c2, l2)" "qstring_escape c2 l2 = (esc, l3)"
    by (metis prod.collapse)
  have ok: "lex_ok l1" using lex_ok_next[OF "1.prems"] by (simp add: n)
  have ok3: "lex_ok l3" using lex_ok_escape[OF lex_ok_next[OF ok], of c2] by (simp add: n2)
  note IH = "1.IH"[OF n[symmetric] refl]
  show ?case
    using IH(1) IH(2) IH(3) IH(5) IH(4)[OF _ _ _ _ _ n2(1)[symmetric] refl n2(2)[symmetric] refl] ok ok3
    by (subst qstring_loop.simps) (auto simp: n n2 lex_ok_rules)
qed

lemma lex_ok_step: "lex_ok l \<Longrightarrow> lex_ok (fst (lex_step st l))"
  by (cases st) (simp_all add: lex_step_def lexQString_def lex_ok_Ground lex_ok_Unquoted lex_ok_qstring_loop)

lemma lex_ok_NextToken: "lex_ok l \<Longrightarrow> lex_ok (snd (NextToken l))"
proof (induction l rule: NextToken.induct)
  case (1 l)
  show ?case
  proof (cases "lx_items l")
    case (Cons t ts)
    with "1.prems" show ?thesis by (simp add: NextToken.simps[of l] lex_ok_def)
  next
    case Nil
    show ?thesis
    proof (cases "lx_state l")
      case None
      with Nil "1.prems" show ?thesis by (simp add: NextToken.simps[of l])
    next
      case (Some st)
      with "1.IH"[OF Nil Some] lex_ok_step[OF "1.prems", of st] show ?thesis
        by (simp add: NextToken.simps[of l] Nil case_prod_beta)
    qed
  qed
qed

text \<open>The lexers a client can reach: it asks for tokens, and the parser switches \<open>inPattern\<close>.\<close>

inductive lex_reachable :: "string \<Rightarrow> string \<Rightarrow> lexer \<Rightarrow> bool" for input path where
  new: "lex_reachable input path (newLexer input path)"
| token: "lex_reachable input path l \<Longrightarrow> lex_reachable input path (snd (NextToken l))"
| pattern: "lex_reachable input path l \<Longrightarrow> lex_reachable input path (l\<lparr>lx_inPattern := b\<rparr>)"

lemma lex_reachable_ok: "lex_reachable input path l \<Longrightarrow> lex_ok l"
  by (induction rule: lex_reachable.induct) (simp_all add: lex_ok_new lex_ok_NextToken)

lemma newLexer_potential: "lex_potential (newLexer input path) \<le> 3 * length input + 4"
  by (simp add: lex_potential_def lex_cost_def lex_rest_def newLexer_def)

subsection \<open>Evaluating the lexer\<close>

lemma drain_numeral:
  "drain nt (numeral k) l =
     (case nt l of
        (None, l') \<Rightarrow> ([], l')
      | (Some t, l') \<Rightarrow> (let (ts, l'') = drain nt (pred_numeral k) l' in (t # ts, l'')))"
  by (simp add: numeral_eq_Suc)

lemmas lex_eval = NextToken.simps lex_step_def lexGround_def acceptRun_def acceptRun_loop.simps lex_next_def
  lex_peek_def lex_backup_def lex_consume_def lex_emit_def emitText_def lex_text_def skipTo_def updateCursor_def
  ground_quote1_def ground_slash_def ground_plus_def lexQString_def qstring_loop.simps qstring_escape_def
  lexUnquoted.simps unquoted_end_def contains_rune_def lex_spaces_def decode_rune_def byte_def eof_def nl_def
  maxErrors_def quote1_def quote2_def backslash_def trim_blanks_def string_of_rune_ascii rune_count.simps
  newLexer_def Let_def token_Code_def char_of_def bit_0

text \<open>The slash that opens a block comment is taken for the one that closes it.\<close>

lemma comment_closes_early:
  "map tk_Text (fst (drain NextToken 9 (newLexer ''/*/ a */ b;'' ''f''))) = [''a'', ''*/'', ''b'', '';'']"
  by (simp add: lex_eval drain_numeral)

text \<open>
  The two texts differ only in that a comment takes the place of blanks. The quote is in the
  same column, but \<open>updateCursor\<close> leaves \<open>tcol\<close> behind the comment, so fewer blanks are
  stripped from the second line of the string.
\<close>

lemma comment_changes_indent:
  "map tk_Text (fst (drain NextToken 9 (newLexer
      (''a /* 12 */ '' @ [quote2] @ ''x'' @ [nl] @ ''              y'' @ [quote2]) ''f'')))
     = [''a'', ''x'' @ [nl] @ ''       y'']"
  "map tk_Text (fst (drain NextToken 9 (newLexer
      (''a          '' @ [quote2] @ ''x'' @ [nl] @ ''              y'' @ [quote2]) ''f'')))
     = [''a'', ''x'' @ [nl] @ ''  y'']"
  by (simp_all add: lex_eval drain_numeral)

text \<open>The escaped rune is part of the format of the error message.\<close>

lemma percent_escape_message:
  "lx_errout (snd (NextToken (newLexer ([quote2, backslash] @ ''%'' @ [quote2]) ''f'')))
     = ''f:1:2: invalid escape sequence: '' @ [backslash] @ ''%!(NOVERB)'' @ [nl]"
  by (simp add: lex_eval ErrorfAt_def lex_Errorf_def adderror_def format0_def go_itoa_def go_digits.simps digit_char_def)

subsection \<open>Properties\<close>

text \<open>C20: the lexer always comes to an end: asked at least \<open>3 * length input + 5\<close> times for a
  token it has delivered at most \<open>3 * length input + 4\<close> of them and then returns nil for good,
  whatever the bytes of the input.\<close>

theorem lexer_exhausted:
  "case drain NextToken (3 * length input + 5) (newLexer input path) of
     (ts, l) \<Rightarrow> length ts \<le> 3 * length input + 4 \<and> NextToken l = (None, l)"
proof -
  let ?l = "newLexer input path" let ?n = "3 * length input + 5"
  have "lex_potential ?l < ?n" using newLexer_potential[of input path] by simp
  with lex_tokens.drain_bound[of ?n ?l] lex_tokens.drain_end[of ?l ?n] newLexer_potential[of input path]
  show ?thesis by (auto split: prod.splits)
qed

text \<open>C21: in every lexer that calls of \<open>NextToken\<close> and switches of \<open>inPattern\<close> can reach,
  the start and the cursor lie in the input, in this order, the channel holds at most
  \<open>maxErrors\<close> tokens, and at most one message more than \<open>maxErrors\<close> was written; so no slice
  expression of the lexer is out of bounds.\<close>

theorem lexer_in_bounds:
  assumes "lex_reachable input path l"
  shows "lx_start l \<le> lx_pos l \<and> lx_pos l \<le> length (lx_input l) \<and>
    length (lx_items l) \<le> maxErrors \<and> lx_errcnt l \<le> maxErrors + 1"
  using lex_reachable_ok[OF assms] by (simp add: lex_ok_def)

lemma lexer_in_bounds_witness:
  "lx_pos (snd (NextToken (newLexer ''a b;'' ''f''))) \<le> length (lx_input (snd (NextToken (newLexer ''a b;'' ''f''))))"
  using lexer_in_bounds[OF lex_reachable.token[OF lex_reachable.new[of "''a b;''" "''f''"]]] by blast

end
