(* ===== verification/LexText.thy ===== *)
theory LexText
  imports Lexer
begin

text \<open>
  What the lexer of \<open>Lexer\<close> makes of given text: blanks, punctuation, unquoted words and
  double-quoted strings of printable ASCII characters, each as one call of \<open>NextToken\<close>.
\<close>

definition lex_at :: "lexer \<Rightarrow> string \<Rightarrow> bool" where
  "lex_at l s \<longleftrightarrow> drop (lx_pos l) (lx_input l) = s \<and> lx_pos l \<le> length (lx_input l)"

text \<open>The fields that reading text does not change.\<close>

definition lex_frame :: "lexer \<Rightarrow> lexer \<Rightarrow> bool" where
  "lex_frame l l' \<longleftrightarrow> lx_input l' = lx_input l \<and> lx_items l' = lx_items l \<and> lx_state l' = lx_state l \<and>
     lx_errout l' = lx_errout l \<and> lx_file l' = lx_file l \<and> lx_inPattern l' = lx_inPattern l"

lemma lex_frame_refl [simp]: "lex_frame l l"
  by (simp add: lex_frame_def)

lemma lex_frame_trans: "lex_frame l k \<Longrightarrow> lex_frame k m \<Longrightarrow> lex_frame l m"
  by (simp add: lex_frame_def)

lemma drop_at:
  assumes "drop n xs = a @ b" "n \<le> length xs"
  shows "drop (n + length a) xs = b" "n + length a \<le> length xs"
proof -
  have "drop (n + length a) xs = drop (length a) (drop n xs)" by (simp add: add.commute)
  with assms(1) show "drop (n + length a) xs = b" by simp
  have "length xs - n = length a + length b" using assms(1) by (metis length_append length_drop)
  with assms(2) show "n + length a \<le> length xs" by linarith
qed

lemma next_at:
  assumes "lex_at l (c # s)" "byte c < 128"
  shows "fst (lex_next l) = byte c" "lex_at (snd (lex_next l)) s" "lex_frame l (snd (lex_next l))"
    "lx_pos (snd (lex_next l)) = Suc (lx_pos l)" "lx_start (snd (lex_next l)) = lx_start l"
proof -
  have d: "drop (lx_pos l) (lx_input l) = [c] @ s" "lx_pos l \<le> length (lx_input l)"
    using assms(1) by (simp_all add: lex_at_def)
  have n: "\<not> length (lx_input l) \<le> lx_pos l" using d(1) by auto
  have e: "decode_rune (drop (lx_pos l) (lx_input l)) = (byte c, 1)"
    using decode_rune_ascii[OF assms(2), of s] d by simp
  show "fst (lex_next l) = byte c" "lex_frame l (snd (lex_next l))"
    "lx_pos (snd (lex_next l)) = Suc (lx_pos l)" "lx_start (snd (lex_next l)) = lx_start l"
    using n by (simp_all add: lex_next_def e Let_def lex_frame_def)
  then show "lex_at (snd (lex_next l)) s"
    using drop_at[OF d] by (simp add: lex_at_def lex_frame_def)
qed

lemma backup_at:
  "lex_at l s \<Longrightarrow> lex_at (lex_backup (snd (lex_next l))) s"
  "lex_frame l (lex_backup (snd (lex_next l)))"
  by (auto simp: lex_at_def lex_backup_next)
    (auto simp: lex_frame_def lex_backup_def lex_next_def Let_def split: prod.splits)

lemma next_at_end:
  "lex_at l [] \<Longrightarrow> fst (lex_next l) = eof"
  by (simp add: lex_at_def lex_next_eof_iff)

lemma update_at [simp]:
  "lex_at (l\<lparr>lx_line := a\<rparr>) s = lex_at l s" "lex_at (l\<lparr>lx_col := a\<rparr>) s = lex_at l s"
  "lex_at (l\<lparr>lx_sline := a\<rparr>) s = lex_at l s" "lex_at (l\<lparr>lx_scol := a\<rparr>) s = lex_at l s"
  "lex_at (l\<lparr>lx_state := st\<rparr>) s = lex_at l s" "lex_at (l\<lparr>lx_items := ts\<rparr>) s = lex_at l s"
  "lex_at (l\<lparr>lx_inPattern := b\<rparr>) s = lex_at l s" "lex_at (l\<lparr>lx_errout := e\<rparr>) s = lex_at l s"
  "lex_at (l\<lparr>lx_start := n\<rparr>) s = lex_at l s" "lex_at (lex_consume l) s = lex_at l s"
  by (simp_all add: lex_at_def lex_consume_def)

subsection \<open>Blanks\<close>

definition blank :: "char \<Rightarrow> bool" where
  "blank c \<longleftrightarrow> c \<in> set lex_spaces"

lemma blank_ascii: "blank c \<Longrightarrow> byte c < 128"
  by (auto simp: blank_def lex_spaces_def byte_def)

lemma contains_byte [simp]: "contains_rune lex_spaces (byte c) = blank c"
  by (auto simp: contains_rune_def blank_def)

lemma acceptRun_at:
  assumes "lex_at l (ws @ s)" "\<forall>c \<in> set ws. blank c"
    and "s = [] \<or> \<not> blank (hd s) \<and> byte (hd s) < 128"
  shows "lex_at (snd (acceptRun lex_spaces l)) s \<and> lex_frame l (snd (acceptRun lex_spaces l))"
proof -
  have "lex_at (snd (acceptRun_loop lex_spaces ret l)) s \<and> lex_frame l (snd (acceptRun_loop lex_spaces ret l))"
    if "lex_at l (ws @ s)" "\<forall>c \<in> set ws. blank c" for ret l
    using that
  proof (induction ws arbitrary: ret l)
    case Nil
    have "\<not> contains_rune lex_spaces (fst (lex_next l))"
    proof (cases s)
      case Nil
      then show ?thesis using next_at_end[of l] Nil.prems contains_rune_not_eof by auto
    next
      case (Cons c s')
      then show ?thesis using next_at(1)[of l c s'] Nil.prems assms(3) by simp
    qed
    then have "acceptRun_loop lex_spaces ret l = (ret, lex_backup (snd (lex_next l)))"
      by (simp add: acceptRun_loop.simps[of lex_spaces ret l] case_prod_beta)
    with backup_at(1)[of l s] backup_at(2)[of l] Nil.prems show ?case by simp
  next
    case (Cons c ws)
    have b: "blank c" using Cons.prems by simp
    note n = next_at[OF Cons.prems(1)[unfolded append_Cons] blank_ascii[OF b]]
    have e: "acceptRun_loop lex_spaces ret l = acceptRun_loop lex_spaces True (snd (lex_next l))"
      using b by (simp add: acceptRun_loop.simps[of lex_spaces ret l] case_prod_beta n(1))
    have "\<forall>x \<in> set ws. blank x" using Cons.prems(2) by simp
    from Cons.IH[OF n(2) this, of True] lex_frame_trans[OF n(3)] show ?case unfolding e by blast
  qed
  then show ?thesis using assms(1,2) by (simp add: acceptRun_def)
qed

text \<open>The ground state after the blanks: the branch on the next character.\<close>

definition ground_branch :: "rune \<Rightarrow> lexer \<Rightarrow> lexer \<times> lex_state option" where
  "ground_branch c l =
     (if c = eof then (l, None)
      else if c = 59 \<or> c = 123 \<or> c = 125 then (lex_emit (TChar c) (snd (lex_next l)), Some Ground)
      else if c = byte quote1 then ground_quote1 l
      else if c = byte quote2 then (snd (lex_next l), Some QString)
      else if c = 47 then ground_slash l
      else if c = 43 then ground_plus l
      else (l, Some Unquoted))"

lemma ground_at:
  assumes "lex_at l (ws @ s)" "\<forall>c \<in> set ws. blank c" "s = [] \<or> \<not> blank (hd s) \<and> byte (hd s) < 128"
  shows "\<exists>l'. lexGround l = ground_branch (case s of [] \<Rightarrow> eof | c # _ \<Rightarrow> byte c) l' \<and>
    lex_at l' s \<and> lex_frame l l' \<and> lx_start l' = lx_pos l'"
proof -
  define l1 where "l1 = lex_consume (snd (acceptRun lex_spaces l))"
  define l2 where "l2 = l1\<lparr>lx_sline := lx_line l1, lx_scol := lx_col l1\<rparr>"
  have a: "lex_at l2 s" "lex_frame l l2" "lx_start l2 = lx_pos l2"
    using acceptRun_at[OF assms] by (simp_all add: l2_def l1_def lex_frame_def lex_consume_def)
  have c: "fst (lex_next l2) = (case s of [] \<Rightarrow> eof | c # _ \<Rightarrow> byte c)"
    using a(1) next_at(1)[of l2 "hd s" "tl s"] next_at_end[of l2] assms(3) by (cases s) auto
  have "lexGround l = ground_branch (fst (lex_next l2)) (lex_backup (snd (lex_next l2)))"
    unfolding lexGround_def l1_def[symmetric] Let_def l2_def[symmetric] lex_peek_eq ground_branch_def by simp
  moreover have "lex_at (lex_backup (snd (lex_next l2))) s" "lex_frame l (lex_backup (snd (lex_next l2)))"
    "lx_start (lex_backup (snd (lex_next l2))) = lx_pos (lex_backup (snd (lex_next l2)))"
    using backup_at[of l2] a lex_frame_trans by (auto simp: lex_backup_next)
  ultimately show ?thesis using c by auto
qed

subsection \<open>One token\<close>

text \<open>Between tokens: nothing in the channel, ground state, the given text ahead.\<close>

definition lex_ready :: "lexer \<Rightarrow> string \<Rightarrow> bool" where
  "lex_ready l s \<longleftrightarrow> lex_at l s \<and> lx_items l = [] \<and> lx_state l = Some Ground"

definition lex_same :: "lexer \<Rightarrow> lexer \<Rightarrow> bool" where
  "lex_same l l' \<longleftrightarrow> lx_errout l' = lx_errout l \<and> lx_file l' = lx_file l \<and> lx_inPattern l' = lx_inPattern l"

lemma lex_same_refl [simp]: "lex_same l l"
  by (simp add: lex_same_def)

lemma lex_same_trans: "lex_same l k \<Longrightarrow> lex_same k m \<Longrightarrow> lex_same l m"
  by (simp add: lex_same_def)

lemma lex_frame_same: "lex_frame l l' \<Longrightarrow> lex_same l l'"
  by (simp add: lex_frame_def lex_same_def)

lemma emitText_ready:
  assumes "lex_at l s" "lx_items l = []"
  shows "\<exists>t l'. NextToken ((emitText c t1 l)\<lparr>lx_state := Some Ground\<rparr>) = (Some t, l') \<and>
    tk_code t = c \<and> tk_Text t = t1 \<and> tk_File t = lx_file l \<and> lex_ready l' s \<and> lex_same l l'"
proof -
  let ?l = "(emitText c t1 l)\<lparr>lx_state := Some Ground\<rparr>"
  have i: "lx_items ?l = [\<lparr>tk_code = c, tk_Text = t1, tk_File = lx_file l, tk_Line = lx_sline l, tk_Col = lx_scol l + 1\<rparr>]"
    using assms(2) by (simp add: emitText_def lex_consume_def maxErrors_def Let_def)
  show ?thesis using assms
    by (simp add: NextToken.simps[of ?l] i)
      (simp add: emitText_def lex_ready_def lex_same_def lex_at_def lex_consume_def Let_def)
qed

lemma NextToken_ground:
  assumes "lex_ready l s"
  shows "NextToken l = NextToken (let (l1, st1) = lexGround l in l1\<lparr>lx_state := st1\<rparr>)"
  using assms by (simp add: NextToken.simps[of l] lex_ready_def lex_step_def)

lemma token_end:
  assumes "lex_ready l ws" "\<forall>c \<in> set ws. blank c"
  shows "\<exists>l'. NextToken l = (None, l') \<and> lex_same l l'"
proof -
  from ground_at[of l ws "[]"] assms obtain l' where
    "lexGround l = (l', None)" "lex_frame l l'"
    by (auto simp: lex_ready_def ground_branch_def)
  with assms show ?thesis
    by (simp add: NextToken_ground[OF assms(1)])
      (simp add: NextToken.simps[of "l'\<lparr>lx_state := None\<rparr>"] lex_frame_def lex_ready_def lex_same_def)
qed

lemma token_char:
  assumes "lex_ready l (ws @ c # s)" "\<forall>c \<in> set ws. blank c" "byte c \<in> {59, 123, 125}"
  shows "\<exists>t l'. NextToken l = (Some t, l') \<and> tk_code t = TChar (byte c) \<and> tk_File t = lx_file l \<and>
    lex_ready l' s \<and> lex_same l l'"
proof -
  have nb: "\<not> blank c" "byte c < 128" "byte c \<noteq> eof" using assms(3) by (auto simp: blank_def lex_spaces_def byte_def eof_def)
  from ground_at[of l ws "c # s"] assms nb obtain l1 where
    g: "lexGround l = ground_branch (byte c) l1" "lex_at l1 (c # s)" "lex_frame l l1"
    by (auto simp: lex_ready_def)
  note n = next_at[OF g(2) nb(2)]
  have f: "lex_frame l (snd (lex_next l1))" by (rule lex_frame_trans[OF g(3) n(3)])
  have "lexGround l = (lex_emit (TChar (byte c)) (snd (lex_next l1)), Some Ground)"
    using g(1) nb assms(3) by (auto simp: ground_branch_def)
  with emitText_ready[OF n(2), of "TChar (byte c)" "lex_text (snd (lex_next l1))"] f assms(1)
  show ?thesis
    unfolding NextToken_ground[OF assms(1)] lex_emit_def
    by (auto simp: lex_frame_def lex_ready_def lex_same_def)
qed

text \<open>Characters of unquoted words.\<close>

definition word_char :: "char \<Rightarrow> bool" where
  "word_char c \<longleftrightarrow> byte c < 128 \<and> \<not> unquoted_end (byte c)"

definition word_end :: "string \<Rightarrow> bool" where
  "word_end s \<longleftrightarrow> (case s of [] \<Rightarrow> True | c # _ \<Rightarrow> byte c < 128 \<and> unquoted_end (byte c))"

lemma lexUnquoted_at:
  "lex_at l (w @ s) \<Longrightarrow> \<forall>c \<in> set w. word_char c \<Longrightarrow> word_end s \<Longrightarrow>
   \<exists>l'. lexUnquoted l = (lex_emit TUnquoted l', Some Ground) \<and> lex_at l' s \<and> lex_frame l l' \<and>
     lx_start l' = lx_start l \<and> lx_pos l' = lx_pos l + length w"
proof (induction w arbitrary: l)
  case Nil
  have "unquoted_end (fst (lex_next l))"
  proof (cases s)
    case Nil
    then show ?thesis using next_at_end[of l] Nil.prems by (simp add: unquoted_end_def)
  next
    case (Cons c s')
    then show ?thesis using next_at(1)[of l c s'] Nil.prems by (simp add: word_end_def)
  qed
  then have "lexUnquoted l = (lex_emit TUnquoted (lex_backup (snd (lex_next l))), Some Ground)"
    by (simp add: lexUnquoted.simps[of l] lex_peek_eq)
  with backup_at(1)[of l s] backup_at(2)[of l] Nil.prems show ?case by (auto simp: lex_backup_next)
next
  case (Cons c w)
  let ?b = "lex_backup (snd (lex_next l))" let ?l = "snd (lex_next ?b)"
  have c: "byte c < 128" "\<not> unquoted_end (byte c)" using Cons.prems(2) by (auto simp: word_char_def)
  have la: "lex_at l (c # w @ s)" using Cons.prems(1) by simp
  have n1: "fst (lex_next l) = byte c" by (rule next_at(1)[OF la c(1)])
  note n2 = next_at[OF backup_at(1)[OF la] c(1)]
  have e: "lexUnquoted l = lexUnquoted ?l"
    using n1 c(2) by (simp add: lexUnquoted.simps[of l] lex_peek_eq)
  have f: "lex_frame l ?l" by (rule lex_frame_trans[OF backup_at(2) n2(3)])
  have "\<forall>x \<in> set w. word_char x" using Cons.prems(2) by simp
  from Cons.IH[OF n2(2) this Cons.prems(3)] f n2(4,5) show ?case unfolding e
    by (auto simp: lex_backup_next intro: lex_frame_trans)
qed

lemma lex_text_at:
  assumes "drop n (lx_input l) = w @ s" "lx_start l = n" "lx_pos l = n + length w"
  shows "lex_text l = w"
  using assms by (simp add: lex_text_def)

lemma token_word:
  assumes "lex_ready l (ws @ w @ s)" "\<forall>c \<in> set ws. blank c" "\<forall>c \<in> set w. word_char c" "word_end s"
    and "w \<noteq> []" "hd w \<noteq> CHR ''/''" "hd w \<noteq> CHR ''+''"
  shows "\<exists>t l'. NextToken l = (Some t, l') \<and> tk_code t = TUnquoted \<and> tk_Text t = w \<and> tk_File t = lx_file l \<and>
    lex_ready l' s \<and> lex_same l l'"
proof -
  obtain c r where w: "w = c # r" using assms(5) by (cases w) auto
  have c: "byte c < 128" "\<not> unquoted_end (byte c)" using assms(3) by (auto simp: w word_char_def)
  have nb: "\<not> blank c" using c by (auto simp: blank_def lex_spaces_def unquoted_end_def byte_def)
  have ne: "byte c \<noteq> 47" "byte c \<noteq> 43"
    using assms(6,7) byte_inject[of c "CHR ''/''"] byte_inject[of c "CHR ''+''"] by (auto simp: w byte_def)
  have "lex_at l (ws @ c # r @ s)" using assms(1) by (simp add: lex_ready_def w)
  from ground_at[OF this assms(2)] nb c obtain l1 where
    g: "lexGround l = ground_branch (byte c) l1" "lex_at l1 (w @ s)" "lex_frame l l1" "lx_start l1 = lx_pos l1"
    by (auto simp: w)
  have gb: "lexGround l = (l1, Some Unquoted)"
    using g(1) c ne by (auto simp: ground_branch_def unquoted_end_def quote1_def quote2_def byte_def)
  let ?l = "l1\<lparr>lx_state := Some Unquoted\<rparr>"
  obtain l2 where u: "lexUnquoted ?l = (lex_emit TUnquoted l2, Some Ground)" "lex_at l2 s" "lex_frame ?l l2"
    "lx_start l2 = lx_start ?l" "lx_pos l2 = lx_pos ?l + length w"
    using lexUnquoted_at[of ?l w s] g(2) assms(3,4) by auto
  have f: "lex_frame l (l2\<lparr>lx_state := Some Ground\<rparr>)"
    using g(3) u(3) assms(1) by (simp add: lex_frame_def lex_ready_def)
  have i: "lx_items l1 = []" "lx_items l2 = []" using f g(3) assms(1) by (simp_all add: lex_frame_def lex_ready_def)
  have "lx_input l2 = lx_input l1" using u(3) by (simp add: lex_frame_def)
  then have tx: "lex_text l2 = w"
    using u g(2,4) by (intro lex_text_at[of "lx_pos l1"]) (simp_all add: lex_at_def)
  have "NextToken l = NextToken ?l" by (simp add: NextToken_ground[OF assms(1)] gb)
  also have "\<dots> = NextToken ((emitText TUnquoted w l2)\<lparr>lx_state := Some Ground\<rparr>)"
    using i by (simp add: NextToken.simps[of ?l] lex_step_def u(1) lex_emit_def tx)
  finally show ?thesis using emitText_ready[OF u(2) i(2), of TUnquoted w] f
    by (auto simp: lex_frame_def lex_same_def)
qed

subsection \<open>Double-quoted strings\<close>

text \<open>A printable ASCII text as \<open>%q\<close> prints it between the quotes.\<close>

definition printable :: "char \<Rightarrow> bool" where
  "printable c \<longleftrightarrow> 32 \<le> byte c \<and> byte c < 127"

definition escape_char :: "char \<Rightarrow> string" where
  "escape_char c = (if c = quote2 \<or> c = backslash then [backslash, c] else [c])"

definition escape :: "string \<Rightarrow> string" where
  "escape s = concat (map escape_char s)"

lemma special_bytes: "byte quote2 = 34" "byte backslash = 92" "byte quote1 = 39" "byte nl = 10"
  by (simp_all add: byte_def quote2_def backslash_def quote1_def nl_def)

lemma byte_eq_iff: "byte c = byte d \<longleftrightarrow> c = d" by simp

lemma string_of_byte: "byte c < 128 \<Longrightarrow> string_of_rune (byte c) = [c]"
  by (simp add: string_of_rune_ascii)

lemma qstring_at:
  "lex_at l (escape s @ quote2 # r) \<Longrightarrow> \<forall>c \<in> set s. printable c \<Longrightarrow>
   \<exists>l'. qstring_loop indent line col tx True l = (emitText TString (tx @ s) l', Some Ground) \<and>
     lex_at l' r \<and> lex_frame l l'"
proof (induction s arbitrary: l tx)
  case Nil
  then have a: "lex_at l (quote2 # r)" by (simp add: escape_def)
  note n = next_at[OF a, unfolded special_bytes, simplified]
  have "qstring_loop indent line col tx True l = (emitText TString tx (snd (lex_next l)), Some Ground)"
    by (subst qstring_loop.simps) (simp add: case_prod_beta n(1) special_bytes eof_def)
  with n show ?case by auto
next
  case (Cons c s)
  have p: "32 \<le> byte c" "byte c < 127" using Cons.prems(2) by (auto simp: printable_def)
  have s: "\<forall>c \<in> set s. printable c" using Cons.prems(2) by simp
  show ?case
  proof (cases "c = quote2 \<or> c = backslash")
    case True
    have a: "lex_at l (backslash # c # escape s @ quote2 # r)"
      using Cons.prems(1) True by (simp add: escape_def escape_char_def)
    note n = next_at[OF a, unfolded special_bytes, simplified]
    have c: "byte c < 128" using p by simp
    note m = next_at[OF n(2) c]
    have q: "byte c \<noteq> byte CHR ''n''" "byte c \<noteq> byte CHR ''t''"
      using True by (auto simp: quote2_def backslash_def)
    have e: "qstring_escape (byte c) l2 = ([c], l2)" for l2
      using True q string_of_byte[OF c] by (auto simp: qstring_escape_def)
    have "qstring_loop indent line col tx True l = qstring_loop indent line col (tx @ [c]) True (snd (lex_next (snd (lex_next l))))"
      by (subst qstring_loop.simps) (simp add: case_prod_beta n(1) m(1) special_bytes eof_def e)
    with Cons.IH[OF m(2) s, of "tx @ [c]"] lex_frame_trans[OF n(3) m(3)] show ?thesis
      by (auto intro: lex_frame_trans)
  next
    case False
    have c: "byte c < 128" using p by simp
    have a: "lex_at l (c # escape s @ quote2 # r)"
      using Cons.prems(1) False by (simp add: escape_def escape_char_def)
    note n = next_at[OF a c]
    have ne: "byte c \<noteq> 34" "byte c \<noteq> 92" using False byte_inject[of c] special_bytes by metis+
    have "qstring_loop indent line col tx True l = qstring_loop indent line col (tx @ [c]) True (snd (lex_next l))"
      using p ne string_of_byte[OF c] c
      by (subst qstring_loop.simps) (auto simp: case_prod_beta n(1) special_bytes eof_def)
    with Cons.IH[OF n(2) s, of "tx @ [c]"] n(3) show ?thesis by (auto intro: lex_frame_trans)
  qed
qed

lemma token_quoted:
  assumes "lex_ready l (ws @ quote2 # escape s @ quote2 # r)" "\<forall>c \<in> set ws. blank c" "\<forall>c \<in> set s. printable c"
  shows "\<exists>t l'. NextToken l = (Some t, l') \<and> tk_code t = TString \<and> tk_Text t = s \<and> tk_File t = lx_file l \<and>
    lex_ready l' r \<and> lex_same l l'"
proof -
  have "\<not> blank quote2" by (simp add: blank_def lex_spaces_def quote2_def)
  with ground_at[of l ws "quote2 # escape s @ quote2 # r"] assms(1,2) obtain l1 where
    g: "lexGround l = ground_branch (byte quote2) l1" "lex_at l1 (quote2 # escape s @ quote2 # r)" "lex_frame l l1"
    by (auto simp: lex_ready_def special_bytes)
  note n = next_at[OF g(2), unfolded special_bytes, simplified]
  have gb: "lexGround l = (snd (lex_next l1), Some QString)"
    using g(1) by (simp add: ground_branch_def special_bytes eof_def)
  let ?l = "(snd (lex_next l1))\<lparr>lx_state := Some QString\<rparr>"
  obtain l2 where q: "lexQString ?l = (emitText TString s l2, Some Ground)" "lex_at l2 r" "lex_frame ?l l2"
    using qstring_at[of ?l s r "lx_tcol ?l" "lx_line ?l" "lx_col ?l - 1" "[]"] n(2) assms(3)
    by (auto simp: lexQString_def)
  have f: "lex_frame l (l2\<lparr>lx_state := Some Ground\<rparr>)"
    using g(3) q(3) n(3) assms(1) by (simp add: lex_frame_def lex_ready_def)
  have i: "lx_items ?l = []" "lx_items l2 = []" using f g(3) n(3) assms(1) by (simp_all add: lex_frame_def lex_ready_def)
  have "NextToken l = NextToken ?l" by (simp add: NextToken_ground[OF assms(1)] gb)
  also have "\<dots> = NextToken ((emitText TString s l2)\<lparr>lx_state := Some Ground\<rparr>)"
    using i by (simp add: NextToken.simps[of ?l] lex_step_def q(1))
  finally show ?thesis using emitText_ready[OF q(2) i(2), of TString s] f
    by (auto simp: lex_frame_def lex_same_def)
qed

end
