(* ===== verification/Statements.thy ===== *)
theory Statements
  imports Strconv
begin

text \<open>
  The struct \<open>Statement\<close> of \<open>pkg/yang/parse.go\<close> with the methods that make it a \<open>Node\<close>. It
  is shared by the parser, which produces it, and the AST, which is built from it.
\<close>

datatype Statement =
  Statement (Keyword: string) (HasArgument: bool) (Argument: string) (statements: "Statement list")
    (st_file: string) (st_line: int) (st_col: int)

definition NName :: "Statement \<Rightarrow> string" where "NName s = Argument s"
definition Kind :: "Statement \<Rightarrow> string" where "Kind s = Keyword s"
definition Arg :: "Statement \<Rightarrow> string \<times> bool" where "Arg s = (Argument s, HasArgument s)"
definition SubStatements :: "Statement \<Rightarrow> Statement list" where "SubStatements s = statements s"

definition Location :: "Statement \<Rightarrow> string" where
  "Location s =
     (if st_file s = [] \<and> st_line s = 0 then ''unknown''
      else if st_file s = [] then ''line '' @ go_itoa (st_line s) @ '':'' @ go_itoa (st_col s)
      else if st_line s = 0 then st_file s
      else st_file s @ '':'' @ go_itoa (st_line s) @ '':'' @ go_itoa (st_col s))"

definition ignoreMe :: Statement where
  "ignoreMe = Statement [] False [] [] [] 0 0"


end
