(* ===== verification/Parser.thy ===== *)
theory Parser
  imports Lexer Statements
begin

text \<open>
  \<open>pkg/yang/parse.go\<close>: the parser of statements (\<open>Statements\<close> holds the Go struct). The three
  kinds of pointer that \<open>nextStatement\<close> returns (nil, \<open>hitBrace\<close>, a statement, of which
  \<open>ignoreMe\<close> is one) are the constructors of \<open>ns_result\<close>. The parser and its lexer write to
  one error buffer, the field \<open>lx_errout\<close>. The mutual recursion of \<open>nextStatement\<close> and its
  loop over sub-statements takes fuel; \<open>nextStatement_fuel\<close> shows how much is enough.
\<close>

subsection \<open>The parser\<close>

text \<open>\<open>tokens\<close> is the stack, its top first. \<open>hitBrace\<close> keeps the place of the last brace.\<close>

record parser =
  ps_lex :: lexer
  ps_tokens :: "token list"
  ps_depth :: int
  ps_hitBrace :: "string \<times> int \<times> int"

definition newParser :: "string \<Rightarrow> string \<Rightarrow> parser" where
  "newParser input path =
     \<lparr>ps_lex = newLexer input path, ps_tokens = [], ps_depth = 0, ps_hitBrace = ([], 0, 0)\<rparr>"

definition ps_error :: "string \<Rightarrow> parser \<Rightarrow> parser" where
  "ps_error msg p = p\<lparr>ps_lex := (ps_lex p)\<lparr>lx_errout := lx_errout (ps_lex p) @ msg\<rparr>\<rparr>"

definition ps_pattern :: "bool \<Rightarrow> parser \<Rightarrow> parser" where
  "ps_pattern b p = p\<lparr>ps_lex := (ps_lex p)\<lparr>lx_inPattern := b\<rparr>\<rparr>"

text \<open>\<open>push(t...)\<close>: the last argument becomes the top.\<close>

definition ps_push :: "token list \<Rightarrow> parser \<Rightarrow> parser" where
  "ps_push ts p = p\<lparr>ps_tokens := rev ts @ ps_tokens p\<rparr>"

definition ps_pop :: "parser \<Rightarrow> token option \<times> parser" where
  "ps_pop p = (case ps_tokens p of [] \<Rightarrow> (None, p) | t # ts \<Rightarrow> (Some t, p\<lparr>ps_tokens := ts\<rparr>))"

text \<open>The inner \<open>next\<close>: the lexer's next token that is not an error.\<close>

function lex_skip_errors :: "lexer \<Rightarrow> token option \<times> lexer" where
  "lex_skip_errors l =
     (case NextToken l of
        (Some t, l') \<Rightarrow> if tk_code t = TError then lex_skip_errors l' else (Some t, l')
      | (None, l') \<Rightarrow> (None, l'))"
  by pat_completeness auto
termination
  by (relation "measure lex_potential") (auto dest: lex_tokens.token_uses[OF sym])

declare lex_skip_errors.simps [simp del]

lemma lex_skip_errors_potential:
  "(case lex_skip_errors l of
      (Some t, l') \<Rightarrow> lex_potential l' < lex_potential l \<and> tk_code t \<noteq> TError
    | (None, l') \<Rightarrow> lex_potential l' \<le> lex_potential l \<and> lex_skip_errors l' = (None, l'))"
proof (induction l rule: lex_skip_errors.induct)
  case (1 l)
  obtain t l' where n: "NextToken l = (t, l')" by (cases "NextToken l")
  show ?case
  proof (cases t)
    case None
    with n have "NextToken l' = (None, l')" "lex_potential l' \<le> lex_potential l"
      using lex_tokens.end_final[of l l'] by auto
    then show ?thesis using n None by (simp add: lex_skip_errors.simps[of l] lex_skip_errors.simps[of l'])
  next
    case (Some tk)
    with n have lt: "lex_potential l' < lex_potential l" using lex_tokens.token_uses[of l tk l'] by simp
    show ?thesis
    proof (cases "tk_code tk = TError")
      case True
      then have e: "lex_skip_errors l = lex_skip_errors l'" by (simp add: lex_skip_errors.simps[of l] n Some)
      show ?thesis using "1.IH"[OF n[symmetric] Some True] lt unfolding e
        by (auto split: prod.splits option.splits)
    next
      case False
      with n Some lt show ?thesis by (simp add: lex_skip_errors.simps[of l])
    qed
  qed
qed

interpretation parse_tokens: token_source lex_skip_errors lex_potential
  using lex_skip_errors_potential by unfold_locales (force split: prod.splits option.splits)+

text \<open>
  The loop over \<open>+\<close> and string tokens: \<open>t\<close> is the token built so far. The tokens to push
  back are returned in the order of the Go call.
\<close>

function concat_loop :: "token \<Rightarrow> lexer \<Rightarrow> token \<times> token list \<times> lexer" where
  "concat_loop t l =
     (case lex_skip_errors l of
        (None, l1) \<Rightarrow> (t, [], l1)
      | (Some nt, l1) \<Rightarrow>
          if tk_code nt = TEOF then (t, [], l1)
          else if tk_code nt = TUnquoted \<and> tk_Text nt = ''+'' then
            (case lex_skip_errors l1 of
               (None, l2) \<Rightarrow> (t, [nt], l2)
             | (Some nnt, l2) \<Rightarrow>
                 if tk_code nnt = TEOF then (t, [nt], l2)
                 else if tk_code nnt = TString then concat_loop (t\<lparr>tk_Text := tk_Text t @ tk_Text nnt\<rparr>) l2
                 else (t, [nnt, nt], l2))
          else (t, [nt], l1))"
  by pat_completeness auto
termination
  by (relation "measure (\<lambda>(t, l). lex_potential l)")
    (auto dest!: parse_tokens.token_uses[OF sym])

declare concat_loop.simps [simp del]

definition ps_next :: "parser \<Rightarrow> token option \<times> parser" where
  "ps_next p0 =
     (case ps_pop p0 of
        (Some t, p) \<Rightarrow> (Some t, p)
      | (None, p) \<Rightarrow>
          (let (t, l) = lex_skip_errors (ps_lex p)
           in case t of
                None \<Rightarrow> (None, p\<lparr>ps_lex := l\<rparr>)
              | Some tk \<Rightarrow>
                  if tk_code tk \<noteq> TString then (Some tk, p\<lparr>ps_lex := l\<rparr>)
                  else let (tk', pushed, l') = concat_loop tk l
                    in (Some tk', ps_push pushed (p\<lparr>ps_lex := l'\<rparr>))))"

datatype ns_result = NsNil | NsBrace | NsStmt Statement

text \<open>The token as \<open>%v\<close> prints it (\<open>String\<close> on a nil token is not reached).\<close>

definition token_text :: "token option \<Rightarrow> string" where
  "token_text t = (case t of None \<Rightarrow> [] | Some tk \<Rightarrow> token_string tk)"

text \<open>Keyword and argument: the statement so far and the token after it.\<close>

definition statement_head :: "token \<Rightarrow> parser \<Rightarrow> Statement \<times> token option \<times> parser" where
  "statement_head kt p =
     (let p = ps_pattern (tk_Text kt = ''pattern'') p;
          (t, p) = ps_next p;
          p = ps_pattern False p
      in case t of
           Some tk \<Rightarrow>
             if tk_code tk = TString \<or> tk_code tk = TUnquoted then
               (let (t2, p) = ps_next p
                in (Statement (tk_Text kt) True (tk_Text tk) [] (tk_File kt) (tk_Line kt) (tk_Col kt), t2, p))
             else (Statement (tk_Text kt) False [] [] (tk_File kt) (tk_Line kt) (tk_Col kt), t, p)
         | None \<Rightarrow> (Statement (tk_Text kt) False [] [] (tk_File kt) (tk_Line kt) (tk_Col kt), t, p))"

definition set_statements :: "Statement list \<Rightarrow> Statement \<Rightarrow> Statement" where
  "set_statements ss s = Statement (Keyword s) (HasArgument s) (Argument s) ss (st_file s) (st_line s) (st_col s)"

fun nextStatement :: "nat \<Rightarrow> parser \<Rightarrow> (ns_result \<times> parser) option"
  and subStatements_loop :: "nat \<Rightarrow> Statement \<Rightarrow> Statement list \<Rightarrow> parser \<Rightarrow> (ns_result \<times> parser) option" where
  "nextStatement 0 p = None"
| "nextStatement (Suc n) p =
     (case ps_next p of
        (None, p) \<Rightarrow> Some (NsNil, p)
      | (Some t, p) \<Rightarrow>
          if tk_code t = TEOF then Some (NsNil, p)
          else if tk_code t = TChar 125 then
            Some (NsBrace, p\<lparr>ps_depth := ps_depth p - 1, ps_hitBrace := (tk_File t, tk_Line t, tk_Col t)\<rparr>)
          else if tk_code t \<noteq> TUnquoted then
            Some (NsStmt ignoreMe, ps_error (token_string t @ '': keyword token not an unquoted string'' @ [nl]) p)
          else
            (case statement_head t p of
               (s, t2, p) \<Rightarrow>
                 if token_Code t2 = TEOF then Some (NsNil, ps_error (st_file s @ '': unexpected EOF'' @ [nl]) p)
                 else if token_Code t2 = TChar 59 then Some (NsStmt s, p)
                 else if token_Code t2 = TChar 123 then
                   subStatements_loop n s [] (p\<lparr>ps_depth := ps_depth p + 1\<rparr>)
                 else Some (NsStmt ignoreMe,
                   ps_error (token_text t2 @ '': syntax error, expected '' @ [quote1] @ '';'' @ [quote1] @ '' or '' @
                     [quote1] @ ''{'' @ [quote1, nl]) p)))"
| "subStatements_loop 0 s ss p = None"
| "subStatements_loop (Suc n) s ss p =
     (case nextStatement n p of
        None \<Rightarrow> None
      | Some (NsNil, p) \<Rightarrow> Some (NsNil, p)
      | Some (NsBrace, p) \<Rightarrow> Some (NsStmt (set_statements ss s), p)
      | Some (NsStmt x, p) \<Rightarrow> subStatements_loop n s (ss @ [x]) p)"

definition checkStatementDepthIsZero :: "parser \<Rightarrow> parser" where
  "checkStatementDepthIsZero p =
     (if lx_errout (ps_lex p) \<noteq> [] \<or> ps_depth p = 0 then p
      else ps_error (lx_file (ps_lex p) @ '':'' @ go_itoa (lx_line (ps_lex p)) @ '':'' @ go_itoa (lx_col (ps_lex p))
             @ '': missing '' @ go_itoa (ps_depth p) @ '' closing brace'' @ (if 1 < ps_depth p then ''s'' else []) @ [nl]) p)"

subsection \<open>Fuel\<close>

definition ps_potential :: "parser \<Rightarrow> nat" where
  "ps_potential p = lex_potential (ps_lex p) + length (ps_tokens p)"

lemma lex_potential_update [simp]:
  "lex_potential (l\<lparr>lx_inPattern := b\<rparr>) = lex_potential l"
  "lex_potential (l\<lparr>lx_errout := e\<rparr>) = lex_potential l"
  using state_weight_cong[of "l\<lparr>lx_inPattern := b\<rparr>" l "lx_state l"]
    state_weight_cong[of "l\<lparr>lx_errout := e\<rparr>" l "lx_state l"]
  by (simp_all add: lex_potential_def lex_cost_def lex_rest_def)

lemma ps_potential_update [simp]:
  "ps_potential (ps_pattern b p) = ps_potential p" "ps_potential (ps_error m p) = ps_potential p"
  "ps_potential (p\<lparr>ps_depth := d\<rparr>) = ps_potential p"
  "ps_potential (p\<lparr>ps_depth := d, ps_hitBrace := h\<rparr>) = ps_potential p"
  by (simp_all add: ps_potential_def ps_pattern_def ps_error_def)

lemma concat_loop_potential:
  "concat_loop t l = (t', pushed, l') \<Longrightarrow> lex_potential l' + length pushed \<le> lex_potential l"
proof (induction t l rule: concat_loop.induct)
  case (1 t l)
  obtain nt l1 where n: "lex_skip_errors l = (nt, l1)" by (cases "lex_skip_errors l")
  obtain nnt l2 where n2: "lex_skip_errors l1 = (nnt, l2)" by (cases "lex_skip_errors l1")
  have le1: "lex_potential l1 + (if nt = None then 0 else 1) \<le> lex_potential l"
    using lex_skip_errors_potential[of l] n by (auto split: option.splits)
  have le2: "lex_potential l2 + (if nnt = None then 0 else 1) \<le> lex_potential l1"
    using lex_skip_errors_potential[of l1] n2 by (auto split: option.splits)
  have l2: "lex_potential l2 \<le> lex_potential l" using le1 le2 by (simp split: if_splits)
  have IH: "lex_potential l' + length pushed \<le> lex_potential l"
    if "nt = Some a" "\<not> tk_code a = TEOF" "tk_code a = TUnquoted \<and> tk_Text a = ''+''" "nnt = Some b"
      "\<not> tk_code b = TEOF" "tk_code b = TString"
      "concat_loop (t\<lparr>tk_Text := tk_Text t @ tk_Text b\<rparr>) l2 = (t', pushed, l')" for a b
    using "1.IH"[OF n[symmetric] that(1-3) n2[symmetric] that(4-7)] l2 by simp
  show ?case
    using "1.prems" le1 le2 IH by (subst (asm) concat_loop.simps) (auto simp: n n2 split: option.splits if_splits)
qed

lemma ps_next_potential:
  "(case ps_next p of
      (Some t, p') \<Rightarrow> ps_potential p' < ps_potential p
    | (None, p') \<Rightarrow> ps_potential p' \<le> ps_potential p \<and> ps_next p' = (None, p'))"
proof (cases "ps_tokens p")
  case (Cons t ts)
  then show ?thesis by (simp add: ps_next_def ps_pop_def ps_potential_def)
next
  case Nil
  obtain t l where n: "lex_skip_errors (ps_lex p) = (t, l)" by (cases "lex_skip_errors (ps_lex p)")
  show ?thesis
  proof (cases t)
    case None
    with n have "lex_skip_errors l = (None, l)" "lex_potential l \<le> lex_potential (ps_lex p)"
      using parse_tokens.end_final by blast+
    then show ?thesis by (simp add: ps_next_def ps_pop_def Nil n None ps_potential_def)
  next
    case (Some tk)
    obtain tk' pushed l' where c: "concat_loop tk l = (tk', pushed, l')" by (metis prod.collapse)
    have "lex_potential l < lex_potential (ps_lex p)" using parse_tokens.token_uses n Some by blast
    then show ?thesis using concat_loop_potential[OF c]
      by (simp add: ps_next_def ps_pop_def Nil n Some c ps_potential_def ps_push_def)
  qed
qed

interpretation ps_tokens: token_source ps_next ps_potential
  using ps_next_potential by unfold_locales (force split: prod.splits option.splits)+

lemma ps_next_le: "ps_next p = (t, p') \<Longrightarrow> ps_potential p' \<le> ps_potential p"
  using ps_tokens.token_uses ps_tokens.end_final by (cases t) (auto intro: less_imp_le)

lemma statement_head_potential:
  "statement_head t p = (s, t2, p') \<Longrightarrow> ps_potential p' \<le> ps_potential p"
  by (auto simp: statement_head_def Let_def split: prod.splits option.splits if_splits
      dest!: ps_next_le intro: order_trans)

lemma nextStatement_total:
  "2 * ps_potential p < n \<Longrightarrow>
     \<exists>r p'. nextStatement n p = Some (r, p') \<and>
       (if r = NsNil then ps_potential p' \<le> ps_potential p else ps_potential p' < ps_potential p)"
  "2 * ps_potential p + 1 < n \<Longrightarrow>
     \<exists>r p'. subStatements_loop n s ss p = Some (r, p') \<and> ps_potential p' \<le> ps_potential p"
proof (induction n arbitrary: p s ss)
  case (Suc n)
  { case 1
    obtain t p1 where n: "ps_next p = (t, p1)" by (cases "ps_next p")
    show ?case
    proof (cases t)
      case None
      then show ?thesis using n ps_next_le[OF n] by simp
    next
      case (Some tk)
      have lt: "ps_potential p1 < ps_potential p" using ps_tokens.token_uses n Some by blast
      obtain s1 t2 p2 where h: "statement_head tk p1 = (s1, t2, p2)" by (metis prod.collapse)
      have le: "ps_potential p2 \<le> ps_potential p1" by (rule statement_head_potential[OF h])
      have "2 * ps_potential (p2\<lparr>ps_depth := ps_depth p2 + 1\<rparr>) + 1 < n" using 1 lt le by simp
      from Suc.IH(2)[OF this, of s1 "[]"] obtain r p' where
        "subStatements_loop n s1 [] (p2\<lparr>ps_depth := ps_depth p2 + 1\<rparr>) = Some (r, p')"
        "ps_potential p' \<le> ps_potential p2" by auto
      then show ?thesis using lt le by (simp add: n Some h)
    qed
  next
    case 2
    then have "2 * ps_potential p < n" by simp
    from Suc.IH(1)[OF this] obtain r p' where r: "nextStatement n p = Some (r, p')"
      and le: "if r = NsNil then ps_potential p' \<le> ps_potential p else ps_potential p' < ps_potential p"
      by blast
    show ?case
    proof (cases r)
      case (NsStmt x)
      with le 2 have "2 * ps_potential p' + 1 < n" by simp
      from Suc.IH(2)[OF this, of s "ss @ [x]"] le NsStmt show ?thesis by (auto simp: r)
    qed (use r le in auto)
  }
qed simp_all

text \<open>More fuel does not change a result.\<close>

lemma nextStatement_mono:
  "nextStatement n p = Some r \<Longrightarrow> n \<le> m \<Longrightarrow> nextStatement m p = Some r"
  "subStatements_loop n s ss p = Some r \<Longrightarrow> n \<le> m \<Longrightarrow> subStatements_loop m s ss p = Some r"
proof (induction n arbitrary: p s ss r m)
  case (Suc n)
  { case 1
    then obtain m' where m: "m = Suc m'" "n \<le> m'" by (cases m) auto
    have "subStatements_loop n s ss q = Some x \<Longrightarrow> subStatements_loop m' s ss q = Some x" for s ss q x
      using Suc.IH(2) m(2) by blast
    with 1(1) show ?case unfolding m(1)
      by (cases r) (auto split: option.splits prod.splits if_splits)
  next
    case 2
    then obtain m' where m: "m = Suc m'" "n \<le> m'" by (cases m) auto
    obtain x p' where x: "nextStatement n p = Some (x, p')" using 2(1) by (auto split: option.splits)
    have "nextStatement m' p = Some (x, p')" using Suc.IH(1)[OF x m(2)] .
    with 2(1) x Suc.IH(2)[OF _ m(2)] show ?case unfolding m(1) by (cases x) auto
  }
qed simp_all

subsection \<open>Parse\<close>

definition statement_fuel :: "parser \<Rightarrow> nat" where
  "statement_fuel p = 2 * ps_potential p + 1"

lemma nextStatement_fuel:
  "\<exists>r p'. nextStatement (statement_fuel p) p = Some (r, p') \<and>
     (if r = NsNil then ps_potential p' \<le> ps_potential p else ps_potential p' < ps_potential p)"
  by (rule nextStatement_total(1)) (simp add: statement_fuel_def)

lemma nextStatement_less:
  "nextStatement (statement_fuel p) p = Some (r, p') \<Longrightarrow> r \<noteq> NsNil \<Longrightarrow> ps_potential p' < ps_potential p"
  using nextStatement_fuel[of p] by auto

definition brace_error :: "parser \<Rightarrow> parser" where
  "brace_error p =
     (case ps_hitBrace p of
        (f, ln, c) \<Rightarrow> ps_error (f @ '':'' @ go_itoa ln @ '':'' @ go_itoa c @ '': unexpected }'' @ [nl]) p)"

lemma ps_potential_brace_error [simp]: "ps_potential (brace_error p) = ps_potential p"
  by (simp add: brace_error_def split: prod.splits)

function parse_loop :: "Statement list \<Rightarrow> parser \<Rightarrow> (Statement list \<times> parser) option" where
  "parse_loop acc p =
     (case nextStatement (statement_fuel p) p of
        None \<Rightarrow> None
      | Some (NsNil, p') \<Rightarrow> Some (acc, p')
      | Some (NsBrace, p') \<Rightarrow> parse_loop acc (brace_error p')
      | Some (NsStmt s, p') \<Rightarrow> parse_loop (acc @ [s]) p')"
  by pat_completeness auto
termination
  by (relation "measure (\<lambda>(acc, p). ps_potential p)") (auto dest: nextStatement_less)

declare parse_loop.simps [simp del]

text \<open>\<open>Inl\<close> is the error text. \<open>None\<close>, that the fuel runs out, does not happen.\<close>

definition Parse :: "string \<Rightarrow> string \<Rightarrow> (string + Statement list) option" where
  "Parse input path =
     (case parse_loop [] (newParser input path) of
        None \<Rightarrow> None
      | Some (ss, p) \<Rightarrow>
          (let errout = lx_errout (ps_lex (checkStatementDepthIsZero p))
           in Some (if errout = [] then Inr ss else Inl (go_trim_space errout))))"

lemma parse_loop_total: "parse_loop acc p \<noteq> None"
proof (induction acc p rule: parse_loop.induct)
  case (1 acc p)
  obtain r p' where r: "nextStatement (statement_fuel p) p = Some (r, p')" using nextStatement_fuel by blast
  show ?case
    using "1.IH"(1)[OF r refl] "1.IH"(2)[OF r refl] r
    by (cases r) (auto simp: parse_loop.simps[of acc p])
qed

subsection \<open>Properties\<close>

text \<open>C18: parsing ends: on every input \<open>Parse\<close> returns statements or an error text, one call of
  \<open>nextStatement\<close> returns within fuel twice the tokens that may still come, more fuel does not
  change its result, and unless it returns nil it has used up input.\<close>

theorem parse_terminates:
  "Parse input path \<noteq> None \<and>
   (\<exists>r p'. nextStatement (2 * ps_potential p + 1 + k) p = Some (r, p') \<and>
      nextStatement (2 * ps_potential p + 1) p = Some (r, p') \<and>
      ps_potential p' + (if r = NsNil then 0 else 1) \<le> ps_potential p)"
proof -
  have "Parse input path \<noteq> None"
    using parse_loop_total[of "[]" "newParser input path"] by (auto simp: Parse_def Let_def)
  moreover obtain r p' where r: "nextStatement (statement_fuel p) p = Some (r, p')"
    "if r = NsNil then ps_potential p' \<le> ps_potential p else ps_potential p' < ps_potential p"
    using nextStatement_fuel[of p] by blast
  moreover have "nextStatement (statement_fuel p + k) p = Some (r, p')"
    by (rule nextStatement_mono(1)[OF r(1)]) simp
  ultimately show ?thesis by (auto simp: statement_fuel_def)
qed

end
