(* ===== verification/Printer.thy ===== *)
theory Printer
  imports Parser
begin

text \<open>
  \<open>Statement.Write\<close> of \<open>pkg/yang/parse.go\<close>, as the text it writes to a writer that does not
  fail, with \<open>strconv.Quote\<close> for the verb \<open>%q\<close>. Which runes above 127 are printable is the
  Unicode table of the library, an argument \<open>pr\<close> of the definitions.
\<close>

definition hex_digit :: "nat \<Rightarrow> char" where
  "hex_digit d = (if d < 10 then char_of (48 + d) else char_of (87 + d))"

fun hex_pad :: "nat \<Rightarrow> nat \<Rightarrow> string" where
  "hex_pad 0 n = []"
| "hex_pad (Suc k) n = hex_pad k (n div 16) @ [hex_digit (n mod 16)]"

definition is_print :: "(rune \<Rightarrow> bool) \<Rightarrow> rune \<Rightarrow> bool" where
  "is_print pr r = (if r < 128 then 32 \<le> r \<and> r < 127 else pr r)"

definition quote_rune :: "(rune \<Rightarrow> bool) \<Rightarrow> rune \<Rightarrow> string" where
  "quote_rune pr r =
     (if r = byte quote2 \<or> r = byte backslash then [backslash, char_of r]
      else if is_print pr r then string_of_rune r
      else if r = 7 then [backslash] @ ''a''
      else if r = 8 then [backslash] @ ''b''
      else if r = 12 then [backslash] @ ''f''
      else if r = 10 then [backslash] @ ''n''
      else if r = 13 then [backslash] @ ''r''
      else if r = 9 then [backslash] @ ''t''
      else if r = 11 then [backslash] @ ''v''
      else if r < 32 \<or> r = 127 then [backslash] @ ''x'' @ hex_pad 2 r
      else if r < 65536 then [backslash] @ ''u'' @ hex_pad 4 r
      else [backslash] @ ''U'' @ hex_pad 8 r)"

text \<open>The body of the quoted string; an invalid byte prints as \<open>\x\<close> and two digits.\<close>

function quote_body :: "(rune \<Rightarrow> bool) \<Rightarrow> string \<Rightarrow> string" where
  "quote_body pr s =
     (case s of
        [] \<Rightarrow> []
      | c # _ \<Rightarrow>
          (let (r, w) = decode_rune s
           in if w = 1 \<and> r = rune_error then [backslash] @ ''x'' @ hex_pad 2 (byte c) @ quote_body pr (tl s)
              else quote_rune pr r @ quote_body pr (drop (max 1 w) s)))"
  by pat_completeness auto
termination
  by (relation "measure (\<lambda>(pr, s). length s)") auto

declare quote_body.simps [simp del]

definition go_quote :: "(rune \<Rightarrow> bool) \<Rightarrow> string \<Rightarrow> string" where
  "go_quote pr s = [quote2] @ quote_body pr s @ [quote2]"

definition write_line :: "(rune \<Rightarrow> bool) \<Rightarrow> string \<Rightarrow> string \<Rightarrow> string \<Rightarrow> bool \<Rightarrow> string" where
  "write_line pr ind i p lastp =
     ind @ '' '' @ i @ (let s = go_quote pr p in drop 1 (take (length s - 1) s)) @ (if lastp then [quote2] else [nl])"

fun write_lines :: "(rune \<Rightarrow> bool) \<Rightarrow> string \<Rightarrow> string \<Rightarrow> string list \<Rightarrow> string" where
  "write_lines pr ind i [] = []"
| "write_lines pr ind i (p # ps) = write_line pr ind i p (ps = []) @ write_lines pr ind i ps"

text \<open>Indent, keyword and argument.\<close>

definition write_head :: "(rune \<Rightarrow> bool) \<Rightarrow> string \<Rightarrow> string \<Rightarrow> bool \<Rightarrow> string \<Rightarrow> string" where
  "write_head pr ind kw has arg =
     ind @ kw @
     (if \<not> has then []
      else let args = go_split arg [nl]
        in if length args = 1 then '' '' @ go_quote pr arg
           else '' '' @ [quote2] @ hd args @ [nl]
                @ write_lines pr ind (replicate (length kw + 1) CHR '' '') (tl args))"

fun Statement_Write :: "(rune \<Rightarrow> bool) \<Rightarrow> string \<Rightarrow> Statement \<Rightarrow> string" where
  "Statement_Write pr ind (Statement kw has arg subs f ln c) =
     (if kw = [] then concat (map (Statement_Write pr ind) subs)
      else if subs = [] then write_head pr ind kw has arg @ '';'' @ [nl]
      else write_head pr ind kw has arg @ '' {'' @ [nl]
           @ concat (map (Statement_Write pr (ind @ [CHR 0x09])) subs) @ ind @ ''}'' @ [nl])"

end
