(* ===== verification/RoundTrip.thy ===== *)
theory RoundTrip
  imports Printer LexText
begin

text \<open>
  Writing statements and parsing the text: for statements with unquoted keywords and
  single-line arguments of printable ASCII characters, \<open>Parse\<close> gives back the statements
  that \<open>Write\<close> printed, apart from their locations.
\<close>

subsection \<open>Writable statements\<close>

definition keyword_ok :: "string \<Rightarrow> bool" where
  "keyword_ok w \<longleftrightarrow> w \<noteq> [] \<and> (\<forall>c \<in> set w. word_char c) \<and> hd w \<noteq> CHR ''/'' \<and> hd w \<noteq> CHR ''+''"

fun writable :: "Statement \<Rightarrow> bool" where
  "writable (Statement kw has arg subs f ln c) =
     (keyword_ok kw \<and> (\<forall>c \<in> set arg. printable c) \<and> (has \<or> arg = []) \<and> (\<forall>s \<in> set subs. writable s))"

fun unlocated :: "Statement \<Rightarrow> Statement" where
  "unlocated (Statement kw has arg subs f ln c) = Statement kw has arg (map unlocated subs) [] 0 0"

lemma quote_body_printable:
  "\<forall>c \<in> set s. printable c \<Longrightarrow> quote_body pr s = escape s"
proof (induction s)
  case (Cons c s)
  have p: "32 \<le> byte c" "byte c < 127" using Cons.prems by (auto simp: printable_def)
  have d: "decode_rune (c # s) = (byte c, 1)" by (rule decode_rune_ascii) (use p in simp)
  have e: "byte c \<noteq> rune_error"
    by (rule less_imp_neq, rule less_le_trans[OF p(2)]) (simp add: rune_error_def)
  have "quote_rune pr (byte c) = escape_char c"
    using p string_of_byte[of c]
    by (simp add: quote_rune_def escape_char_def is_print_def)
  with Cons e show ?case by (simp add: quote_body.simps[of pr "c # s"] d escape_def)
qed (simp add: quote_body.simps escape_def)

lemma printable_no_nl: "\<forall>c \<in> set s. printable c \<Longrightarrow> nl \<notin> set s"
  by (auto simp: printable_def nl_def byte_def)

definition arg_text :: "bool \<Rightarrow> string \<Rightarrow> string" where
  "arg_text has arg = (if has then CHR '' '' # quote2 # escape arg @ [quote2] else [])"

lemma write_head_printable:
  assumes "\<forall>c \<in> set arg. printable c"
  shows "write_head pr ind kw has arg = ind @ kw @ arg_text has arg"
  using go_split_none[of "[nl]" arg] printable_no_nl[OF assms] quote_body_printable[OF assms, of pr]
  by (simp add: write_head_def Let_def arg_text_def go_quote_def)

lemma Write_writable:
  assumes "writable (Statement kw has arg subs f ln c)"
  shows "Statement_Write pr ind (Statement kw has arg subs f ln c) =
    ind @ kw @ arg_text has arg @
      (if subs = [] then '';'' @ [nl]
       else '' {'' @ [nl] @ concat (map (Statement_Write pr (ind @ [CHR 0x09])) subs) @ ind @ ''}'' @ [nl])"
  using assms by (auto simp: write_head_printable keyword_ok_def)

subsection \<open>The parser between tokens\<close>

definition ps_at :: "parser \<Rightarrow> token list \<Rightarrow> string \<Rightarrow> bool" where
  "ps_at p ts s \<longleftrightarrow> ps_tokens p = ts \<and> lex_ready (ps_lex p) s \<and> lx_errout (ps_lex p) = []"

lemma ps_at_update [simp]:
  "ps_at (ps_pattern b p) ts s = ps_at p ts s" "ps_at (p\<lparr>ps_depth := d\<rparr>) ts s = ps_at p ts s"
  "ps_at (p\<lparr>ps_depth := d, ps_hitBrace := h\<rparr>) ts s = ps_at p ts s"
  "ps_depth (ps_pattern b p) = ps_depth p"
  by (simp_all add: ps_at_def ps_pattern_def lex_ready_def)

lemma skip_errors_token:
  "NextToken l = (Some t, l') \<Longrightarrow> tk_code t \<noteq> TError \<Longrightarrow> lex_skip_errors l = (Some t, l')"
  by (simp add: lex_skip_errors.simps[of l])

lemma ps_next_end:
  assumes "ps_at p [] ws" "\<forall>c \<in> set ws. blank c"
  shows "\<exists>p'. ps_next p = (None, p') \<and> lx_errout (ps_lex p') = [] \<and> ps_depth p' = ps_depth p"
proof -
  from assms obtain l' where "NextToken (ps_lex p) = (None, l')" "lex_same (ps_lex p) l'"
    using token_end[of "ps_lex p" ws] by (auto simp: ps_at_def)
  with assms(1) show ?thesis
    by (simp add: ps_next_def ps_pop_def ps_at_def lex_skip_errors.simps[of "ps_lex p"] lex_same_def)
qed

lemma ps_next_char:
  assumes "ps_at p [] (ws @ c # s)" "\<forall>c \<in> set ws. blank c" "byte c \<in> {59, 123, 125}"
  shows "\<exists>t p'. ps_next p = (Some t, p') \<and> tk_code t = TChar (byte c) \<and> ps_at p' [] s \<and> ps_depth p' = ps_depth p"
proof -
  from assms obtain t l' where t: "NextToken (ps_lex p) = (Some t, l')" "tk_code t = TChar (byte c)"
    "lex_ready l' s" "lex_same (ps_lex p) l'"
    using token_char[of "ps_lex p" ws c s] by (auto simp: ps_at_def)
  with assms(1) skip_errors_token[OF t(1)] show ?thesis
    by (simp add: ps_next_def ps_pop_def ps_at_def lex_same_def)
qed

lemma ps_next_word:
  assumes "ps_at p [] (ws @ w @ s)" "\<forall>c \<in> set ws. blank c" "keyword_ok w" "word_end s"
  shows "\<exists>t p'. ps_next p = (Some t, p') \<and> tk_code t = TUnquoted \<and> tk_Text t = w \<and> ps_at p' [] s
    \<and> ps_depth p' = ps_depth p"
proof -
  from assms obtain t l' where t: "NextToken (ps_lex p) = (Some t, l')" "tk_code t = TUnquoted" "tk_Text t = w"
    "lex_ready l' s" "lex_same (ps_lex p) l'"
    using token_word[of "ps_lex p" ws w s] by (auto simp: ps_at_def keyword_ok_def)
  with assms(1) skip_errors_token[OF t(1)] show ?thesis
    by (simp add: ps_next_def ps_pop_def ps_at_def lex_same_def)
qed

text \<open>After a string the parser has looked at the next token and pushed it back.\<close>

lemma ps_next_quoted:
  assumes "ps_at p [] (ws @ quote2 # escape s @ quote2 # ws2 @ c # r)" "\<forall>c \<in> set (ws @ ws2). blank c"
    "\<forall>c \<in> set s. printable c" "byte c \<in> {59, 123, 125}"
  shows "\<exists>t t2 p'. ps_next p = (Some t, p') \<and> tk_code t = TString \<and> tk_Text t = s \<and>
    tk_code t2 = TChar (byte c) \<and> ps_at p' [t2] r \<and> ps_depth p' = ps_depth p"
proof -
  from assms obtain t l' where t: "NextToken (ps_lex p) = (Some t, l')" "tk_code t = TString" "tk_Text t = s"
    "lex_ready l' (ws2 @ c # r)" "lex_same (ps_lex p) l'"
    using token_quoted[of "ps_lex p" ws s "ws2 @ c # r"] by (auto simp: ps_at_def)
  from t(4) assms(2,4) obtain t2 l2 where t2: "NextToken l' = (Some t2, l2)" "tk_code t2 = TChar (byte c)"
    "lex_ready l2 r" "lex_same l' l2"
    using token_char[of l' ws2 c r] by auto
  have "concat_loop t l' = (t, [t2], l2)"
    using skip_errors_token[OF t2(1)] t2(2) by (simp add: concat_loop.simps[of t l'])
  then have "ps_next p = (Some t, p\<lparr>ps_lex := l2, ps_tokens := [t2]\<rparr>)"
    using skip_errors_token[OF t(1)] t(2) assms(1)
    by (simp add: ps_next_def ps_pop_def ps_at_def ps_push_def)
  with t t2 assms(1) show ?thesis by (auto simp: ps_at_def lex_same_def)
qed

lemma ps_next_pop: "ps_at p (t # ts) s \<Longrightarrow> ps_next p = (Some t, p\<lparr>ps_tokens := ts\<rparr>)"
  by (simp add: ps_next_def ps_pop_def ps_at_def)

lemma statement_head_at:
  assumes "ps_at p [] (arg_text has arg @ ws @ c # r)" "\<forall>c \<in> set ws. blank c" "\<forall>c \<in> set arg. printable c"
    "has \<or> arg = []" "byte c \<in> {59, 123}"
  shows "\<exists>t2 p'. statement_head kt p =
      (Statement (tk_Text kt) has arg [] (tk_File kt) (tk_Line kt) (tk_Col kt), Some t2, p') \<and>
    tk_code t2 = TChar (byte c) \<and> ps_at p' [] r \<and> ps_depth p' = ps_depth p"
proof (cases has)
  case True
  let ?p = "ps_pattern (tk_Text kt = ''pattern'') p"
  have "ps_at ?p [] ('' '' @ quote2 # escape arg @ quote2 # ws @ c # r)"
    using assms(1) True by (simp add: arg_text_def)
  from ps_next_quoted[OF this _ assms(3)] assms(2,5) obtain t t2 p1 where
    n: "ps_next ?p = (Some t, p1)" "tk_code t = TString" "tk_Text t = arg" "tk_code t2 = TChar (byte c)"
      "ps_at p1 [t2] r" "ps_depth p1 = ps_depth p"
    by (auto simp: blank_def lex_spaces_def)
  have "ps_next (ps_pattern False p1) = (Some t2, (ps_pattern False p1)\<lparr>ps_tokens := []\<rparr>)"
    by (rule ps_next_pop[of _ _ _ r]) (simp add: n(5))
  moreover have "ps_at ((ps_pattern False p1)\<lparr>ps_tokens := []\<rparr>) [] r"
    using n(5) by (simp add: ps_at_def ps_pattern_def lex_ready_def)
  moreover have "ps_depth ((ps_pattern False p1)\<lparr>ps_tokens := []\<rparr>) = ps_depth p" using n(6) by simp
  ultimately show ?thesis using n True by (simp add: statement_head_def Let_def)
next
  case False
  let ?p = "ps_pattern (tk_Text kt = ''pattern'') p"
  have "ps_at ?p [] (ws @ c # r)" using assms(1) False by (simp add: arg_text_def)
  from ps_next_char[OF this assms(2)] assms(5) obtain t p1 where
    n: "ps_next ?p = (Some t, p1)" "tk_code t = TChar (byte c)" "ps_at p1 [] r" "ps_depth p1 = ps_depth p"
    by auto
  then show ?thesis using False assms(4) by (simp add: statement_head_def Let_def)
qed

subsection \<open>Statements\<close>

text \<open>What the parser does at the text of a statement, and at that of a list of them.\<close>

definition parses_to :: "parser \<Rightarrow> Statement \<Rightarrow> string \<Rightarrow> bool" where
  "parses_to p s r \<longleftrightarrow> (\<exists>n s' p'. nextStatement n p = Some (NsStmt s', p') \<and> unlocated s' = unlocated s \<and>
     ps_at p' [] r \<and> ps_depth p' = ps_depth p)"

definition written_parses :: "(rune \<Rightarrow> bool) \<Rightarrow> string \<Rightarrow> Statement \<Rightarrow> bool" where
  "written_parses pr ind s \<longleftrightarrow> (\<forall>p ws r. (\<forall>c \<in> set ws. blank c) \<longrightarrow>
     ps_at p [] (ws @ Statement_Write pr ind s @ r) \<longrightarrow> parses_to p s (nl # r))"

lemma written_parsesD:
  "written_parses pr ind s \<Longrightarrow> \<forall>c \<in> set ws. blank c \<Longrightarrow>
   ps_at p [] (ws @ Statement_Write pr ind s @ r) \<Longrightarrow> parses_to p s (nl # r)"
  unfolding written_parses_def by blast

lemma subStatements_at:
  assumes "\<forall>s \<in> set subs. written_parses pr ind s"
    and "\<forall>c \<in> set (ws @ ind'). blank c"
    and "ps_at p [] (ws @ concat (map (Statement_Write pr ind) subs) @ ind' @ ''}'' @ r)"
  shows "\<exists>n subs' p'. subStatements_loop n s0 acc p = Some (NsStmt (set_statements (acc @ subs') s0), p') \<and>
    map unlocated subs' = map unlocated subs \<and> ps_at p' [] r \<and> ps_depth p' = ps_depth p - 1"
  using assms
proof (induction subs arbitrary: ws acc p)
  case Nil
  have a: "ps_at p [] ((ws @ ind') @ CHR ''}'' # r)" using Nil.prems(3) by simp
  obtain t p1 where n: "ps_next p = (Some t, p1)" "tk_code t = TChar 125" "ps_at p1 [] r" "ps_depth p1 = ps_depth p"
    using ps_next_char[OF a Nil.prems(2)] by (auto simp: byte_def)
  let ?p = "p1\<lparr>ps_depth := ps_depth p1 - 1, ps_hitBrace := (tk_File t, tk_Line t, tk_Col t)\<rparr>"
  have "subStatements_loop (Suc (Suc 0)) s0 acc p = Some (NsStmt (set_statements (acc @ []) s0), ?p)"
    using n by simp
  moreover have "ps_at ?p [] r" "ps_depth ?p = ps_depth p - 1" using n by simp_all
  ultimately show ?case by (intro exI[of _ "Suc (Suc 0)"] exI[of _ "[]"] exI[of _ ?p]) (simp only: list.map simp_thms)
next
  case (Cons s subs)
  let ?rest = "concat (map (Statement_Write pr ind) subs) @ ind' @ ''}'' @ r"
  have at: "ps_at p [] (ws @ Statement_Write pr ind s @ ?rest)" using Cons.prems(3) by simp
  have "parses_to p s (nl # ?rest)"
    by (rule written_parsesD[OF _ _ at]) (use Cons.prems(1,2) in auto)
  then obtain n1 s' p1 where s: "nextStatement n1 p = Some (NsStmt s', p1)" "unlocated s' = unlocated s"
    "ps_at p1 [] ([nl] @ ?rest)" "ps_depth p1 = ps_depth p"
    by (auto simp: parses_to_def)
  have b: "\<forall>c \<in> set ([nl] @ ind'). blank c" using Cons.prems(2) by (auto simp: blank_def lex_spaces_def nl_def)
  have sub: "\<forall>s \<in> set subs. written_parses pr ind s" using Cons.prems(1) by simp
  obtain n2 subs' p' where l: "subStatements_loop n2 s0 (acc @ [s']) p1 =
      Some (NsStmt (set_statements ((acc @ [s']) @ subs') s0), p')"
    "map unlocated subs' = map unlocated subs" "ps_at p' [] r" "ps_depth p' = ps_depth p1 - 1"
    using Cons.IH[OF sub b s(3), where acc = "acc @ [s']"] by auto
  have "subStatements_loop (Suc (max n1 n2)) s0 acc p = Some (NsStmt (set_statements (acc @ s' # subs') s0), p')"
    using nextStatement_mono(1)[OF s(1), of "max n1 n2"] nextStatement_mono(2)[OF l(1), of "max n1 n2"] by simp
  with s l show ?case by (intro exI[of _ "Suc (max n1 n2)"] exI[of _ "s' # subs'"] exI[of _ p']) simp
qed

lemma statement_at:
  "writable s \<Longrightarrow> \<forall>c \<in> set (ws @ ind). blank c \<Longrightarrow> ps_at p [] (ws @ Statement_Write pr ind s @ r) \<Longrightarrow>
   parses_to p s (nl # r)"
proof (induction s arbitrary: p ws ind r)
  case (Statement kw has arg subs f ln c)
  have kw: "keyword_ok kw" and arg: "\<forall>c \<in> set arg. printable c" "has \<or> arg = []"
    and subs: "\<forall>s \<in> set subs. writable s"
    using Statement.prems(1) by auto
  let ?body = "concat (map (Statement_Write pr (ind @ [CHR 0x09])) subs) @ ind @ ''}''"
  let ?rest = "if subs = [] then '';'' @ nl # r else '' {'' @ nl # ?body @ nl # r"
  have w: "ps_at p [] ((ws @ ind) @ kw @ arg_text has arg @ ?rest)"
    using Statement.prems(3) unfolding Write_writable[OF Statement.prems(1)] by (cases "subs = []") simp_all
  have we: "word_end (arg_text has arg @ ?rest)"
    by (simp add: word_end_def arg_text_def unquoted_end_def byte_def)
  obtain t p1 where t: "ps_next p = (Some t, p1)" "tk_code t = TUnquoted" "tk_Text t = kw"
    "ps_at p1 [] (arg_text has arg @ ?rest)" "ps_depth p1 = ps_depth p"
    using ps_next_word[OF w Statement.prems(2) kw we] by blast
  let ?s = "Statement kw has arg [] (tk_File t) (tk_Line t) (tk_Col t)"
  show ?case
  proof (cases "subs = []")
    case True
    have "ps_at p1 [] (arg_text has arg @ [] @ CHR '';'' # nl # r)" using t(4) True by simp
    from statement_head_at[OF this _ arg, of t] obtain t2 p2 where
      h: "statement_head t p1 = (?s, Some t2, p2)" "tk_code t2 = TChar 59" "ps_at p2 [] (nl # r)"
        "ps_depth p2 = ps_depth p1"
      using t(3) by (auto simp: byte_def)
    have "nextStatement (Suc 0) p = Some (NsStmt ?s, p2)"
      using t h by (simp add: token_Code_def)
    moreover have "unlocated ?s = unlocated (Statement kw has arg subs f ln c)" using t(3) True by simp
    moreover have "ps_depth p2 = ps_depth p" using h(4) t(5) by simp
    ultimately show ?thesis using h(3) unfolding parses_to_def by blast
  next
    case False
    have "ps_at p1 [] (arg_text has arg @ '' '' @ CHR ''{'' # nl # ?body @ nl # r)" using t(4) False by simp
    from statement_head_at[OF this _ arg, of t] obtain t2 p2 where
      h: "statement_head t p1 = (?s, Some t2, p2)" "tk_code t2 = TChar 123" "ps_at p2 [] (nl # ?body @ nl # r)"
        "ps_depth p2 = ps_depth p1"
      using t(3) by (auto simp: byte_def blank_def lex_spaces_def)
    let ?p = "p2\<lparr>ps_depth := ps_depth p2 + 1\<rparr>"
    have b: "\<forall>c \<in> set ([nl] @ ind). blank c" "\<forall>c \<in> set ([] @ ind @ [CHR 0x09]). blank c"
      using Statement.prems(2) by (auto simp: blank_def lex_spaces_def nl_def)
    have IH: "\<forall>x \<in> set subs. written_parses pr (ind @ [CHR 0x09]) x"
      unfolding written_parses_def
    proof (intro ballI allI impI)
      fix x q us y
      assume x: "x \<in> set subs" "\<forall>c \<in> set us. blank c" "ps_at q [] (us @ Statement_Write pr (ind @ [CHR 0x09]) x @ y)"
      show "parses_to q x (nl # y)"
        by (rule Statement.IH[OF x(1) _ _ x(3)]) (use x(1,2) subs b(2) in auto)
    qed
    have "ps_at ?p [] ([nl] @ concat (map (Statement_Write pr (ind @ [CHR 0x09])) subs) @ ind @ ''}'' @ nl # r)"
      using h(3) by simp
    from subStatements_at[OF IH b(1) this, where ?s0.0 = ?s and acc = "[]"] obtain n subs' p3 where
      l: "subStatements_loop n ?s [] ?p = Some (NsStmt (set_statements subs' ?s), p3)"
        "map unlocated subs' = map unlocated subs" "ps_at p3 [] (nl # r)" "ps_depth p3 = ps_depth p2"
      by auto
    have "nextStatement (Suc n) p = Some (NsStmt (set_statements subs' ?s), p3)"
      using t h l(1) by (simp add: token_Code_def)
    moreover have "unlocated (set_statements subs' ?s) = unlocated (Statement kw has arg subs f ln c)"
      using t(3) l(2) by (simp add: set_statements_def)
    moreover have "ps_depth p3 = ps_depth p" using h(4) t(5) l(4) by simp
    ultimately show ?thesis using l(3) unfolding parses_to_def by blast
  qed
qed

text \<open>The loop of \<open>Parse\<close>.\<close>

lemma parse_loop_at:
  "\<forall>s \<in> set ss. writable s \<Longrightarrow> \<forall>c \<in> set ws. blank c \<Longrightarrow>
   ps_at p [] (ws @ concat (map (Statement_Write pr []) ss)) \<Longrightarrow>
   \<exists>ss' p'. parse_loop acc p = Some (acc @ ss', p') \<and> map unlocated ss' = map unlocated ss \<and>
     lx_errout (ps_lex p') = [] \<and> ps_depth p' = ps_depth p"
proof (induction ss arbitrary: ws acc p)
  case Nil
  obtain p' where n: "ps_next p = (None, p')" "lx_errout (ps_lex p') = []" "ps_depth p' = ps_depth p"
    using ps_next_end[of p ws] Nil.prems by auto
  have "nextStatement (statement_fuel p) p = Some (NsNil, p')" by (simp add: statement_fuel_def n(1))
  with n show ?case by (simp add: parse_loop.simps[of acc p])
next
  case (Cons s ss)
  let ?r = "concat (map (Statement_Write pr []) ss)"
  have "ps_at p [] (ws @ Statement_Write pr [] s @ ?r)" using Cons.prems(3) by simp
  from statement_at[OF _ _ this] Cons.prems(1,2) obtain n s' p1 where
    s: "nextStatement n p = Some (NsStmt s', p1)" "unlocated s' = unlocated s" "ps_at p1 [] ([nl] @ ?r)"
      "ps_depth p1 = ps_depth p"
    by (auto simp: parses_to_def)
  obtain x q where x: "nextStatement (statement_fuel p) p = Some (x, q)" using nextStatement_fuel by blast
  have "nextStatement (max n (statement_fuel p)) p = Some (x, q)"
    "nextStatement (max n (statement_fuel p)) p = Some (NsStmt s', p1)"
    by (rule nextStatement_mono(1)[OF x], simp, rule nextStatement_mono(1)[OF s(1)], simp)
  then have "x = NsStmt s'" "q = p1" by simp_all
  then have e: "parse_loop acc p = parse_loop (acc @ [s']) p1"
    using x by (simp add: parse_loop.simps[of acc p])
  have "\<forall>c \<in> set [nl]. blank c" by (simp add: blank_def lex_spaces_def nl_def)
  from Cons.IH[OF _ this s(3), of "acc @ [s']"] Cons.prems(1) s(2,4) show ?case
    unfolding e by auto
qed

lemma Write_last: "writable s \<Longrightarrow> Statement_Write pr ind s \<noteq> [] \<and> last (Statement_Write pr ind s) = nl"
  by (cases s) (auto simp: Write_writable simp del: Statement_Write.simps)

lemma Writes_last:
  "\<forall>s \<in> set ss. writable s \<Longrightarrow> concat (map (Statement_Write pr []) ss) = [] \<or>
     last (concat (map (Statement_Write pr []) ss)) = nl"
  by (induction ss rule: rev_induct) (auto simp: Write_last)

subsection \<open>Properties\<close>

text \<open>C17: parsing is the inverse of writing: the text that \<open>Write\<close> prints for any list of
  statement trees, of any depth, whose keywords are unquoted words and whose arguments are
  printable ASCII text on one line, parses without error to the same trees, with all quotes and
  backslashes of the arguments restored; only the locations are new.\<close>

theorem parse_write:
  assumes "\<forall>s \<in> set ss. writable s"
  shows "\<exists>ss'. Parse (concat (map (Statement_Write pr []) ss)) path = Some (Inr ss') \<and>
    map unlocated ss' = map unlocated ss"
proof -
  let ?t = "concat (map (Statement_Write pr []) ss)" let ?p = "newParser ?t path"
  have "ps_at ?p [] ([] @ ?t)"
    using Writes_last[OF assms, of pr]
    by (auto simp: ps_at_def newParser_def lex_ready_def lex_at_def newLexer_def)
  from parse_loop_at[OF assms _ this, of "[]"] obtain ss' p' where
    l: "parse_loop [] ?p = Some (ss', p')" "map unlocated ss' = map unlocated ss"
      "lx_errout (ps_lex p') = []" "ps_depth p' = ps_depth ?p"
    by auto
  have "ps_depth ?p = 0" by (simp add: newParser_def)
  with l have "checkStatementDepthIsZero p' = p'" by (simp add: checkStatementDepthIsZero_def)
  with l show ?thesis by (simp add: Parse_def)
qed

lemma parse_write_witness:
  "\<exists>ss'. Parse (concat (map (Statement_Write (\<lambda>r. False) [])
      [Statement ''leaf'' True ([quote2] @ ''a'') [Statement ''type'' True ''int8'' [] [] 0 0] [] 0 0])) ''f''
    = Some (Inr ss') \<and>
   map unlocated ss' =
     [Statement ''leaf'' True ([quote2] @ ''a'') [Statement ''type'' True ''int8'' [] [] 0 0] [] 0 0]"
proof -
  let ?ss = "[Statement ''leaf'' True ([quote2] @ ''a'') [Statement ''type'' True ''int8'' [] [] 0 0] [] 0 0]"
  have "\<forall>s \<in> set ?ss. writable s"
    by (simp add: keyword_ok_def word_char_def unquoted_end_def printable_def special_bytes eof_def)
      (simp add: byte_def)
  from parse_write[OF this, of "\<lambda>r. False" "''f''"] show ?thesis by simp
qed

end
