(* ===== verification/Schema.thy ===== *)
theory Schema
  imports Main
begin

text \<open>
  The node types of \<open>pkg/yang/yang.go\<close> (and \<open>meta\<close> of \<open>ast.go\<close>) as data: one
  definition per Go struct, the list of its fields in order, each with its Go name, its type
  and its \<open>yang\<close> tag (empty when the field has none). \<open>reflect\<close> gives \<open>initTypes\<close>
  exactly this. The \<open>json\<close> tags play no part.
\<close>

datatype gotype = GoString | GoNode | GoPtr string | GoSlice string

type_synonym sfield = "string \<times> gotype \<times> string"

definition struct_Value :: "sfield list" where
  "struct_Value =
     [(''Name'', GoString, ''Name,nomerge''),
      (''Source'', GoPtr ''Statement'', ''Statement,nomerge''),
      (''Parent'', GoNode, ''Parent,nomerge''),
      (''Extensions'', GoSlice ''Statement'', ''Ext''),
      (''Description'', GoPtr ''Value'', ''description'')]"

definition struct_Module :: "sfield list" where
  "struct_Module =
     [(''Name'', GoString, ''Name,nomerge''),
      (''Source'', GoPtr ''Statement'', ''Statement,nomerge''),
      (''Parent'', GoNode, ''Parent,nomerge''),
      (''Extensions'', GoSlice ''Statement'', ''Ext''),
      (''Anydata'', GoSlice ''AnyData'', ''anydata''),
      (''Anyxml'', GoSlice ''AnyXML'', ''anyxml''),
      (''Augment'', GoSlice ''Augment'', ''augment''),
      (''BelongsTo'', GoPtr ''BelongsTo'', ''belongs-to,required=submodule,nomerge''),
      (''Choice'', GoSlice ''Choice'', ''choice''),
      (''Contact'', GoPtr ''Value'', ''contact,nomerge''),
      (''Container'', GoSlice ''Container'', ''container''),
      (''Description'', GoPtr ''Value'', ''description,nomerge''),
      (''Deviation'', GoSlice ''Deviation'', ''deviation''),
      (''Extension'', GoSlice ''Extension'', ''extension''),
      (''Feature'', GoSlice ''Feature'', ''feature''),
      (''Grouping'', GoSlice ''Grouping'', ''grouping''),
      (''Identity'', GoSlice ''Identity'', ''identity''),
      (''Import'', GoSlice ''Import'', ''import''),
      (''Include'', GoSlice ''Include'', ''include''),
      (''Leaf'', GoSlice ''Leaf'', ''leaf''),
      (''LeafList'', GoSlice ''LeafList'', ''leaf-list''),
      (''List'', GoSlice ''List'', ''list''),
      (''Namespace'', GoPtr ''Value'', ''namespace,required=module,nomerge''),
      (''Notification'', GoSlice ''Notification'', ''notification''),
      (''Organization'', GoPtr ''Value'', ''organization,nomerge''),
      (''Prefix'', GoPtr ''Value'', ''prefix,required=module,nomerge''),
      (''Reference'', GoPtr ''Value'', ''reference,nomerge''),
      (''Revision'', GoSlice ''Revision'', ''revision,nomerge''),
      (''RPC'', GoSlice ''RPC'', ''rpc''),
      (''Typedef'', GoSlice ''Typedef'', ''typedef''),
      (''Uses'', GoSlice ''Uses'', ''uses''),
      (''YangVersion'', GoPtr ''Value'', ''yang-version,nomerge''),
      (''Modules'', GoPtr ''Modules'', '''')]"

definition struct_Import :: "sfield list" where
  "struct_Import =
     [(''Name'', GoString, ''Name,nomerge''),
      (''Source'', GoPtr ''Statement'', ''Statement,nomerge''),
      (''Parent'', GoNode, ''Parent,nomerge''),
      (''Extensions'', GoSlice ''Statement'', ''Ext''),
      (''Prefix'', GoPtr ''Value'', ''prefix,required''),
      (''RevisionDate'', GoPtr ''Value'', ''revision-date''),
      (''Reference'', GoPtr ''Value'', ''reference,nomerge''),
      (''Description'', GoPtr ''Value'', ''description,nomerge''),
      (''Module'', GoPtr ''Module'', '''')]"

definition struct_Include :: "sfield list" where
  "struct_Include =
     [(''Name'', GoString, ''Name,nomerge''),
      (''Source'', GoPtr ''Statement'', ''Statement,nomerge''),
      (''Parent'', GoNode, ''Parent,nomerge''),
      (''Extensions'', GoSlice ''Statement'', ''Ext''),
      (''RevisionDate'', GoPtr ''Value'', ''revision-date''),
      (''Module'', GoPtr ''Module'', '''')]"

definition struct_Revision :: "sfield list" where
  "struct_Revision =
     [(''Name'', GoString, ''Name,nomerge''),
      (''Source'', GoPtr ''Statement'', ''Statement,nomerge''),
      (''Parent'', GoNode, ''Parent,nomerge''),
      (''Extensions'', GoSlice ''Statement'', ''Ext''),
      (''Description'', GoPtr ''Value'', ''description''),
      (''Reference'', GoPtr ''Value'', ''reference'')]"

definition struct_BelongsTo :: "sfield list" where
  "struct_BelongsTo =
     [(''Name'', GoString, ''Name,nomerge''),
      (''Source'', GoPtr ''Statement'', ''Statement,nomerge''),
      (''Parent'', GoNode, ''Parent,nomerge''),
      (''Extensions'', GoSlice ''Statement'', ''Ext''),
      (''Prefix'', GoPtr ''Value'', ''prefix,required'')]"

definition struct_Typedef :: "sfield list" where
  "struct_Typedef =
     [(''Name'', GoString, ''Name,nomerge''),
      (''Source'', GoPtr ''Statement'', ''Statement,nomerge''),
      (''Parent'', GoNode, ''Parent,nomerge''),
      (''Extensions'', GoSlice ''Statement'', ''Ext''),
      (''Default'', GoPtr ''Value'', ''default''),
      (''Description'', GoPtr ''Value'', ''description''),
      (''Reference'', GoPtr ''Value'', ''reference''),
      (''Status'', GoPtr ''Value'', ''status''),
      (''Type'', GoPtr ''Type'', ''type,required''),
      (''Units'', GoPtr ''Value'', ''units''),
      (''YangType'', GoPtr ''YangType'', '''')]"

definition struct_Type :: "sfield list" where
  "struct_Type =
     [(''Name'', GoString, ''Name,nomerge''),
      (''Source'', GoPtr ''Statement'', ''Statement,nomerge''),
      (''Parent'', GoNode, ''Parent,nomerge''),
      (''Extensions'', GoSlice ''Statement'', ''Ext''),
      (''IdentityBase'', GoPtr ''Value'', ''base''),
      (''Bit'', GoSlice ''Bit'', ''bit''),
      (''Enum'', GoSlice ''Enum'', ''enum''),
      (''FractionDigits'', GoPtr ''Value'', ''fraction-digits''),
      (''Length'', GoPtr ''Length'', ''length''),
      (''Path'', GoPtr ''Value'', ''path''),
      (''Pattern'', GoSlice ''Pattern'', ''pattern''),
      (''Range'', GoPtr ''Range'', ''range''),
      (''RequireInstance'', GoPtr ''Value'', ''require-instance''),
      (''Type'', GoSlice ''Type'', ''type''),
      (''YangType'', GoPtr ''YangType'', '''')]"

definition struct_Container :: "sfield list" where
  "struct_Container =
     [(''Name'', GoString, ''Name,nomerge''),
      (''Source'', GoPtr ''Statement'', ''Statement,nomerge''),
      (''Parent'', GoNode, ''Parent,nomerge''),
      (''Extensions'', GoSlice ''Statement'', ''Ext''),
      (''Anydata'', GoSlice ''AnyData'', ''anydata''),
      (''Action'', GoSlice ''Action'', ''action''),
      (''Anyxml'', GoSlice ''AnyXML'', ''anyxml''),
      (''Choice'', GoSlice ''Choice'', ''choice''),
      (''Config'', GoPtr ''Value'', ''config''),
      (''Container'', GoSlice ''Container'', ''container''),
      (''Description'', GoPtr ''Value'', ''description''),
      (''Grouping'', GoSlice ''Grouping'', ''grouping''),
      (''IfFeature'', GoSlice ''Value'', ''if-feature''),
      (''Leaf'', GoSlice ''Leaf'', ''leaf''),
      (''LeafList'', GoSlice ''LeafList'', ''leaf-list''),
      (''List'', GoSlice ''List'', ''list''),
      (''Must'', GoSlice ''Must'', ''must''),
      (''Notification'', GoSlice ''Notification'', ''notification''),
      (''Presence'', GoPtr ''Value'', ''presence''),
      (''Reference'', GoPtr ''Value'', ''reference''),
      (''Status'', GoPtr ''Value'', ''status''),
      (''Typedef'', GoSlice ''Typedef'', ''typedef''),
      (''Uses'', GoSlice ''Uses'', ''uses''),
      (''When'', GoPtr ''Value'', ''when'')]"

definition struct_Must :: "sfield list" where
  "struct_Must =
     [(''Name'', GoString, ''Name,nomerge''),
      (''Source'', GoPtr ''Statement'', ''Statement,nomerge''),
      (''Parent'', GoNode, ''Parent,nomerge''),
      (''Extensions'', GoSlice ''Statement'', ''Ext''),
      (''Description'', GoPtr ''Value'', ''description''),
      (''ErrorAppTag'', GoPtr ''Value'', ''error-app-tag''),
      (''ErrorMessage'', GoPtr ''Value'', ''error-message''),
      (''Reference'', GoPtr ''Value'', ''reference'')]"

definition struct_Leaf :: "sfield list" where
  "struct_Leaf =
     [(''Name'', GoString, ''Name,nomerge''),
      (''Source'', GoPtr ''Statement'', ''Statement,nomerge''),
      (''Parent'', GoNode, ''Parent,nomerge''),
      (''Extensions'', GoSlice ''Statement'', ''Ext''),
      (''Config'', GoPtr ''Value'', ''config''),
      (''Default'', GoPtr ''Value'', ''default''),
      (''Description'', GoPtr ''Value'', ''description''),
      (''IfFeature'', GoSlice ''Value'', ''if-feature''),
      (''Mandatory'', GoPtr ''Value'', ''mandatory''),
      (''Must'', GoSlice ''Must'', ''must''),
      (''Reference'', GoPtr ''Value'', ''reference''),
      (''Status'', GoPtr ''Value'', ''status''),
      (''Type'', GoPtr ''Type'', ''type,required''),
      (''Units'', GoPtr ''Value'', ''units''),
      (''When'', GoPtr ''Value'', ''when'')]"

definition struct_LeafList :: "sfield list" where
  "struct_LeafList =
     [(''Name'', GoString, ''Name,nomerge''),
      (''Source'', GoPtr ''Statement'', ''Statement,nomerge''),
      (''Parent'', GoNode, ''Parent,nomerge''),
      (''Extensions'', GoSlice ''Statement'', ''Ext''),
      (''Config'', GoPtr ''Value'', ''config''),
      (''Default'', GoSlice ''Value'', ''default''),
      (''Description'', GoPtr ''Value'', ''description''),
      (''IfFeature'', GoSlice ''Value'', ''if-feature''),
      (''MaxElements'', GoPtr ''Value'', ''max-elements''),
      (''MinElements'', GoPtr ''Value'', ''min-elements''),
      (''Must'', GoSlice ''Must'', ''must''),
      (''OrderedBy'', GoPtr ''Value'', ''ordered-by''),
      (''Reference'', GoPtr ''Value'', ''reference''),
      (''Status'', GoPtr ''Value'', ''status''),
      (''Type'', GoPtr ''Type'', ''type,required''),
      (''Units'', GoPtr ''Value'', ''units''),
      (''When'', GoPtr ''Value'', ''when'')]"

definition struct_List :: "sfield list" where
  "struct_List =
     [(''Name'', GoString, ''Name,nomerge''),
      (''Source'', GoPtr ''Statement'', ''Statement,nomerge''),
      (''Parent'', GoNode, ''Parent,nomerge''),
      (''Extensions'', GoSlice ''Statement'', ''Ext''),
      (''Anydata'', GoSlice ''AnyData'', ''anydata''),
      (''Action'', GoSlice ''Action'', ''action''),
      (''Anyxml'', GoSlice ''AnyXML'', ''anyxml''),
      (''Choice'', GoSlice ''Choice'', ''choice''),
      (''Config'', GoPtr ''Value'', ''config''),
      (''Container'', GoSlice ''Container'', ''container''),
      (''Description'', GoPtr ''Value'', ''description''),
      (''Grouping'', GoSlice ''Grouping'', ''grouping''),
      (''IfFeature'', GoSlice ''Value'', ''if-feature''),
      (''Key'', GoPtr ''Value'', ''key''),
      (''Leaf'', GoSlice ''Leaf'', ''leaf''),
      (''LeafList'', GoSlice ''LeafList'', ''leaf-list''),
      (''List'', GoSlice ''List'', ''list''),
      (''MaxElements'', GoPtr ''Value'', ''max-elements''),
      (''MinElements'', GoPtr ''Value'', ''min-elements''),
      (''Must'', GoSlice ''Must'', ''must''),
      (''Notification'', GoSlice ''Notification'', ''notification''),
      (''OrderedBy'', GoPtr ''Value'', ''ordered-by''),
      (''Reference'', GoPtr ''Value'', ''reference''),
      (''Status'', GoPtr ''Value'', ''status''),
      (''Typedef'', GoSlice ''Typedef'', ''typedef''),
      (''Unique'', GoSlice ''Value'', ''unique''),
      (''Uses'', GoSlice ''Uses'', ''uses''),
      (''When'', GoPtr ''Value'', ''when'')]"

definition struct_Choice :: "sfield list" where
  "struct_Choice =
     [(''Name'', GoString, ''Name,nomerge''),
      (''Source'', GoPtr ''Statement'', ''Statement,nomerge''),
      (''Parent'', GoNode, ''Parent,nomerge''),
      (''Extensions'', GoSlice ''Statement'', ''Ext''),
      (''Anydata'', GoSlice ''AnyData'', ''anydata''),
      (''Anyxml'', GoSlice ''AnyXML'', ''anyxml''),
      (''Case'', GoSlice ''Case'', ''case''),
      (''Config'', GoPtr ''Value'', ''config''),
      (''Container'', GoSlice ''Container'', ''container''),
      (''Default'', GoPtr ''Value'', ''default''),
      (''Description'', GoPtr ''Value'', ''description''),
      (''IfFeature'', GoSlice ''Value'', ''if-feature''),
      (''Leaf'', GoSlice ''Leaf'', ''leaf''),
      (''LeafList'', GoSlice ''LeafList'', ''leaf-list''),
      (''List'', GoSlice ''List'', ''list''),
      (''Mandatory'', GoPtr ''Value'', ''mandatory''),
      (''Reference'', GoPtr ''Value'', ''reference''),
      (''Status'', GoPtr ''Value'', ''status''),
      (''When'', GoPtr ''Value'', ''when'')]"

definition struct_Case :: "sfield list" where
  "struct_Case =
     [(''Name'', GoString, ''Name,nomerge''),
      (''Source'', GoPtr ''Statement'', ''Statement,nomerge''),
      (''Parent'', GoNode, ''Parent,nomerge''),
      (''Extensions'', GoSlice ''Statement'', ''Ext''),
      (''Anydata'', GoSlice ''AnyData'', ''anydata''),
      (''Anyxml'', GoSlice ''AnyXML'', ''anyxml''),
      (''Choice'', GoSlice ''Choice'', ''choice''),
      (''Container'', GoSlice ''Container'', ''container''),
      (''Description'', GoPtr ''Value'', ''description''),
      (''IfFeature'', GoSlice ''Value'', ''if-feature''),
      (''Leaf'', GoSlice ''Leaf'', ''leaf''),
      (''LeafList'', GoSlice ''LeafList'', ''leaf-list''),
      (''List'', GoSlice ''List'', ''list''),
      (''Reference'', GoPtr ''Value'', ''reference''),
      (''Status'', GoPtr ''Value'', ''status''),
      (''Uses'', GoSlice ''Uses'', ''uses''),
      (''When'', GoPtr ''Value'', ''when'')]"

definition struct_AnyXML :: "sfield list" where
  "struct_AnyXML =
     [(''Name'', GoString, ''Name,nomerge''),
      (''Source'', GoPtr ''Statement'', ''Statement,nomerge''),
      (''Parent'', GoNode, ''Parent,nomerge''),
      (''Extensions'', GoSlice ''Statement'', ''Ext''),
      (''Config'', GoPtr ''Value'', ''config''),
      (''Description'', GoPtr ''Value'', ''description''),
      (''IfFeature'', GoSlice ''Value'', ''if-feature''),
      (''Mandatory'', GoPtr ''Value'', ''mandatory''),
      (''Must'', GoSlice ''Must'', ''must''),
      (''Reference'', GoPtr ''Value'', ''reference''),
      (''Status'', GoPtr ''Value'', ''status''),
      (''When'', GoPtr ''Value'', ''when'')]"

definition struct_AnyData :: "sfield list" where
  "struct_AnyData =
     [(''Name'', GoString, ''Name,nomerge''),
      (''Source'', GoPtr ''Statement'', ''Statement,nomerge''),
      (''Parent'', GoNode, ''Parent,nomerge''),
      (''Extensions'', GoSlice ''Statement'', ''Ext''),
      (''Config'', GoPtr ''Value'', ''config''),
      (''Description'', GoPtr ''Value'', ''description''),
      (''IfFeature'', GoSlice ''Value'', ''if-feature''),
      (''Mandatory'', GoPtr ''Value'', ''mandatory''),
      (''Must'', GoSlice ''Must'', ''must''),
      (''Reference'', GoPtr ''Value'', ''reference''),
      (''Status'', GoPtr ''Value'', ''status''),
      (''When'', GoPtr ''Value'', ''when'')]"

definition struct_Grouping :: "sfield list" where
  "struct_Grouping =
     [(''Name'', GoString, ''Name,nomerge''),
      (''Source'', GoPtr ''Statement'', ''Statement,nomerge''),
      (''Parent'', GoNode, ''Parent,nomerge''),
      (''Extensions'', GoSlice ''Statement'', ''Ext''),
      (''Anydata'', GoSlice ''AnyData'', ''anydata''),
      (''Action'', GoSlice ''Action'', ''action''),
      (''Anyxml'', GoSlice ''AnyXML'', ''anyxml''),
      (''Choice'', GoSlice ''Choice'', ''choice''),
      (''Container'', GoSlice ''Container'', ''container''),
      (''Description'', GoPtr ''Value'', ''description''),
      (''Grouping'', GoSlice ''Grouping'', ''grouping''),
      (''Leaf'', GoSlice ''Leaf'', ''leaf''),
      (''LeafList'', GoSlice ''LeafList'', ''leaf-list''),
      (''List'', GoSlice ''List'', ''list''),
      (''Notification'', GoSlice ''Notification'', ''notification''),
      (''Reference'', GoPtr ''Value'', ''reference''),
      (''Status'', GoPtr ''Value'', ''status''),
      (''Typedef'', GoSlice ''Typedef'', ''typedef''),
      (''Uses'', GoSlice ''Uses'', ''uses'')]"

definition struct_Uses :: "sfield list" where
  "struct_Uses =
     [(''Name'', GoString, ''Name,nomerge''),
      (''Source'', GoPtr ''Statement'', ''Statement,nomerge''),
      (''Parent'', GoNode, ''Parent,nomerge''),
      (''Extensions'', GoSlice ''Statement'', ''Ext''),
      (''Augment'', GoPtr ''Augment'', ''augment''),
      (''Description'', GoPtr ''Value'', ''description''),
      (''IfFeature'', GoSlice ''Value'', ''if-feature''),
      (''Refine'', GoSlice ''Refine'', ''refine''),
      (''Reference'', GoPtr ''Value'', ''reference''),
      (''Status'', GoPtr ''Value'', ''status''),
      (''When'', GoPtr ''Value'', ''when'')]"

definition struct_Refine :: "sfield list" where
  "struct_Refine =
     [(''Name'', GoString, ''Name,nomerge''),
      (''Source'', GoPtr ''Statement'', ''Statement,nomerge''),
      (''Parent'', GoNode, ''Parent,nomerge''),
      (''Extensions'', GoSlice ''Statement'', ''Ext''),
      (''Default'', GoPtr ''Value'', ''default''),
      (''Description'', GoPtr ''Value'', ''description''),
      (''IfFeature'', GoSlice ''Value'', ''if-feature''),
      (''Reference'', GoPtr ''Value'', ''reference''),
      (''Config'', GoPtr ''Value'', ''config''),
      (''Mandatory'', GoPtr ''Value'', ''mandatory''),
      (''Presence'', GoPtr ''Value'', ''presence''),
      (''Must'', GoSlice ''Must'', ''must''),
      (''MaxElements'', GoPtr ''Value'', ''max-elements''),
      (''MinElements'', GoPtr ''Value'', ''min-elements'')]"

definition struct_RPC :: "sfield list" where
  "struct_RPC =
     [(''Name'', GoString, ''Name,nomerge''),
      (''Source'', GoPtr ''Statement'', ''Statement,nomerge''),
      (''Parent'', GoNode, ''Parent,nomerge''),
      (''Extensions'', GoSlice ''Statement'', ''Ext''),
      (''Description'', GoPtr ''Value'', ''description''),
      (''Grouping'', GoSlice ''Grouping'', ''grouping''),
      (''IfFeature'', GoSlice ''Value'', ''if-feature''),
      (''Input'', GoPtr ''Input'', ''input''),
      (''Output'', GoPtr ''Output'', ''output''),
      (''Reference'', GoPtr ''Value'', ''reference''),
      (''Status'', GoPtr ''Value'', ''status''),
      (''Typedef'', GoSlice ''Typedef'', ''typedef'')]"

definition struct_Input :: "sfield list" where
  "struct_Input =
     [(''Name'', GoString, ''Name,nomerge''),
      (''Source'', GoPtr ''Statement'', ''Statement,nomerge''),
      (''Parent'', GoNode, ''Parent,nomerge''),
      (''Extensions'', GoSlice ''Statement'', ''Ext''),
      (''Anydata'', GoSlice ''AnyData'', ''anydata''),
      (''Anyxml'', GoSlice ''AnyXML'', ''anyxml''),
      (''Choice'', GoSlice ''Choice'', ''choice''),
      (''Container'', GoSlice ''Container'', ''container''),
      (''Grouping'', GoSlice ''Grouping'', ''grouping''),
      (''Leaf'', GoSlice ''Leaf'', ''leaf''),
      (''LeafList'', GoSlice ''LeafList'', ''leaf-list''),
      (''List'', GoSlice ''List'', ''list''),
      (''Typedef'', GoSlice ''Typedef'', ''typedef''),
      (''Uses'', GoSlice ''Uses'', ''uses'')]"

definition struct_Output :: "sfield list" where
  "struct_Output =
     [(''Name'', GoString, ''Name,nomerge''),
      (''Source'', GoPtr ''Statement'', ''Statement,nomerge''),
      (''Parent'', GoNode, ''Parent,nomerge''),
      (''Extensions'', GoSlice ''Statement'', ''Ext''),
      (''Anydata'', GoSlice ''AnyData'', ''anydata''),
      (''Anyxml'', GoSlice ''AnyXML'', ''anyxml''),
      (''Choice'', GoSlice ''Choice'', ''choice''),
      (''Container'', GoSlice ''Container'', ''container''),
      (''Grouping'', GoSlice ''Grouping'', ''grouping''),
      (''Leaf'', GoSlice ''Leaf'', ''leaf''),
      (''LeafList'', GoSlice ''LeafList'', ''leaf-list''),
      (''List'', GoSlice ''List'', ''list''),
      (''Typedef'', GoSlice ''Typedef'', ''typedef''),
      (''Uses'', GoSlice ''Uses'', ''uses'')]"

definition struct_Notification :: "sfield list" where
  "struct_Notification =
     [(''Name'', GoString, ''Name,nomerge''),
      (''Source'', GoPtr ''Statement'', ''Statement,nomerge''),
      (''Parent'', GoNode, ''Parent,nomerge''),
      (''Extensions'', GoSlice ''Statement'', ''Ext''),
      (''Anydata'', GoSlice ''AnyData'', ''anydata''),
      (''Anyxml'', GoSlice ''AnyXML'', ''anyxml''),
      (''Choice'', GoSlice ''Choice'', ''choice''),
      (''Container'', GoSlice ''Container'', ''container''),
      (''Description'', GoPtr ''Value'', ''description''),
      (''Grouping'', GoSlice ''Grouping'', ''grouping''),
      (''IfFeature'', GoSlice ''Value'', ''if-feature''),
      (''Leaf'', GoSlice ''Leaf'', ''leaf''),
      (''LeafList'', GoSlice ''LeafList'', ''leaf-list''),
      (''List'', GoSlice ''List'', ''list''),
      (''Reference'', GoPtr ''Value'', ''reference''),
      (''Status'', GoPtr ''Value'', ''status''),
      (''Typedef'', GoSlice ''Typedef'', ''typedef''),
      (''Uses'', GoSlice ''Uses'', ''uses'')]"

definition struct_Augment :: "sfield list" where
  "struct_Augment =
     [(''Name'', GoString, ''Name,nomerge''),
      (''Source'', GoPtr ''Statement'', ''Statement,nomerge''),
      (''Parent'', GoNode, ''Parent,nomerge''),
      (''Extensions'', GoSlice ''Statement'', ''Ext''),
      (''Anydata'', GoSlice ''AnyData'', ''anydata''),
      (''Action'', GoSlice ''Action'', ''action''),
      (''Anyxml'', GoSlice ''AnyXML'', ''anyxml''),
      (''Case'', GoSlice ''Case'', ''case''),
      (''Choice'', GoSlice ''Choice'', ''choice''),
      (''Container'', GoSlice ''Container'', ''container''),
      (''Description'', GoPtr ''Value'', ''description''),
      (''IfFeature'', GoSlice ''Value'', ''if-feature''),
      (''Leaf'', GoSlice ''Leaf'', ''leaf''),
      (''LeafList'', GoSlice ''LeafList'', ''leaf-list''),
      (''List'', GoSlice ''List'', ''list''),
      (''Notification'', GoSlice ''Notification'', ''notification''),
      (''Reference'', GoPtr ''Value'', ''reference''),
      (''Status'', GoPtr ''Value'', ''status''),
      (''Uses'', GoSlice ''Uses'', ''uses''),
      (''When'', GoPtr ''Value'', ''when'')]"

definition struct_Identity :: "sfield list" where
  "struct_Identity =
     [(''Name'', GoString, ''Name,nomerge''),
      (''Source'', GoPtr ''Statement'', ''Statement,nomerge''),
      (''Parent'', GoNode, ''Parent,nomerge''),
      (''Extensions'', GoSlice ''Statement'', ''Ext''),
      (''Base'', GoSlice ''Value'', ''base''),
      (''Description'', GoPtr ''Value'', ''description''),
      (''IfFeature'', GoSlice ''Value'', ''if-feature''),
      (''Reference'', GoPtr ''Value'', ''reference''),
      (''Status'', GoPtr ''Value'', ''status''),
      (''Values'', GoSlice ''Identity'', '''')]"

definition struct_Extension :: "sfield list" where
  "struct_Extension =
     [(''Name'', GoString, ''Name,nomerge''),
      (''Source'', GoPtr ''Statement'', ''Statement,nomerge''),
      (''Parent'', GoNode, ''Parent,nomerge''),
      (''Extensions'', GoSlice ''Statement'', ''Ext''),
      (''Argument'', GoPtr ''Argument'', ''argument''),
      (''Description'', GoPtr ''Value'', ''description''),
      (''Reference'', GoPtr ''Value'', ''reference''),
      (''Status'', GoPtr ''Value'', ''status'')]"

definition struct_Argument :: "sfield list" where
  "struct_Argument =
     [(''Name'', GoString, ''Name,nomerge''),
      (''Source'', GoPtr ''Statement'', ''Statement,nomerge''),
      (''Parent'', GoNode, ''Parent,nomerge''),
      (''Extensions'', GoSlice ''Statement'', ''Ext''),
      (''YinElement'', GoPtr ''Value'', ''yin-element'')]"

definition struct_Element :: "sfield list" where
  "struct_Element =
     [(''Name'', GoString, ''Name,nomerge''),
      (''Source'', GoPtr ''Statement'', ''Statement,nomerge''),
      (''Parent'', GoNode, ''Parent,nomerge''),
      (''Extensions'', GoSlice ''Statement'', ''Ext''),
      (''YinElement'', GoPtr ''Value'', ''yin-element'')]"

definition struct_Feature :: "sfield list" where
  "struct_Feature =
     [(''Name'', GoString, ''Name,nomerge''),
      (''Source'', GoPtr ''Statement'', ''Statement,nomerge''),
      (''Parent'', GoNode, ''Parent,nomerge''),
      (''Extensions'', GoSlice ''Statement'', ''Ext''),
      (''Description'', GoPtr ''Value'', ''description''),
      (''IfFeature'', GoSlice ''Value'', ''if-feature''),
      (''Status'', GoPtr ''Value'', ''status''),
      (''Reference'', GoPtr ''Value'', ''reference'')]"

definition struct_Deviation :: "sfield list" where
  "struct_Deviation =
     [(''Name'', GoString, ''Name,nomerge''),
      (''Source'', GoPtr ''Statement'', ''Statement,nomerge''),
      (''Parent'', GoNode, ''Parent,nomerge''),
      (''Extensions'', GoSlice ''Statement'', ''Ext''),
      (''Description'', GoPtr ''Value'', ''description''),
      (''Deviate'', GoSlice ''Deviate'', ''deviate,required''),
      (''Reference'', GoPtr ''Value'', ''reference'')]"

definition struct_Deviate :: "sfield list" where
  "struct_Deviate =
     [(''Name'', GoString, ''Name,nomerge''),
      (''Source'', GoPtr ''Statement'', ''Statement,nomerge''),
      (''Parent'', GoNode, ''Parent,nomerge''),
      (''Extensions'', GoSlice ''Statement'', ''Ext''),
      (''Config'', GoPtr ''Value'', ''config''),
      (''Default'', GoPtr ''Value'', ''default''),
      (''Mandatory'', GoPtr ''Value'', ''mandatory''),
      (''MaxElements'', GoPtr ''Value'', ''max-elements''),
      (''MinElements'', GoPtr ''Value'', ''min-elements''),
      (''Must'', GoSlice ''Must'', ''must''),
      (''Type'', GoPtr ''Type'', ''type''),
      (''Unique'', GoSlice ''Value'', ''unique''),
      (''Units'', GoPtr ''Value'', ''units'')]"

definition struct_Enum :: "sfield list" where
  "struct_Enum =
     [(''Name'', GoString, ''Name,nomerge''),
      (''Source'', GoPtr ''Statement'', ''Statement,nomerge''),
      (''Parent'', GoNode, ''Parent,nomerge''),
      (''Extensions'', GoSlice ''Statement'', ''Ext''),
      (''Description'', GoPtr ''Value'', ''description''),
      (''IfFeature'', GoSlice ''Value'', ''if-feature''),
      (''Reference'', GoPtr ''Value'', ''reference''),
      (''Status'', GoPtr ''Value'', ''status''),
      (''Value'', GoPtr ''Value'', ''value'')]"

definition struct_Bit :: "sfield list" where
  "struct_Bit =
     [(''Name'', GoString, ''Name,nomerge''),
      (''Source'', GoPtr ''Statement'', ''Statement,nomerge''),
      (''Parent'', GoNode, ''Parent,nomerge''),
      (''Extensions'', GoSlice ''Statement'', ''Ext''),
      (''Description'', GoPtr ''Value'', ''description''),
      (''IfFeature'', GoSlice ''Value'', ''if-feature''),
      (''Reference'', GoPtr ''Value'', ''reference''),
      (''Status'', GoPtr ''Value'', ''status''),
      (''Position'', GoPtr ''Value'', ''position'')]"

definition struct_Range :: "sfield list" where
  "struct_Range =
     [(''Name'', GoString, ''Name,nomerge''),
      (''Source'', GoPtr ''Statement'', ''Statement,nomerge''),
      (''Parent'', GoNode, ''Parent,nomerge''),
      (''Extensions'', GoSlice ''Statement'', ''Ext''),
      (''Description'', GoPtr ''Value'', ''description''),
      (''ErrorAppTag'', GoPtr ''Value'', ''error-app-tag''),
      (''ErrorMessage'', GoPtr ''Value'', ''error-message''),
      (''Reference'', GoPtr ''Value'', ''reference'')]"

definition struct_Length :: "sfield list" where
  "struct_Length =
     [(''Name'', GoString, ''Name,nomerge''),
      (''Source'', GoPtr ''Statement'', ''Statement,nomerge''),
      (''Parent'', GoNode, ''Parent,nomerge''),
      (''Extensions'', GoSlice ''Statement'', ''Ext''),
      (''Description'', GoPtr ''Value'', ''description''),
      (''ErrorAppTag'', GoPtr ''Value'', ''error-app-tag''),
      (''ErrorMessage'', GoPtr ''Value'', ''error-message''),
      (''Reference'', GoPtr ''Value'', ''reference'')]"

definition struct_Pattern :: "sfield list" where
  "struct_Pattern =
     [(''Name'', GoString, ''Name,nomerge''),
      (''Source'', GoPtr ''Statement'', ''Statement,nomerge''),
      (''Parent'', GoNode, ''Parent,nomerge''),
      (''Extensions'', GoSlice ''Statement'', ''Ext''),
      (''Description'', GoPtr ''Value'', ''description''),
      (''ErrorAppTag'', GoPtr ''Value'', ''error-app-tag''),
      (''ErrorMessage'', GoPtr ''Value'', ''error-message''),
      (''Reference'', GoPtr ''Value'', ''reference'')]"

definition struct_Action :: "sfield list" where
  "struct_Action =
     [(''Name'', GoString, ''Name,nomerge''),
      (''Source'', GoPtr ''Statement'', ''Statement,nomerge''),
      (''Parent'', GoNode, ''Parent,nomerge''),
      (''Extensions'', GoSlice ''Statement'', ''Ext''),
      (''Description'', GoPtr ''Value'', ''description''),
      (''Grouping'', GoSlice ''Grouping'', ''grouping''),
      (''IfFeature'', GoSlice ''Value'', ''if-feature''),
      (''Input'', GoPtr ''Input'', ''input''),
      (''Output'', GoPtr ''Output'', ''output''),
      (''Reference'', GoPtr ''Value'', ''reference''),
      (''Status'', GoPtr ''Value'', ''status''),
      (''Typedef'', GoSlice ''Typedef'', ''typedef'')]"

definition struct_meta :: "sfield list" where
  "struct_meta =
     [(''Module'', GoSlice ''Module'', ''module'')]"

definition structs :: "(string \<times> sfield list) list" where
  "structs =
     [(''Value'', struct_Value),
      (''Module'', struct_Module),
      (''Import'', struct_Import),
      (''Include'', struct_Include),
      (''Revision'', struct_Revision),
      (''BelongsTo'', struct_BelongsTo),
      (''Typedef'', struct_Typedef),
      (''Type'', struct_Type),
      (''Container'', struct_Container),
      (''Must'', struct_Must),
      (''Leaf'', struct_Leaf),
      (''LeafList'', struct_LeafList),
      (''List'', struct_List),
      (''Choice'', struct_Choice),
      (''Case'', struct_Case),
      (''AnyXML'', struct_AnyXML),
      (''AnyData'', struct_AnyData),
      (''Grouping'', struct_Grouping),
      (''Uses'', struct_Uses),
      (''Refine'', struct_Refine),
      (''RPC'', struct_RPC),
      (''Input'', struct_Input),
      (''Output'', struct_Output),
      (''Notification'', struct_Notification),
      (''Augment'', struct_Augment),
      (''Identity'', struct_Identity),
      (''Extension'', struct_Extension),
      (''Argument'', struct_Argument),
      (''Element'', struct_Element),
      (''Feature'', struct_Feature),
      (''Deviation'', struct_Deviation),
      (''Deviate'', struct_Deviate),
      (''Enum'', struct_Enum),
      (''Bit'', struct_Bit),
      (''Range'', struct_Range),
      (''Length'', struct_Length),
      (''Pattern'', struct_Pattern),
      (''Action'', struct_Action),
      (''meta'', struct_meta)]"

text \<open>The constant results of the \<open>Kind\<close> methods (that of \<open>Module\<close> depends on the node).\<close>

definition struct_kinds :: "(string \<times> string) list" where
  "struct_kinds =
     [(''Value'', ''string''),
      (''Import'', ''import''),
      (''Include'', ''include''),
      (''Revision'', ''revision''),
      (''BelongsTo'', ''belongs-to''),
      (''Typedef'', ''typedef''),
      (''Type'', ''type''),
      (''Container'', ''container''),
      (''Must'', ''must''),
      (''Leaf'', ''leaf''),
      (''LeafList'', ''leaf-list''),
      (''List'', ''list''),
      (''Choice'', ''choice''),
      (''Case'', ''case''),
      (''AnyXML'', ''anyxml''),
      (''AnyData'', ''anydata''),
      (''Grouping'', ''grouping''),
      (''Uses'', ''uses''),
      (''Refine'', ''refine''),
      (''RPC'', ''rpc''),
      (''Input'', ''input''),
      (''Output'', ''output''),
      (''Notification'', ''notification''),
      (''Augment'', ''augment''),
      (''Identity'', ''identity''),
      (''Extension'', ''extension''),
      (''Argument'', ''argument''),
      (''Element'', ''element''),
      (''Feature'', ''feature''),
      (''Deviation'', ''deviation''),
      (''Deviate'', ''deviate''),
      (''Enum'', ''enum''),
      (''Bit'', ''bit''),
      (''Range'', ''range''),
      (''Length'', ''length''),
      (''Pattern'', ''pattern''),
      (''Action'', ''action'')]"

end
