(* ===== verification/AstTypes.thy ===== *)
theory AstTypes
  imports Prelude Schema "HOL-Library.AList"
begin

text \<open>
  \<open>initTypes\<close> of \<open>pkg/yang/ast.go\<close>: the tables \<open>typeMap\<close> and \<open>nameMap\<close> built at
  program start from the structs of \<open>Schema\<close>. A builder function of a field is data here, a
  constructor of \<open>builder\<close> with the field it sets; \<open>None\<close> is a panic of the Go code (or fuel
  that ran out, which \<open>init_tables_defined\<close> excludes).
\<close>

definition aliases :: "(string \<times> string) list" where
  "aliases = [(''submodule'', ''module'')]"

definition unalias :: "string \<Rightarrow> string" where
  "unalias k = (case map_of aliases k of Some a \<Rightarrow> a | None \<Rightarrow> k)"

text \<open>The functions stored in \<open>funcs\<close>: which kind of field they fill, and its Go name.\<close>

datatype builder =
    SetParent string
  | SetName string
  | SetStatement string
  | BuildPtr string
  | BuildSlice string

record yangStatement =
  ys_funcs :: "(string \<times> builder) list"
  ys_required :: "string list"
  ys_sRequired :: "(string \<times> string list) list"
  ys_addext :: "string option"

definition newYangStatement :: yangStatement where
  "newYangStatement = \<lparr>ys_funcs = [], ys_required = [], ys_sRequired = [], ys_addext = None\<rparr>"

text \<open>The attributes of a tag after the name.\<close>

fun tag_options :: "string \<Rightarrow> string list \<Rightarrow> yangStatement \<Rightarrow> yangStatement option" where
  "tag_options name [] y = Some y"
| "tag_options name (p # ps) y =
     (if p = ''nomerge'' then tag_options name ps y
      else if p = ''required'' then tag_options name ps (y\<lparr>ys_required := ys_required y @ [name]\<rparr>)
      else if go_has_prefix p ''required='' then
        (let k = drop (length ''required='') p;
             old = (case map_of (ys_sRequired y) k of None \<Rightarrow> [] | Some rs \<Rightarrow> rs)
         in tag_options name ps (y\<lparr>ys_sRequired := AList.update k (old @ [name]) (ys_sRequired y)\<rparr>))
      else None)"

record type_tables =
  tt_types :: "(string \<times> yangStatement) list"  \<comment> \<open>\<open>typeMap\<close>\<close>
  tt_names :: "(string \<times> string) list"         \<comment> \<open>\<open>nameMap\<close>\<close>

text \<open>
  The switch over the kind of a field: the function for the field \<open>fname\<close> with the tag name
  \<open>name\<close>, and the struct to descend into. \<open>None\<close> is a panic.
\<close>

fun field_func :: "string \<Rightarrow> string \<Rightarrow> gotype \<Rightarrow> (builder \<times> string option) option" where
  "field_func name fname GoNode = (if name = ''Parent'' then Some (SetParent fname, None) else None)"
| "field_func name fname GoString = (if name = ''Name'' then Some (SetName fname, None) else None)"
| "field_func name fname (GoPtr t) =
     (if t = ''Statement''
      then (if name = ''Statement'' then Some (SetStatement fname, None) else None)
      else Some (BuildPtr fname, Some t))"
| "field_func name fname (GoSlice t) = Some (BuildSlice fname, Some t)"

text \<open>
  The body of the loop over the fields, up to \<open>descend\<close>: the table with the attributes and
  the function of the field entered, and the keyword and struct to descend into, if any.
\<close>

fun init_field :: "sfield \<Rightarrow> yangStatement \<Rightarrow> (yangStatement \<times> (string \<times> string) option) option" where
  "init_field (fname, ftype, yang) y =
     (if yang = [] then Some (y, None)
      else let parts = go_split yang '',''; name = unalias (hd parts)
        in case tag_options name (tl parts) y of
             None \<Rightarrow> None
           | Some y' \<Rightarrow>
               if name = ''Ext'' then Some (y'\<lparr>ys_addext := Some fname\<rparr>, None)
               else (case field_func name fname ftype of
                       None \<Rightarrow> None
                     | Some (fn, dt) \<Rightarrow>
                         Some (y'\<lparr>ys_funcs := AList.update name fn (ys_funcs y')\<rparr>, map_option (Pair name) dt)))"

text \<open>
  \<open>initTypes\<close>, its loop over the fields of the struct \<open>at\<close>, and \<open>descend\<close>. The entry of
  \<open>typeMap\<close> is made before the fields are visited, which ends the recursion. The fuel bounds
  the nesting of \<open>initTypes\<close>, at most one level per struct.
\<close>

function (sequential) initTypes :: "nat \<Rightarrow> string \<Rightarrow> type_tables \<Rightarrow> type_tables option"
  and init_fields :: "nat \<Rightarrow> sfield list \<Rightarrow> yangStatement \<Rightarrow> type_tables \<Rightarrow> (yangStatement \<times> type_tables) option"
  and descend :: "nat \<Rightarrow> string \<Rightarrow> string \<Rightarrow> type_tables \<Rightarrow> type_tables option" where
  "initTypes 0 at tt = None"
| "initTypes (Suc n) at tt =
     (case map_of structs at of
        None \<Rightarrow> None
      | Some fs \<Rightarrow>
          if map_of (tt_types tt) at \<noteq> None then Some tt
          else (case init_fields n fs newYangStatement
                  (tt\<lparr>tt_types := AList.update at newYangStatement (tt_types tt)\<rparr>) of
                  None \<Rightarrow> None
                | Some (y, tt') \<Rightarrow> Some (tt'\<lparr>tt_types := AList.update at y (tt_types tt')\<rparr>)))"
| "init_fields n [] y tt = Some (y, tt)"
| "init_fields n (f # fs) y tt =
     (case init_field f y of
        None \<Rightarrow> None
      | Some (y', None) \<Rightarrow> init_fields n fs y' tt
      | Some (y', Some (name, dt)) \<Rightarrow>
          (case descend n name dt tt of
             None \<Rightarrow> None
           | Some tt' \<Rightarrow> init_fields n fs y' tt'))"
| "descend n name t tt =
     (case map_of (tt_names tt) name of
        None \<Rightarrow> initTypes n t (tt\<lparr>tt_names := AList.update name t (tt_names tt)\<rparr>)
      | Some dt \<Rightarrow> if dt = t then Some tt else None)"
  by pat_completeness auto

termination
  by (relation "measures [\<lambda>p. case p of Inl (n, _) \<Rightarrow> n | Inr (Inl (n, _)) \<Rightarrow> n | Inr (Inr (n, _)) \<Rightarrow> n,
        \<lambda>p. case p of Inl _ \<Rightarrow> 0 | Inr (Inl (_, fs, _)) \<Rightarrow> 2 + length fs | Inr (Inr _) \<Rightarrow> 1]") auto

definition init_tables :: "type_tables option" where
  "init_tables = initTypes (Suc (length structs)) ''meta'' \<lparr>tt_types = [], tt_names = []\<rparr>"

text \<open>The entry of a struct, and the keywords and structs its fields name.\<close>

fun fields_entry :: "sfield list \<Rightarrow> yangStatement \<Rightarrow> yangStatement option" where
  "fields_entry [] y = Some y"
| "fields_entry (f # fs) y = (case init_field f y of None \<Rightarrow> None | Some (y', _) \<Rightarrow> fields_entry fs y')"

definition field_child :: "sfield \<Rightarrow> (string \<times> string) option" where
  "field_child f = (case init_field f newYangStatement of Some (_, d) \<Rightarrow> d | None \<Rightarrow> None)"

definition struct_children :: "sfield list \<Rightarrow> (string \<times> string) list" where
  "struct_children fs = List.map_filter field_child fs"

text \<open>
  The keywords of the grammar with the struct each one is built into: the most frequent
  first. The tables are checked against it struct by struct.
\<close>

definition keyword_types :: "(string \<times> string) list" where
  "keyword_types =
     [(''description'', ''Value''), (''reference'', ''Value''), (''status'', ''Value''),
      (''if-feature'', ''Value''), (''anydata'', ''AnyData''), (''anyxml'', ''AnyXML''),
      (''container'', ''Container''), (''leaf'', ''Leaf''), (''leaf-list'', ''LeafList''),
      (''list'', ''List''), (''when'', ''Value''), (''grouping'', ''Grouping''),
      (''choice'', ''Choice''), (''typedef'', ''Typedef''), (''uses'', ''Uses''),
      (''config'', ''Value''), (''must'', ''Must''), (''mandatory'', ''Value''),
      (''default'', ''Value''), (''type'', ''Type''), (''notification'', ''Notification''),
      (''action'', ''Action''), (''error-app-tag'', ''Value''),
      (''error-message'', ''Value''), (''units'', ''Value''), (''max-elements'', ''Value''),
      (''min-elements'', ''Value''), (''augment'', ''Augment''), (''case'', ''Case''),
      (''input'', ''Input''), (''output'', ''Output''), (''prefix'', ''Value''),
      (''base'', ''Value''), (''bit'', ''Bit''), (''enum'', ''Enum''),
      (''length'', ''Length''), (''pattern'', ''Pattern''), (''range'', ''Range''),
      (''ordered-by'', ''Value''), (''refine'', ''Refine''), (''presence'', ''Value''),
      (''unique'', ''Value''), (''belongs-to'', ''BelongsTo''),
      (''deviation'', ''Deviation''), (''deviate'', ''Deviate''),
      (''extension'', ''Extension''), (''argument'', ''Argument''),
      (''yin-element'', ''Value''), (''feature'', ''Feature''), (''identity'', ''Identity''),
      (''import'', ''Import''), (''revision-date'', ''Value''), (''include'', ''Include''),
      (''revision'', ''Revision''), (''rpc'', ''RPC''), (''module'', ''Module''),
      (''position'', ''Value''), (''value'', ''Value''), (''fraction-digits'', ''Value''),
      (''path'', ''Value''), (''require-instance'', ''Value''), (''key'', ''Value''),
      (''contact'', ''Value''), (''namespace'', ''Value''), (''organization'', ''Value''),
      (''yang-version'', ''Value'')]"

definition special_ok :: "string \<times> sfield list \<Rightarrow> bool" where
  "special_ok = (\<lambda>(n, fs). case fields_entry fs newYangStatement of
       None \<Rightarrow> False
     | Some y \<Rightarrow> n = ''meta''
         \<or> map_of (ys_funcs y) ''Name'' = Some (SetName ''Name'')
           \<and> map_of (ys_funcs y) ''Statement'' = Some (SetStatement ''Source'')
           \<and> map_of (ys_funcs y) ''Parent'' = Some (SetParent ''Parent'')
           \<and> ys_addext y = Some ''Extensions'')"

lemma schema_special: "list_all special_ok structs"
  by code_simp

definition children_known :: "string \<times> sfield list \<Rightarrow> bool" where
  "children_known = (\<lambda>(n, fs). list_all (\<lambda>(k, t). map_of keyword_types k = Some t) (struct_children fs))"

lemma schema_children_1: "list_all children_known (take 16 structs)"
  by code_simp

lemma schema_children_2: "list_all children_known (drop 16 structs)"
  by code_simp

lemma schema_children: "list_all children_known structs"
  using schema_children_1 schema_children_2 by (metis append_take_drop_id list_all_append)

lemma schema_closed: "list_all (\<lambda>(k, t). t \<in> set (List.map fst structs) \<and> t \<noteq> ''meta'') keyword_types"
  by code_simp

lemma schema_distinct: "list_all (\<lambda>(n, fs). distinct (List.map fst fs)) structs"
  by code_simp

lemma schema_root: "map_of structs ''meta'' = Some struct_meta"
  by (simp add: structs_def)

lemma tag_options_defined:
  "tag_options name ps y = None \<longleftrightarrow> tag_options name ps y' = None"
proof (induction ps arbitrary: y y')
  case (Cons p ps)
  let ?k = "drop (length ''required='') p"
  consider "p = ''nomerge''" | "p \<noteq> ''nomerge''" "p = ''required''"
    | "p \<noteq> ''nomerge''" "p \<noteq> ''required''" "go_has_prefix p ''required=''"
    | "p \<noteq> ''nomerge''" "p \<noteq> ''required''" "\<not> go_has_prefix p ''required=''" by blast
  then show ?case
    by cases (simp_all only: tag_options.simps Let_def if_True if_False simp_thms, rule Cons.IH, rule Cons.IH, rule Cons.IH)
qed simp

lemma init_field_child:
  assumes "init_field f y = Some (y1, d)"
  shows "d = field_child f"
proof -
  obtain a b c where f: "f = (a, b, c)" by (cases f)
  show ?thesis using assms unfolding f field_child_def
    using tag_options_defined [of "unalias (hd (go_split c '',''))" "tl (go_split c '','')" y newYangStatement]
    by (auto simp: Let_def split: if_splits option.splits)
qed

lemma struct_children_Cons [simp]:
  "struct_children (f # fs) = (case field_child f of None \<Rightarrow> struct_children fs | Some d \<Rightarrow> d # struct_children fs)"
  by (simp add: struct_children_def List.map_filter_simps split: option.splits)

lemma struct_children_Nil [simp]: "struct_children [] = []"
  by (simp add: struct_children_def List.map_filter_simps)

text \<open>Tables that contain other tables, and the structs that have no entry yet.\<close>

definition tables_le :: "type_tables \<Rightarrow> type_tables \<Rightarrow> bool" where
  "tables_le a b \<longleftrightarrow> map_of (tt_names a) \<subseteq>\<^sub>m map_of (tt_names b)
     \<and> dom (map_of (tt_types a)) \<subseteq> dom (map_of (tt_types b))"

definition missing_structs :: "type_tables \<Rightarrow> string set" where
  "missing_structs tt = set (List.map fst structs) - dom (map_of (tt_types tt))"

definition names_known :: "string set \<Rightarrow> type_tables \<Rightarrow> bool" where
  "names_known X tt \<longleftrightarrow> map_of (tt_names tt) \<subseteq>\<^sub>m map_of keyword_types
     \<and> ran (map_of (tt_names tt)) \<subseteq> dom (map_of (tt_types tt)) \<union> X"

text \<open>The entry of a struct that is complete: its own, with its sub-statements known.\<close>

definition entry_complete :: "type_tables \<Rightarrow> string \<Rightarrow> yangStatement \<Rightarrow> bool" where
  "entry_complete tt t y \<longleftrightarrow> (\<exists>fs. map_of structs t = Some fs \<and> fields_entry fs newYangStatement = Some y
     \<and> (\<forall>(k, t')\<in>set (struct_children fs).
          map_of (tt_names tt) k = Some t' \<and> t' \<in> dom (map_of (tt_types tt))))"

definition complete_but :: "string set \<Rightarrow> type_tables \<Rightarrow> bool" where
  "complete_but S tt \<longleftrightarrow> (\<forall>t y. map_of (tt_types tt) t = Some y \<longrightarrow> t \<notin> S \<longrightarrow> entry_complete tt t y)"

lemma tables_le_refl [simp, intro]: "tables_le a a"
  by (simp add: tables_le_def)

lemma tables_le_trans [trans]: "tables_le a b \<Longrightarrow> tables_le b c \<Longrightarrow> tables_le a c"
  by (auto simp: tables_le_def intro: map_le_trans)

lemma missing_structs_mono: "tables_le a b \<Longrightarrow> card (missing_structs b) \<le> card (missing_structs a)"
  by (auto simp: tables_le_def missing_structs_def intro!: card_mono)

lemma entry_complete_mono: "entry_complete a t y \<Longrightarrow> tables_le a b \<Longrightarrow> entry_complete b t y"
  unfolding entry_complete_def tables_le_def
  by (fastforce simp: map_le_def dom_def)

lemma children_of_struct:
  assumes "map_of structs t = Some fs" "d \<in> set (struct_children fs)"
  shows "map_of keyword_types (fst d) = Some (snd d)" "map_of structs (snd d) \<noteq> None"
proof -
  have "children_known (t, fs)"
    using schema_children map_of_SomeD [OF assms(1)] by (auto simp: list_all_iff)
  then show *: "map_of keyword_types (fst d) = Some (snd d)"
    using assms(2) by (auto simp: children_known_def list_all_iff split: prod.splits)
  from map_of_SomeD [OF this] show "map_of structs (snd d) \<noteq> None"
    using schema_closed by (cases d) (auto simp: list_all_iff map_of_eq_None_iff dest!: bspec)
qed

lemma entry_of_struct:
  "map_of structs t = Some fs \<Longrightarrow> fields_entry fs newYangStatement \<noteq> None"
  using schema_special
  by (fastforce simp: list_all_iff special_ok_def dest: map_of_SomeD split: option.splits)

text \<open>What the three functions promise, as one statement each.\<close>

definition tables_post :: "string set \<Rightarrow> type_tables \<Rightarrow> type_tables \<Rightarrow> bool" where
  "tables_post S tt tt' \<longleftrightarrow> tables_le tt tt' \<and> names_known {} tt' \<and> complete_but S tt'"

definition tables_pre :: "nat \<Rightarrow> string set \<Rightarrow> string set \<Rightarrow> type_tables \<Rightarrow> bool" where
  "tables_pre n X S tt \<longleftrightarrow> card (missing_structs tt) < n \<and> names_known X tt \<and> complete_but S tt \<and> S \<subseteq> dom (map_of (tt_types tt))"

lemma tables_pre_step:
  assumes "tables_pre n {} S tt" "tables_post S tt tt'"
  shows "tables_pre n {} S tt'"
  using assms missing_structs_mono [of tt tt'] unfolding tables_pre_def tables_post_def
  by (simp add: tables_le_def, blast)

lemma tables_post_trans: "tables_post S a b \<Longrightarrow> tables_post S b c \<Longrightarrow> tables_post S a c"
  by (auto simp: tables_post_def intro: tables_le_trans)

lemma tables_pre_new:
  assumes "tables_pre (Suc n) {at} S tt" "map_of structs at = Some fs" "map_of (tt_types tt) at = None"
  shows "tables_pre n {} (insert at S) (tt\<lparr>tt_types := AList.update at newYangStatement (tt_types tt)\<rparr>)"
proof -
  let ?tt = "tt\<lparr>tt_types := AList.update at newYangStatement (tt_types tt)\<rparr>"
  have "at \<in> missing_structs tt"
    using assms(2,3) map_of_SomeD [OF assms(2)] by (force simp: missing_structs_def)
  moreover have "missing_structs ?tt = missing_structs tt - {at}"
    by (auto simp: missing_structs_def update_conv')
  moreover have "finite (missing_structs tt)" by (simp add: missing_structs_def)
  ultimately have "card (missing_structs ?tt) < n"
    using assms(1) card_Diff1_less [of "missing_structs tt" at] by (simp add: tables_pre_def)
  moreover have "complete_but (insert at S) ?tt"
    unfolding complete_but_def
  proof (intro allI impI)
    fix t y assume "map_of (tt_types ?tt) t = Some y" "t \<notin> insert at S"
    then have "entry_complete tt t y"
      using assms(1) by (auto simp: tables_pre_def complete_but_def update_conv')
    then show "entry_complete ?tt t y"
      by (rule entry_complete_mono) (auto simp: tables_le_def update_conv')
  qed
  ultimately show ?thesis using assms(1)
    by (auto simp: tables_pre_def names_known_def update_conv')
qed

lemma tables_finish:
  assumes "map_of structs at = Some fs" "fields_entry fs newYangStatement = Some y"
    and "complete_but (insert at S) tt" "at \<notin> S"
    and "\<forall>(k, t)\<in>set (struct_children fs). map_of (tt_names tt) k = Some t \<and> t \<in> dom (map_of (tt_types tt))"
  shows "complete_but S (tt\<lparr>tt_types := AList.update at y (tt_types tt)\<rparr>)"
proof -
  let ?tt = "tt\<lparr>tt_types := AList.update at y (tt_types tt)\<rparr>"
  have le: "tables_le tt ?tt" by (auto simp: tables_le_def update_conv')
  have "entry_complete ?tt at y"
    using assms(1,2,5) by (fastforce simp: entry_complete_def update_conv')
  then show ?thesis
    using assms(3) entry_complete_mono [OF _ le] by (auto simp: complete_but_def update_conv')
qed

lemma init_defined:
  "map_of structs at \<noteq> None \<Longrightarrow> tables_pre n {at} S tt \<Longrightarrow>
     \<exists>tt'. initTypes n at tt = Some tt' \<and> tables_post S tt tt' \<and> at \<in> dom (map_of (tt_types tt'))"
  "(\<forall>d\<in>set (struct_children fs). map_of keyword_types (fst d) = Some (snd d) \<and> map_of structs (snd d) \<noteq> None)
     \<Longrightarrow> fields_entry fs y = Some y' \<Longrightarrow> tables_pre n {} S tt \<Longrightarrow>
     \<exists>tt'. init_fields n fs y tt = Some (y', tt') \<and> tables_post S tt tt'
       \<and> (\<forall>(k, t)\<in>set (struct_children fs). map_of (tt_names tt') k = Some t \<and> t \<in> dom (map_of (tt_types tt')))"
  "map_of keyword_types name = Some t \<Longrightarrow> map_of structs t \<noteq> None \<Longrightarrow> tables_pre n {} S tt \<Longrightarrow>
     \<exists>tt'. descend n name t tt = Some tt' \<and> tables_post S tt tt'
       \<and> map_of (tt_names tt') name = Some t \<and> t \<in> dom (map_of (tt_types tt'))"
proof (induction n at tt and n fs y tt and n name t tt arbitrary: S and S y' and S rule: initTypes_init_fields_descend.induct)
  case (1 at tt)
  then show ?case by (simp add: tables_pre_def)
next
  case (2 n at tt)
  from 2(2) obtain fs where fs: "map_of structs at = Some fs" by auto
  show ?case
  proof (cases "map_of (tt_types tt) at")
    case None
    let ?tt = "tt\<lparr>tt_types := AList.update at newYangStatement (tt_types tt)\<rparr>"
    obtain y where y: "fields_entry fs newYangStatement = Some y"
      using entry_of_struct [OF fs] by blast
    have notS: "at \<notin> S" using 2(3) None by (auto simp: tables_pre_def)
    obtain tt' where tt': "init_fields n fs newYangStatement ?tt = Some (y, tt')"
        "tables_post (insert at S) ?tt tt'"
        "\<forall>(k, t)\<in>set (struct_children fs). map_of (tt_names tt') k = Some t \<and> t \<in> dom (map_of (tt_types tt'))"
      using 2(1) [OF fs _ _ y tables_pre_new [OF 2(3) fs None]] None children_of_struct [OF fs] by auto
    let ?r = "tt'\<lparr>tt_types := AList.update at y (tt_types tt')\<rparr>"
    have "complete_but S ?r"
      using tables_finish [OF fs y _ notS tt'(3)] tt'(2) by (simp add: tables_post_def)
    moreover have "tables_le tt ?r"
      using tt'(2) by (auto simp: tables_post_def tables_le_def update_conv')
    ultimately show ?thesis
      using tt'(1,2) fs None by (simp add: tables_post_def names_known_def update_conv', blast)
  next
    case (Some y)
    then show ?thesis using fs 2(3) by (auto simp: tables_post_def tables_pre_def names_known_def)
  qed
next
  case (3 n y tt)
  then show ?case by (auto simp: tables_post_def tables_pre_def)
next
  case (4 n f fs y tt)
  from 4(5) obtain y1 where f: "init_field f y = Some (y1, field_child f)" and y1: "fields_entry fs y1 = Some y'"
    by (auto split: option.splits dest: init_field_child)
  show ?case
  proof (cases "field_child f")
    case None
    then show ?thesis using 4(1) [OF f [unfolded None] refl refl _ y1 4(6)] 4(4) f by auto
  next
    case (Some d)
    obtain k t where d: "d = (k, t)" by (cases d)
    have fd: "init_field f y = Some (y1, Some (k, t))" using f Some d by simp
    have kt: "map_of keyword_types k = Some t" "map_of structs t \<noteq> None"
      using 4(4) Some d by auto
    obtain tt1 where tt1: "descend n k t tt = Some tt1" "tables_post S tt tt1"
        "map_of (tt_names tt1) k = Some t" "t \<in> dom (map_of (tt_types tt1))"
      using 4(2) [OF fd refl refl refl kt 4(6)] by (auto simp del: descend.simps)
    obtain tt2 where tt2: "init_fields n fs y1 tt1 = Some (y', tt2)" "tables_post S tt1 tt2"
        "\<forall>(k, t)\<in>set (struct_children fs). map_of (tt_names tt2) k = Some t \<and> t \<in> dom (map_of (tt_types tt2))"
      using 4(3) [OF fd refl refl refl tt1(1) _ y1 tables_pre_step [OF 4(6) tt1(2)]] 4(4) Some by (auto simp del: init_fields.simps descend.simps)
    have "map_of (tt_names tt2) k = Some t \<and> t \<in> dom (map_of (tt_types tt2))"
      using tt1(3,4) tt2(2) by (auto simp: tables_post_def tables_le_def map_le_def dom_def)
    then show ?thesis
      using fd Some d tt1(1) tt2 tables_post_trans [OF tt1(2) tt2(2)] by auto
  qed
next
  case (5 n name t tt)
  show ?case
  proof (cases "map_of (tt_names tt) name")
    case None
    let ?tt = "tt\<lparr>tt_names := AList.update name t (tt_names tt)\<rparr>"
    have le: "tables_le tt ?tt" using None by (auto simp: tables_le_def map_le_def update_conv')
    then have "tables_pre n {t} S ?tt"
      using 5(2,4) None entry_complete_mono [OF _ le] unfolding tables_pre_def complete_but_def
      by (auto simp: missing_structs_def names_known_def map_le_def update_conv')
    from 5(1) [OF None 5(3) this] obtain tt' where
      "initTypes n t ?tt = Some tt'" "tables_post S ?tt tt'" "t \<in> dom (map_of (tt_types tt'))" by auto
    moreover from this have "tables_post S tt tt'" "map_of (tt_names tt') name = Some t"
      using le by (auto simp: tables_post_def intro: tables_le_trans)
         (auto simp: tables_le_def map_le_def update_conv')
    ultimately show ?thesis using None by simp
  next
    case (Some a)
    then have "a = t" using 5(2,4) by (auto simp: tables_pre_def names_known_def map_le_def dom_def)
    then show ?thesis using Some 5(4)
      by (auto simp: tables_post_def tables_pre_def names_known_def ran_def)
  qed
qed
lemma init_tables_post:
  "\<exists>tt. init_tables = Some tt \<and> complete_but {} tt \<and> names_known {} tt \<and> map_of (tt_types tt) ''meta'' \<noteq> None"
proof -
  let ?tt = "\<lparr>tt_types = [], tt_names = []\<rparr>"
  have "card (missing_structs ?tt) \<le> length structs"
    using card_length [of "List.map fst structs"] by (simp add: missing_structs_def)
  then have "tables_pre (Suc (length structs)) {''meta''} {} ?tt"
    by (simp add: tables_pre_def names_known_def complete_but_def)
  from init_defined(1) [OF _ this] show ?thesis
    by (auto simp: schema_root init_tables_def tables_post_def)
qed

text \<open>C25: the start of the program succeeds. \<open>initTypes\<close> does not panic on the structs of
  \<open>yang.go\<close>; every struct it enters has the table of its own fields, whatever the order in
  which the structs are visited, and every keyword its fields name leads to the struct declared
  there, which has a table too: \<open>build\<close> never meets a known sub-statement without a type.\<close>

theorem init_tables_complete:
  "\<exists>tt. init_tables = Some tt \<and> map_of (tt_types tt) ''meta'' \<noteq> None
     \<and> (\<forall>t y. map_of (tt_types tt) t = Some y \<longrightarrow>
          (\<exists>fs. map_of structs t = Some fs \<and> fields_entry fs newYangStatement = Some y
             \<and> (\<forall>(k, t')\<in>set (struct_children fs).
                  map_of (tt_names tt) k = Some t' \<and> map_of (tt_types tt) t' \<noteq> None)))"
  using init_tables_post unfolding complete_but_def entry_complete_def
  by (simp add: domIff) blast

text \<open>The tables as the rest of the program uses them.\<close>

definition tables :: type_tables where
  "tables = (case init_tables of Some tt \<Rightarrow> tt | None \<Rightarrow> \<lparr>tt_types = [], tt_names = []\<rparr>)"

lemma tables_complete: "complete_but {} tables" "names_known {} tables" "map_of (tt_types tables) ''meta'' \<noteq> None"
proof -
  obtain tt where tt: "init_tables = Some tt" "complete_but {} tt" "names_known {} tt" "map_of (tt_types tt) ''meta'' \<noteq> None"
    using init_tables_post by blast
  then have "tables = tt" unfolding tables_def by (metis option.simps(5))
  then show "complete_but {} tables" "names_known {} tables" "map_of (tt_types tables) ''meta'' \<noteq> None" using tt by simp_all
qed

lemma tables_entry:
  assumes "map_of (tt_types tables) t \<noteq> None" "map_of structs t = Some fs"
  shows "map_of (tt_types tables) t = fields_entry fs newYangStatement"
    and "\<forall>d\<in>set (struct_children fs).
           map_of (tt_names tables) (fst d) = Some (snd d) \<and> map_of (tt_types tables) (snd d) \<noteq> None"
proof -
  obtain y where y: "map_of (tt_types tables) t = Some y" using assms(1) by blast
  then have "entry_complete tables t y" using tables_complete(1) by (simp add: complete_but_def)
  then show "map_of (tt_types tables) t = fields_entry fs newYangStatement"
    "\<forall>d\<in>set (struct_children fs).
       map_of (tt_names tables) (fst d) = Some (snd d) \<and> map_of (tt_types tables) (snd d) \<noteq> None"
    using assms(2) y unfolding entry_complete_def by (auto dest!: bspec)
qed

lemma tables_step:
  assumes "map_of (tt_types tables) t \<noteq> None" "map_of structs t = Some fs" "(k, t') \<in> set (struct_children fs)"
  shows "map_of (tt_names tables) k = Some t'" "map_of (tt_types tables) t' \<noteq> None"
  using bspec [OF tables_entry(2) [OF assms(1,2)] assms(3)] by simp_all

text \<open>Every keyword of \<open>nameMap\<close> has a complete table, with the four special entries.\<close>

lemma tables_lookup:
  assumes "map_of (tt_names tables) k = Some t"
  obtains y fs where "map_of (tt_types tables) t = Some y" "map_of structs t = Some fs"
    "fields_entry fs newYangStatement = Some y"
    "map_of (ys_funcs y) ''Name'' = Some (SetName ''Name'')"
    "map_of (ys_funcs y) ''Statement'' = Some (SetStatement ''Source'')"
    "map_of (ys_funcs y) ''Parent'' = Some (SetParent ''Parent'')"
    "ys_addext y = Some ''Extensions''" "distinct (List.map fst fs)"
proof -
  have kt: "map_of keyword_types k = Some t"
    using tables_complete(2) assms by (auto simp: names_known_def map_le_def dom_def)
  have "t \<noteq> ''meta''"
    using schema_closed map_of_SomeD [OF kt] by (auto simp: list_all_iff)
  obtain y where y: "map_of (tt_types tables) t = Some y"
    using tables_complete(2) assms by (auto simp: names_known_def ran_def)
  then obtain fs where fs: "map_of structs t = Some fs" "fields_entry fs newYangStatement = Some y"
    using tables_complete(1) y unfolding complete_but_def entry_complete_def by blast
  moreover have "special_ok (t, fs)"
    using schema_special map_of_SomeD [OF fs(1)] by (auto simp: list_all_iff)
  moreover have "distinct (List.map fst fs)"
    using schema_distinct map_of_SomeD [OF fs(1)] by (auto simp: list_all_iff)
  ultimately show thesis using that y \<open>t \<noteq> ''meta''\<close> by (simp add: special_ok_def)
qed

lemma meta_children: "struct_children struct_meta = [(''module'', ''Module'')]"
  by code_simp

lemma Module_struct: "map_of structs ''Module'' = Some struct_Module"
  by (simp add: structs_def)

lemma tables_Module:
  "map_of (tt_names tables) ''module'' = Some ''Module''" "map_of (tt_types tables) ''Module'' \<noteq> None"
  using tables_step [OF tables_complete(3) schema_root, of "''module''" "''Module''"]
  by (simp_all add: meta_children)

lemma Module_required:
  "map_option (\<lambda>y. (ys_required y, ys_sRequired y)) (fields_entry struct_Module newYangStatement)
     = Some ([], [(''submodule'', [''belongs-to'']), (''module'', [''namespace'', ''prefix''])])"
  by code_simp

theorem init_tables_complete_witness:
  "\<exists>tt y. init_tables = Some tt \<and> map_of (tt_names tt) ''module'' = Some ''Module''
     \<and> map_of (tt_types tt) ''Module'' = Some y
     \<and> ys_sRequired y = [(''submodule'', [''belongs-to'']), (''module'', [''namespace'', ''prefix''])]"
proof -
  from init_tables_complete obtain tt m where tt: "init_tables = Some tt"
    and m: "map_of (tt_types tt) ''meta'' = Some m"
    and all: "\<forall>t y. map_of (tt_types tt) t = Some y \<longrightarrow>
          (\<exists>fs. map_of structs t = Some fs \<and> fields_entry fs newYangStatement = Some y
             \<and> (\<forall>(k, t')\<in>set (struct_children fs).
                  map_of (tt_names tt) k = Some t' \<and> map_of (tt_types tt) t' \<noteq> None))"
    by blast
  have "map_of (tt_names tt) ''module'' = Some ''Module'' \<and> map_of (tt_types tt) ''Module'' \<noteq> None"
    using all [rule_format, OF m] by (simp add: schema_root meta_children)
  then obtain y where M: "map_of (tt_names tt) ''module'' = Some ''Module''"
      "map_of (tt_types tt) ''Module'' = Some y" by blast
  then have "fields_entry struct_Module newYangStatement = Some y"
    using all [rule_format, OF M(2)] by (simp add: Module_struct)
  then show ?thesis
    using tt M Module_required by (intro exI [of _ tt] exI [of _ y]) simp
qed

end
