(* ===== verification/Ast.thy ===== *)
theory Ast
  imports AstTypes Statements
begin

text \<open>
  \<open>build\<close> of \<open>pkg/yang/ast.go\<close>: from a statement tree to the nodes of \<open>yang.go\<close>. The nodes
  live in a heap that only grows, an address being the index of the node; the fields filled by
  sub-statements are kept by their Go names, a pointer as a list of at most one address. The
  typedef dictionary of \<open>types.go\<close> is part of the state, because a failed \<open>build\<close> leaves its
  entries behind.
\<close>

record node =
  nd_type :: string                          \<comment> \<open>the Go struct\<close>
  nd_name :: string
  nd_source :: "Statement option"
  nd_parent :: "nat option"
  nd_exts :: "Statement list"
  nd_subs :: "(string \<times> nat list) list"
  nd_module :: "nat option"                  \<comment> \<open>\<open>Module\<close> of an \<open>Include\<close> or \<open>Import\<close>\<close>
  nd_values :: "nat list"                    \<comment> \<open>\<open>Values\<close> of an \<open>Identity\<close>\<close>

record ast =
  ast_nodes :: "node list"
  ast_dict :: "nat \<times> string \<Rightarrow> nat option"   \<comment> \<open>\<open>typeDictionary.dict\<close>\<close>

datatype build_error = BuildErr string | BuildPanic

definition new_node :: "string \<Rightarrow> node" where
  "new_node t = \<lparr>nd_type = t, nd_name = [], nd_source = None, nd_parent = None, nd_exts = [],
     nd_subs = [], nd_module = None, nd_values = []\<rparr>"

definition node_field :: "node \<Rightarrow> string \<Rightarrow> nat list" where
  "node_field n f = (case map_of (nd_subs n) f of None \<Rightarrow> [] | Some as \<Rightarrow> as)"

definition field :: "node list \<Rightarrow> nat \<Rightarrow> string \<Rightarrow> nat list" where
  "field h a f = node_field (h ! a) f"

definition update_node :: "nat \<Rightarrow> (node \<Rightarrow> node) \<Rightarrow> ast \<Rightarrow> ast" where
  "update_node a g st = st\<lparr>ast_nodes := (ast_nodes st)[a := g (ast_nodes st ! a)]\<rparr>"

definition add_sub :: "string \<Rightarrow> nat \<Rightarrow> node \<Rightarrow> node" where
  "add_sub f a n = n\<lparr>nd_subs := AList.update f (node_field n f @ [a]) (nd_subs n)\<rparr>"

definition add_ext :: "Statement \<Rightarrow> node \<Rightarrow> node" where
  "add_ext s n = n\<lparr>nd_exts := nd_exts n @ [s]\<rparr>"

subsection \<open>The typedef dictionary\<close>

text \<open>\<open>add\<close>, \<open>find\<close> and \<open>addTypedefs\<close> of \<open>types.go\<close>; the types with a method \<open>Typedefs\<close>.\<close>

definition dict_add :: "nat \<Rightarrow> string \<Rightarrow> nat \<Rightarrow> ast \<Rightarrow> ast" where
  "dict_add n name td st = st\<lparr>ast_dict := (ast_dict st)((n, name) \<mapsto> td)\<rparr>"

definition dict_find :: "nat \<Rightarrow> string \<Rightarrow> ast \<Rightarrow> nat option" where
  "dict_find n name st = ast_dict st (n, name)"

definition typedefers :: "string list" where
  "typedefers = [''Module'', ''Container'', ''List'', ''Grouping'', ''RPC'', ''Input'', ''Output'',
     ''Notification'', ''Action'']"

definition addTypedefs :: "nat \<Rightarrow> ast \<Rightarrow> ast" where
  "addTypedefs t st =
     foldl (\<lambda>st td. dict_add t (nd_name (ast_nodes st ! td)) td st) st (field (ast_nodes st) t ''Typedef'')"

subsection \<open>The functions of the fields\<close>

text \<open>The type and table for a keyword; no type is a nil dereference in the code.\<close>

definition type_of_keyword :: "string \<Rightarrow> (string \<times> yangStatement) option" where
  "type_of_keyword k =
     (case map_of (tt_names tables) (unalias k) of
        None \<Rightarrow> None
      | Some t \<Rightarrow> map_option (Pair t) (map_of (tt_types tables) t))"

text \<open>The functions for the fields \<open>Name\<close>, \<open>Statement\<close> and \<open>Parent\<close>.\<close>

fun run_special :: "builder \<Rightarrow> Statement \<Rightarrow> nat option \<Rightarrow> node \<Rightarrow> build_error + node" where
  "run_special (SetName f) s p n =
     (if nd_name n \<noteq> [] then Inl (BuildErr (Keyword s @ '': already set''))
      else Inr (n\<lparr>nd_name := Argument s\<rparr>))"
| "run_special (SetStatement f) s p n = Inr (n\<lparr>nd_source := Some s\<rparr>)"
| "run_special (SetParent f) s p n =
     (case p of None \<Rightarrow> Inl BuildPanic | Some a \<Rightarrow> Inr (n\<lparr>nd_parent := Some a\<rparr>))"
| "run_special (BuildPtr f) s p n = Inr n"
| "run_special (BuildSlice f) s p n = Inr n"

definition run_if :: "yangStatement \<Rightarrow> string \<Rightarrow> Statement \<Rightarrow> nat option \<Rightarrow> build_error + node
    \<Rightarrow> build_error + node" where
  "run_if y k s p r =
     (case (map_of (ys_funcs y) k, r) of
        (Some fn, Inr n) \<Rightarrow> run_special fn s p n
      | _ \<Rightarrow> r)"

text \<open>The node before its sub-statements: \<open>Parent\<close> is left out when there is none.\<close>

definition start_node :: "string \<Rightarrow> yangStatement \<Rightarrow> Statement \<Rightarrow> nat option \<Rightarrow> build_error + node" where
  "start_node t y s p =
     (let r = run_if y ''Statement'' s p (run_if y ''Name'' s p (Inr (new_node t)))
      in if p = None then r else run_if y ''Parent'' s p r)"

definition required_error :: "string \<Rightarrow> Statement \<Rightarrow> string \<Rightarrow> build_error" where
  "required_error what s r =
     BuildErr (Location s @ '': '' @ what @ '' '' @ Keyword s @ '' field: '' @ r)"

text \<open>The three checks after the loop; \<open>found\<close> holds the keywords of the sub-statements.\<close>

definition check_required :: "Statement \<Rightarrow> yangStatement \<Rightarrow> build_error option" where
  "check_required s y =
     (let found = List.map Keyword (statements s);
          own = (case map_of (ys_sRequired y) (Keyword s) of None \<Rightarrow> [] | Some rs \<Rightarrow> rs);
          foreign = concat (List.map snd (List.filter (\<lambda>(n, _). n \<noteq> Keyword s) (ys_sRequired y)))
      in case List.find (\<lambda>r. r \<notin> set found) (ys_required y @ own) of
           Some r \<Rightarrow> Some (required_error ''missing required'' s r)
         | None \<Rightarrow> map_option (required_error ''unknown'' s) (List.find (\<lambda>r. r \<in> set found) foreign))"

subsection \<open>build\<close>

lemma size_statements: "size_list size (statements s) < size s"
  by (cases s) simp

text \<open>\<open>build\<close>, its loop over the sub-statements of \<open>s\<close>, whose node is \<open>v\<close>, and the switch in it.\<close>

function (sequential) build :: "Statement \<Rightarrow> nat option \<Rightarrow> ast \<Rightarrow> ast \<times> (build_error + nat)"
  and build_subs :: "Statement \<Rightarrow> yangStatement \<Rightarrow> nat \<Rightarrow> nat option \<Rightarrow> Statement list \<Rightarrow> ast
        \<Rightarrow> ast \<times> build_error option"
  and build_sub :: "Statement \<Rightarrow> yangStatement \<Rightarrow> nat \<Rightarrow> nat option \<Rightarrow> Statement \<Rightarrow> ast
        \<Rightarrow> ast \<times> build_error option" where
  "build s parent st =
     (case type_of_keyword (Keyword s) of
        None \<Rightarrow> (st, Inl BuildPanic)
      | Some (t, y) \<Rightarrow>
          (case start_node t y s parent of
             Inl e \<Rightarrow> (st, Inl e)
           | Inr n \<Rightarrow>
               let v = length (ast_nodes st)
               in case build_subs s y v parent (statements s) (st\<lparr>ast_nodes := ast_nodes st @ [n]\<rparr>) of
                    (st', Some e) \<Rightarrow> (st', Inl e)
                  | (st', None) \<Rightarrow>
                      (case check_required s y of
                         Some e \<Rightarrow> (st', Inl e)
                       | None \<Rightarrow> (if t \<in> set typedefers then addTypedefs v st' else st', Inr v))))"
| "build_subs s y v parent [] st = (st, None)"
| "build_subs s y v parent (ss # rest) st =
     (case build_sub s y v parent ss st of
        (st', Some e) \<Rightarrow> (st', Some e)
      | (st', None) \<Rightarrow> build_subs s y v parent rest st')"
| "build_sub s y v parent ss st =
     (case map_of (ys_funcs y) (Keyword ss) of
        None \<Rightarrow>
          if length (go_split (Keyword ss) '':'') = 2 then
            (if ys_addext y = None
             then (st, Some (BuildErr (Location ss @ '': no extension function'')))
             else (update_node v (add_ext ss) st, None))
          else (st, Some (BuildErr
                  (Location ss @ '': unknown '' @ Keyword s @ '' field: '' @ Keyword ss)))
      | Some (BuildPtr f) \<Rightarrow>
          if field (ast_nodes st) v f \<noteq> [] then (st, Some (BuildErr (Keyword ss @ '': already set'')))
          else (case build ss (Some v) st of
                  (st', Inl e) \<Rightarrow> (st', Some e)
                | (st', Inr a) \<Rightarrow> (update_node v (add_sub f a) st', None))
      | Some (BuildSlice f) \<Rightarrow>
          (case build ss (Some v) st of
             (st', Inl e) \<Rightarrow> (st', Some e)
           | (st', Inr a) \<Rightarrow> (update_node v (add_sub f a) st', None))
      | Some fn \<Rightarrow>
          (case run_special fn ss parent (ast_nodes st ! v) of
             Inl e \<Rightarrow> (st, Some e)
           | Inr n \<Rightarrow> (update_node v (\<lambda>_. n) st, None)))"
  by pat_completeness auto

termination
  by (relation "measures [\<lambda>p. case p of Inl (s, _) \<Rightarrow> size s
        | Inr (Inl (_, _, _, _, ss, _)) \<Rightarrow> size_list size ss | Inr (Inr (_, _, _, _, ss, _)) \<Rightarrow> size ss,
        \<lambda>p. case p of Inl _ \<Rightarrow> 0 | Inr (Inl (_, _, _, _, ss, _)) \<Rightarrow> 2 + length ss | Inr (Inr _) \<Rightarrow> 1]")
     (auto simp: size_statements)

declare build.simps [simp del] build_sub.simps [simp del]

definition empty_ast :: ast where
  "empty_ast = \<lparr>ast_nodes = [], ast_dict = Map.empty\<rparr>"

definition buildASTWithTypeDict :: "Statement \<Rightarrow> ast \<Rightarrow> ast \<times> (build_error + nat)" where
  "buildASTWithTypeDict s st = build s None st"

subsection \<open>What a build leaves unchanged\<close>

text \<open>A heap that grew from another one, with changes at the addresses of \<open>V\<close> only.\<close>

definition grown :: "nat set \<Rightarrow> node list \<Rightarrow> node list \<Rightarrow> bool" where
  "grown V h h' \<longleftrightarrow> length h \<le> length h' \<and> (\<forall>i<length h. i \<notin> V \<longrightarrow> h' ! i = h ! i)"

lemma grown_refl [simp, intro]: "grown V h h"
  by (simp add: grown_def)

lemma grown_trans [trans]: "grown V a b \<Longrightarrow> grown V b c \<Longrightarrow> grown V a c"
  by (auto simp: grown_def)

lemma grown_weaken: "grown V a b \<Longrightarrow> V \<subseteq> W \<Longrightarrow> grown W a b"
  by (auto simp: grown_def)

lemma grown_append [simp, intro]: "grown V h (h @ xs)"
  by (simp add: grown_def nth_append)

lemma grown_update [simp]: "v \<in> V \<Longrightarrow> grown V h (h[v := n])"
  unfolding grown_def by (metis length_list_update nth_list_update_neq order_refl)

lemma grown_nth: "grown V h h' \<Longrightarrow> i < length h \<Longrightarrow> i \<notin> V \<Longrightarrow> h' ! i = h ! i"
  by (simp add: grown_def)

lemma grown_new: "grown {length h} (h @ [n]) h' \<Longrightarrow> grown {} h h'"
  by (auto simp: grown_def nth_append less_Suc_eq)

lemma update_node_nodes [simp]:
  "ast_nodes (update_node a g st) = (ast_nodes st)[a := g (ast_nodes st ! a)]"
  "ast_dict (update_node a g st) = ast_dict st"
  by (simp_all add: update_node_def)

lemma addTypedefs_nodes [simp]: "ast_nodes (addTypedefs v st) = ast_nodes st"
proof -
  have "ast_nodes (foldl (\<lambda>st td. dict_add v (nd_name (ast_nodes st ! td)) td st) st tds) = ast_nodes st" for tds
    by (induction tds arbitrary: st) (simp_all add: dict_add_def)
  then show ?thesis by (simp add: addTypedefs_def)
qed



text \<open>The ways \<open>build\<close> and \<open>build_sub\<close> can go.\<close>

lemma build_cases:
  assumes "build s p st = (st', r)"
  obtains (panic) "type_of_keyword (Keyword s) = None" "st' = st" "r = Inl BuildPanic"
  | (start) t y e where "type_of_keyword (Keyword s) = Some (t, y)" "start_node t y s p = Inl e"
      "st' = st" "r = Inl e"
  | (subs) t y n e where "type_of_keyword (Keyword s) = Some (t, y)" "start_node t y s p = Inr n"
      "build_subs s y (length (ast_nodes st)) p (statements s) (st\<lparr>ast_nodes := ast_nodes st @ [n]\<rparr>) = (st', Some e)"
      "r = Inl e"
  | (check) t y n e where "type_of_keyword (Keyword s) = Some (t, y)" "start_node t y s p = Inr n"
      "build_subs s y (length (ast_nodes st)) p (statements s) (st\<lparr>ast_nodes := ast_nodes st @ [n]\<rparr>) = (st', None)"
      "check_required s y = Some e" "r = Inl e"
  | (ok) t y n st1 where "type_of_keyword (Keyword s) = Some (t, y)" "start_node t y s p = Inr n"
      "build_subs s y (length (ast_nodes st)) p (statements s) (st\<lparr>ast_nodes := ast_nodes st @ [n]\<rparr>) = (st1, None)"
      "check_required s y = None"
      "st' = (if t \<in> set typedefers then addTypedefs (length (ast_nodes st)) st1 else st1)"
      "r = Inr (length (ast_nodes st))"
proof (cases "type_of_keyword (Keyword s)")
  case None
  with assms panic show thesis by (simp add: build.simps [of s p st])
next
  case (Some ty)
  obtain t y where ty: "type_of_keyword (Keyword s) = Some (t, y)" using Some by (cases ty) simp
  show thesis
  proof (cases "start_node t y s p")
    case (Inl e)
    with assms start [OF ty] ty show thesis by (simp add: build.simps [of s p st])
  next
    case (Inr n)
    obtain st1 e where b: "build_subs s y (length (ast_nodes st)) p (statements s)
        (st\<lparr>ast_nodes := ast_nodes st @ [n]\<rparr>) = (st1, e)" by fastforce
    note eq = assms [unfolded build.simps [of s p st] ty option.case prod.case Inr sum.case Let_def b]
    show thesis
    proof (cases e)
      case None
      with eq b check [OF ty Inr] ok [OF ty Inr] show thesis
        by (cases "check_required s y") simp_all
    next
      case (Some e')
      with eq b subs [OF ty Inr] show thesis by simp
    qed
  qed
qed

definition fills :: "yangStatement \<Rightarrow> nat \<Rightarrow> ast \<Rightarrow> Statement \<Rightarrow> string \<Rightarrow> bool" where
  "fills y v st ss f \<longleftrightarrow>
     map_of (ys_funcs y) (Keyword ss) = Some (BuildPtr f) \<and> field (ast_nodes st) v f = []
     \<or> map_of (ys_funcs y) (Keyword ss) = Some (BuildSlice f)"

lemma build_sub_cases:
  assumes "build_sub s y v p ss st = (st', e)"
  obtains (fail) e' where "st' = st" "e = Some e'"
  | (sub_fail) f e' where "fills y v st ss f"
      "build ss (Some v) st = (st', Inl e')" "e = Some e'"
  | (sub) f st1 a where "fills y v st ss f"
      "build ss (Some v) st = (st1, Inr a)" "st' = update_node v (add_sub f a) st1" "e = None"
  | (ext) "map_of (ys_funcs y) (Keyword ss) = None" "length (go_split (Keyword ss) '':'') = 2"
      "st' = update_node v (add_ext ss) st" "e = None"
  | (special) b n where "map_of (ys_funcs y) (Keyword ss) = Some b" "\<forall>f. b \<noteq> BuildPtr f \<and> b \<noteq> BuildSlice f"
      "run_special b ss p (ast_nodes st ! v) = Inr n" "st' = update_node v (\<lambda>_. n) st" "e = None"
proof (cases "map_of (ys_funcs y) (Keyword ss)")
  case None
  then show thesis using assms fail ext unfolding build_sub.simps [of s y v p ss st]
    by (auto split: if_splits)
next
  case (Some b)
  note eq = assms [unfolded build_sub.simps [of s y v p ss st] Some option.case]
  have sp: thesis if nb: "\<forall>f. b \<noteq> BuildPtr f \<and> b \<noteq> BuildSlice f"
  proof (cases "run_special b ss p (ast_nodes st ! v)")
    case (Inl e')
    with eq nb have "st' = st" "e = Some e'" by (cases b; simp del: run_special.simps)+
    then show thesis by (rule fail)
  next
    case (Inr n)
    with eq nb have "st' = update_node v (\<lambda>_. n) st" "e = None" by (cases b; simp del: run_special.simps)+
    with special [OF Some nb Inr] show thesis by simp
  qed
  show thesis
  proof (cases b)
    case (BuildPtr f)
    with eq Some show thesis using fail sub_fail [of f] sub [of f]
      by (auto simp: fills_def split: if_splits prod.splits sum.splits)
  next
    case (BuildSlice f)
    with eq Some show thesis using sub_fail [of f] sub [of f]
      by (auto simp: fills_def split: prod.splits sum.splits)
  qed (rule sp; simp)+
qed

lemma build_grown:
  "build s p st = (st', r) \<Longrightarrow>
     grown {} (ast_nodes st) (ast_nodes st') \<and> (\<forall>a. r = Inr a \<longrightarrow> a = length (ast_nodes st))"
  "build_subs s y v p sss st = (st', e) \<Longrightarrow> grown {v} (ast_nodes st) (ast_nodes st')"
  "build_sub s y v p ss st = (st', e) \<Longrightarrow> grown {v} (ast_nodes st) (ast_nodes st')"
proof (induction s p st and s y v p sss st and s y v p ss st arbitrary: st' r and st' e and st' e
    rule: build_build_subs_build_sub.induct)
  case (1 s parent st)
  from 1(2) show ?case
    by (cases rule: build_cases) (auto dest!: 1(1) grown_new)
next
  case (2 s y v parent st)
  then show ?case by simp
next
  case (3 s y v parent ss rest st)
  then show ?case by (auto split: prod.splits option.splits intro: grown_trans)
next
  case (4 s y v parent ss st)
  have w: "grown {v} a b" if "grown {} a b" for a b using grown_weaken [OF that] by simp
  have up: "grown {v} a (b[v := n])" if "grown {} a b" for a b n
    using grown_trans [OF w [OF that] grown_update] by simp
  have ih: "grown {} (ast_nodes st) (ast_nodes st1)"
    if "fills y v st ss f" "build ss (Some v) st = (st1, r)" for f st1 r
    using that 4(1) [of _ f] 4(2) [of _ f] unfolding fills_def by blast
  from 4(3) show ?case
    by (cases rule: build_sub_cases) (auto intro!: w up dest: ih)
qed

end
