(* ===== verification/AstBuild.thy ===== *)
theory AstBuild
  imports Ast
begin

text \<open>
  What \<open>build\<close> does: the node it returns mirrors its statement (\<open>build_partly\<close>), and it
  succeeds exactly on the statements that are valid for the tables (\<open>build_accepts\<close>). The
  facts on the tables that this needs hold for every keyword (\<open>type_of_keyword_lookup\<close>).
\<close>

subsection \<open>The tables of the known keywords\<close>

text \<open>Which functions a table holds under which keywords.\<close>

definition specials :: "string list" where
  "specials = [''Name'', ''Statement'', ''Parent'']"

definition funcs_ok :: "yangStatement \<Rightarrow> bool" where
  "funcs_ok y \<longleftrightarrow> (\<forall>k b. map_of (ys_funcs y) k = Some b \<longrightarrow>
     (\<exists>f. b = BuildPtr f \<or> b = BuildSlice f) \<or> k \<in> set specials)"

lemma tag_options_funcs: "tag_options n ps y = Some y' \<Longrightarrow> ys_funcs y' = ys_funcs y"
proof (induction ps arbitrary: y)
  case (Cons p ps)
  let ?k = "drop (length ''required='') p"
  consider "p = ''nomerge''" | "p \<noteq> ''nomerge''" "p = ''required''"
    | "p \<noteq> ''nomerge''" "p \<noteq> ''required''" "go_has_prefix p ''required=''"
    | "p \<noteq> ''nomerge''" "p \<noteq> ''required''" "\<not> go_has_prefix p ''required=''" by blast
  then show ?case using Cons.prems
    by cases (auto simp only: tag_options.simps Let_def if_True if_False simp_thms dest!: Cons.IH, auto)
qed simp

fun builder_field :: "builder \<Rightarrow> string" where
  "builder_field (SetName f) = f"
| "builder_field (SetStatement f) = f"
| "builder_field (SetParent f) = f"
| "builder_field (BuildPtr f) = f"
| "builder_field (BuildSlice f) = f"

text \<open>No two keywords fill the same field.\<close>

definition funcs_inj :: "yangStatement \<Rightarrow> bool" where
  "funcs_inj y \<longleftrightarrow> (\<forall>k1 k2 b1 b2. map_of (ys_funcs y) k1 = Some b1 \<longrightarrow> map_of (ys_funcs y) k2 = Some b2
     \<longrightarrow> builder_field b1 = builder_field b2 \<longrightarrow> k1 = k2)"

text \<open>The keywords that fill a field have a type.\<close>

definition children_typed :: "yangStatement \<Rightarrow> bool" where
  "children_typed y \<longleftrightarrow> (\<forall>k f. map_of (ys_funcs y) k \<in> {Some (BuildPtr f), Some (BuildSlice f)}
     \<longrightarrow> type_of_keyword k \<noteq> None)"

text \<open>What \<open>init_field\<close> does to \<open>funcs\<close>.\<close>

lemma init_field_funcs:
  assumes "init_field (fname, ft, yang) y = Some (y', d)"
  obtains "ys_funcs y' = ys_funcs y"
  | n fn dt where "ys_funcs y' = AList.update n fn (ys_funcs y)" "field_func n fname ft = Some (fn, dt)"
      "d = map_option (Pair n) dt" "unalias n = n"
proof (cases "yang = []")
  case True
  with assms that(1) show thesis by simp
next
  case False
  let ?n = "unalias (hd (go_split yang '',''))"
  obtain y1 where y1: "tag_options ?n (tl (go_split yang '','')) y = Some y1"
    using assms False by (auto simp: Let_def split: option.splits)
  have fo: "ys_funcs y1 = ys_funcs y" using tag_options_funcs [OF y1] .
  have ua: "unalias ?n = ?n" by (simp add: unalias_def aliases_def)
  show thesis
  proof (cases "?n = ''Ext''")
    case True
    then have "ys_funcs y' = ys_funcs y" using assms False y1 fo by (auto simp: Let_def)
    then show thesis by (rule that(1))
  next
    case not_ext: False
    then obtain fn dt where "field_func ?n fname ft = Some (fn, dt)"
      "y' = y1\<lparr>ys_funcs := AList.update ?n fn (ys_funcs y1)\<rparr>" "d = map_option (Pair ?n) dt"
      using assms False y1 by (auto simp: Let_def split: option.splits)
    with fo ua that(2) show thesis by simp
  qed
qed

lemma fields_entry_funcs_ok: "fields_entry fs y = Some y' \<Longrightarrow> funcs_ok y \<Longrightarrow> funcs_ok y'"
proof (induction fs y rule: fields_entry.induct)
  case (2 g fs y)
  obtain fname ft yang where g: "g = (fname, ft, yang)" by (cases g)
  from 2(2) obtain y1 d where y1: "init_field g y = Some (y1, d)" and r: "fields_entry fs y1 = Some y'"
    by (auto split: option.splits)
  from y1 [unfolded g] have "funcs_ok y1"
  proof (cases rule: init_field_funcs)
    case 1
    then show ?thesis using 2(3) by (simp add: funcs_ok_def)
  next
    case n: (2 n fn dt)
    have "(\<exists>f. fn = BuildPtr f \<or> fn = BuildSlice f) \<or> n \<in> set specials"
      using n(2) by (cases ft) (auto simp: specials_def split: if_splits)
    then show ?thesis
      using 2(3) n(1) unfolding funcs_ok_def by (auto simp: update_conv' split: if_splits)
  qed
  with 2(1) [OF y1 refl r] show ?case by simp
qed simp

lemma field_func_field: "field_func n fname ft = Some (fn, dt) \<Longrightarrow> builder_field fn = fname"
  by (cases ft) (auto split: if_splits)

lemma field_func_child:
  "field_func n fname ft = Some (fn, dt) \<Longrightarrow> fn = BuildPtr f \<or> fn = BuildSlice f \<Longrightarrow> dt \<noteq> None"
  by (cases ft) (auto split: if_splits)

lemma fields_entry_funcs_inj:
  "fields_entry fs y = Some y' \<Longrightarrow> distinct (List.map fst fs) \<Longrightarrow> funcs_inj y \<Longrightarrow>
   \<forall>k b. map_of (ys_funcs y) k = Some b \<longrightarrow> builder_field b \<notin> fst ` set fs \<Longrightarrow> funcs_inj y'"
proof (induction fs y rule: fields_entry.induct)
  case (2 f fs y)
  obtain fname ft yang where f: "f = (fname, ft, yang)" by (cases f)
  from 2(2) obtain y1 d where y1: "init_field f y = Some (y1, d)" and r: "fields_entry fs y1 = Some y'"
    by (auto split: option.splits)
  have "funcs_inj y1 \<and> (\<forall>k b. map_of (ys_funcs y1) k = Some b \<longrightarrow> builder_field b \<notin> fst ` set fs)"
    using y1 [unfolded f]
  proof (cases rule: init_field_funcs)
    case 1
    then show ?thesis using 2(4,5) by (simp add: funcs_inj_def)
  next
    case n: (2 n fn dt)
    show ?thesis
      using 2(3-5) n(1) field_func_field [OF n(2)] unfolding funcs_inj_def f
      by (auto simp: update_conv' split: if_splits) blast+
  qed
  then show ?case using 2(1) [OF y1 refl r] 2(3) by simp
qed simp

lemma fields_entry_children:
  "fields_entry fs y = Some y' \<Longrightarrow> map_of (ys_funcs y') k \<in> {Some (BuildPtr f), Some (BuildSlice f)} \<Longrightarrow>
   map_of (ys_funcs y) k \<in> {Some (BuildPtr f), Some (BuildSlice f)}
     \<or> unalias k = k \<and> (\<exists>t. (k, t) \<in> set (struct_children fs))"
proof (induction fs y rule: fields_entry.induct)
  case (2 g fs y)
  obtain fname ft yang where g: "g = (fname, ft, yang)" by (cases g)
  from 2(2) obtain y1 d where y1: "init_field g y = Some (y1, d)" and r: "fields_entry fs y1 = Some y'"
    by (auto split: option.splits)
  note d = init_field_child [OF y1]
  show ?case
  proof (cases "map_of (ys_funcs y1) k \<in> {Some (BuildPtr f), Some (BuildSlice f)}")
    case False
    then show ?thesis using 2(1) [OF y1 refl r 2(3)] d by (auto split: option.splits)
  next
    case True
    from y1 [unfolded g] show ?thesis
    proof (cases rule: init_field_funcs)
      case 1
      then show ?thesis using True by simp
    next
      case n: (2 n fn dt)
      show ?thesis
        using True n field_func_child [OF n(2), of f] d
        by (auto simp: update_conv' split: if_splits option.splits)
    qed
  qed
qed simp

lemma type_of_keyword_lookup:
  assumes "type_of_keyword k = Some (t, y)"
  shows "map_of (ys_funcs y) ''Name'' = Some (SetName ''Name'')"
    "map_of (ys_funcs y) ''Statement'' = Some (SetStatement ''Source'')"
    "map_of (ys_funcs y) ''Parent'' = Some (SetParent ''Parent'')"
    "ys_addext y = Some ''Extensions''" "funcs_ok y" "funcs_inj y" "children_typed y"
proof -
  have t: "map_of (tt_names tables) (unalias k) = Some t" "map_of (tt_types tables) t = Some y"
    using assms by (auto simp: type_of_keyword_def split: option.splits)
  obtain y1 fs where y1: "map_of (tt_types tables) t = Some y1" "map_of structs t = Some fs"
    "fields_entry fs newYangStatement = Some y1"
    "map_of (ys_funcs y1) ''Name'' = Some (SetName ''Name'')"
    "map_of (ys_funcs y1) ''Statement'' = Some (SetStatement ''Source'')"
    "map_of (ys_funcs y1) ''Parent'' = Some (SetParent ''Parent'')"
    "ys_addext y1 = Some ''Extensions''" "distinct (List.map fst fs)"
    using tables_lookup [OF t(1)] by blast
  have "funcs_ok y1"
    by (rule fields_entry_funcs_ok [OF y1(3)]) (simp add: funcs_ok_def newYangStatement_def)
  moreover have "funcs_inj y1"
    by (rule fields_entry_funcs_inj [OF y1(3,8)]) (simp_all add: funcs_inj_def newYangStatement_def)
  moreover have "children_typed y1"
    unfolding children_typed_def
  proof (intro allI impI)
    fix k f assume k: "map_of (ys_funcs y1) k \<in> {Some (BuildPtr f), Some (BuildSlice f)}"
    then obtain t' where "(k, t') \<in> set (struct_children fs)" "unalias k = k"
      using fields_entry_children [OF y1(3) k] by (auto simp: newYangStatement_def)
    moreover from tables_step [OF _ y1(2) this(1)] y1(1)
    have "map_of (tt_names tables) k = Some t'" "map_of (tt_types tables) t' \<noteq> None" by simp_all
    ultimately show "type_of_keyword k \<noteq> None" by (auto simp: type_of_keyword_def)
  qed
  ultimately show "map_of (ys_funcs y) ''Name'' = Some (SetName ''Name'')"
    "map_of (ys_funcs y) ''Statement'' = Some (SetStatement ''Source'')"
    "map_of (ys_funcs y) ''Parent'' = Some (SetParent ''Parent'')"
    "ys_addext y = Some ''Extensions''" "funcs_ok y" "funcs_inj y" "children_typed y"
    using y1 t(2) by simp_all
qed

lemma start_node_eq:
  assumes "type_of_keyword (Keyword s) = Some (t, y)"
  shows "start_node t y s p =
    Inr ((new_node t)\<lparr>nd_name := Argument s, nd_source := Some s, nd_parent := p\<rparr>)"
  using type_of_keyword_lookup [OF assms]
  by (cases p) (simp_all add: start_node_def run_if_def new_node_def Let_def)

subsection \<open>The node of a statement\<close>

text \<open>The sub-statements of a node that fill its field \<open>f\<close>, and those that are extensions.\<close>

definition field_statements :: "yangStatement \<Rightarrow> string \<Rightarrow> Statement list \<Rightarrow> Statement list" where
  "field_statements y f = List.filter
     (\<lambda>ss. map_of (ys_funcs y) (Keyword ss) \<in> {Some (BuildPtr f), Some (BuildSlice f)})"

definition ext_statements :: "yangStatement \<Rightarrow> Statement list \<Rightarrow> Statement list" where
  "ext_statements y = List.filter (\<lambda>ss. map_of (ys_funcs y) (Keyword ss) = None)"

text \<open>
  The node at \<open>a\<close> is the AST of the statement \<open>s\<close> under the parent \<open>p\<close>: the type of its
  keyword, its argument as name, the statement as source, the extension statements in order,
  and in each field, in order, the nodes of the sub-statements with that field's keyword, at
  greater addresses and with \<open>a\<close> as their parent.
\<close>

inductive mirrors :: "node list \<Rightarrow> nat option \<Rightarrow> Statement \<Rightarrow> nat \<Rightarrow> bool" for h where
  "type_of_keyword (Keyword s) = Some (t, y) \<Longrightarrow> a < length h \<Longrightarrow> nd_type (h ! a) = t \<Longrightarrow>
   nd_name (h ! a) = Argument s \<Longrightarrow> nd_source (h ! a) = Some s \<Longrightarrow> nd_parent (h ! a) = p \<Longrightarrow>
   nd_exts (h ! a) = ext_statements y (statements s) \<Longrightarrow>
   (\<And>f. list_all2 (\<lambda>ss b. a < b \<and> mirrors h (Some a) ss b) (field_statements y f (statements s)) (field h a f)) \<Longrightarrow>
   mirrors h p s a"
monos list_all2_mono

lemma mirrors_frame:
  assumes "mirrors h p s a" "grown V h h'" "\<forall>v\<in>V. v < a"
  shows "mirrors h' p s a"
  using assms
proof (induction rule: mirrors.induct)
  case (1 s t y a p)
  have eq: "h' ! a = h ! a" using grown_nth [OF 1(9)] 1(2,10) by blast
  show ?case
  proof (rule mirrors.intros)
    show "a < length h'" using 1(2,9) by (simp add: grown_def)
    fix f
    show "list_all2 (\<lambda>ss b. a < b \<and> mirrors h' (Some a) ss b) (field_statements y f (statements s)) (field h' a f)"
      unfolding field_def eq using 1(8) [of f, unfolded field_def]
      by (rule list_all2_mono) (use 1(9,10) in \<open>auto intro: order.strict_trans\<close>)
  qed (use 1 eq in auto)
qed

text \<open>The same for a node whose sub-statements are done up to some point.\<close>

definition partly :: "node list \<Rightarrow> nat option \<Rightarrow> Statement \<Rightarrow> string \<Rightarrow> yangStatement \<Rightarrow> nat \<Rightarrow> Statement list \<Rightarrow> bool" where
  "partly h p s t y v ss \<longleftrightarrow> v < length h \<and> nd_type (h ! v) = t \<and> nd_name (h ! v) = Argument s
     \<and> nd_source (h ! v) = Some s \<and> nd_parent (h ! v) = p \<and> nd_exts (h ! v) = ext_statements y ss
     \<and> (\<forall>f. list_all2 (\<lambda>ss b. v < b \<and> mirrors h (Some v) ss b) (field_statements y f ss) (field h v f))"

lemma partly_start:
  assumes "type_of_keyword (Keyword s) = Some (t, y)" "start_node t y s p = Inr n"
  shows "partly (h @ [n]) p s t y (length h) []"
  using assms start_node_eq [OF assms(1), of p]
  by (auto simp: partly_def new_node_def ext_statements_def field_statements_def field_def node_field_def)

lemma partly_grown:
  assumes "partly h p s t y v ss" "grown {} h h'"
  shows "partly h' p s t y v ss"
proof -
  have v: "v < length h" and eq: "h' ! v = h ! v"
    using assms grown_nth [OF assms(2)] by (auto simp: partly_def)
  have "list_all2 (\<lambda>ss b. v < b \<and> mirrors h' (Some v) ss b) (field_statements y f ss) (field h' v f)" for f
  proof -
    have "list_all2 (\<lambda>ss b. v < b \<and> mirrors h (Some v) ss b) (field_statements y f ss) (field h' v f)"
      using assms(1) eq by (simp add: partly_def field_def)
    then show ?thesis
      by (rule list_all2_mono) (auto intro: mirrors_frame [OF _ assms(2)])
  qed
  then show ?thesis
    using assms(1) v eq assms(2) by (simp add: partly_def grown_def)
qed

lemma node_field_add_sub:
  "node_field (add_sub f a n) g = node_field n g @ (if g = f then [a] else [])"
  by (auto simp: node_field_def add_sub_def update_conv')

lemma field_add_sub:
  "v < length h \<Longrightarrow> field (h[v := add_sub f a (h ! v)]) v g = field h v g @ (if g = f then [a] else [])"
  by (simp add: field_def node_field_add_sub)

lemma field_statements_append [simp]:
  "field_statements y f (a @ b) = field_statements y f a @ field_statements y f b"
  by (simp add: field_statements_def)

lemma partly_sub:
  assumes "partly h p s t y v ss" "mirrors h (Some v) ss1 a" "v < a"
    "map_of (ys_funcs y) (Keyword ss1) \<in> {Some (BuildPtr f), Some (BuildSlice f)}"
  shows "partly (h[v := add_sub f a (h ! v)]) p s t y v (ss @ [ss1])"
proof -
  let ?h = "h[v := add_sub f a (h ! v)]"
  have v: "v < length h" using assms(1) by (simp add: partly_def)
  have fr: "mirrors ?h q s' b" if "mirrors h q s' b" "v < b" for q s' b
    by (rule mirrors_frame [OF that(1), of "{v}"]) (use that(2) in simp_all)
  have "list_all2 (\<lambda>ss b. v < b \<and> mirrors ?h (Some v) ss b) (field_statements y g (ss @ [ss1])) (field ?h v g)" for g
  proof -
    have "list_all2 (\<lambda>ss b. v < b \<and> mirrors ?h (Some v) ss b) (field_statements y g ss) (field h v g)"
      using assms(1) fr by (auto simp: partly_def intro: list_all2_mono)
    moreover have "field_statements y g [ss1] = (if g = f then [ss1] else [])"
      using assms(4) by (auto simp: field_statements_def)
    ultimately show ?thesis
      using fr [OF assms(2,3)] assms(3) v by (simp add: field_add_sub list_all2_appendI)
  qed
  moreover have "ext_statements y (ss @ [ss1]) = ext_statements y ss"
    using assms(4) by (auto simp: ext_statements_def)
  ultimately show ?thesis
    using assms(1) v by (simp add: partly_def add_sub_def)
qed

lemma partly_ext:
  assumes "partly h p s t y v ss" "map_of (ys_funcs y) (Keyword ss1) = None"
  shows "partly (h[v := add_ext ss1 (h ! v)]) p s t y v (ss @ [ss1])"
proof -
  let ?h = "h[v := add_ext ss1 (h ! v)]"
  have v: "v < length h" using assms(1) by (simp add: partly_def)
  have fr: "mirrors ?h q s' b" if "mirrors h q s' b" "v < b" for q s' b
    by (rule mirrors_frame [OF that(1), of "{v}"]) (use that(2) in simp_all)
  have "field ?h v g = field h v g" for g
    using v by (simp add: field_def node_field_def add_ext_def)
  moreover have "field_statements y g (ss @ [ss1]) = field_statements y g ss" for g
    using assms(2) field_statements_append [of y g ss "[ss1]"] by (simp add: field_statements_def)
  moreover have "list_all2 (\<lambda>ss b. v < b \<and> mirrors ?h (Some v) ss b) (field_statements y g ss) (field h v g)" for g
    using assms(1) fr by (auto simp: partly_def intro: list_all2_mono)
  ultimately show ?thesis
    using assms v by (simp add: partly_def add_ext_def ext_statements_def)
qed

lemma size_sub_statement: "ss \<in> set (statements s) \<Longrightarrow> size ss < size s"
  using size_list_estimation' [of ss "statements s" "size ss" size] size_statements [of s] by simp

text \<open>A statement without sub-statements named like the fields \<open>Name\<close>, \<open>Statement\<close>, \<open>Parent\<close>.\<close>

function plain :: "Statement \<Rightarrow> bool" where
  "plain s \<longleftrightarrow> (\<forall>ss\<in>set (statements s). Keyword ss \<notin> set specials \<and> plain ss)"
  by pat_completeness auto

termination
  by (relation "measure size") (auto simp: size_sub_statement)

declare plain.simps [simp del]

lemma build_partly:
  "build s p st = (st', r) \<Longrightarrow> plain s \<Longrightarrow> r = Inr a \<Longrightarrow> mirrors (ast_nodes st') p s a"
  "build_subs s y v p sss st = (st', e) \<Longrightarrow> e = None \<Longrightarrow> type_of_keyword (Keyword s) = Some (t, y) \<Longrightarrow>
     \<forall>ss\<in>set sss. Keyword ss \<notin> set specials \<and> plain ss \<Longrightarrow>
     partly (ast_nodes st) p s t y v done \<Longrightarrow> partly (ast_nodes st') p s t y v (done @ sss)"
  "build_sub s y v p ss st = (st', e) \<Longrightarrow> e = None \<Longrightarrow> type_of_keyword (Keyword s) = Some (t, y) \<Longrightarrow>
     Keyword ss \<notin> set specials \<Longrightarrow> plain ss \<Longrightarrow>
     partly (ast_nodes st) p s t y v done \<Longrightarrow> partly (ast_nodes st') p s t y v (done @ [ss])"
proof (induction s p st and s y v p sss st and s y v p ss st arbitrary: st' r a and st' e t "done" and st' e t "done"
    rule: build_build_subs_build_sub.induct)
  case (1 s parent st)
  from 1(2) show ?case
  proof (cases rule: build_cases)
    case (ok t y n st1)
    have "partly (ast_nodes st1) parent s t y (length (ast_nodes st)) ([] @ statements s)"
      by (rule 1(1) [OF ok(1) refl ok(2) refl ok(3) refl ok(1)])
         (use 1(3) plain.simps [of s] partly_start [OF ok(1,2)] in auto)
    then have "mirrors (ast_nodes st1) parent s (length (ast_nodes st))"
      by (intro mirrors.intros [OF ok(1)]) (auto simp: partly_def)
    with ok 1(4) show ?thesis by simp
  qed (use 1(4) in auto)
next
  case (2 s y v parent st)
  then show ?case by simp
next
  case (3 s y v parent ss rest st)
  obtain st1 e1 where b: "build_sub s y v parent ss st = (st1, e1)" by fastforce
  with 3(3,4) have e1: "e1 = None" and r: "build_subs s y v parent rest st1 = (st', None)"
    by (auto split: option.splits)
  have "partly (ast_nodes st1) parent s t y v (done @ [ss])"
    using 3(1) [OF b e1 3(5)] 3(6,7) by simp
  from 3(2) [OF b [symmetric] e1 r refl 3(5) _ this] 3(6) show ?case by simp
next
  case (4 s y v parent ss st)
  from 4(3) show ?case
  proof (cases rule: build_sub_cases)
    case (sub f st1 a)
    have m: "mirrors (ast_nodes st1) (Some v) ss a"
      using sub(1,2) 4(1) [of _ f, OF _ refl] 4(2) [of _ f, OF _ refl] 4(7) unfolding fills_def by blast
    have g: "grown {} (ast_nodes st) (ast_nodes st1)" and a: "a = length (ast_nodes st)"
      using build_grown(1) [OF sub(2)] by auto
    have "v < a" using 4(8) a by (simp add: partly_def)
    from partly_sub [OF partly_grown [OF 4(8) g] m this, of f] sub show ?thesis
      by (auto simp: fills_def)
  next
    case ext
    with partly_ext [OF 4(8) ext(1)] show ?thesis by simp
  next
    case (special b n)
    with type_of_keyword_lookup(5) [OF 4(5)] 4(6) show ?thesis by (auto simp: funcs_ok_def)
  qed (use 4(4) in auto)
qed

subsection \<open>Which statements are accepted\<close>

text \<open>
  When a statement is valid: its keyword is known; every sub-statement is an extension or is
  valid itself; a keyword whose field is a pointer occurs once; the required keywords are
  there, and those of the other kind of module are not. The required and the foreign keywords
  are spelled out here, from the tags of the structs; \<open>struct_requirements\<close> checks the tables
  against them.
\<close>

definition required_keywords :: "string \<Rightarrow> string list" where
  "required_keywords k =
     (if k = ''module'' then [''namespace'', ''prefix'']
      else if k = ''submodule'' then [''belongs-to'']
      else if k \<in> {''import'', ''belongs-to''} then [''prefix'']
      else if k \<in> {''typedef'', ''leaf'', ''leaf-list''} then [''type'']
      else if k = ''deviation'' then [''deviate'']
      else [])"

definition foreign_keywords :: "string \<Rightarrow> string list" where
  "foreign_keywords k =
     (if k = ''module'' then [''belongs-to''] else if k = ''submodule'' then [''namespace'', ''prefix''] else [])"

definition requirements_met :: "Statement \<Rightarrow> bool" where
  "requirements_met s \<longleftrightarrow>
     (\<forall>k\<in>set (required_keywords (Keyword s)). k \<in> Keyword ` set (statements s))
     \<and> (\<forall>k\<in>set (foreign_keywords (Keyword s)). k \<notin> Keyword ` set (statements s))"

definition requirements_of :: "string \<Rightarrow> string list \<times> (string \<times> string list) list" where
  "requirements_of t =
     (if t = ''Module'' then ([], [(''submodule'', [''belongs-to'']), (''module'', [''namespace'', ''prefix''])])
      else if t \<in> {''Import'', ''BelongsTo''} then ([''prefix''], [])
      else if t \<in> {''Typedef'', ''Leaf'', ''LeafList''} then ([''type''], [])
      else if t = ''Deviation'' then ([''deviate''], [])
      else ([], []))"

lemma struct_requirements:
  "list_all (\<lambda>(t, fs). case fields_entry fs newYangStatement of None \<Rightarrow> True
     | Some y \<Rightarrow> t = ''meta'' \<or> (ys_required y, ys_sRequired y) = requirements_of t) structs"
  by code_simp

lemma keyword_requirements:
  "list_all (\<lambda>(k, t). k = ''module'' \<or> t \<noteq> ''Module'' \<and> k \<noteq> ''submodule'' \<and> requirements_of t = (required_keywords k, []))
     keyword_types"
  by code_simp

lemma keyword_module: "map_of keyword_types ''module'' = Some ''Module''"
  by code_simp

lemma type_of_keyword_requirements:
  assumes "type_of_keyword k = Some (t, y)"
  shows "(ys_required y, ys_sRequired y) = requirements_of t"
    "k \<in> {''module'', ''submodule''} \<and> t = ''Module''
      \<or> k \<notin> {''module'', ''submodule''} \<and> requirements_of t = (required_keywords k, [])"
proof -
  have t: "map_of (tt_names tables) (unalias k) = Some t" "map_of (tt_types tables) t = Some y"
    using assms by (auto simp: type_of_keyword_def split: option.splits)
  have kt: "map_of keyword_types (unalias k) = Some t"
    using tables_complete(2) t(1) by (auto simp: names_known_def map_le_def dom_def)
  then have "(unalias k, t) \<in> set keyword_types" by (rule map_of_SomeD)
  then have kr: "unalias k = ''module'' \<or> t \<noteq> ''Module'' \<and> unalias k \<noteq> ''submodule''
      \<and> requirements_of t = (required_keywords (unalias k), [])" "t \<noteq> ''meta''"
    using keyword_requirements schema_closed by (auto simp: list_all_iff)
  obtain y1 fs where y1: "map_of (tt_types tables) t = Some y1" "map_of structs t = Some fs"
    "fields_entry fs newYangStatement = Some y1"
    using tables_lookup [OF t(1)] by blast
  then show "(ys_required y, ys_sRequired y) = requirements_of t"
    using struct_requirements map_of_SomeD [OF y1(2)] t(2) kr(2) by (fastforce simp: list_all_iff)
  show "k \<in> {''module'', ''submodule''} \<and> t = ''Module''
      \<or> k \<notin> {''module'', ''submodule''} \<and> requirements_of t = (required_keywords k, [])"
    using kr(1) kt keyword_module by (auto simp: unalias_def aliases_def split: if_splits)
qed

lemma check_required_None:
  "check_required s y = None \<longleftrightarrow>
     (\<forall>r\<in>set (ys_required y) \<union> set (case map_of (ys_sRequired y) (Keyword s) of None \<Rightarrow> [] | Some rs \<Rightarrow> rs).
        r \<in> Keyword ` set (statements s))
     \<and> (\<forall>(n, rs)\<in>set (ys_sRequired y). n \<noteq> Keyword s \<longrightarrow> (\<forall>r\<in>set rs. r \<notin> Keyword ` set (statements s)))"
proof -
  define own where "own = (case map_of (ys_sRequired y) (Keyword s) of None \<Rightarrow> [] | Some rs \<Rightarrow> rs)"
  define ks where "ks = Keyword ` set (statements s)"
  have none: "List.find P xs = None \<longleftrightarrow> (\<forall>x\<in>set xs. \<not> P x)" for P and xs :: "string list"
    by (auto simp: find_None_iff)
  have "check_required s y = None \<longleftrightarrow> List.find (\<lambda>r. r \<notin> ks) (ys_required y @ own) = None
      \<and> List.find (\<lambda>r. r \<in> ks) (concat (List.map snd (List.filter (\<lambda>(n, _). n \<noteq> Keyword s) (ys_sRequired y)))) = None"
    by (simp add: check_required_def Let_def own_def ks_def split: option.split)
  also have "\<dots> \<longleftrightarrow> (\<forall>r\<in>set (ys_required y) \<union> set own. r \<in> ks)
      \<and> (\<forall>(n, rs)\<in>set (ys_sRequired y). n \<noteq> Keyword s \<longrightarrow> (\<forall>r\<in>set rs. r \<notin> ks))"
    unfolding none by fastforce
  finally show ?thesis unfolding own_def ks_def .
qed

lemma check_required_met:
  assumes "type_of_keyword (Keyword s) = Some (t, y)"
  shows "check_required s y = None \<longleftrightarrow> requirements_met s"
proof -
  note r = type_of_keyword_requirements [OF assms]
  consider "Keyword s = ''module''" "t = ''Module''" | "Keyword s = ''submodule''" "t = ''Module''"
    | "Keyword s \<notin> {''module'', ''submodule''}" "requirements_of t = (required_keywords (Keyword s), [])"
    using r(2) by blast
  then show ?thesis
  proof cases
    case 3
    then have "ys_required y = required_keywords (Keyword s)" "ys_sRequired y = []" using r(1) by simp_all
    then show ?thesis
      using 3(1) by (simp add: check_required_None requirements_met_def foreign_keywords_def)
  qed (use r(1) in \<open>simp_all add: check_required_None requirements_met_def foreign_keywords_def required_keywords_def
        requirements_of_def\<close>)
qed

definition is_ptr :: "yangStatement \<Rightarrow> string \<Rightarrow> bool" where
  "is_ptr y k = (case map_of (ys_funcs y) k of Some (BuildPtr _) \<Rightarrow> True | _ \<Rightarrow> False)"

definition ptr_once :: "yangStatement \<Rightarrow> Statement list \<Rightarrow> bool" where
  "ptr_once y ss = list_all
     (\<lambda>s. is_ptr y (Keyword s) \<longrightarrow> length (List.filter (\<lambda>s'. Keyword s' = Keyword s) ss) \<le> 1) ss"

function schema_valid :: "Statement \<Rightarrow> bool" where
  "schema_valid s =
     (case type_of_keyword (Keyword s) of
        None \<Rightarrow> False
      | Some (t, y) \<Rightarrow>
          requirements_met s \<and> ptr_once y (statements s)
          \<and> (\<forall>ss\<in>set (statements s).
               if map_of (ys_funcs y) (Keyword ss) = None then length (go_split (Keyword ss) '':'') = 2
               else schema_valid ss))"
  by pat_completeness auto
termination by (relation "measure size") (auto simp: size_sub_statement)

declare schema_valid.simps [simp del]

definition sub_valid :: "yangStatement \<Rightarrow> Statement \<Rightarrow> bool" where
  "sub_valid y ss = (if map_of (ys_funcs y) (Keyword ss) = None
     then length (go_split (Keyword ss) '':'') = 2 else schema_valid ss)"

lemma schema_valid_eq:
  "schema_valid s = (case type_of_keyword (Keyword s) of None \<Rightarrow> False
     | Some (t, y) \<Rightarrow> requirements_met s \<and> ptr_once y (statements s)
         \<and> (\<forall>ss\<in>set (statements s). sub_valid y ss))"
  unfolding sub_valid_def by (subst schema_valid.simps) simp

lemma ptr_once_prefix: "ptr_once y (xs @ zs) \<Longrightarrow> ptr_once y xs"
  by (fastforce simp: ptr_once_def list_all_iff)

text \<open>In a table without two keywords for a field, the field of \<open>k\<close> holds the statements \<open>k\<close>.\<close>

lemma field_statements_keyword:
  assumes "funcs_inj y" "map_of (ys_funcs y) k \<in> {Some (BuildPtr f), Some (BuildSlice f)}"
  shows "field_statements y f ss = List.filter (\<lambda>s. Keyword s = k) ss"
proof -
  have "map_of (ys_funcs y) k' \<in> {Some (BuildPtr f), Some (BuildSlice f)} \<longleftrightarrow> k' = k" for k'
    using assms unfolding funcs_inj_def by (metis builder_field.simps(4,5) insertE insertCI singletonD)
  then show ?thesis by (simp add: field_statements_def)
qed

lemma partly_field:
  assumes "partly h p s t y v ss" "funcs_inj y" "map_of (ys_funcs y) k \<in> {Some (BuildPtr f), Some (BuildSlice f)}"
  shows "field h v f = [] \<longleftrightarrow> k \<notin> Keyword ` set ss"
proof -
  have "length (field_statements y f ss) = length (field h v f)"
    using assms(1) by (auto simp: partly_def dest: list_all2_lengthD)
  then have "field h v f = [] \<longleftrightarrow> field_statements y f ss = []" by (metis length_0_conv)
  then show ?thesis
    by (auto simp: field_statements_keyword [OF assms(2,3)] filter_empty_conv)
qed

lemma ptr_once_Cons:
  assumes "ptr_once y (xs @ z # zs)" "is_ptr y (Keyword z)"
  shows "Keyword z \<notin> Keyword ` set xs"
  using assms by (auto simp: ptr_once_def list_all_iff filter_empty_conv)

lemma ptr_once_snoc:
  assumes "ptr_once y xs" "is_ptr y (Keyword z) \<Longrightarrow> Keyword z \<notin> Keyword ` set xs"
  shows "ptr_once y (xs @ [z])"
  unfolding ptr_once_def list_all_iff
proof (intro ballI impI)
  fix s assume s: "s \<in> set (xs @ [z])" "is_ptr y (Keyword s)"
  show "length (List.filter (\<lambda>s'. Keyword s' = Keyword s) (xs @ [z])) \<le> 1"
  proof (cases "Keyword s = Keyword z")
    case True
    then have "List.filter (\<lambda>s'. Keyword s' = Keyword s) xs = []"
      using assms(2) s(2) True unfolding filter_empty_conv by (metis imageI)
    then show ?thesis by simp
  next
    case False
    then show ?thesis using assms(1) s by (auto simp: ptr_once_def list_all_iff)
  qed
qed

lemma build_accepts:
  "build s p st = (st', r) \<Longrightarrow> plain s \<Longrightarrow> (\<exists>a. r = Inr a) \<longleftrightarrow> schema_valid s"
  "build_subs s y v p sss st = (st', e) \<Longrightarrow> type_of_keyword (Keyword s) = Some (t, y) \<Longrightarrow>
     \<forall>ss\<in>set sss. Keyword ss \<notin> set specials \<and> plain ss \<Longrightarrow>
     partly (ast_nodes st) p s t y v done \<Longrightarrow> ptr_once y done \<Longrightarrow>
     e = None \<longleftrightarrow> (\<forall>ss\<in>set sss. sub_valid y ss) \<and> ptr_once y (done @ sss)"
  "build_sub s y v p ss st = (st', e) \<Longrightarrow> type_of_keyword (Keyword s) = Some (t, y) \<Longrightarrow>
     Keyword ss \<notin> set specials \<Longrightarrow> plain ss \<Longrightarrow> partly (ast_nodes st) p s t y v done \<Longrightarrow>
     e = None \<longleftrightarrow> sub_valid y ss \<and> (is_ptr y (Keyword ss) \<longrightarrow> Keyword ss \<notin> Keyword ` set done)"
proof (induction s p st and s y v p sss st and s y v p ss st arbitrary: st' r and st' e t "done" and st' e t "done"
    rule: build_build_subs_build_sub.induct)
  case (1 s parent st)
  have sub_ok: "e = None \<longleftrightarrow> (\<forall>ss\<in>set (statements s). sub_valid y ss) \<and> ptr_once y (statements s)"
    if "type_of_keyword (Keyword s) = Some (t, y)" "start_node t y s parent = Inr n"
      "build_subs s y (length (ast_nodes st)) parent (statements s) (st\<lparr>ast_nodes := ast_nodes st @ [n]\<rparr>) = (st1, e)"
    for t y n st1 e
    using 1(1) [OF that(1) refl that(2) refl that(3) that(1), of "[]"] 1(3) plain.simps [of s]
      partly_start [OF that(1,2)]
    by (simp add: ptr_once_def)
  from 1(2) show ?case
  proof (cases rule: build_cases)
    case panic
    then show ?thesis by (simp add: schema_valid_eq)
  next
    case (start t y e)
    then show ?thesis by (simp add: start_node_eq)
  next
    case (subs t y n e)
    with sub_ok [OF subs(1-3)] show ?thesis by (auto simp: schema_valid_eq)
  next
    case (check t y n e)
    then show ?thesis using check_required_met [OF check(1)] by (simp add: schema_valid_eq)
  next
    case (ok t y n st1)
    with sub_ok [OF ok(1-3)] check_required_met [OF ok(1)] show ?thesis by (auto simp: schema_valid_eq)
  qed
next
  case (2 s y v parent st)
  then show ?case by simp
next
  case (3 s y v parent ss rest st)
  obtain st1 e1 where b: "build_sub s y v parent ss st = (st1, e1)" by fastforce
  have one: "e1 = None \<longleftrightarrow> sub_valid y ss \<and> (is_ptr y (Keyword ss) \<longrightarrow> Keyword ss \<notin> Keyword ` set done)"
    using 3(1) [OF b 3(4)] 3(5,6) by simp
  show ?case
  proof (cases "e1 = None")
    case False
    then show ?thesis using one b 3(3) ptr_once_Cons by fastforce
  next
    case True
    with 3(3) b have r: "build_subs s y v parent rest st1 = (st', e)" by simp
    have p: "partly (ast_nodes st1) parent s t y v (done @ [ss])"
      using build_partly(3) [OF b True 3(4)] 3(5,6) by simp
    have "ptr_once y (done @ [ss])" using ptr_once_snoc [OF 3(7)] one True by blast
    with 3(2) [OF b [symmetric] True r 3(4) _ p] 3(5) one True show ?thesis by auto
  qed
next
  case (4 s y v parent ss st)
  note lk = type_of_keyword_lookup [OF 4(4)]
  obtain st1 r where b: "build ss (Some v) st = (st1, r)" by fastforce
  show ?case
  proof (cases "map_of (ys_funcs y) (Keyword ss)")
    case None
    then show ?thesis
      using 4(3) lk(4) by (auto simp: build_sub.simps [of s y v parent ss st] sub_valid_def is_ptr_def split: if_splits)
  next
    case (Some fn)
    then consider f where "fn = BuildPtr f" | f where "fn = BuildSlice f"
      using lk(5) 4(5) unfolding funcs_ok_def by blast
    then show ?thesis
    proof cases
      case (1 f)
      note fe = partly_field [OF 4(7) lk(6), of "Keyword ss" f]
      show ?thesis
      proof (cases "field (ast_nodes st) v f = []")
        case True
        have "(\<exists>a. r = Inr a) \<longleftrightarrow> schema_valid ss"
          using 4(1) [OF Some 1 _ b 4(6)] True by simp
        then show ?thesis
          using 4(3) Some 1 True b fe
          by (cases r) (auto simp: build_sub.simps [of s y v parent ss st] sub_valid_def is_ptr_def)
      next
        case False
        then show ?thesis
          using 4(3) Some 1 fe by (auto simp: build_sub.simps [of s y v parent ss st] is_ptr_def)
      qed
    next
      case (2 f)
      have "(\<exists>a. r = Inr a) \<longleftrightarrow> schema_valid ss"
        using 4(2) [OF Some 2 b 4(6)] by simp
      then show ?thesis
        using 4(3) Some 2 b
        by (cases r) (auto simp: build_sub.simps [of s y v parent ss st] sub_valid_def is_ptr_def)
    qed
  qed
qed

lemma build_no_panic_aux:
  "build s p st = (st', r) \<Longrightarrow> plain s \<Longrightarrow> type_of_keyword (Keyword s) \<noteq> None \<Longrightarrow> r \<noteq> Inl BuildPanic"
  "build_subs s y v p sss st = (st', e) \<Longrightarrow> type_of_keyword (Keyword s) = Some (t, y) \<Longrightarrow>
     \<forall>ss\<in>set sss. Keyword ss \<notin> set specials \<and> plain ss \<Longrightarrow> e \<noteq> Some BuildPanic"
  "build_sub s y v p ss st = (st', e) \<Longrightarrow> type_of_keyword (Keyword s) = Some (t, y) \<Longrightarrow>
     Keyword ss \<notin> set specials \<Longrightarrow> plain ss \<Longrightarrow> e \<noteq> Some BuildPanic"
proof (induction s p st and s y v p sss st and s y v p ss st arbitrary: st' r and st' e t and st' e t
    rule: build_build_subs_build_sub.induct)
  case (1 s parent st)
  from 1(2) show ?case
  proof (cases rule: build_cases)
    case (subs t y n e)
    then show ?thesis using 1(1) [OF subs(1) refl subs(2) refl subs(3) subs(1)] 1(3) plain.simps [of s] by auto
  next
    case (check t y n e)
    then show ?thesis by (auto simp: check_required_def required_error_def Let_def split: option.splits)
  qed (use 1(4) start_node_eq in auto)
next
  case (2 s y v parent st)
  then show ?case by simp
next
  case (3 s y v parent ss rest st)
  obtain st1 e1 where b: "build_sub s y v parent ss st = (st1, e1)" by fastforce
  show ?case
    using 3(1) [OF b 3(4)] 3(2) [OF b [symmetric] _ _ 3(4)] 3(3,5) b by (cases e1) auto
next
  case (4 s y v parent ss st)
  have ty: "children_typed y" and fo: "funcs_ok y" using type_of_keyword_lookup [OF 4(4)] by simp_all
  have ih: "r \<noteq> Inl BuildPanic" if "fills y v st ss f" "build ss (Some v) st = (st1, r)" for f st1 r
  proof -
    have "type_of_keyword (Keyword ss) \<noteq> None"
      using ty that(1) by (auto simp: children_typed_def fills_def)
    then show ?thesis
      using that 4(1) [of _ f, OF _ refl] 4(2) [of _ f, OF _ refl] 4(6) unfolding fills_def by blast
  qed
  show ?case
  proof (cases "map_of (ys_funcs y) (Keyword ss)")
    case None
    then show ?thesis using 4(3) by (auto simp: build_sub.simps [of s y v parent ss st] split: if_splits)
  next
    case (Some fn)
    then consider f where "fn = BuildPtr f" | f where "fn = BuildSlice f"
      using fo 4(5) unfolding funcs_ok_def by blast
    then show ?thesis
    proof cases
      case (1 f)
      then show ?thesis
        using 4(3) Some ih [of f]
        by (auto simp: build_sub.simps [of s y v parent ss st] fills_def split: if_splits prod.splits sum.splits)
    next
      case (2 f)
      then show ?thesis
        using 4(3) Some ih [of f]
        by (auto simp: build_sub.simps [of s y v parent ss st] fills_def split: prod.splits sum.splits)
    qed
  qed
qed

subsection \<open>Modules\<close>

text \<open>The table of a struct, computed from its fields alone.\<close>

definition entry_of :: "string \<Rightarrow> yangStatement" where
  "entry_of t = (case map_of structs t of
     None \<Rightarrow> newYangStatement
   | Some fs \<Rightarrow> (case fields_entry fs newYangStatement of None \<Rightarrow> newYangStatement | Some y \<Rightarrow> y))"

lemma known_entry:
  assumes "map_of (tt_types tables) t \<noteq> None"
  shows "map_of (tt_types tables) t = Some (entry_of t)"
proof -
  obtain y where y: "map_of (tt_types tables) t = Some y" using assms by blast
  then have "entry_complete tables t y" using tables_complete(1) by (simp add: complete_but_def)
  then show ?thesis using y by (auto simp: entry_complete_def entry_of_def)
qed

lemma known_child:
  assumes "map_of (tt_types tables) t \<noteq> None" "map_of structs t = Some fs"
    "(k, t') \<in> set (struct_children fs)" "unalias k' = k"
  shows "map_of (tt_types tables) t' \<noteq> None" "type_of_keyword k' = Some (t', entry_of t')"
  using tables_step [OF assms(1-3)] known_entry [of t'] assms(4) by (simp_all add: type_of_keyword_def)

definition module_children :: "(string \<times> string) list" where
  "module_children = [(''namespace'', ''Value''), (''prefix'', ''Value''), (''belongs-to'', ''BelongsTo''),
     (''container'', ''Container''), (''leaf'', ''Leaf''), (''typedef'', ''Typedef''), (''import'', ''Import'')]"

lemma module_children: "set module_children \<subseteq> set (struct_children struct_Module)"
proof -
  have "list_all (\<lambda>c. c \<in> set (struct_children struct_Module)) module_children" by code_simp
  then show ?thesis by (auto simp: list_all_iff)
qed

lemma type_of_module [simp]:
  "type_of_keyword ''module'' = Some (''Module'', entry_of ''Module'')"
  "type_of_keyword ''submodule'' = Some (''Module'', entry_of ''Module'')"
  using tables_Module known_entry [of "''Module''"]
  by (simp_all add: type_of_keyword_def unalias_def aliases_def)

lemma type_of_module_child:
  "(k, t) \<in> set module_children \<Longrightarrow> type_of_keyword k = Some (t, entry_of t)"
  using known_child(2) [OF tables_Module(2) Module_struct subsetD [OF module_children], of k t k]
  by (auto simp: module_children_def unalias_def aliases_def)

lemma module_funcs:
  "List.map (map_of (ys_funcs (entry_of ''Module''))) [''namespace'', ''prefix'', ''belongs-to'', ''leaf'']
    = [Some (BuildPtr ''Namespace''), Some (BuildPtr ''Prefix''), Some (BuildPtr ''BelongsTo''),
       Some (BuildSlice ''Leaf'')]"
  by code_simp

lemma module_required:
  "ys_required (entry_of ''Module'') = []"
  "ys_sRequired (entry_of ''Module'') = [(''submodule'', [''belongs-to'']), (''module'', [''namespace'', ''prefix''])]"
  using Module_required by (auto simp: entry_of_def Module_struct)

lemma value_required: "ys_required (entry_of ''Value'') = [] \<and> ys_sRequired (entry_of ''Value'') = []"
  by code_simp

subsection \<open>What holds of every build\<close>

text \<open>A smallest module, for the witnesses.\<close>

definition value_statement :: "string \<Rightarrow> string \<Rightarrow> Statement" where
  "value_statement k arg = Statement k True arg [] [] 0 0"

definition sample_module :: Statement where
  "sample_module = Statement ''module'' True ''m''
     [value_statement ''namespace'' ''urn:m'', value_statement ''prefix'' ''m''] [] 0 0"

lemma plain_Statement [simp]:
  "plain (Statement k h arg ss f l c) \<longleftrightarrow> (\<forall>x\<in>set ss. Keyword x \<notin> set specials \<and> plain x)"
  by (subst plain.simps) simp

lemma sample_plain: "plain sample_module"
  by (simp add: sample_module_def value_statement_def specials_def)

lemma type_of_value:
  "k \<in> {''namespace'', ''prefix''} \<Longrightarrow> type_of_keyword k = Some (''Value'', entry_of ''Value'')"
  by (rule type_of_module_child) (auto simp: module_children_def)

lemma value_valid:
  assumes "k \<in> {''namespace'', ''prefix''}"
  shows "schema_valid (value_statement k arg)"
  using type_of_value [OF assms] value_required assms
  by (auto simp add: schema_valid_eq value_statement_def requirements_met_def required_keywords_def foreign_keywords_def ptr_once_def)

lemma sample_valid: "schema_valid sample_module"
  using value_valid [of "''namespace''"] value_valid [of "''prefix''"] module_funcs
  by (simp add: schema_valid_eq sample_module_def sub_valid_def ptr_once_def value_statement_def is_ptr_def
    requirements_met_def required_keywords_def foreign_keywords_def)

text \<open>C16: a statement is accepted by \<open>build\<close> exactly when it is valid. For a statement that is \<open>plain\<close>, that
  is, without sub-statements called Name, Statement or Parent at any depth: \<open>build\<close>
  succeeds if and only if the keyword is known, each sub-statement is an extension or (again)
  valid, keywords that fill a pointer occur once, and the \<open>required_keywords\<close> of its keyword are there and
  the \<open>foreign_keywords\<close> are not: namespace and prefix for a module and belongs-to for a submodule, neither with
  those of the other; prefix for import and belongs-to, type for typedef, leaf and leaf-list, deviate for deviation.\<close>

theorem build_accepts_valid:
  assumes "plain s"
  shows "(\<exists>st' a. build s p st = (st', Inr a)) \<longleftrightarrow> schema_valid s"
proof -
  obtain st' r where b: "build s p st = (st', r)" by fastforce
  show ?thesis using build_accepts(1) [OF b assms] b by auto
qed

theorem build_accepts_valid_witness: "\<exists>st' a. buildASTWithTypeDict sample_module empty_ast = (st', Inr a)"
  using build_accepts_valid [OF sample_plain] sample_valid by (simp add: buildASTWithTypeDict_def)

text \<open>C15: the AST mirrors the statement. For a statement that is \<open>plain\<close>, that is, without sub-statements
  called Name, Statement or Parent at any depth, a successful \<open>build\<close> returns a new node, leaves the
  earlier nodes as they were, and the node mirrors the statement in the sense of \<open>mirrors\<close>: at
  every level the type is that of the keyword, the name is the argument, the source is the
  statement, the parent is the node above, and each field holds, in order, the nodes of exactly
  the sub-statements with its keyword, the extensions being kept in order as well. Without the condition
  it is false, see \<open>statement_keyword_taken\<close>.\<close>

theorem build_mirrors:
  assumes "build s p st = (st', Inr a)" "plain s"
  shows "mirrors (ast_nodes st') p s a \<and> a = length (ast_nodes st) \<and> take a (ast_nodes st') = ast_nodes st"
proof -
  have g: "grown {} (ast_nodes st) (ast_nodes st')" and a: "a = length (ast_nodes st)"
    using build_grown(1) [OF assms(1)] by auto
  have "take a (ast_nodes st') = ast_nodes st"
    using g unfolding a grown_def by (intro nth_equalityI) auto
  then show ?thesis using build_partly(1) [OF assms refl] a by simp
qed

theorem build_mirrors_witness:
  "\<exists>st' a. build sample_module None empty_ast = (st', Inr a) \<and> mirrors (ast_nodes st') None sample_module a"
proof -
  obtain st' r where b: "build sample_module None empty_ast = (st', r)" by fastforce
  with build_accepts(1) [OF b sample_plain] sample_valid obtain a where r: "r = Inr a" by auto
  from build_mirrors [OF b [unfolded r] sample_plain] b r show ?thesis by auto
qed

text \<open>C26: \<open>build\<close> does not panic on a statement whose keyword is known and which is \<open>plain\<close>, that is,
  without sub-statements called Name, Statement or Parent at any depth: sub-statements of any other
  keyword and content, at any depth, give an error or a node. Both conditions are needed: see
  \<open>parent_keyword_panics\<close> and \<open>unknown_keyword_panics\<close>.\<close>

theorem build_no_panic:
  assumes "plain s" "type_of_keyword (Keyword s) \<noteq> None"
  shows "snd (build s p st) \<noteq> Inl BuildPanic"
  using build_no_panic_aux(1) [of s p st "fst (build s p st)" "snd (build s p st)"] assms by simp

theorem build_no_panic_witness:
  "snd (build (Statement ''module'' True ''m'' [value_statement ''bogus'' []] [] 0 0) None empty_ast) \<noteq> Inl BuildPanic"
  by (rule build_no_panic) (simp_all add: value_statement_def specials_def)

lemma built_pointer:
  assumes "mirrors h p s a" "type_of_keyword (Keyword s) = Some (t, y)" "schema_valid s"
    "map_of (ys_funcs y) k = Some (BuildPtr f)"
  shows "if k \<in> Keyword ` set (statements s)
    then \<exists>ss b. ss \<in> set (statements s) \<and> Keyword ss = k \<and> field h a f = [b] \<and> mirrors h (Some a) ss b
    else field h a f = []"
proof -
  have l: "list_all2 (\<lambda>ss b. a < b \<and> mirrors h (Some a) ss b) (field_statements y f (statements s)) (field h a f)"
    using assms(1,2) by cases simp
  have fs: "field_statements y f (statements s) = List.filter (\<lambda>x. Keyword x = k) (statements s)"
    by (rule field_statements_keyword) (use type_of_keyword_lookup(6) [OF assms(2)] assms(4) in auto)
  have "length (List.filter (\<lambda>x. Keyword x = k) (statements s)) \<le> 1" if "k \<in> Keyword ` set (statements s)"
    using assms(2-4) that by (auto simp: schema_valid_eq ptr_once_def list_all_iff is_ptr_def)
  then show ?thesis
    using l unfolding fs
    by (cases "List.filter (\<lambda>x. Keyword x = k) (statements s)")
       (auto simp: list_all2_Cons1 filter_empty_conv filter_eq_Cons_iff image_iff)
qed

text \<open>C27: a module has its namespace and prefix and no belongs-to, a submodule the reverse, when the
  statement built has no sub-statements called Name, Statement or Parent at any depth (\<open>plain\<close>). The
  fields are then safe to dereference, as the code does in \<open>FindModuleByPrefix\<close> and
  \<open>FindModuleByNamespace\<close>.\<close>

theorem module_fields:
  assumes "build s p st = (st', Inr a)" "plain s"
  shows "(Keyword s = ''module'' \<longrightarrow>
            (\<exists>n x. field (ast_nodes st') a ''Namespace'' = [n] \<and> field (ast_nodes st') a ''Prefix'' = [x])
            \<and> field (ast_nodes st') a ''BelongsTo'' = [])
       \<and> (Keyword s = ''submodule'' \<longrightarrow>
            (\<exists>b. field (ast_nodes st') a ''BelongsTo'' = [b])
            \<and> field (ast_nodes st') a ''Namespace'' = [] \<and> field (ast_nodes st') a ''Prefix'' = [])"
proof -
  have m: "mirrors (ast_nodes st') p s a" using build_partly(1) [OF assms refl] .
  have v: "schema_valid s" using build_accepts(1) [OF assms] by simp
  have fields: "if k \<in> Keyword ` set (statements s) then \<exists>b. field (ast_nodes st') a f = [b]
      else field (ast_nodes st') a f = []"
    if "type_of_keyword (Keyword s) = Some (''Module'', entry_of ''Module'')"
      "map_of (ys_funcs (entry_of ''Module'')) k = Some (BuildPtr f)" for k f
    using built_pointer [OF m that(1) v that(2)] by (auto split: if_splits)
  have fn: "map_of (ys_funcs (entry_of ''Module'')) ''namespace'' = Some (BuildPtr ''Namespace'')"
    "map_of (ys_funcs (entry_of ''Module'')) ''prefix'' = Some (BuildPtr ''Prefix'')"
    "map_of (ys_funcs (entry_of ''Module'')) ''belongs-to'' = Some (BuildPtr ''BelongsTo'')"
    using module_funcs by simp_all
  show ?thesis
    using v fields [OF _ fn(1)] fields [OF _ fn(2)] fields [OF _ fn(3)]
    by (auto simp: schema_valid_eq requirements_met_def required_keywords_def foreign_keywords_def)
qed

theorem module_fields_witness:
  "\<exists>st' a n x. build sample_module None empty_ast = (st', Inr a)
     \<and> field (ast_nodes st') a ''Namespace'' = [n] \<and> field (ast_nodes st') a ''Prefix'' = [x]"
proof -
  obtain st' r where b: "build sample_module None empty_ast = (st', r)" by fastforce
  with build_accepts(1) [OF b sample_plain] sample_valid obtain a where r: "r = Inr a" by auto
  from module_fields [OF b [unfolded r] sample_plain] b r show ?thesis
    by (auto simp: sample_module_def)
qed

subsection \<open>Keywords that are no YANG\<close>

text \<open>
  The loop looks sub-statements up in \<open>funcs\<close>, which also holds the pseudo-fields: a
  sub-statement \<open>Statement\<close> replaces the source of its node, a sub-statement \<open>Parent\<close> of a
  top-level statement is a panic. So is a top-level statement with an unknown keyword.
\<close>

lemma statement_keyword_taken:
  assumes "type_of_keyword (Keyword s) = Some (t, y)" "check_required s y = None"
    "statements s = [ss]" "Keyword ss = ''Statement''"
  shows "\<exists>st'. build s p st = (st', Inr (length (ast_nodes st)))
    \<and> nd_source (ast_nodes st' ! length (ast_nodes st)) = Some ss"
proof -
  note lk = type_of_keyword_lookup [OF assms(1)]
  show ?thesis
    using assms lk(2) start_node_eq [OF assms(1), of p]
    by (simp add: build.simps [of s p st] build_sub.simps [of s y] Let_def)
qed

lemma parent_keyword_panics:
  assumes "type_of_keyword (Keyword s) = Some (t, y)" "statements s = ss # rest" "Keyword ss = ''Parent''"
  shows "snd (build s None st) = Inl BuildPanic"
proof -
  note lk = type_of_keyword_lookup [OF assms(1)]
  show ?thesis
    using assms lk(3) start_node_eq [OF assms(1), of None]
    by (simp add: build.simps [of s None st] build_sub.simps [of s y] Let_def)
qed

lemma unknown_keyword_panics: "snd (build (value_statement ''foo'' arg) None st) = Inl BuildPanic"
proof -
  have "map_of keyword_types ''foo'' = None" by code_simp
  then have "map_of (tt_names tables) ''foo'' = None"
    using tables_complete(2) by (auto simp: names_known_def map_le_def dom_def)
  then show ?thesis
    by (simp add: build.simps type_of_keyword_def value_statement_def unalias_def aliases_def)
qed

end
