(* ===== verification/Files.thy ===== *)
theory Files
  imports Strconv
begin

text \<open>
  \<open>pkg/yang/file.go\<close>: the search path of a \<open>Modules\<close> and the search for a module's file. The
  file system is a parameter, the record \<open>filesystem\<close>: what \<open>ioutil.ReadFile\<close> and
  \<open>ioutil.ReadDir\<close> return, and a bound on the nesting of directories, which the recursion of
  \<open>findInDir\<close> uses up. The functions of \<open>path/filepath\<close> are those of a Unix system.
\<close>

subsection \<open>Package path/filepath\<close>

text \<open>The elements of a clean path, last first; \<open>..\<close> cancels an element if it can.\<close>

fun clean_elems :: "bool \<Rightarrow> string list \<Rightarrow> string list \<Rightarrow> string list" where
  "clean_elems rooted acc [] = acc"
| "clean_elems rooted acc (e # es) =
     (if e = [] \<or> e = ''.'' then clean_elems rooted acc es
      else if e = ''..'' then
        (case acc of
           [] \<Rightarrow> clean_elems rooted (if rooted then [] else [e]) es
         | a # as \<Rightarrow> clean_elems rooted (if a = ''..'' then e # a # as else as) es)
      else clean_elems rooted (e # acc) es)"

definition filepath_Clean :: "string \<Rightarrow> string" where
  "filepath_Clean p =
     (let rooted = go_has_prefix p ''/'';
          body = go_join (rev (clean_elems rooted [] (go_split p ''/''))) ''/''
      in if rooted then ''/'' @ body else if body = [] then ''.'' else body)"

definition filepath_Join :: "string \<Rightarrow> string \<Rightarrow> string" where
  "filepath_Join a b =
     (if a = [] \<and> b = [] then [] else if a = [] then filepath_Clean b
      else if b = [] then filepath_Clean a else filepath_Clean (a @ ''/'' @ b))"

definition is_slash :: "char \<Rightarrow> bool" where
  "is_slash c \<longleftrightarrow> c = CHR ''/''"

definition filepath_Dir :: "string \<Rightarrow> string" where
  "filepath_Dir p = filepath_Clean (rev (dropWhile (\<lambda>c. \<not> is_slash c) (rev p)))"

definition filepath_Base :: "string \<Rightarrow> string" where
  "filepath_Base p =
     (if p = [] then ''.''
      else (let q = rev (takeWhile (\<lambda>c. \<not> is_slash c) (dropWhile is_slash (rev p)))
            in if q = [] then ''/'' else q))"

subsection \<open>The search path\<close>

record search_path =
  sp_Path :: "string list"
  sp_pathMap :: "string set"

text \<open>\<open>AddPath\<close>: its inner loop over the directories of one argument, then all arguments.\<close>

fun add_dirs :: "string list \<Rightarrow> 'a search_path_scheme \<Rightarrow> 'a search_path_scheme" where
  "add_dirs [] ms = ms"
| "add_dirs (p # ps) ms =
     (if p \<in> sp_pathMap ms then add_dirs ps ms
      else add_dirs ps (ms\<lparr>sp_pathMap := insert p (sp_pathMap ms), sp_Path := sp_Path ms @ [p]\<rparr>))"

fun AddPath :: "string list \<Rightarrow> 'a search_path_scheme \<Rightarrow> 'a search_path_scheme" where
  "AddPath [] ms = ms"
| "AddPath (path # paths) ms = AddPath paths (add_dirs (go_split path '':'') ms)"

subsection \<open>Finding a file\<close>

record filesystem =
  fs_readFile :: "string \<Rightarrow> string option"
  fs_readDir :: "string \<Rightarrow> (string \<times> bool) list option"  \<comment> \<open>names, and which are directories\<close>
  fs_depth :: nat

text \<open>\<open>revisionDateSuffixRegex\<close>: a date after an @ and the suffix .yang.\<close>

definition is_date :: "string \<Rightarrow> bool" where
  "is_date d \<longleftrightarrow> length d = 10 \<and> d ! 4 = CHR ''-'' \<and> d ! 7 = CHR ''-''
     \<and> list_all (\<lambda>i. CHR ''0'' \<le> d ! i \<and> d ! i \<le> CHR ''9'') [0, 1, 2, 3, 5, 6, 8, 9]"

definition revisionDateSuffix :: "string \<Rightarrow> bool" where
  "revisionDateSuffix s \<longleftrightarrow> length s = 16 \<and> go_has_prefix s ''@'' \<and> is_date (take 10 (drop 1 s))
     \<and> drop 11 s = ''.yang''"

definition is_revision_of :: "string \<Rightarrow> string \<Rightarrow> bool" where
  "is_revision_of mname fn \<longleftrightarrow> go_has_prefix fn mname \<and> revisionDateSuffix (go_trim_prefix fn mname)"

text \<open>The file with the latest revision, or the empty string.\<close>

definition latest_revision_file :: "string \<Rightarrow> string list \<Rightarrow> string" where
  "latest_revision_file dir revs = (if revs = [] then [] else filepath_Join dir (last (sort_strings revs)))"

text \<open>\<open>findInDir\<close> and its loop over the entries of the directory.\<close>

fun findInDir :: "filesystem \<Rightarrow> nat \<Rightarrow> string \<Rightarrow> string \<Rightarrow> bool \<Rightarrow> string"
  and scan_entries :: "filesystem \<Rightarrow> nat \<Rightarrow> string \<Rightarrow> string \<Rightarrow> bool \<Rightarrow> (string \<times> bool) list
        \<Rightarrow> string list \<Rightarrow> string" where
  "findInDir fs n dir name recurse =
     (case fs_readDir fs dir of
        None \<Rightarrow> []
      | Some fis \<Rightarrow> scan_entries fs n dir name recurse fis [])"
| "scan_entries fs n dir name recurse [] revs = latest_revision_file dir revs"
| "scan_entries fs n dir name recurse ((fn, is_dir) # fis) revs =
     (if \<not> is_dir then
        (if fn = name then filepath_Join dir name
         else scan_entries fs n dir name recurse fis
                (if is_revision_of (go_trim_suffix name ''.yang'') fn then revs @ [fn] else revs))
      else if recurse then
        (case n of
           0 \<Rightarrow> []
         | Suc m \<Rightarrow>
             (let r = findInDir fs m (filepath_Join dir fn) name recurse
              in if r \<noteq> [] then r else scan_entries fs n dir name recurse fis revs))
      else scan_entries fs n dir name recurse fis revs)"

declare findInDir.simps [simp del]

definition scanDir :: "filesystem \<Rightarrow> string \<Rightarrow> string \<Rightarrow> bool \<Rightarrow> string" where
  "scanDir fs dir name recurse = findInDir fs (fs_depth fs) dir name recurse"

definition no_such_file :: "string \<Rightarrow> string" where
  "no_such_file name = ''no such file: '' @ name"

text \<open>The loop over the search path: the name of the file found and its contents.\<close>

fun search_dirs :: "filesystem \<Rightarrow> string \<Rightarrow> string list \<Rightarrow> (string \<times> string) option" where
  "search_dirs fs name [] = None"
| "search_dirs fs name (dir # dirs) =
     (let n = (if filepath_Base dir = ''...'' then scanDir fs (filepath_Dir dir) name True
               else scanDir fs dir name False)
      in if n = [] then search_dirs fs name dirs
         else (case fs_readFile fs n of
                 Some data \<Rightarrow> Some (n, data)
               | None \<Rightarrow> search_dirs fs name dirs))"

definition file_name :: "filesystem \<Rightarrow> string \<Rightarrow> string" where
  "file_name fs name =
     (if go_index name ''/'' = None \<and> \<not> go_has_suffix name ''.yang'' then
        (let n = name @ ''.yang''; best = scanDir fs ''.'' n False in if best \<noteq> [] then best else n)
      else name)"

definition findFile :: "filesystem \<Rightarrow> string \<Rightarrow> 'a search_path_scheme
    \<Rightarrow> 'a search_path_scheme \<times> (string + string \<times> string)" where
  "findFile fs name0 ms =
     (let name = file_name fs name0
      in case fs_readFile fs name of
           Some data \<Rightarrow> (AddPath [filepath_Dir name] ms, Inr (name, data))
         | None \<Rightarrow>
             if go_index name0 ''/'' \<noteq> None then (ms, Inl (no_such_file name))
             else (case search_dirs fs name (sp_Path ms) of
                     Some r \<Rightarrow> (ms, Inr r)
                   | None \<Rightarrow> (ms, Inl (no_such_file name))))"

subsection \<open>The directories below a root\<close>

text \<open>
  \<open>PathsWithModules\<close>: \<open>visits\<close> is what \<open>filepath.Walk\<close> reports, in order: a path, whether it is
  a directory (\<open>None\<close> when there is no info) and an error. The walk ends with the first error.
\<close>

fun walk_paths :: "(string \<times> bool option \<times> string option) list \<Rightarrow> string list \<Rightarrow> string list \<times> string option" where
  "walk_paths [] paths = (paths, None)"
| "walk_paths ((p, info, e) # visits) paths =
     (case e of
        Some err \<Rightarrow> (paths, Some err)
      | None \<Rightarrow>
          (let dir = filepath_Dir p
           in walk_paths visits
                (if info = Some False \<and> go_has_suffix p ''.yang'' \<and> dir \<notin> set paths
                 then paths @ [dir] else paths)))"

definition PathsWithModules :: "(string \<times> bool option \<times> string option) list \<Rightarrow> string list \<times> string option" where
  "PathsWithModules visits = walk_paths visits []"

subsection \<open>The search path has no duplicates\<close>

definition path_ok :: "'a search_path_scheme \<Rightarrow> bool" where
  "path_ok ms \<longleftrightarrow> distinct (sp_Path ms) \<and> sp_pathMap ms = set (sp_Path ms)"

lemma add_dirs_ok: "path_ok ms \<Longrightarrow> path_ok (add_dirs ps ms) \<and> sp_pathMap (add_dirs ps ms) = sp_pathMap ms \<union> set ps"
  by (induction ps ms rule: add_dirs.induct) (auto simp: path_ok_def)

lemma AddPath_ok:
  "path_ok ms \<Longrightarrow> path_ok (AddPath ps ms)
     \<and> sp_pathMap (AddPath ps ms) = sp_pathMap ms \<union> (\<Union>p\<in>set ps. set (go_split p '':''))"
  by (induction ps ms rule: AddPath.induct) (auto simp: add_dirs_ok)

lemma add_dirs_known: "set ps \<subseteq> sp_pathMap ms \<Longrightarrow> add_dirs ps ms = ms"
  by (induction ps ms rule: add_dirs.induct) auto

lemma AddPath_known: "(\<Union>p\<in>set ps. set (go_split p '':'')) \<subseteq> sp_pathMap ms \<Longrightarrow> AddPath ps ms = ms"
  by (induction ps ms rule: AddPath.induct) (auto simp: add_dirs_known)

subsection \<open>Which file is found\<close>

lemma Clean_nonempty: "filepath_Clean p \<noteq> []"
  by (simp add: filepath_Clean_def Let_def)

lemma Join_nonempty: "b \<noteq> [] \<Longrightarrow> filepath_Join a b \<noteq> []"
  by (simp add: filepath_Join_def Clean_nonempty)

lemma scan_entries_flat:
  "scan_entries fs n dir name False fis revs =
     (if (name, False) \<in> set fis then filepath_Join dir name
      else latest_revision_file dir
        (revs @ List.map fst (List.filter (\<lambda>(fn, d). \<not> d \<and> is_revision_of (go_trim_suffix name ''.yang'') fn) fis)))"
proof (induction fis arbitrary: revs)
  case (Cons e fis)
  obtain fn d where e: "e = (fn, d)" by (cases e)
  show ?case
  proof (cases d)
    case False
    then show ?thesis by (cases "fn = name") (simp_all add: Cons e)
  qed (simp add: Cons e)
qed simp

lemma sorted_last: "sorted xs \<Longrightarrow> y \<in> set xs \<Longrightarrow> y \<le> last (xs :: 'a::linorder list)"
  by (induction xs) (auto split: if_splits)

lemma last_sort_strings:
  assumes "xs \<noteq> []"
  shows "last (sort_strings xs) = Max (set xs)"
proof -
  have s: "set (sort_strings xs) = set xs" by (simp add: sort_strings_def)
  then have ne: "sort_strings xs \<noteq> []" using assms by force
  have "y \<le> last (sort_strings xs)" if "y \<in> set (sort_strings xs)" for y
    using sorted_last [OF sort_strings_sorted that] .
  then show ?thesis using s ne by (metis List.finite_set Max_eqI last_in_set)
qed

text \<open>
  The recursion of \<open>findInDir\<close> needs no more fuel than the depth of the directory tree: when
  \<open>rank\<close> decreases from each directory to its sub-directories, any fuel of at least the rank of
  the directory gives the same result.
\<close>

definition ranked :: "filesystem \<Rightarrow> (string \<Rightarrow> nat) \<Rightarrow> bool" where
  "ranked fs rank \<longleftrightarrow> (\<forall>dir fis fn. fs_readDir fs dir = Some fis \<longrightarrow> (fn, True) \<in> set fis
     \<longrightarrow> rank (filepath_Join dir fn) < rank dir)"

lemma findInDir_fuel:
  "ranked fs rank \<Longrightarrow> rank dir \<le> n \<Longrightarrow> rank dir \<le> m \<Longrightarrow> findInDir fs n dir name r = findInDir fs m dir name r"
proof (induction "rank dir" arbitrary: dir n m rule: less_induct)
  case less
  have "scan_entries fs n dir name r fis revs = scan_entries fs m dir name r fis revs"
    if "fs_readDir fs dir = Some all" "set fis \<subseteq> set all" for fis revs all
    using that(2)
  proof (induction fis arbitrary: revs)
    case (Cons e fis)
    obtain fn d where e: "e = (fn, d)" by (cases e)
    show ?case
    proof (cases d)
      case True
      then have lt: "rank (filepath_Join dir fn) < rank dir"
        using less(2) that(1) Cons(2) e by (auto simp: ranked_def)
      then obtain n' m' where nm: "n = Suc n'" "m = Suc m'"
        using less(3,4) by (metis Suc_le_D Suc_leI le_trans not_less_eq_eq old.nat.exhaust zero_order(1) le_zero_eq not_less_zero)
      have "findInDir fs n' (filepath_Join dir fn) name r = findInDir fs m' (filepath_Join dir fn) name r"
        using less(1) [OF lt less(2)] lt less(3,4) nm by simp
      then show ?thesis using Cons e True nm by (cases r) (simp_all add: Let_def)
    next
      case False
      then show ?thesis using Cons e by simp
    qed
  qed simp
  then show ?case by (simp add: findInDir.simps split: option.split)
qed

text \<open>The first entry that decides: the file of the name, or a directory that has a file for it.\<close>

definition decides :: "(string \<Rightarrow> string) \<Rightarrow> string \<Rightarrow> string \<Rightarrow> string \<times> bool \<Rightarrow> string option" where
  "decides sub dir name = (\<lambda>(fn, is_dir).
     if is_dir then (if sub (filepath_Join dir fn) = [] then None else Some (sub (filepath_Join dir fn)))
     else if fn = name then Some (filepath_Join dir name) else None)"

definition revisions_in :: "string \<Rightarrow> (string \<times> bool) list \<Rightarrow> string set" where
  "revisions_in name fis = {fn. (fn, False) \<in> set fis \<and> is_revision_of (go_trim_suffix name ''.yang'') fn}"

lemma scan_entries_deep:
  assumes "\<And>fn. (fn, True) \<in> set fis \<Longrightarrow> 0 < n \<and> findInDir fs (n - 1) (filepath_Join dir fn) name True = sub (filepath_Join dir fn)"
  shows "scan_entries fs n dir name True fis revs =
     (case List.map_filter (decides sub dir name) fis of
        x # _ \<Rightarrow> x
      | [] \<Rightarrow> latest_revision_file dir
          (revs @ List.map fst (List.filter (\<lambda>(fn, d). \<not> d \<and> is_revision_of (go_trim_suffix name ''.yang'') fn) fis)))"
  using assms
proof (induction fis arbitrary: revs)
  case Nil
  then show ?case by (simp add: map_filter_simps)
next
  case (Cons e fis)
  obtain fn d where e: "e = (fn, d)" by (cases e)
  have IH: "scan_entries fs n dir name True fis revs =
     (case List.map_filter (decides sub dir name) fis of
        x # _ \<Rightarrow> x
      | [] \<Rightarrow> latest_revision_file dir
          (revs @ List.map fst (List.filter (\<lambda>(fn, d). \<not> d \<and> is_revision_of (go_trim_suffix name ''.yang'') fn) fis)))" for revs
    by (rule Cons.IH) (use Cons.prems in auto)
  show ?case
  proof (cases d)
    case True
    then obtain m where m: "n = Suc m" "findInDir fs m (filepath_Join dir fn) name True = sub (filepath_Join dir fn)"
      using Cons.prems [of fn] e by (cases n) auto
    have dec: "decides sub dir name e = (if sub (filepath_Join dir fn) = [] then None else Some (sub (filepath_Join dir fn)))"
      using True by (simp add: decides_def e)
    have step: "scan_entries fs n dir name True (e # fis) revs
        = (if sub (filepath_Join dir fn) \<noteq> [] then sub (filepath_Join dir fn) else scan_entries fs n dir name True fis revs)"
      using True m by (simp add: e Let_def)
    show ?thesis
      using True unfolding step IH map_filter_simps dec
      by (cases "List.map_filter (decides sub dir name) fis") (simp_all add: e)
  next
    case False
    have dec: "decides sub dir name e = (if fn = name then Some (filepath_Join dir name) else None)"
      using False by (simp add: decides_def e)
    show ?thesis
      using False unfolding map_filter_simps dec
      by (cases "fn = name"; cases "List.map_filter (decides sub dir name) fis") (simp_all add: e IH)
  qed
qed

lemma latest_of_revisions:
  "latest_revision_file dir (List.map fst (List.filter (\<lambda>(fn, d). \<not> d \<and> is_revision_of (go_trim_suffix name ''.yang'') fn) fis))
     = (if revisions_in name fis = {} then [] else filepath_Join dir (Max (revisions_in name fis)))"
proof -
  have "revisions_in name fis
      = set (List.map fst (List.filter (\<lambda>(fn, d). \<not> d \<and> is_revision_of (go_trim_suffix name ''.yang'') fn) fis))"
    unfolding revisions_in_def by force
  then show ?thesis by (simp add: latest_revision_file_def last_sort_strings del: set_map)
qed

text \<open>C30: which file of a directory is taken for a module. (1) Without recursion, \<open>findInDir\<close> returns
  the file with exactly the name looked for if the directory has it, wherever it stands; if not,
  the file with the greatest revision date among those named after the module with a date; and
  nothing if there is none or the directory cannot be read. (2) With recursion, in a tree of directories
  whose depth is at most \<open>fs_depth\<close>, the entries are looked at in their order, and the first decides that is
  either the file of that name or a directory in which the search finds one; the revisions in the directory itself
  count only when no entry decides. So, unlike what its comment says, a revision in a sub-directory is taken
  before the file with exactly the name when the sub-directory comes first, as in the witness.\<close>

theorem find_in_dir:
  "scanDir fs dir name False =
     (case fs_readDir fs dir of
        None \<Rightarrow> []
      | Some fis \<Rightarrow>
          if (name, False) \<in> set fis then filepath_Join dir name
          else if revisions_in name fis = {} then [] else filepath_Join dir (Max (revisions_in name fis)))
   \<and> (\<forall>rank. ranked fs rank \<and> rank dir \<le> fs_depth fs \<longrightarrow>
     scanDir fs dir name True =
     (case fs_readDir fs dir of
        None \<Rightarrow> []
      | Some fis \<Rightarrow>
          (case List.map_filter (decides (\<lambda>sub. scanDir fs sub name True) dir name) fis of
             x # _ \<Rightarrow> x
           | [] \<Rightarrow> if revisions_in name fis = {} then [] else filepath_Join dir (Max (revisions_in name fis)))))"
proof (intro conjI allI impI)
  show "scanDir fs dir name False =
     (case fs_readDir fs dir of
        None \<Rightarrow> []
      | Some fis \<Rightarrow>
          if (name, False) \<in> set fis then filepath_Join dir name
          else if revisions_in name fis = {} then [] else filepath_Join dir (Max (revisions_in name fis)))"
    using latest_of_revisions
    by (simp add: scanDir_def findInDir.simps scan_entries_flat split: option.split)
  fix rank assume r: "ranked fs rank \<and> rank dir \<le> fs_depth fs"
  have sub: "0 < fs_depth fs \<and> findInDir fs (fs_depth fs - 1) (filepath_Join dir fn) name True = scanDir fs (filepath_Join dir fn) name True"
    if "fs_readDir fs dir = Some fis" "(fn, True) \<in> set fis" for fis fn
  proof -
    have "rank (filepath_Join dir fn) < rank dir" using r that unfolding ranked_def by blast
    then have "rank (filepath_Join dir fn) \<le> fs_depth fs - 1" "0 < fs_depth fs" "rank (filepath_Join dir fn) \<le> fs_depth fs"
      using r by auto
    then show ?thesis unfolding scanDir_def using findInDir_fuel r by blast
  qed
  show "scanDir fs dir name True =
     (case fs_readDir fs dir of
        None \<Rightarrow> []
      | Some fis \<Rightarrow>
          (case List.map_filter (decides (\<lambda>sub. scanDir fs sub name True) dir name) fis of
             x # _ \<Rightarrow> x
           | [] \<Rightarrow> if revisions_in name fis = {} then [] else filepath_Join dir (Max (revisions_in name fis))))"
  proof (cases "fs_readDir fs dir")
    case None
    then show ?thesis by (simp add: scanDir_def findInDir.simps)
  next
    case (Some fis)
    have "scanDir fs dir name True = scan_entries fs (fs_depth fs) dir name True fis []"
      using Some by (simp add: scanDir_def findInDir.simps)
    also have "\<dots> = (case List.map_filter (decides (\<lambda>sub. scanDir fs sub name True) dir name) fis of
             x # _ \<Rightarrow> x
           | [] \<Rightarrow> if revisions_in name fis = {} then [] else filepath_Join dir (Max (revisions_in name fis)))"
      using scan_entries_deep [of fis "fs_depth fs" fs dir name "\<lambda>s. scanDir fs s name True" "[]"] sub [OF Some]
      by (cases "List.map_filter (decides (\<lambda>s. scanDir fs s name True) dir name) fis") (simp_all add: latest_of_revisions)
    finally show ?thesis using Some by simp
  qed
qed

definition nested_dirs :: filesystem where
  "nested_dirs = \<lparr>fs_readFile = (\<lambda>_. None),
     fs_readDir = (\<lambda>d. if d = ''d'' then Some [(''a'', True), (''m.yang'', False)]
       else if d = ''d/a'' then Some [(''m@2020-01-01.yang'', False)] else None), fs_depth = 1\<rparr>"

lemma nested_ranked: "ranked nested_dirs (\<lambda>d. if d = ''d'' then 1 else 0)"
proof -
  have "filepath_Join ''d'' ''a'' = ''d/a''" by code_simp
  then show ?thesis by (auto simp: ranked_def nested_dirs_def split: if_splits)
qed

theorem find_in_dir_witness:
  "scanDir nested_dirs ''d'' ''m.yang'' False = ''d/m.yang''
   \<and> scanDir nested_dirs ''d'' ''m.yang'' True = ''d/a/m@2020-01-01.yang''"
proof -
  have join: "filepath_Join ''d'' ''a'' = ''d/a''" "filepath_Join ''d'' ''m.yang'' = ''d/m.yang''"
    "filepath_Join ''d/a'' ''m@2020-01-01.yang'' = ''d/a/m@2020-01-01.yang''" by code_simp+
  have rev: "is_revision_of (go_trim_suffix ''m.yang'' ''.yang'') ''m@2020-01-01.yang''" by code_simp
  have revs: "revisions_in ''m.yang'' [(''m@2020-01-01.yang'', False)] = {''m@2020-01-01.yang''}"
    using rev by (auto simp: revisions_in_def)
  note deep = find_in_dir [of nested_dirs _ "''m.yang''", THEN conjunct2, rule_format, OF conjI [OF nested_ranked]]
  have "scanDir nested_dirs ''d/a'' ''m.yang'' True = ''d/a/m@2020-01-01.yang''"
    by (subst deep) (simp_all add: nested_dirs_def map_filter_simps decides_def revs join)
  then have "scanDir nested_dirs ''d'' ''m.yang'' True = ''d/a/m@2020-01-01.yang''"
    by (subst deep) (simp_all add: nested_dirs_def map_filter_simps decides_def join)
  moreover have "scanDir nested_dirs ''d'' ''m.yang'' False = ''d/m.yang''"
    by (subst find_in_dir [THEN conjunct1]) (simp add: nested_dirs_def join)
  ultimately show ?thesis by blast
qed

end
