(* ===== verification/Nodes.thy ===== *)
theory Nodes
  imports AstBuild Numbers
begin

text \<open>
  Reading the AST: the methods of \<open>yang.go\<close> and those functions of \<open>node.go\<close> that only look at
  the nodes. A pointer to a node is its address; a nil pointer is \<open>None\<close>. The loops up the
  parents take fuel, and the address of the node is enough of it in a heap where parents come
  before their children (\<open>parents_below\<close>), which \<open>build\<close> keeps.
\<close>

type_synonym heap = "node list"

subsection \<open>The methods of Node\<close>

definition node_Kind :: "heap \<Rightarrow> nat \<Rightarrow> string" where
  "node_Kind h a =
     (if nd_type (h ! a) = ''Module''
      then (if field h a ''BelongsTo'' \<noteq> [] then ''submodule'' else ''module'')
      else (case map_of struct_kinds (nd_type (h ! a)) of Some k \<Rightarrow> k | None \<Rightarrow> []))"

definition ParentNode :: "heap \<Rightarrow> nat \<Rightarrow> nat option" where
  "ParentNode h a = nd_parent (h ! a)"

definition node_NName :: "heap \<Rightarrow> nat \<Rightarrow> string" where
  "node_NName h a = nd_name (h ! a)"

definition Source :: "heap \<Rightarrow> nat option \<Rightarrow> string" where
  "Source h n =
     (case n of
        None \<Rightarrow> ''unknown''
      | Some a \<Rightarrow> (case nd_source (h ! a) of None \<Rightarrow> ''unknown'' | Some s \<Rightarrow> Location s))"

text \<open>A pointer field, and the \<open>Name\<close> of the node it points to.\<close>

definition ptr :: "heap \<Rightarrow> nat \<Rightarrow> string \<Rightarrow> nat option" where
  "ptr h a f = (case field h a f of [] \<Rightarrow> None | b # _ \<Rightarrow> Some b)"

subsection \<open>Values\<close>

datatype value_error =
    NumberError number_error
  | ValueRequired int int
  | ValueOutOfRange string int int
  | InvalidBoolean string

definition asRangeInt :: "heap \<Rightarrow> nat option \<Rightarrow> int \<Rightarrow> int \<Rightarrow> value_error + int" where
  "asRangeInt h v mn mx =
     (case v of
        None \<Rightarrow> Inl (ValueRequired mn mx)
      | Some a \<Rightarrow>
          (case ParseInt (nd_name (h ! a)) of
             Inl e \<Rightarrow> Inl (NumberError e)
           | Inr n \<Rightarrow>
               (case Number_Int n of
                  Inl e \<Rightarrow> Inl (NumberError e)
                | Inr i \<Rightarrow>
                    if i < mn \<or> mx < i then Inl (ValueOutOfRange (nd_name (h ! a)) mn mx) else Inr i)))"

definition asBool :: "heap \<Rightarrow> nat option \<Rightarrow> value_error + bool" where
  "asBool h v =
     (case v of
        None \<Rightarrow> Inr False
      | Some a \<Rightarrow>
          if nd_name (h ! a) = ''true'' then Inr True
          else if nd_name (h ! a) = ''false'' then Inr False
          else Inl (InvalidBoolean (nd_name (h ! a))))"

definition asString :: "heap \<Rightarrow> nat option \<Rightarrow> string" where
  "asString h v = (case v of None \<Rightarrow> [] | Some a \<Rightarrow> nd_name (h ! a))"

subsection \<open>Modules\<close>

definition module_Current :: "heap \<Rightarrow> nat \<Rightarrow> string" where
  "module_Current h m =
     foldl (\<lambda>rev r. if string_less rev (nd_name (h ! r)) then nd_name (h ! r) else rev) []
       (field h m ''Revision'')"

definition module_FullName :: "heap \<Rightarrow> nat \<Rightarrow> string" where
  "module_FullName h m =
     (let rev = module_Current h m
      in if rev \<noteq> [] then nd_name (h ! m) @ ''@'' @ rev else nd_name (h ! m))"

definition module_getPrefix :: "heap \<Rightarrow> nat option \<Rightarrow> nat option" where
  "module_getPrefix h s =
     (case s of
        None \<Rightarrow> None
      | Some m \<Rightarrow>
          if node_Kind h m = ''module'' \<and> ptr h m ''Prefix'' \<noteq> None then ptr h m ''Prefix''
          else if node_Kind h m = ''submodule''
          then Option.bind (ptr h m ''BelongsTo'') (\<lambda>b. ptr h b ''Prefix'')
          else None)"

definition module_GetPrefix :: "heap \<Rightarrow> nat option \<Rightarrow> string" where
  "module_GetPrefix h s = asString h (module_getPrefix h s)"

subsection \<open>Names with a prefix\<close>

definition getPrefix :: "string \<Rightarrow> string \<times> string" where
  "getPrefix s =
     (case go_split2 s '':'' of
        [a, b] \<Rightarrow> (a, b)
      | _ \<Rightarrow> ([], s))"

subsection \<open>Up the parents\<close>

fun top_node :: "nat \<Rightarrow> heap \<Rightarrow> nat \<Rightarrow> nat option" where
  "top_node 0 h a = None"
| "top_node (Suc n) h a =
     (case ParentNode h a of None \<Rightarrow> Some a | Some p \<Rightarrow> top_node n h p)"

definition RootNode :: "heap \<Rightarrow> nat \<Rightarrow> nat option" where
  "RootNode h a =
     (case top_node (Suc a) h a of
        None \<Rightarrow> None
      | Some t \<Rightarrow> if nd_type (h ! t) = ''Module'' then Some t else None)"

fun NodePath_loop :: "nat \<Rightarrow> heap \<Rightarrow> nat option \<Rightarrow> string \<Rightarrow> string" where
  "NodePath_loop 0 h n path = path"
| "NodePath_loop (Suc k) h n path =
     (case n of
        None \<Rightarrow> path
      | Some a \<Rightarrow> NodePath_loop k h (ParentNode h a) (''/'' @ node_NName h a @ path))"

definition NodePath :: "heap \<Rightarrow> nat option \<Rightarrow> string" where
  "NodePath h n = (case n of None \<Rightarrow> [] | Some a \<Rightarrow> NodePath_loop (Suc (Suc a)) h n [])"

subsection \<open>Identities\<close>

definition identity_PrefixedName :: "heap \<Rightarrow> nat \<Rightarrow> string" where
  "identity_PrefixedName h i = module_GetPrefix h (RootNode h i) @ '':'' @ nd_name (h ! i)"

definition identity_GetValue :: "heap \<Rightarrow> nat \<Rightarrow> string \<Rightarrow> nat option" where
  "identity_GetValue h i name = List.find (\<lambda>v. nd_name (h ! v) = name) (nd_values (h ! i))"

definition identity_IsDefined :: "heap \<Rightarrow> nat \<Rightarrow> string \<Rightarrow> bool" where
  "identity_IsDefined h i name \<longleftrightarrow> identity_GetValue h i name \<noteq> None"

subsection \<open>Parents come first\<close>

definition parents_below :: "heap \<Rightarrow> bool" where
  "parents_below h \<longleftrightarrow> (\<forall>a<length h. \<forall>p. nd_parent (h ! a) = Some p \<longrightarrow> p < a)"

lemma top_node_fuel:
  "parents_below h \<Longrightarrow> a < length h \<Longrightarrow> a < n \<Longrightarrow> top_node n h a = top_node (Suc a) h a"
proof (induction a arbitrary: n rule: less_induct)
  case (less a)
  obtain m where m: "n = Suc m" using less(4) by (cases n) auto
  show ?case
  proof (cases "nd_parent (h ! a)")
    case (Some p)
    then have "p < a" using less(2,3) by (auto simp: parents_below_def)
    then have "top_node m h p = top_node a h p"
      using less(1) [of p m] less(1) [of p a] less(2-4) m by simp
    then show ?thesis using Some m by (simp add: ParentNode_def)
  qed (simp add: m ParentNode_def)
qed

lemma top_node_unfold:
  assumes "parents_below h" "a < length h"
  shows "top_node (Suc a) h a =
    (case nd_parent (h ! a) of None \<Rightarrow> Some a | Some p \<Rightarrow> top_node (Suc p) h p)"
proof (cases "nd_parent (h ! a)")
  case (Some p)
  then have "p < a" using assms by (auto simp: parents_below_def)
  then show ?thesis
    using Some top_node_fuel [OF assms(1), of p a] assms(2) by (simp add: ParentNode_def)
qed (simp add: ParentNode_def)

lemma top_node_total:
  "parents_below h \<Longrightarrow> a < length h \<Longrightarrow>
     \<exists>t\<le>a. top_node (Suc a) h a = Some t \<and> nd_parent (h ! t) = None"
proof (induction a rule: less_induct)
  case (less a)
  show ?case
  proof (cases "nd_parent (h ! a)")
    case (Some p)
    then have "p < a" using less(2,3) by (auto simp: parents_below_def)
    then show ?thesis
      using less(1) [of p] less(2,3) Some top_node_unfold [OF less(2,3)] by (auto intro: order.trans)
  qed (use top_node_unfold [OF less(2,3)] in auto)
qed

text \<open>The nodes that one \<open>build\<close> adds hang together: their root is the parent it was given.\<close>

definition hangs :: "nat \<Rightarrow> nat \<Rightarrow> heap \<Rightarrow> bool" where
  "hangs v i0 h \<longleftrightarrow> (\<forall>i. i0 \<le> i \<longrightarrow> i < length h \<longrightarrow> (\<exists>q. nd_parent (h ! i) = Some q \<and> v \<le> q \<and> q < i))"

lemma hangs_trans:
  assumes "hangs v (length a) b" "hangs v (length b) c" "grown {v} b c" "v < length a"
  shows "hangs v (length a) c"
  unfolding hangs_def
proof (intro allI impI)
  fix i assume i: "length a \<le> i" "i < length c"
  show "\<exists>q. nd_parent (c ! i) = Some q \<and> v \<le> q \<and> q < i"
  proof (cases "i < length b")
    case True
    moreover from this have "c ! i = b ! i" using assms(3,4) i by (auto simp: grown_def)
    ultimately show ?thesis using assms(1) i by (simp add: hangs_def)
  next
    case False
    then show ?thesis using assms(2) i by (simp add: hangs_def)
  qed
qed

lemma build_hangs:
  "build s p st = (st', r) \<Longrightarrow> ast_nodes st' = ast_nodes st
     \<or> (length (ast_nodes st) < length (ast_nodes st')
        \<and> nd_parent (ast_nodes st' ! length (ast_nodes st)) = p
        \<and> hangs (length (ast_nodes st)) (Suc (length (ast_nodes st))) (ast_nodes st'))"
  "build_subs s y v p sss st = (st', e) \<Longrightarrow> v < length (ast_nodes st) \<Longrightarrow>
     nd_parent (ast_nodes st ! v) = p \<Longrightarrow> type_of_keyword (Keyword s) = Some (t, y) \<Longrightarrow>
     nd_parent (ast_nodes st' ! v) = p \<and> hangs v (length (ast_nodes st)) (ast_nodes st')"
  "build_sub s y v p ss st = (st', e) \<Longrightarrow> v < length (ast_nodes st) \<Longrightarrow>
     nd_parent (ast_nodes st ! v) = p \<Longrightarrow> type_of_keyword (Keyword s) = Some (t, y) \<Longrightarrow>
     nd_parent (ast_nodes st' ! v) = p \<and> hangs v (length (ast_nodes st)) (ast_nodes st')"
proof (induction s p st and s y v p sss st and s y v p ss st arbitrary: st' r and st' e t and st' e t
    rule: build_build_subs_build_sub.induct)
  case (1 s parent st)
  have new: "length (ast_nodes st) < length (ast_nodes st1)
        \<and> nd_parent (ast_nodes st1 ! length (ast_nodes st)) = parent
        \<and> hangs (length (ast_nodes st)) (Suc (length (ast_nodes st))) (ast_nodes st1)"
    if "type_of_keyword (Keyword s) = Some (t, y)" "start_node t y s parent = Inr n"
      "build_subs s y (length (ast_nodes st)) parent (statements s) (st\<lparr>ast_nodes := ast_nodes st @ [n]\<rparr>) = (st1, e)"
    for t y n st1 e
  proof -
    have "nd_parent n = parent" using start_node_eq [OF that(1), of parent] that(2) by (auto simp: new_node_def)
    then show ?thesis
      using 1(1) [OF that(1) refl that(2) refl that(3) _ _ that(1)] build_grown(2) [OF that(3)]
      by (simp add: grown_def)
  qed
  from 1(2) show ?case
  proof (cases rule: build_cases)
    case (subs t y n e)
    with new [OF subs(1-3)] show ?thesis by simp
  next
    case (check t y n e)
    with new [OF check(1-3)] show ?thesis by simp
  next
    case (ok t y n st1)
    with new [OF ok(1-3)] show ?thesis by simp
  qed auto
next
  case (2 s y v parent st)
  then show ?case by (simp add: hangs_def)
next
  case (3 s y v parent ss rest st)
  obtain st1 e1 where b: "build_sub s y v parent ss st = (st1, e1)" by fastforce
  have one: "nd_parent (ast_nodes st1 ! v) = parent" "hangs v (length (ast_nodes st)) (ast_nodes st1)"
    and g: "grown {v} (ast_nodes st) (ast_nodes st1)"
    using 3(1) [OF b 3(4-6)] build_grown(3) [OF b] by simp_all
  show ?case
  proof (cases e1)
    case None
    with 3(3) b have r: "build_subs s y v parent rest st1 = (st', e)" by simp
    have v: "v < length (ast_nodes st1)" using 3(4) g by (simp add: grown_def)
    from 3(2) [OF b [symmetric] None r v one(1) 3(6)] show ?thesis
      using hangs_trans [OF one(2) _ build_grown(2) [OF r] 3(4)] by simp
  next
    case (Some x)
    with 3(3) b one show ?thesis by simp
  qed
next
  case (4 s y v parent ss st)
  have ih: "hangs v (length (ast_nodes st)) (ast_nodes st1) \<and> ast_nodes st1 ! v = ast_nodes st ! v"
    if "fills y v st ss f" "build ss (Some v) st = (st1, r)" for f st1 r
  proof -
    have "ast_nodes st1 = ast_nodes st \<or> length (ast_nodes st) < length (ast_nodes st1)
        \<and> nd_parent (ast_nodes st1 ! length (ast_nodes st)) = Some v
        \<and> hangs (length (ast_nodes st)) (Suc (length (ast_nodes st))) (ast_nodes st1)"
      using that 4(1) [of _ f] 4(2) [of _ f] unfolding fills_def by blast
    then have "hangs v (length (ast_nodes st)) (ast_nodes st1)"
    proof
      assume "ast_nodes st1 = ast_nodes st"
      then show ?thesis by (simp add: hangs_def)
    next
      assume new: "length (ast_nodes st) < length (ast_nodes st1)
        \<and> nd_parent (ast_nodes st1 ! length (ast_nodes st)) = Some v
        \<and> hangs (length (ast_nodes st)) (Suc (length (ast_nodes st))) (ast_nodes st1)"
      show ?thesis
        unfolding hangs_def
      proof (intro allI impI)
        fix i assume i: "length (ast_nodes st) \<le> i" "i < length (ast_nodes st1)"
        then consider "i = length (ast_nodes st)" | "Suc (length (ast_nodes st)) \<le> i" by linarith
        then show "\<exists>q. nd_parent (ast_nodes st1 ! i) = Some q \<and> v \<le> q \<and> q < i"
        proof cases
          case 2
          then obtain q where "nd_parent (ast_nodes st1 ! i) = Some q" "length (ast_nodes st) \<le> q" "q < i"
            using new i by (auto simp: hangs_def)
          then show ?thesis using 4(4) by auto
        qed (use new 4(4) in auto)
      qed
    qed
    then show ?thesis
      using build_grown(1) [OF that(2)] 4(4) by (simp add: grown_def)
  qed
  have up: "hangs v i (h[v := n])" if "hangs v i h" "v < i" for h i n
    using that by (auto simp: hangs_def nth_list_update)
  from 4(3) show ?case
  proof (cases rule: build_sub_cases)
    case (fail e')
    then show ?thesis using 4(5) by (simp add: hangs_def)
  next
    case (sub_fail f e')
    then show ?thesis using ih [OF sub_fail(1,2)] 4(5) by simp
  next
    case (sub f st1 a)
    have "v < length (ast_nodes st1)" using build_grown(1) [OF sub(2)] 4(4) by (simp add: grown_def)
    then show ?thesis using ih [OF sub(1,2)] sub 4(4,5) up by (simp add: add_sub_def)
  next
    case ext
    then show ?thesis using 4(4,5) by (simp add: add_ext_def hangs_def)
  next
    case (special b n)
    have "nd_parent n = parent"
      using special(2,3) 4(5) by (cases b) (auto split: if_splits option.splits)
    then show ?thesis using special 4(4) by (simp add: hangs_def)
  qed
qed

lemma build_parents_below:
  assumes "build s p st = (st', r)" "parents_below (ast_nodes st)"
    "\<And>q. p = Some q \<Longrightarrow> q < length (ast_nodes st)"
  shows "parents_below (ast_nodes st')"
  unfolding parents_below_def
proof (intro allI impI)
  fix b q assume b: "b < length (ast_nodes st')" "nd_parent (ast_nodes st' ! b) = Some q"
  have g: "grown {} (ast_nodes st) (ast_nodes st')" using build_grown(1) [OF assms(1)] by simp
  show "q < b"
  proof (cases "b < length (ast_nodes st)")
    case True
    then show ?thesis using b(2) assms(2) grown_nth [OF g] by (auto simp: parents_below_def)
  next
    case False
    then have h: "nd_parent (ast_nodes st' ! length (ast_nodes st)) = p"
      "hangs (length (ast_nodes st)) (Suc (length (ast_nodes st))) (ast_nodes st')"
      using build_hangs(1) [OF assms(1)] b(1) by auto
    show ?thesis
    proof (cases "b = length (ast_nodes st)")
      case True
      then show ?thesis using h(1) b(2) assms(3) by simp
    next
      case False
      with \<open>\<not> b < length (ast_nodes st)\<close> have "Suc (length (ast_nodes st)) \<le> b" by simp
      then show ?thesis using h(2) b by (auto simp: hangs_def)
    qed
  qed
qed

lemma build_root:
  assumes "build s None st = (st', Inr a)" "parents_below (ast_nodes st)"
  shows "a \<le> b \<Longrightarrow> b < length (ast_nodes st') \<Longrightarrow> top_node (Suc b) (ast_nodes st') b = Some a"
proof (induction b rule: less_induct)
  case (less b)
  have pb: "parents_below (ast_nodes st')" using build_parents_below [OF assms] by simp
  have a: "a = length (ast_nodes st)" using build_grown(1) [OF assms(1)] by simp
  have h: "nd_parent (ast_nodes st' ! a) = None" "hangs a (Suc a) (ast_nodes st')"
    using build_hangs(1) [OF assms(1)] less(2,3) a by auto
  show ?case
  proof (cases "b = a")
    case True
    then show ?thesis using top_node_unfold [OF pb less(3)] h(1) by simp
  next
    case False
    with less(2) have "Suc a \<le> b" by simp
    then obtain q where "nd_parent (ast_nodes st' ! b) = Some q" "a \<le> q" "q < b"
      using h(2) less(3) by (auto simp: hangs_def)
    then show ?thesis using less(1) [of q] less(3) top_node_unfold [OF pb less(3)] by simp
  qed
qed

text \<open>C28: every node knows its module. Building a module or submodule keeps parents before
  children in the heap, so that \<open>RootNode\<close> returns; it returns the new module for every node the
  build has made, and the same module as before for every earlier node.\<close>

theorem root_of_build:
  assumes "buildASTWithTypeDict s st = (st', Inr a)" "plain s" "Keyword s \<in> {''module'', ''submodule''}"
    "parents_below (ast_nodes st)"
  shows "parents_below (ast_nodes st')
    \<and> (\<forall>b. a \<le> b \<longrightarrow> b < length (ast_nodes st') \<longrightarrow> RootNode (ast_nodes st') b = Some a)
    \<and> (\<forall>b<a. RootNode (ast_nodes st') b = RootNode (ast_nodes st) b)"
proof -
  note b = assms(1) [unfolded buildASTWithTypeDict_def]
  have g: "grown {} (ast_nodes st) (ast_nodes st')" and a: "a = length (ast_nodes st)"
    using build_grown(1) [OF b] by auto
  have "mirrors (ast_nodes st') None s a" using build_partly(1) [OF b assms(2) refl] .
  then have "nd_type (ast_nodes st' ! a) = ''Module''" using assms(3) by cases auto
  then have new: "RootNode (ast_nodes st') b = Some a" if "a \<le> b" "b < length (ast_nodes st')" for b
    using build_root [OF b assms(4) that] by (simp add: RootNode_def)
  have top: "top_node n (ast_nodes st') x = top_node n (ast_nodes st) x" if "x < a" for n x
    using that
  proof (induction n arbitrary: x)
    case (Suc n)
    then have "ast_nodes st' ! x = ast_nodes st ! x" using grown_nth [OF g, of x] a by simp
    moreover have "q < a" if "nd_parent (ast_nodes st ! x) = Some q" for q
      using that assms(4) Suc.prems unfolding a parents_below_def by (meson less_trans)
    ultimately show ?case
      using Suc.IH by (simp add: ParentNode_def split: option.split)
  qed simp
  have old: "RootNode (ast_nodes st') x = RootNode (ast_nodes st) x" if x: "x < a" for x
  proof -
    obtain t where t: "t \<le> x" "top_node (Suc x) (ast_nodes st) x = Some t"
      using top_node_total [OF assms(4)] x a by blast
    moreover from t(1) have "ast_nodes st' ! t = ast_nodes st ! t" using grown_nth [OF g, of t] x a by simp
    ultimately show ?thesis using top [OF x] by (simp only: RootNode_def option.case)
  qed
  show ?thesis using build_parents_below [OF b assms(4)] new old by simp
qed

theorem root_of_build_witness:
  "\<exists>st' a. buildASTWithTypeDict sample_module empty_ast = (st', Inr a)
     \<and> RootNode (ast_nodes st') a = Some a \<and> parents_below (ast_nodes st')"
proof -
  obtain st' r where b: "build sample_module None empty_ast = (st', r)" by fastforce
  with build_accepts(1) [OF b sample_plain] sample_valid obtain a where r: "r = Inr a" by auto
  have b': "buildASTWithTypeDict sample_module empty_ast = (st', Inr a)"
    using b r by (simp add: buildASTWithTypeDict_def)
  have "a < length (ast_nodes st')"
    using build_partly(1) [OF b sample_plain r] by cases simp
  with root_of_build [OF b' sample_plain] b' show ?thesis
    by (auto simp: sample_module_def parents_below_def empty_ast_def)
qed

end
