(* ===== verification/ModuleSet.thy ===== *)
theory ModuleSet
  imports Parser Nodes Files
begin

text \<open>
  The type \<open>Modules\<close> of \<open>pkg/yang/modules.go\<close>: reading sources into it, looking modules up, and
  resolving the include and import statements. The record extends the search path of \<open>Files\<close>.
  The two maps of modules are association lists, whose order is the order in which Go's
  \<open>range\<close> happens to deliver the entries. The heap and the typedef dictionary are in \<open>ms_ast\<close>;
  the caches of \<open>entry.go\<close> are not part of this state.
\<close>

record modules = search_path +
  ms_Modules :: "(string \<times> nat) list"
  ms_SubModules :: "(string \<times> nat) list"
  ms_includes :: "nat set"
  ms_byNS :: "(string \<times> nat) list"
  ms_ast :: ast

record options =
  IgnoreSubmoduleCircularDependencies :: bool
  StoreUses :: bool
  IgnoreModuleResolveErrors :: bool

datatype load_error = LoadErr string | LoadPanic

abbreviation ms_heap :: "modules \<Rightarrow> heap" where
  "ms_heap ms \<equiv> ast_nodes (ms_ast ms)"

definition NewModules :: modules where
  "NewModules = \<lparr>sp_Path = [], sp_pathMap = {}, ms_Modules = [], ms_SubModules = [], ms_includes = {},
     ms_byNS = [], ms_ast = empty_ast\<rparr>"

subsection \<open>add\<close>

text \<open>The part of \<open>add\<close> that works on the map \<open>m\<close> for the kind of the node \<open>n\<close>.\<close>

definition add_to :: "heap \<Rightarrow> string \<Rightarrow> nat \<Rightarrow> (string \<times> nat) list \<Rightarrow> load_error + (string \<times> nat) list" where
  "add_to h kind n m =
     (let name = node_NName h n; fullName = module_FullName h n
      in case map_of m fullName of
           Some ob \<Rightarrow> Inl (LoadErr (''duplicate '' @ kind @ '' '' @ fullName @ '' at '' @ Source h (Some ob)
             @ '' and '' @ Source h (Some n)))
         | None \<Rightarrow>
             (let m1 = AList.update fullName n m
              in Inr (if fullName = name then m1
                 else (case map_of m1 name of
                         None \<Rightarrow> AList.update name n m1
                       | Some ob \<Rightarrow> if string_less (module_FullName h ob) fullName
                           then AList.update name n m1 else m1))))"

definition ms_add :: "nat \<Rightarrow> modules \<Rightarrow> modules \<times> load_error option" where
  "ms_add n ms =
     (let h = ms_heap ms; kind = node_Kind h n
      in if kind = ''module'' then
           (case add_to h kind n (ms_Modules ms) of
              Inl e \<Rightarrow> (ms, Some e)
            | Inr m \<Rightarrow> (ms\<lparr>ms_Modules := m\<rparr>, None))
         else if kind = ''submodule'' then
           (case add_to h kind n (ms_SubModules ms) of
              Inl e \<Rightarrow> (ms, Some e)
            | Inr m \<Rightarrow> (ms\<lparr>ms_SubModules := m\<rparr>, None))
         else (ms, Some (LoadErr (''not a module or submodule: '' @ node_NName h n @ '' is of type '' @ kind))))"

subsection \<open>Parse and Read\<close>

definition load_error_of :: "build_error \<Rightarrow> load_error" where
  "load_error_of e = (case e of BuildErr m \<Rightarrow> LoadErr m | BuildPanic \<Rightarrow> LoadPanic)"

text \<open>The loop of \<open>Parse\<close> over the statements of one source.\<close>

fun load_statements :: "Statement list \<Rightarrow> modules \<Rightarrow> modules \<times> load_error option" where
  "load_statements [] ms = (ms, None)"
| "load_statements (s # ss) ms =
     (case buildASTWithTypeDict s (ms_ast ms) of
        (st, Inl e) \<Rightarrow> (ms\<lparr>ms_ast := st\<rparr>, Some (load_error_of e))
      | (st, Inr n) \<Rightarrow>
          (case ms_add n (ms\<lparr>ms_ast := st\<rparr>) of
             (ms', Some e) \<Rightarrow> (ms', Some e)
           | (ms', None) \<Rightarrow> load_statements ss ms'))"

definition ms_Parse :: "string \<Rightarrow> string \<Rightarrow> modules \<Rightarrow> modules \<times> load_error option" where
  "ms_Parse data name ms =
     (case Parse data name of
        None \<Rightarrow> (ms, Some LoadPanic)
      | Some (Inl e) \<Rightarrow> (ms, Some (LoadErr e))
      | Some (Inr ss) \<Rightarrow> load_statements ss ms)"

definition ms_Read :: "filesystem \<Rightarrow> string \<Rightarrow> modules \<Rightarrow> modules \<times> load_error option" where
  "ms_Read fs name ms =
     (case findFile fs name ms of
        (ms', Inl e) \<Rightarrow> (ms', Some (LoadErr e))
      | (ms', Inr (n, data)) \<Rightarrow> ms_Parse data n ms')"

subsection \<open>Looking modules up\<close>

text \<open>The revision asked for by an include or import \<open>n\<close>, and the map to look in.\<close>

definition wanted_revision :: "heap \<Rightarrow> nat \<Rightarrow> string" where
  "wanted_revision h n =
     (case ptr h n ''RevisionDate'' of
        None \<Rightarrow> node_NName h n
      | Some r \<Rightarrow> node_NName h n @ ''@'' @ nd_name (h ! r))"

definition lookup_module :: "string \<Rightarrow> string \<Rightarrow> (string \<times> nat) list \<Rightarrow> nat option" where
  "lookup_module rv name m =
     (case map_of m rv of Some n \<Rightarrow> Some n | None \<Rightarrow> map_of m name)"

definition map_for :: "heap \<Rightarrow> nat \<Rightarrow> modules \<Rightarrow> (string \<times> nat) list option" where
  "map_for h n ms =
     (if nd_type (h ! n) = ''Include'' then Some (ms_SubModules ms)
      else if nd_type (h ! n) = ''Import'' then Some (ms_Modules ms)
      else None)"

text \<open>\<open>FindModule\<close>; the left of the result is a panic while reading a file.\<close>

definition FindModule :: "filesystem \<Rightarrow> nat \<Rightarrow> modules \<Rightarrow> modules \<times> (unit + nat option)" where
  "FindModule fs n ms =
     (let h = ms_heap ms; name = node_NName h n; rv = wanted_revision h n
      in case map_for h n ms of
           None \<Rightarrow> (ms, Inr None)
         | Some m \<Rightarrow>
             (case lookup_module rv name m of
                Some a \<Rightarrow> (ms, Inr (Some a))
              | None \<Rightarrow>
                  (case ms_Read fs rv ms of
                     (ms1, Some LoadPanic) \<Rightarrow> (ms1, Inl ())
                   | (ms1, None) \<Rightarrow> (ms1, Inr (Option.bind (map_for h n ms1) (lookup_module rv name)))
                   | (ms1, Some (LoadErr _)) \<Rightarrow>
                       (case ms_Read fs name ms1 of
                          (ms2, Some LoadPanic) \<Rightarrow> (ms2, Inl ())
                        | (ms2, None) \<Rightarrow> (ms2, Inr (Option.bind (map_for h n ms2) (lookup_module rv name)))
                        | (ms2, Some (LoadErr _)) \<Rightarrow> (ms2, Inr None)))))"

datatype namespace_error = NoSuchNamespace string | TwoModules string string string

text \<open>
  \<open>FindModuleByNamespace\<close> and its loop over all modules. The outer \<open>None\<close> is a panic, a module
  without a namespace.
\<close>

fun namespace_loop :: "heap \<Rightarrow> string \<Rightarrow> nat list \<Rightarrow> nat option \<Rightarrow> (namespace_error + nat option) option" where
  "namespace_loop h ns [] found = Some (Inr found)"
| "namespace_loop h ns (m # ms) found =
     (case ptr h m ''Namespace'' of
        None \<Rightarrow> None
      | Some v \<Rightarrow>
          if nd_name (h ! v) = ns then
            (case found of
               None \<Rightarrow> namespace_loop h ns ms (Some m)
             | Some f \<Rightarrow>
                 if m = f then namespace_loop h ns ms found
                 else Some (Inl (TwoModules ns (nd_name (h ! f)) (nd_name (h ! m)))))
          else namespace_loop h ns ms found)"

definition FindModuleByNamespace :: "string \<Rightarrow> modules \<Rightarrow> modules \<times> (namespace_error + nat) option" where
  "FindModuleByNamespace ns ms =
     (case map_of (ms_byNS ms) ns of
        Some m \<Rightarrow> (ms, Some (Inr m))
      | None \<Rightarrow>
          (case namespace_loop (ms_heap ms) ns (List.map snd (ms_Modules ms)) None of
             None \<Rightarrow> (ms, None)
           | Some (Inl e) \<Rightarrow> (ms, Some (Inl e))
           | Some (Inr None) \<Rightarrow> (ms, Some (Inl (NoSuchNamespace ns)))
           | Some (Inr (Some m)) \<Rightarrow> (ms\<lparr>ms_byNS := AList.update ns m (ms_byNS ms)\<rparr>, Some (Inr m))))"

subsection \<open>include\<close>

datatype include_error = IncludeErr string | IncludePanic

definition set_link :: "nat \<Rightarrow> nat \<Rightarrow> modules \<Rightarrow> modules" where
  "set_link i im ms = ms\<lparr>ms_ast := update_node i (\<lambda>n. n\<lparr>nd_module := Some im\<rparr>) (ms_ast ms)\<rparr>"

text \<open>
  \<open>include\<close> (here \<open>ms_include\<close>) and its loop over the include or import statements, \<open>what\<close> being the word in the
  message. \<open>None\<close>: out of fuel.
\<close>

fun ms_include :: "nat \<Rightarrow> filesystem \<Rightarrow> options \<Rightarrow> nat \<Rightarrow> modules \<Rightarrow> (modules \<times> include_error option) option"
  and include_list :: "nat \<Rightarrow> filesystem \<Rightarrow> options \<Rightarrow> string \<Rightarrow> nat list \<Rightarrow> modules
        \<Rightarrow> (modules \<times> include_error option) option" where
  "ms_include 0 fs opts m ms = None"
| "ms_include (Suc n) fs opts m ms =
     (if m \<in> ms_includes ms then Some (ms, None)
      else
        (case include_list n fs opts ''submodule'' (field (ms_heap ms) m ''Include'')
                (ms\<lparr>ms_includes := insert m (ms_includes ms)\<rparr>) of
           None \<Rightarrow> None
         | Some (ms1, Some e) \<Rightarrow> Some (ms1, Some e)
         | Some (ms1, None) \<Rightarrow> include_list n fs opts ''module'' (field (ms_heap ms1) m ''Import'') ms1))"
| "include_list n fs opts what [] ms = Some (ms, None)"
| "include_list n fs opts what (i # rest) ms =
     (case FindModule fs i ms of
        (ms1, Inl _) \<Rightarrow> Some (ms1, Some IncludePanic)
      | (ms1, Inr None) \<Rightarrow>
          if IgnoreModuleResolveErrors opts then include_list n fs opts what rest ms1
          else Some (ms1, Some (IncludeErr (''no such '' @ what @ '': '' @ node_NName (ms_heap ms1) i)))
      | (ms1, Inr (Some im)) \<Rightarrow>
          (case ms_include n fs opts im ms1 of
             None \<Rightarrow> None
           | Some (ms2, Some e) \<Rightarrow> Some (ms2, Some e)
           | Some (ms2, None) \<Rightarrow> include_list n fs opts what rest (set_link i im ms2)))"

end
