(* ===== verification/ModuleInv.thy ===== *)
theory ModuleInv
  imports ModuleSet
begin

text \<open>
  What every reachable \<open>Modules\<close> satisfies (\<open>modules_ok\<close>): the heap is a forest whose parents
  come first, and a lookup by the bare name gives the latest of the revisions read.
\<close>

subsection \<open>Heaps that keep what is in a node\<close>

definition keeps :: "heap \<Rightarrow> heap \<Rightarrow> bool" where
  "keeps h h' \<longleftrightarrow> length h \<le> length h' \<and> (\<forall>a<length h. nd_type (h' ! a) = nd_type (h ! a)
     \<and> nd_name (h' ! a) = nd_name (h ! a) \<and> nd_source (h' ! a) = nd_source (h ! a)
     \<and> nd_parent (h' ! a) = nd_parent (h ! a) \<and> nd_subs (h' ! a) = nd_subs (h ! a))"

lemma keeps_refl [simp, intro]: "keeps h h"
  by (simp add: keeps_def)

lemma keeps_trans [trans]: "keeps a b \<Longrightarrow> keeps b c \<Longrightarrow> keeps a c"
  by (auto simp: keeps_def)

lemma keeps_grown: "grown {} h h' \<Longrightarrow> keeps h h'"
  by (simp add: keeps_def grown_def)

lemma keeps_link: "keeps h (h[i := (h ! i)\<lparr>nd_module := l\<rparr>])"
  by (cases "i < length h") (simp_all add: keeps_def nth_list_update list_update_beyond)

lemma keeps_field: "keeps h h' \<Longrightarrow> a < length h \<Longrightarrow> field h' a f = field h a f"
  by (simp add: keeps_def field_def node_field_def)

lemma keeps_name: "keeps h h' \<Longrightarrow> a < length h \<Longrightarrow> nd_name (h' ! a) = nd_name (h ! a)"
  by (simp add: keeps_def)

lemma keeps_Kind: "keeps h h' \<Longrightarrow> a < length h \<Longrightarrow> node_Kind h' a = node_Kind h a"
  using keeps_field [of h h' a] by (simp add: node_Kind_def keeps_def)

subsection \<open>Children come later\<close>

definition children_above :: "heap \<Rightarrow> bool" where
  "children_above h \<longleftrightarrow> (\<forall>a<length h. \<forall>f. \<forall>b\<in>set (field h a f). a < b \<and> b < length h)"

lemma childrenD: "children_above h \<Longrightarrow> a < length h \<Longrightarrow> b \<in> set (field h a f) \<Longrightarrow> a < b \<and> b < length h"
  unfolding children_above_def by blast

lemma keeps_FullName:
  assumes "keeps h h'" "children_above h" "m < length h"
  shows "module_FullName h' m = module_FullName h m"
proof -
  have name: "nd_name (h' ! r) = nd_name (h ! r)" if "r \<in> set (field h m ''Revision'')" for r
    by (rule keeps_name [OF assms(1)]) (use childrenD [OF assms(2,3) that] in simp)
  have "foldl (\<lambda>rev r. if string_less rev (nd_name (h' ! r)) then nd_name (h' ! r) else rev) x
      (field h m ''Revision'')
    = foldl (\<lambda>rev r. if string_less rev (nd_name (h ! r)) then nd_name (h ! r) else rev) x
      (field h m ''Revision'')" for x
    by (rule foldl_cong) (simp_all only: name)
  then show ?thesis
    using keeps_name [OF assms(1,3)] keeps_field [OF assms(1,3)]
    by (simp only: module_FullName_def module_Current_def)
qed

lemma children_above_update:
  assumes "children_above h" "\<And>f. set (node_field n f) \<subseteq> {b. v < b \<and> b < length h}"
  shows "children_above (h[v := n])"
  unfolding children_above_def
proof (intro allI impI ballI)
  fix a f b assume "a < length (h[v := n])" "b \<in> set (field (h[v := n]) a f)"
  then show "a < b \<and> b < length (h[v := n])"
    using assms(1) [unfolded children_above_def, rule_format, of a b f] assms(2) [of f]
    by (cases "a = v") (auto simp: field_def nth_list_update)
qed

lemma children_above_append:
  assumes "children_above h" "nd_subs n = []"
  shows "children_above (h @ [n])"
  unfolding children_above_def
proof (intro allI impI ballI)
  fix a f b assume ab: "a < length (h @ [n])" "b \<in> set (field (h @ [n]) a f)"
  show "a < b \<and> b < length (h @ [n])"
  proof (cases "a = length h")
    case True
    then show ?thesis using ab assms(2) by (simp add: field_def node_field_def)
  next
    case False
    then have "a < length h" "field (h @ [n]) a f = field h a f"
      using ab(1) by (simp_all add: field_def nth_append)
    then have "a < b \<and> b < length h" using childrenD [OF assms(1), of a b f] ab(2) by simp
    then show ?thesis by simp
  qed
qed

lemma run_special_subs: "run_special b s p n = Inr n' \<Longrightarrow> nd_subs n' = nd_subs n"
  by (cases b) (auto split: if_splits option.splits)

lemma build_children_above:
  "build s p st = (st', r) \<Longrightarrow> children_above (ast_nodes st) \<Longrightarrow>
     children_above (ast_nodes st') \<and> (\<forall>a. r = Inr a \<longrightarrow> a < length (ast_nodes st'))"
  "build_subs s y v p sss st = (st', e) \<Longrightarrow> v < length (ast_nodes st) \<Longrightarrow> children_above (ast_nodes st) \<Longrightarrow>
     children_above (ast_nodes st')"
  "build_sub s y v p ss st = (st', e) \<Longrightarrow> v < length (ast_nodes st) \<Longrightarrow> children_above (ast_nodes st) \<Longrightarrow>
     children_above (ast_nodes st')"
proof (induction s p st and s y v p sss st and s y v p ss st arbitrary: st' r and st' e and st' e
    rule: build_build_subs_build_sub.induct)
  case (1 s parent st)
  have new: "children_above (ast_nodes st1) \<and> length (ast_nodes st) < length (ast_nodes st1)"
    if "type_of_keyword (Keyword s) = Some (t, y)" "start_node t y s parent = Inr n"
      "build_subs s y (length (ast_nodes st)) parent (statements s) (st\<lparr>ast_nodes := ast_nodes st @ [n]\<rparr>) = (st1, e)"
    for t y n st1 e
  proof -
    have "nd_subs n = []" using start_node_eq [OF that(1), of parent] that(2) by (auto simp: new_node_def)
    then show ?thesis
      using 1(1) [OF that(1) refl that(2) refl that(3)] 1(3) children_above_append build_grown(2) [OF that(3)]
      by (simp add: grown_def)
  qed
  from 1(2) show ?case
  proof (cases rule: build_cases)
    case (subs t y n e)
    with new [OF subs(1-3)] show ?thesis by simp
  next
    case (check t y n e)
    with new [OF check(1-3)] show ?thesis by simp
  next
    case (ok t y n st1)
    with new [OF ok(1-3)] show ?thesis by simp
  qed (use 1(3) in auto)
next
  case (2 s y v parent st)
  then show ?case by simp
next
  case (3 s y v parent ss rest st)
  obtain st1 e1 where b: "build_sub s y v parent ss st = (st1, e1)" by fastforce
  have one: "children_above (ast_nodes st1)" using 3(1) [OF b 3(4,5)] .
  have v: "v < length (ast_nodes st1)" using build_grown(3) [OF b] 3(4) by (simp add: grown_def)
  show ?case using 3(2) [OF b [symmetric] _ _ v one] 3(3) b one by (cases e1) auto
next
  case (4 s y v parent ss st)
  have ih: "children_above (ast_nodes st1) \<and> (\<forall>a. r = Inr a \<longrightarrow> a < length (ast_nodes st1))"
    if "fills y v st ss f" "build ss (Some v) st = (st1, r)" for f st1 r
    using that 4(1) [of _ f] 4(2) [of _ f] 4(5) unfolding fills_def by blast
  have old: "set (node_field (h ! v) f) \<subseteq> {b. v < b \<and> b < length h}" if "children_above h" "v < length h" for h f
    using childrenD [OF that] by (auto simp: field_def)
  from 4(3) show ?case
  proof (cases rule: build_sub_cases)
    case (fail e')
    then show ?thesis using 4(5) by simp
  next
    case (sub_fail f e')
    then show ?thesis using ih [OF sub_fail(1,2)] by simp
  next
    case (sub f st1 a)
    have va: "v < length (ast_nodes st1)" "v < a"
      using build_grown(1) [OF sub(2)] 4(4) by (auto simp: grown_def)
    have "set (node_field (add_sub f a (ast_nodes st1 ! v)) g) \<subseteq> {b. v < b \<and> b < length (ast_nodes st1)}" for g
      using ih [OF sub(1,2)] old [of "ast_nodes st1" g] va
      by (cases "g = f") (simp_all add: node_field_add_sub)
    with ih [OF sub(1,2)] sub(3) show ?thesis by (simp add: children_above_update)
  next
    case ext
    have "node_field (add_ext ss (ast_nodes st ! v)) f = node_field (ast_nodes st ! v) f" for f
      by (simp add: add_ext_def node_field_def)
    then show ?thesis
      using 4(5) old [OF 4(5,4)] ext by (simp add: children_above_update)
  next
    case (special b n)
    have "node_field n f = node_field (ast_nodes st ! v) f" for f
      using run_special_subs [OF special(3)] by (simp add: node_field_def)
    then show ?thesis
      using 4(5) old [OF 4(5,4)] special by (simp add: children_above_update)
  qed
qed

subsection \<open>The maps of modules\<close>

text \<open>
  A map of modules of one kind: every module stands under its full name or its name, and under
  its bare name stands one whose full name is at least as great.
\<close>

definition latest_ok :: "heap \<Rightarrow> string \<Rightarrow> (string \<times> nat) list \<Rightarrow> bool" where
  "latest_ok h kind M \<longleftrightarrow> (\<forall>k m. map_of M k = Some m \<longrightarrow>
     m < length h \<and> node_Kind h m = kind \<and> (k = module_FullName h m \<or> k = nd_name (h ! m))
     \<and> (\<exists>m0. map_of M (nd_name (h ! m)) = Some m0 \<and> module_FullName h m \<le> module_FullName h m0))"

lemma latest_okD:
  assumes "latest_ok h kind M" "map_of M k = Some m"
  shows "m < length h" "node_Kind h m = kind" "k = module_FullName h m \<or> k = nd_name (h ! m)"
    "\<exists>m0. map_of M (nd_name (h ! m)) = Some m0 \<and> module_FullName h m \<le> module_FullName h m0"
  using assms by (auto simp: latest_ok_def)

lemma latest_ok_Nil [simp]: "latest_ok h kind []"
  by (simp add: latest_ok_def)

lemma latest_ok_keeps:
  assumes "latest_ok h kind M" "keeps h h'" "children_above h"
  shows "latest_ok h' kind M"
  unfolding latest_ok_def
proof (intro allI impI)
  fix k m assume k: "map_of M k = Some m"
  note d = latest_okD [OF assms(1) k]
  obtain m0 where m0: "map_of M (nd_name (h ! m)) = Some m0" "module_FullName h m \<le> module_FullName h m0"
    using d(4) by blast
  have "m0 < length h" by (rule latest_okD(1) [OF assms(1) m0(1)])
  with d m0 show "m < length h' \<and> node_Kind h' m = kind \<and> (k = module_FullName h' m \<or> k = nd_name (h' ! m))
     \<and> (\<exists>m0. map_of M (nd_name (h' ! m)) = Some m0 \<and> module_FullName h' m \<le> module_FullName h' m0)"
    using assms(2) by (simp add: keeps_FullName [OF assms(2,3)] keeps_name [OF assms(2)]
        keeps_Kind [OF assms(2)] keeps_def)
qed

text \<open>How \<open>add\<close> changes its map.\<close>

lemma add_to_cases:
  assumes "add_to h kind n M = Inr M'"
  obtains "map_of M (module_FullName h n) = None"
    "map_of M' (module_FullName h n) = Some n"
    "\<And>k. k \<noteq> module_FullName h n \<Longrightarrow> k \<noteq> nd_name (h ! n) \<Longrightarrow> map_of M' k = map_of M k"
    "module_FullName h n \<noteq> nd_name (h ! n) \<Longrightarrow>
       map_of M' (nd_name (h ! n)) = (case map_of M (nd_name (h ! n)) of
         None \<Rightarrow> Some n
       | Some ob \<Rightarrow> if module_FullName h ob < module_FullName h n then Some n else Some ob)"
proof -
  let ?f = "module_FullName h n" and ?n = "nd_name (h ! n)"
  have none: "map_of M ?f = None"
    using assms by (auto simp: add_to_def Let_def split: option.splits)
  have M': "M' = (let m1 = AList.update ?f n M in if ?f = ?n then m1
      else case map_of m1 ?n of None \<Rightarrow> AList.update ?n n m1
        | Some ob \<Rightarrow> if string_less (module_FullName h ob) ?f then AList.update ?n n m1 else m1)"
    using assms none by (simp add: add_to_def Let_def node_NName_def)
  show thesis
  proof (rule that [OF none])
    show "map_of M' ?f = Some n"
      unfolding M' Let_def by (simp add: update_conv' split: option.split)
    show "map_of M' k = map_of M k" if "k \<noteq> ?f" "k \<noteq> ?n" for k
      unfolding M' Let_def using that by (simp add: update_conv' split: option.split)
    show "map_of M' ?n = (case map_of M ?n of None \<Rightarrow> Some n
       | Some ob \<Rightarrow> if module_FullName h ob < ?f then Some n else Some ob)" if "?f \<noteq> ?n"
      unfolding M' Let_def using that by (simp add: update_conv' string_less_def split: option.split)
  qed
qed

lemma add_to_latest:
  assumes "add_to h kind n M = Inr M'" "latest_ok h kind M" "n < length h" "node_Kind h n = kind"
  shows "latest_ok h kind M'"
proof (rule add_to_cases [OF assms(1)])
  let ?f = "module_FullName h n" and ?n = "nd_name (h ! n)"
  assume none: "map_of M ?f = None" and full: "map_of M' ?f = Some n"
    and other: "\<And>k. k \<noteq> ?f \<Longrightarrow> k \<noteq> ?n \<Longrightarrow> map_of M' k = map_of M k"
    and bare: "?f \<noteq> ?n \<Longrightarrow> map_of M' ?n = (case map_of M ?n of None \<Rightarrow> Some n
       | Some ob \<Rightarrow> if module_FullName h ob < ?f then Some n else Some ob)"
  have new: "\<exists>m0. map_of M' ?n = Some m0 \<and> ?f \<le> module_FullName h m0"
    using full bare by (cases "?f = ?n") (auto split: option.split)
  have old: "\<exists>m0. map_of M' (nd_name (h ! m)) = Some m0 \<and> module_FullName h m \<le> module_FullName h m0"
    if k: "map_of M k = Some m" for k m
  proof -
    obtain m0 where m0: "map_of M (nd_name (h ! m)) = Some m0" "module_FullName h m \<le> module_FullName h m0"
      using latest_okD(4) [OF assms(2) k] by blast
    have nf: "nd_name (h ! m) \<noteq> ?f" using m0(1) none by auto
    show ?thesis
    proof (cases "nd_name (h ! m) = ?n")
      case True
      then show ?thesis using m0 bare nf by (auto split: if_splits)
    next
      case False
      then show ?thesis using m0 other nf by auto
    qed
  qed
  have origin: "k = ?f \<and> m = n \<or> k = ?n \<and> m = n \<or> map_of M k = Some m" if "map_of M' k = Some m" for k m
    using that full other [of k] bare by (cases "k = ?f"; cases "k = ?n") (auto split: option.splits if_splits)
  show ?thesis
    unfolding latest_ok_def
  proof (intro allI impI)
    fix k m assume "map_of M' k = Some m"
    from origin [OF this] show "m < length h \<and> node_Kind h m = kind \<and> (k = module_FullName h m \<or> k = nd_name (h ! m))
     \<and> (\<exists>m0. map_of M' (nd_name (h ! m)) = Some m0 \<and> module_FullName h m \<le> module_FullName h m0)"
      using new old assms(3,4) latest_okD [OF assms(2)] by blast
  qed
qed

subsection \<open>The invariant of Modules\<close>

definition modules_ok :: "modules \<Rightarrow> bool" where
  "modules_ok ms \<longleftrightarrow> children_above (ms_heap ms) \<and> parents_below (ms_heap ms)
     \<and> latest_ok (ms_heap ms) ''module'' (ms_Modules ms)
     \<and> latest_ok (ms_heap ms) ''submodule'' (ms_SubModules ms) \<and> path_ok ms"

text \<open>What every operation does: it keeps the invariant and what is in the nodes.\<close>

definition advances :: "modules \<Rightarrow> modules \<Rightarrow> bool" where
  "advances ms ms' \<longleftrightarrow> (modules_ok ms \<longrightarrow> modules_ok ms' \<and> keeps (ms_heap ms) (ms_heap ms'))"

lemma advances_refl [simp, intro]: "advances ms ms"
  by (simp add: advances_def)

lemma advances_trans [trans]: "advances a b \<Longrightarrow> advances b c \<Longrightarrow> advances a c"
  by (auto simp: advances_def intro: keeps_trans)

lemma advances_heap:
  assumes "keeps (ms_heap ms) (ast_nodes st)" "children_above (ms_heap ms) \<Longrightarrow> children_above (ast_nodes st)"
    "parents_below (ms_heap ms) \<Longrightarrow> parents_below (ast_nodes st)"
  shows "advances ms (ms\<lparr>ms_ast := st\<rparr>)"
  using assms by (auto simp: advances_def modules_ok_def path_ok_def intro: latest_ok_keeps)

lemma advances_build:
  assumes "build s None (ms_ast ms) = (st, r)"
  shows "advances ms (ms\<lparr>ms_ast := st\<rparr>)"
  using keeps_grown build_grown(1) [OF assms] build_children_above(1) [OF assms] build_parents_below [OF assms]
  by (intro advances_heap) auto

lemma advances_maps:
  assumes "modules_ok ms \<Longrightarrow> latest_ok (ms_heap ms) ''module'' M \<and> latest_ok (ms_heap ms) ''submodule'' S"
  shows "advances ms (ms\<lparr>ms_Modules := M, ms_SubModules := S\<rparr>)"
  using assms by (auto simp: advances_def modules_ok_def path_ok_def)

lemma advances_add:
  assumes "ms_add n ms = (ms', e)" "n < length (ms_heap ms)"
  shows "advances ms ms'"
proof (cases "node_Kind (ms_heap ms) n = ''module''")
  case True
  then show ?thesis
    using assms advances_maps [of ms _ "ms_SubModules ms"] add_to_latest [of "ms_heap ms" "''module''" n "ms_Modules ms"]
    by (auto simp: ms_add_def Let_def modules_ok_def split: sum.splits)
next
  case False
  then show ?thesis
    using assms advances_maps [of ms "ms_Modules ms"]
      add_to_latest [of "ms_heap ms" "''submodule''" n "ms_SubModules ms"]
    by (auto simp: ms_add_def Let_def modules_ok_def split: sum.splits if_splits)
qed

lemma advances_load: "load_statements ss ms = (ms', e) \<Longrightarrow> advances ms ms'"
proof (induction ss arbitrary: ms)
  case (Cons s ss)
  obtain st r where b: "buildASTWithTypeDict s (ms_ast ms) = (st, r)" by fastforce
  note adv = advances_build [OF b [unfolded buildASTWithTypeDict_def]]
  show ?case
  proof (cases r)
    case (Inl e)
    then show ?thesis using Cons(2) b adv by auto
  next
    case (Inr n)
    obtain ms1 e1 where a: "ms_add n (ms\<lparr>ms_ast := st\<rparr>) = (ms1, e1)" by fastforce
    have "n < length (ast_nodes st)" if "modules_ok ms"
      using build_children_above(1) [OF b [unfolded buildASTWithTypeDict_def]] that Inr
      by (simp add: modules_ok_def)
    then have "advances ms ms1"
      using advances_add [OF a] adv unfolding advances_def by (auto intro: keeps_trans)
    then show ?thesis
      using Cons Inr b a by (cases e1) (auto intro: advances_trans)
  qed
qed simp

lemma advances_Parse: "ms_Parse data name ms = (ms', e) \<Longrightarrow> advances ms ms'"
  by (auto simp: ms_Parse_def advances_load split: option.splits sum.splits)

lemma advances_AddPath: "advances ms (AddPath ps ms)"
proof -
  have "ms_Modules (AddPath ps ms) = ms_Modules ms \<and> ms_SubModules (AddPath ps ms) = ms_SubModules ms
      \<and> ms_ast (AddPath ps ms) = ms_ast ms"
  proof -
    have *: "ms_Modules (add_dirs ds ms) = ms_Modules ms \<and> ms_SubModules (add_dirs ds ms) = ms_SubModules ms
      \<and> ms_ast (add_dirs ds ms) = ms_ast ms" for ds and ms :: modules
      by (induction ds arbitrary: ms) auto
    show ?thesis by (induction ps arbitrary: ms) (auto simp: *)
  qed
  then show ?thesis using AddPath_ok [of ms ps] by (simp add: advances_def modules_ok_def)
qed

lemma advances_findFile: "findFile fs name ms = (ms', r) \<Longrightarrow> advances ms ms'"
  by (auto simp: findFile_def Let_def advances_AddPath simp del: AddPath.simps split: option.splits if_splits)

lemma advances_Read: "ms_Read fs name ms = (ms', e) \<Longrightarrow> advances ms ms'"
  by (auto simp: ms_Read_def split: prod.splits sum.splits
      dest!: advances_findFile advances_Parse intro: advances_trans)

lemma advances_FindModule:
  assumes "FindModule fs n ms = (ms', r)"
  shows "advances ms ms'"
proof -
  obtain ms1 e1 where r1: "ms_Read fs (wanted_revision (ms_heap ms) n) ms = (ms1, e1)" by fastforce
  obtain ms2 e2 where r2: "ms_Read fs (node_NName (ms_heap ms) n) ms1 = (ms2, e2)" by fastforce
  have "ms' \<in> {ms, ms1, ms2}"
    using assms r1 r2 by (auto simp: FindModule_def Let_def split: option.splits load_error.splits)
  then show ?thesis
    using advances_Read [OF r1] advances_Read [OF r2] by (auto intro: advances_trans)
qed

lemma field_link: "field (h[i := (h ! i)\<lparr>nd_module := l\<rparr>]) a f = field h a f"
  by (cases "i < length h"; cases "a = i") (simp_all add: field_def node_field_def list_update_beyond)

lemma parent_link: "nd_parent (h[i := (h ! i)\<lparr>nd_module := l\<rparr>] ! a) = nd_parent (h ! a)"
  by (cases "i < length h"; cases "a = i") (simp_all add: list_update_beyond)

lemma above_link: "children_above (h[i := (h ! i)\<lparr>nd_module := l\<rparr>]) = children_above h"
  unfolding children_above_def length_list_update field_link ..

lemma below_link: "parents_below (h[i := (h ! i)\<lparr>nd_module := l\<rparr>]) = parents_below h"
  unfolding parents_below_def length_list_update parent_link ..

lemma advances_link: "advances ms (set_link i im ms)"
  unfolding set_link_def
  by (rule advances_heap) (simp_all add: keeps_link above_link below_link)

lemma advances_includes: "advances ms (ms\<lparr>ms_includes := I\<rparr>)"
  by (simp add: advances_def modules_ok_def path_ok_def)

lemma advances_include:
  "ms_include n fs opts m ms = Some (ms', e) \<Longrightarrow> advances ms ms'"
  "include_list n fs opts what is0 ms = Some (ms', e) \<Longrightarrow> advances ms ms'"
proof (induction n fs opts m ms and n fs opts what is0 ms arbitrary: ms' e and ms' e rule: ms_include_include_list.induct)
  case (1 fs opts m ms)
  then show ?case by simp
next
  case (2 n fs opts m ms)
  let ?ms = "ms\<lparr>ms_includes := insert m (ms_includes ms)\<rparr>"
  show ?case
  proof (cases "m \<in> ms_includes ms")
    case False
    obtain ms1 e1 where l: "include_list n fs opts ''submodule'' (field (ms_heap ms) m ''Include'') ?ms = Some (ms1, e1)"
      using 2(3) False by (auto split: option.splits)
    have "advances ms ms1" using 2(1) [OF False l] advances_includes by (rule advances_trans [rotated])
    then show ?thesis
      using 2(2) [OF False l refl] 2(3) False l by (cases e1) (auto intro: advances_trans)
  qed (use 2(3) in auto)
next
  case (3 n fs opts what ms)
  then show ?case by auto
next
  case (4 n fs opts what i rest ms)
  obtain ms1 r where f: "FindModule fs i ms = (ms1, r)" by fastforce
  note a1 = advances_FindModule [OF f]
  show ?case
  proof (cases r)
    case (Inl x)
    then show ?thesis using 4(4) f a1 by auto
  next
    case (Inr ob)
    show ?thesis
    proof (cases ob)
      case None
      then show ?thesis
        using 4(1) [OF f [symmetric] Inr None] 4(4) f Inr a1 by (auto split: if_splits intro: advances_trans)
    next
      case (Some im)
      obtain ms2 e2 where i: "ms_include n fs opts im ms1 = Some (ms2, e2)"
        using 4(4) f Inr Some by (auto split: option.splits)
      have a2: "advances ms ms2" using a1 4(2) [OF f [symmetric] Inr Some i] by (rule advances_trans)
      show ?thesis
      proof (cases e2)
        case None
        have "advances (set_link i im ms2) ms'"
          using 4(3) [OF f [symmetric] Inr Some i refl None] 4(4) f Inr Some i None by simp
        then show ?thesis using a2 advances_link by (blast intro: advances_trans)
      next
        case (Some x)
        then show ?thesis using 4(4) f Inr \<open>ob = Some im\<close> i a2 by simp
      qed
    qed
  qed
qed

lemma advances_namespace: "FindModuleByNamespace ns ms = (ms', r) \<Longrightarrow> advances ms ms'"
  by (auto simp: FindModuleByNamespace_def advances_def modules_ok_def path_ok_def
      split: option.splits sum.splits)

end
