(* ===== verification/Includes.thy ===== *)
theory Includes
  imports ModuleInv
begin

text \<open>
  What \<open>include\<close> achieves once the modules have been read in, so that no file is found: it returns on
  every graph of includes and imports, cyclic or not, and when it reports no error, and unresolved
  modules are not to be ignored, the statements of every module it has visited are linked. The second half holds the reachable states and the properties of \<open>Modules\<close>.
\<close>

definition no_files :: "filesystem \<Rightarrow> bool" where
  "no_files fs \<longleftrightarrow> fs_readFile fs = (\<lambda>_. None)"

lemma search_no_files: "no_files fs \<Longrightarrow> search_dirs fs name dirs = None"
  by (induction dirs) (auto simp: no_files_def Let_def)

lemma Read_no_files: "no_files fs \<Longrightarrow> \<exists>e. ms_Read fs name ms = (ms, Some (LoadErr e))"
  using search_no_files [of fs] by (auto simp: ms_Read_def findFile_def no_files_def Let_def)

text \<open>Without files \<open>FindModule\<close> is the lookup of the revision, then of the name.\<close>

lemma FindModule_no_files:
  assumes "no_files fs"
  shows "FindModule fs n ms = (ms, Inr (Option.bind (map_for (ms_heap ms) n ms)
    (lookup_module (wanted_revision (ms_heap ms) n) (node_NName (ms_heap ms) n))))"
proof -
  obtain e1 where "ms_Read fs (wanted_revision (ms_heap ms) n) ms = (ms, Some (LoadErr e1))"
    using Read_no_files [OF assms] by blast
  moreover obtain e2 where "ms_Read fs (node_NName (ms_heap ms) n) ms = (ms, Some (LoadErr e2))"
    using Read_no_files [OF assms] by blast
  ultimately show ?thesis
    by (simp add: FindModule_def Let_def split: option.split)
qed

lemma FindModule_valid:
  assumes "no_files fs" "modules_ok ms" "FindModule fs n ms = (ms', Inr (Some im))"
  shows "im < length (ms_heap ms)"
proof -
  obtain M where "map_for (ms_heap ms) n ms = Some M" and l:
    "lookup_module (wanted_revision (ms_heap ms) n) (node_NName (ms_heap ms) n) M = Some im"
    using assms(1,3) by (auto simp: FindModule_no_files bind_eq_Some_conv)
  then have "\<exists>kind. latest_ok (ms_heap ms) kind M"
    using assms(2) by (auto simp: map_for_def modules_ok_def split: if_splits)
  then show ?thesis using l latest_okD(1) by (fastforce simp: lookup_module_def split: option.splits)
qed

subsection \<open>Linked statements\<close>

definition module_links :: "heap \<Rightarrow> nat \<Rightarrow> nat set" where
  "module_links h m = set (field h m ''Include'') \<union> set (field h m ''Import'')"

definition linked :: "modules \<Rightarrow> nat \<Rightarrow> bool" where
  "linked ms i \<longleftrightarrow> (\<exists>im. nd_module (ms_heap ms ! i) = Some im \<and> im \<in> ms_includes ms)"

definition linked_but :: "nat set \<Rightarrow> modules \<Rightarrow> bool" where
  "linked_but S ms \<longleftrightarrow> (\<forall>m\<in>ms_includes ms - S. \<forall>i\<in>module_links (ms_heap ms) m. linked ms i)"

definition unvisited :: "modules \<Rightarrow> nat set" where
  "unvisited ms = {a. a < length (ms_heap ms)} - ms_includes ms"

text \<open>Progress that keeps the modules, the visited ones and the links.\<close>

definition onward :: "modules \<Rightarrow> modules \<Rightarrow> bool" where
  "onward ms ms' \<longleftrightarrow> modules_ok ms' \<and> keeps (ms_heap ms) (ms_heap ms')
     \<and> length (ms_heap ms') = length (ms_heap ms) \<and> ms_includes ms \<subseteq> ms_includes ms'
     \<and> ms_includes ms' \<subseteq> {a. a < length (ms_heap ms)}
     \<and> (\<forall>i. linked ms i \<longrightarrow> linked ms' i)"

definition visits_ok :: "modules \<Rightarrow> bool" where
  "visits_ok ms \<longleftrightarrow> modules_ok ms \<and> ms_includes ms \<subseteq> {a. a < length (ms_heap ms)}"

lemma onward_refl [intro]: "visits_ok ms \<Longrightarrow> onward ms ms"
  by (simp add: onward_def visits_ok_def)

lemma onward_ok: "onward ms ms' \<Longrightarrow> visits_ok ms'"
  by (simp add: onward_def visits_ok_def)

lemma onward_trans: "onward a b \<Longrightarrow> onward b c \<Longrightarrow> onward a c"
  by (auto simp: onward_def intro: keeps_trans)

lemma onward_unvisited: "onward a b \<Longrightarrow> card (unvisited b) \<le> card (unvisited a)"
  by (intro card_mono) (auto simp: onward_def unvisited_def)

lemma links_keeps: "keeps h h' \<Longrightarrow> m < length h \<Longrightarrow> module_links h' m = module_links h m"
  by (simp add: module_links_def keeps_field)

lemma linked_but_onward:
  assumes "linked_but S a" "onward a b" "ms_includes b = ms_includes a" "visits_ok a"
  shows "linked_but S b"
proof -
  have "module_links (ms_heap b) m = module_links (ms_heap a) m" if "m \<in> ms_includes a" for m
    using that assms(2,4) by (intro links_keeps) (auto simp: onward_def visits_ok_def)
  then show ?thesis using assms by (simp add: linked_but_def onward_def)
qed

lemma onward_visit:
  assumes "visits_ok ms" "m < length (ms_heap ms)"
  shows "onward ms (ms\<lparr>ms_includes := insert m (ms_includes ms)\<rparr>)"
  using assms advances_includes [of ms "insert m (ms_includes ms)"]
  by (auto simp: onward_def visits_ok_def advances_def linked_def)

lemma onward_link:
  assumes "visits_ok ms" "im \<in> ms_includes ms"
  shows "onward ms (set_link i im ms)"
proof -
  have "linked (set_link i im ms) j" if "linked ms j" for j
    using that assms(2) by (cases "j = i"; cases "i < length (ms_heap ms)")
      (auto simp: linked_def set_link_def list_update_beyond)
  then show ?thesis
    using assms(1) advances_link [of ms i im]
    by (simp add: onward_def visits_ok_def advances_def set_link_def)
qed

lemma linked_set_link: "i < length (ms_heap ms) \<Longrightarrow> im \<in> ms_includes ms \<Longrightarrow> linked (set_link i im ms) i"
  by (simp add: linked_def set_link_def)

lemma visit_card:
  assumes "m < length (ms_heap ms)" "m \<notin> ms_includes ms"
  shows "card (unvisited (ms\<lparr>ms_includes := insert m (ms_includes ms)\<rparr>)) < card (unvisited ms)"
proof -
  have "unvisited (ms\<lparr>ms_includes := insert m (ms_includes ms)\<rparr>) = unvisited ms - {m}"
    by (auto simp: unvisited_def)
  moreover have "m \<in> unvisited ms" "finite (unvisited ms)" using assms by (simp_all add: unvisited_def)
  ultimately show ?thesis using card_Diff1_less by metis
qed

lemma include_total:
  "no_files fs \<Longrightarrow> visits_ok ms \<Longrightarrow> m < length (ms_heap ms) \<Longrightarrow> card (unvisited ms) < n \<Longrightarrow>
     \<exists>ms' e. ms_include n fs opts m ms = Some (ms', e) \<and> onward ms ms' \<and> m \<in> ms_includes ms'
       \<and> (e = None \<and> \<not> IgnoreModuleResolveErrors opts \<longrightarrow> (\<forall>S. S \<subseteq> ms_includes ms \<longrightarrow> linked_but S ms \<longrightarrow> linked_but S ms'))"
  "no_files fs \<Longrightarrow> visits_ok ms \<Longrightarrow> set is0 \<subseteq> {i. i < length (ms_heap ms)} \<Longrightarrow> card (unvisited ms) < n \<Longrightarrow>
     \<exists>ms' e. include_list n fs opts what is0 ms = Some (ms', e) \<and> onward ms ms'
       \<and> (e = None \<and> \<not> IgnoreModuleResolveErrors opts \<longrightarrow>
            (\<forall>i\<in>set is0. linked ms' i) \<and> (\<forall>S. S \<subseteq> ms_includes ms \<longrightarrow> linked_but S ms \<longrightarrow> linked_but S ms'))"
proof (induction n fs opts m ms and n fs opts what is0 ms rule: ms_include_include_list.induct)
  case (1 fs opts m ms)
  then show ?case by simp
next
  case (2 n fs opts m ms)
  show ?case
  proof (cases "m \<in> ms_includes ms")
    case True
    then show ?thesis using 2(4) by auto
  next
    case False
    let ?ms = "ms\<lparr>ms_includes := insert m (ms_includes ms)\<rparr>"
    have on0: "onward ms ?ms" using onward_visit [OF 2(4,5)] .
    have c0: "card (unvisited ?ms) < n" using visit_card [OF 2(5) False] 2(6) by linarith
    have ca: "children_above (ms_heap ms)" using 2(4) by (simp add: visits_ok_def modules_ok_def)
    obtain ms1 e1 where l1: "include_list n fs opts ''submodule'' (field (ms_heap ms) m ''Include'') ?ms = Some (ms1, e1)"
      and on1: "onward ?ms ms1" and r1: "e1 = None \<and> \<not> IgnoreModuleResolveErrors opts \<longrightarrow>
            (\<forall>i\<in>set (field (ms_heap ms) m ''Include''). linked ms1 i)
            \<and> (\<forall>S. S \<subseteq> ms_includes ?ms \<longrightarrow> linked_but S ?ms \<longrightarrow> linked_but S ms1)"
      using 2(1) [OF False 2(3) onward_ok [OF on0] _ c0] childrenD [OF ca 2(5)] by fastforce
    have on01: "onward ms ms1" using onward_trans [OF on0 on1] .
    show ?thesis
    proof (cases e1)
      case (Some x)
      then show ?thesis using l1 False on01 on1 by (auto simp: onward_def)
    next
      case None
      have f2: "field (ms_heap ms1) m ''Import'' = field (ms_heap ms) m ''Import''"
        using on01 2(5) by (simp add: onward_def keeps_field)
      have c1: "card (unvisited ms1) < n" using onward_unvisited [OF on1] c0 by linarith
      have v2: "set (field (ms_heap ms1) m ''Import'') \<subseteq> {i. i < length (ms_heap ms1)}"
        using childrenD [OF ca 2(5)] on01 unfolding f2 onward_def by fastforce
      obtain ms2 e2 where l2: "include_list n fs opts ''module'' (field (ms_heap ms1) m ''Import'') ms1 = Some (ms2, e2)"
        and on2: "onward ms1 ms2" and r2: "e2 = None \<and> \<not> IgnoreModuleResolveErrors opts \<longrightarrow>
            (\<forall>i\<in>set (field (ms_heap ms) m ''Import''). linked ms2 i)
            \<and> (\<forall>S. S \<subseteq> ms_includes ms1 \<longrightarrow> linked_but S ms1 \<longrightarrow> linked_but S ms2)"
        using 2(2) [OF False l1 refl None 2(3) onward_ok [OF on1] v2 c1] unfolding f2 by blast
      have on02: "onward ms ms2" using onward_trans [OF on01 on2] .
      have "m \<in> ms_includes ms2" using on1 on2 by (auto simp: onward_def)
      moreover have "\<forall>S. S \<subseteq> ms_includes ms \<longrightarrow> linked_but S ms \<longrightarrow> linked_but S ms2"
        if ok: "e2 = None \<and> \<not> IgnoreModuleResolveErrors opts"
      proof (intro allI impI)
        fix S assume S: "S \<subseteq> ms_includes ms" "linked_but S ms"
        have "linked_but (insert m S) ?ms"
          using S(2) on0 unfolding linked_but_def onward_def by (simp, blast)
        moreover have sub: "insert m S \<subseteq> ms_includes ?ms" using S(1) by auto
        ultimately have "linked_but (insert m S) ms1" using r1 None ok by blast
        moreover have "insert m S \<subseteq> ms_includes ms1" using sub on1 unfolding onward_def by blast
        ultimately have but: "linked_but (insert m S) ms2" using r2 ok by blast
        have "linked ms2 i" if "i \<in> module_links (ms_heap ms2) m" for i
        proof -
          have "i \<in> module_links (ms_heap ms) m"
            using that links_keeps [of "ms_heap ms" "ms_heap ms2" m] on02 2(5) by (simp add: onward_def)
          then show ?thesis
            using r1 None r2 ok on2 by (auto simp: module_links_def onward_def)
        qed
        then show "linked_but S ms2" using but by (auto simp: linked_but_def)
      qed
      ultimately show ?thesis using l1 l2 None False on02 by auto
    qed
  qed
next
  case (3 n fs opts what ms)
  then show ?case by auto
next
  case (4 n fs opts what i rest ms)
  obtain r where f: "FindModule fs i ms = (ms, Inr r)" using FindModule_no_files [OF 4(4)] by blast
  show ?case
  proof (cases r)
    case None
    show ?thesis
    proof (cases "IgnoreModuleResolveErrors opts")
      case True
      then show ?thesis using 4(1) [OF f [symmetric] refl None True 4(4,5) _ 4(7)] 4(6) f None by auto
    next
      case False
      then show ?thesis using f None 4(5) by auto
    qed
  next
    case (Some im)
    have im: "im < length (ms_heap ms)" using FindModule_valid [OF 4(4)] 4(5) f Some by (simp add: visits_ok_def)
    obtain ms1 e1 where l1: "ms_include n fs opts im ms = Some (ms1, e1)" and on1: "onward ms ms1"
      and im1: "im \<in> ms_includes ms1" and r1: "e1 = None \<and> \<not> IgnoreModuleResolveErrors opts \<longrightarrow> (\<forall>S. S \<subseteq> ms_includes ms \<longrightarrow> linked_but S ms \<longrightarrow> linked_but S ms1)"
      using 4(2) [OF f [symmetric] refl Some 4(4,5) im 4(7)] by blast
    show ?thesis
    proof (cases e1)
      case (Some x)
      then show ?thesis using f \<open>r = Some im\<close> l1 on1 by auto
    next
      case None
      let ?ms = "set_link i im ms1"
      have onl: "onward ms1 ?ms" using onward_link [OF onward_ok [OF on1] im1] .
      have on2: "onward ms ?ms" using onward_trans [OF on1 onl] .
      have i: "i < length (ms_heap ms1)" using 4(6) on1 by (simp add: onward_def)
      have c: "card (unvisited ?ms) < n" using onward_unvisited [OF on2] 4(7) by linarith
      have v: "set rest \<subseteq> {i. i < length (ms_heap ?ms)}" using 4(6) on2 by (simp add: onward_def)
      obtain ms2 e2 where l2: "include_list n fs opts what rest ?ms = Some (ms2, e2)" and on3: "onward ?ms ms2"
        and r2: "e2 = None \<and> \<not> IgnoreModuleResolveErrors opts \<longrightarrow> (\<forall>i\<in>set rest. linked ms2 i)
          \<and> (\<forall>S. S \<subseteq> ms_includes ?ms \<longrightarrow> linked_but S ?ms \<longrightarrow> linked_but S ms2)"
        using 4(3) [OF f [symmetric] refl Some l1 refl None 4(4) onward_ok [OF onl] v c] by blast
      have inc: "ms_includes ?ms = ms_includes ms1" by (simp add: set_link_def)
      have "linked ms2 i" using linked_set_link [OF i im1] on3 by (simp add: onward_def)
      moreover have "linked_but S ms2" if "e2 = None \<and> \<not> IgnoreModuleResolveErrors opts"
        "S \<subseteq> ms_includes ms" "linked_but S ms" for S
      proof -
        have "linked_but S ms1" using r1 None that by blast
        then have "linked_but S ?ms" using linked_but_onward [OF _ onl inc onward_ok [OF on1]] by blast
        then show ?thesis using r2 that on2 inc by (auto simp: onward_def)
      qed
      ultimately show ?thesis
        using f \<open>r = Some im\<close> l1 None l2 r2 onward_trans [OF on2 on3] by auto
    qed
  qed
qed

subsection \<open>Reachable states\<close>

text \<open>
  The operations on a \<open>Modules\<close>, in any order: loading the statements of a source (that is
  \<open>Parse\<close> on a text that the parser accepts), reading files, lookups, and \<open>include\<close>.
\<close>

inductive ms_reachable :: "filesystem \<Rightarrow> options \<Rightarrow> modules \<Rightarrow> bool" for fs opts where
  "ms_reachable fs opts NewModules"
| "ms_reachable fs opts ms \<Longrightarrow> load_statements ss ms = (ms', e) \<Longrightarrow> ms_reachable fs opts ms'"
| "ms_reachable fs opts ms \<Longrightarrow> ms_Parse data name ms = (ms', e) \<Longrightarrow> ms_reachable fs opts ms'"
| "ms_reachable fs opts ms \<Longrightarrow> ms_Read fs name ms = (ms', e) \<Longrightarrow> ms_reachable fs opts ms'"
| "ms_reachable fs opts ms \<Longrightarrow> FindModule fs n ms = (ms', r) \<Longrightarrow> ms_reachable fs opts ms'"
| "ms_reachable fs opts ms \<Longrightarrow> FindModuleByNamespace ns ms = (ms', nr) \<Longrightarrow> ms_reachable fs opts ms'"
| "ms_reachable fs opts ms \<Longrightarrow> ms_include k fs opts m ms = Some (ms', ie) \<Longrightarrow> ms_reachable fs opts ms'"
| "ms_reachable fs opts ms \<Longrightarrow> ms_reachable fs opts (AddPath ps ms)"

lemma NewModules_ok: "modules_ok NewModules"
  by (simp add: modules_ok_def NewModules_def empty_ast_def children_above_def parents_below_def path_ok_def)

lemma advancesD: "advances ms ms' \<Longrightarrow> modules_ok ms \<Longrightarrow> modules_ok ms'"
  by (simp add: advances_def)

lemma reachable_ok: "ms_reachable fs opts ms \<Longrightarrow> modules_ok ms"
  by (induction rule: ms_reachable.induct)
     (auto simp del: AddPath.simps intro: NewModules_ok advancesD advances_load advances_Parse advances_Read advances_FindModule
        advances_namespace advances_include(1) advances_AddPath)

lemma sample_loaded:
  "\<exists>ms. load_statements [sample_module] NewModules = (ms, None) \<and> ms_Modules ms = [(''m'', 0)]
     \<and> ms_includes ms = {} \<and> ms_byNS ms = [] \<and> ptr (ms_heap ms) 0 ''Namespace'' \<noteq> None
     \<and> 0 < length (ms_heap ms)"
proof -
  obtain st r where b: "build sample_module None empty_ast = (st, r)" by fastforce
  with build_accepts(1) [OF b sample_plain] sample_valid obtain a where r: "r = Inr a" by auto
  have a: "a = 0" using build_grown(1) [OF b] r by (simp add: empty_ast_def)
  have mir: "mirrors (ast_nodes st) None sample_module 0" using build_partly(1) [OF b sample_plain r] a by simp
  have no: "field (ast_nodes st) 0 f = []" if "f \<notin> {''Namespace'', ''Prefix''}" for f
  proof -
    have "list_all2 (\<lambda>ss b. 0 < b \<and> mirrors (ast_nodes st) (Some 0) ss b)
        (field_statements (entry_of ''Module'') f (statements sample_module)) (field (ast_nodes st) 0 f)"
      using mir by cases (simp add: sample_module_def)
    moreover have "field_statements (entry_of ''Module'') f (statements sample_module) = []"
      using that module_funcs by (auto simp: field_statements_def sample_module_def value_statement_def)
    ultimately show ?thesis by simp
  qed
  have ns: "ptr (ast_nodes st) 0 ''Namespace'' \<noteq> None"
    using built_pointer [OF mir _ sample_valid, of "''Module''" "entry_of ''Module''" "''namespace''" "''Namespace''"]
      module_funcs
    by (auto simp: sample_module_def value_statement_def ptr_def split: if_splits)
  have n: "nd_type (ast_nodes st ! 0) = ''Module''" "nd_name (ast_nodes st ! 0) = ''m''" "0 < length (ast_nodes st)"
    using mir by (cases, simp add: sample_module_def)+
  have k: "node_Kind (ast_nodes st) 0 = ''module''" using n no by (simp add: node_Kind_def)
  have f: "module_FullName (ast_nodes st) 0 = ''m''"
    using n no by (simp add: module_FullName_def module_Current_def)
  show ?thesis
    using b r a k f n no ns
    by (simp add: buildASTWithTypeDict_def NewModules_def ms_add_def add_to_def Let_def node_NName_def)
qed

text \<open>C23: a lookup by the bare name gives the latest revision. In every state of a \<open>Modules\<close> that
  can be reached, whatever was parsed, read, looked up and included in whatever order, and with
  whatever failures: each module in the map of modules (and each submodule in that of
  submodules) is a module (submodule), stands under its full name or its name, and under its
  name there is one whose full name, that is whose revision date, is no earlier.\<close>

theorem latest_revision:
  assumes "ms_reachable fs opts ms" "kind = ''module'' \<and> M = ms_Modules ms \<or> kind = ''submodule'' \<and> M = ms_SubModules ms"
    "map_of M k = Some m"
  shows "node_Kind (ms_heap ms) m = kind \<and> k \<in> {module_FullName (ms_heap ms) m, nd_name (ms_heap ms ! m)}
    \<and> (\<exists>m0. map_of M (nd_name (ms_heap ms ! m)) = Some m0
          \<and> module_FullName (ms_heap ms) m \<le> module_FullName (ms_heap ms) m0)"
proof -
  have "latest_ok (ms_heap ms) kind M"
    using reachable_ok [OF assms(1)] assms(2) by (auto simp: modules_ok_def)
  from latest_okD [OF this assms(3)] show ?thesis by auto
qed

theorem latest_revision_witness:
  "\<exists>fs opts ms. ms_reachable fs opts ms \<and> map_of (ms_Modules ms) ''m'' = Some 0
     \<and> node_Kind (ms_heap ms) 0 = ''module''"
proof -
  obtain ms where ms: "load_statements [sample_module] NewModules = (ms, None)" "map_of (ms_Modules ms) ''m'' = Some 0"
    using sample_loaded by auto
  have r: "ms_reachable fs opts ms" for fs opts
    using ms_reachable.intros(2) [OF ms_reachable.intros(1) ms(1)] .
  from latest_revision [OF r _ ms(2), of "''module''"] r ms(2) show ?thesis by blast
qed

text \<open>C24: resolving includes and imports ends, whatever cycles they form. Let all modules have been read in,
  so that no further file can be read, and let the statements of the modules visited before, if any, be linked
  (a new \<open>Modules\<close> has visited none). Then \<open>include\<close> returns with fuel one more than the number of nodes and has
  visited the module; and when it reports no error, and \<open>IgnoreModuleResolveErrors\<close> is off, every include and
  import statement of every module visited is linked to a module that was visited as well. (With the option
  on, a statement whose module is missing stays without one and no error is reported.)\<close>

theorem include_complete:
  assumes "no_files fs" "modules_ok ms" "m < length (ms_heap ms)"
    "\<forall>m'\<in>ms_includes ms. m' < length (ms_heap ms) \<and> (\<forall>i\<in>module_links (ms_heap ms) m'.
       \<exists>im. nd_module (ms_heap ms ! i) = Some im \<and> im \<in> ms_includes ms)"
  shows "\<exists>ms' e. ms_include (Suc (length (ms_heap ms))) fs opts m ms = Some (ms', e)
    \<and> m \<in> ms_includes ms' \<and> ms_includes ms \<subseteq> ms_includes ms'
    \<and> (e = None \<and> \<not> IgnoreModuleResolveErrors opts \<longrightarrow>
        (\<forall>m'\<in>ms_includes ms'. \<forall>i\<in>module_links (ms_heap ms') m'.
              \<exists>im. nd_module (ms_heap ms' ! i) = Some im \<and> im \<in> ms_includes ms'))"
proof -
  have "visits_ok ms" using assms(2,4) by (auto simp: visits_ok_def)
  moreover have "card (unvisited ms) < Suc (length (ms_heap ms))"
    using card_mono [of "{a. a < length (ms_heap ms)}" "unvisited ms"] by (auto simp: unvisited_def less_Suc_eq_le)
  ultimately obtain ms' e where r: "ms_include (Suc (length (ms_heap ms))) fs opts m ms = Some (ms', e)"
      "onward ms ms'" "m \<in> ms_includes ms'"
      "e = None \<and> \<not> IgnoreModuleResolveErrors opts \<longrightarrow> (\<forall>S. S \<subseteq> ms_includes ms \<longrightarrow> linked_but S ms \<longrightarrow> linked_but S ms')"
    using include_total(1) [OF assms(1) _ assms(3)] by blast
  moreover have "linked_but {} ms" using assms(4) by (simp add: linked_but_def linked_def)
  ultimately show ?thesis by (auto simp: linked_but_def linked_def onward_def)
qed

theorem include_complete_witness:
  "\<exists>ms ms' e. map_of (ms_Modules ms) ''m'' = Some 0
     \<and> ms_include (Suc (length (ms_heap ms))) \<lparr>fs_readFile = (\<lambda>_. None), fs_readDir = (\<lambda>_. None), fs_depth = 0\<rparr>
         \<lparr>IgnoreSubmoduleCircularDependencies = False, StoreUses = False, IgnoreModuleResolveErrors = False\<rparr> 0 ms
       = Some (ms', e)"
proof -
  obtain ms where ms: "load_statements [sample_module] NewModules = (ms, None)" "map_of (ms_Modules ms) ''m'' = Some 0"
    "ms_includes ms = {}" "0 < length (ms_heap ms)"
    using sample_loaded by auto
  have ok: "modules_ok ms" using advancesD [OF advances_load [OF ms(1)] NewModules_ok] .
  let ?fs = "\<lparr>fs_readFile = (\<lambda>_. None), fs_readDir = (\<lambda>_. None), fs_depth = 0\<rparr>"
  let ?opts = "\<lparr>IgnoreSubmoduleCircularDependencies = False, StoreUses = False, IgnoreModuleResolveErrors = False\<rparr>"
  obtain ms' e where "ms_include (Suc (length (ms_heap ms))) ?fs ?opts 0 ms = Some (ms', e)"
    using include_complete [OF _ ok ms(4), of ?fs ?opts] ms(3) by (auto simp: no_files_def)
  with ms(2) show ?thesis by blast
qed

subsection \<open>Namespaces\<close>

lemma namespace_loop_spec:
  "\<forall>m\<in>set ms. ptr h m ''Namespace'' \<noteq> None \<Longrightarrow>
   (\<And>f. found = Some f \<Longrightarrow> asString h (ptr h f ''Namespace'') = ns) \<Longrightarrow>
   (let S = {m \<in> set ms. asString h (ptr h m ''Namespace'') = ns} \<union> set_option found
    in (S = {} \<longrightarrow> namespace_loop h ns ms found = Some (Inr None))
     \<and> (\<forall>m. S = {m} \<longrightarrow> namespace_loop h ns ms found = Some (Inr (Some m)))
     \<and> ((\<exists>a\<in>S. \<exists>b\<in>S. a \<noteq> b) \<longrightarrow> (\<exists>a b. namespace_loop h ns ms found = Some (Inl (TwoModules ns a b)))))"
proof (induction ms arbitrary: found)
  case Nil
  then show ?case by (cases found) auto
next
  case (Cons m ms)
  obtain v where v: "ptr h m ''Namespace'' = Some v" using Cons(2) by fastforce
  show ?case
  proof (cases "nd_name (h ! v) = ns")
    case False
    then have "{x \<in> set (m # ms). asString h (ptr h x ''Namespace'') = ns}
        = {x \<in> set ms. asString h (ptr h x ''Namespace'') = ns}"
      using v by (auto simp: asString_def)
    then show ?thesis using Cons(1) [of found] Cons(2,3) False v by (simp add: Let_def)
  next
    case True
    then have S: "{x \<in> set (m # ms). asString h (ptr h x ''Namespace'') = ns}
        = insert m {x \<in> set ms. asString h (ptr h x ''Namespace'') = ns}"
      using v by (auto simp: asString_def)
    have m: "asString h (ptr h m ''Namespace'') = ns" using v True by (simp add: asString_def)
    show ?thesis
    proof (cases "found = None \<or> found = Some m")
      case found: True
      then have "namespace_loop h ns (m # ms) found = namespace_loop h ns ms (Some m)" using v True by auto
      moreover have "insert m {x \<in> set ms. asString h (ptr h x ''Namespace'') = ns} \<union> set_option found
          = {x \<in> set ms. asString h (ptr h x ''Namespace'') = ns} \<union> set_option (Some m)"
        using found by auto
      ultimately show ?thesis using Cons(1) [of "Some m"] Cons(2) m unfolding S by (simp add: Let_def)
    next
      case False
      then obtain f where "found = Some f" "f \<noteq> m" by auto
      then show ?thesis using v True unfolding S Let_def by auto
    qed
  qed
qed

lemma namespace_searched:
  assumes "map_of (ms_byNS ms) ns = None" "\<forall>m\<in>snd ` set (ms_Modules ms). ptr (ms_heap ms) m ''Namespace'' \<noteq> None"
  defines "S \<equiv> {m \<in> snd ` set (ms_Modules ms). asString (ms_heap ms) (ptr (ms_heap ms) m ''Namespace'') = ns}"
  shows "S = {} \<Longrightarrow> FindModuleByNamespace ns ms = (ms, Some (Inl (NoSuchNamespace ns)))"
    "S = {m} \<Longrightarrow> FindModuleByNamespace ns ms = (ms\<lparr>ms_byNS := AList.update ns m (ms_byNS ms)\<rparr>, Some (Inr m))"
    "a \<in> S \<Longrightarrow> b \<in> S \<Longrightarrow> a \<noteq> b \<Longrightarrow> \<exists>x y. FindModuleByNamespace ns ms = (ms, Some (Inl (TwoModules ns x y)))"
  using namespace_loop_spec [of "List.map snd (ms_Modules ms)" "ms_heap ms" None ns] assms
  unfolding FindModuleByNamespace_def Let_def S_def by auto

text \<open>C29: a namespace names a module only when it is the only one, as long as the answer is not cached. Let
  every module have a namespace statement. When \<open>byNS\<close> has no entry for the namespace, \<open>FindModuleByNamespace\<close>
  returns a module exactly when one module in the map has this namespace, and enters it in \<open>byNS\<close>; for none, and
  for two different ones, it reports the error that says so and enters nothing. When \<open>byNS\<close> has an
  entry, that module is returned, whatever the map of modules says by then: see
  \<open>stale_namespace\<close> for a second module with the namespace that is added later. It never panics.\<close>

theorem namespace_unique:
  assumes "\<forall>m\<in>snd ` set (ms_Modules ms). ptr (ms_heap ms) m ''Namespace'' \<noteq> None"
  shows "let S = {m \<in> snd ` set (ms_Modules ms). asString (ms_heap ms) (ptr (ms_heap ms) m ''Namespace'') = ns}
    in case map_of (ms_byNS ms) ns of
         Some m \<Rightarrow> FindModuleByNamespace ns ms = (ms, Some (Inr m))
       | None \<Rightarrow>
           (S = {} \<and> FindModuleByNamespace ns ms = (ms, Some (Inl (NoSuchNamespace ns)))
            \<or> (\<exists>m. S = {m} \<and> FindModuleByNamespace ns ms = (ms\<lparr>ms_byNS := AList.update ns m (ms_byNS ms)\<rparr>, Some (Inr m)))
            \<or> (\<exists>a\<in>S. \<exists>b\<in>S. a \<noteq> b) \<and> (\<exists>x y. FindModuleByNamespace ns ms = (ms, Some (Inl (TwoModules ns x y)))))"
proof (cases "map_of (ms_byNS ms) ns")
  case None
  let ?S = "{m \<in> snd ` set (ms_Modules ms). asString (ms_heap ms) (ptr (ms_heap ms) m ''Namespace'') = ns}"
  note found = namespace_searched [OF None assms]
  consider "?S = {}" | m where "?S = {m}" | "\<exists>a\<in>?S. \<exists>b\<in>?S. a \<noteq> b" by blast
  then show ?thesis
  proof cases
    case 1
    then show ?thesis using found(1) None unfolding Let_def by simp
  next
    case (2 m)
    then show ?thesis using found(2) [OF 2] None unfolding Let_def by simp
  next
    case 3
    then show ?thesis using found(3) None unfolding Let_def by (simp, blast)
  qed
qed (simp add: FindModuleByNamespace_def)

theorem namespace_unique_witness:
  "\<exists>ms. ms_Modules ms = [(''m'', 0)] \<and> snd (FindModuleByNamespace ''urn:none'' ms) \<noteq> None"
proof -
  obtain ms where ms: "ms_Modules ms = [(''m'', 0)]" "ms_byNS ms = []" "ptr (ms_heap ms) 0 ''Namespace'' \<noteq> None"
    using sample_loaded by blast
  then have "snd (FindModuleByNamespace ''urn:none'' ms) \<noteq> None"
    using namespace_unique [of ms "''urn:none''"] by (auto simp: Let_def)
  with ms(1) show ?thesis by blast
qed

text \<open>The cached answer is not looked at again: whatever modules are added (or replaced) later, a lookup
  still gives the first, also where a search would report two modules of the namespace.\<close>

lemma stale_namespace:
  assumes "FindModuleByNamespace ns ms = (ms1, Some (Inr m))"
  shows "FindModuleByNamespace ns (ms1\<lparr>ms_Modules := M, ms_ast := st\<rparr>) = (ms1\<lparr>ms_Modules := M, ms_ast := st\<rparr>, Some (Inr m))"
proof -
  have "map_of (ms_byNS ms1) ns = Some m"
    using assms by (auto simp: FindModuleByNamespace_def update_conv' split: option.splits sum.splits)
  then show ?thesis by (simp add: FindModuleByNamespace_def)
qed

definition same_namespace :: modules where
  "same_namespace = NewModules\<lparr>ms_Modules := [(''a'', 0), (''b'', 1)], ms_ast := empty_ast\<lparr>ast_nodes :=
     [(new_node ''Module'')\<lparr>nd_name := ''a'', nd_subs := [(''Namespace'', [2])]\<rparr>,
      (new_node ''Module'')\<lparr>nd_name := ''b'', nd_subs := [(''Namespace'', [2])]\<rparr>,
      (new_node ''Value'')\<lparr>nd_name := ''urn:x''\<rparr>]\<rparr>\<rparr>"

lemma two_of_a_namespace:
  "snd (FindModuleByNamespace ''urn:x'' same_namespace) = Some (Inl (TwoModules ''urn:x'' ''a'' ''b''))"
  "snd (FindModuleByNamespace ''urn:x'' (same_namespace\<lparr>ms_Modules := [(''a'', 0)]\<rparr>)) = Some (Inr 0)"
  by code_simp+

subsection \<open>The order of reading matters\<close>

text \<open>
  Two modules of one name, one without a revision: read in this order both are accepted, in the
  reverse order the one without a revision is reported as a duplicate of the other, whose bare
  name it takes for a full name.
\<close>

definition two_modules :: heap where
  "two_modules =
     [(new_node ''Module'')\<lparr>nd_name := ''a''\<rparr>,
      (new_node ''Module'')\<lparr>nd_name := ''a'', nd_subs := [(''Revision'', [2])]\<rparr>,
      (new_node ''Revision'')\<lparr>nd_name := ''2020-01-01''\<rparr>]"

lemma revisionless_order:
  "\<exists>M1 M2. add_to two_modules ''module'' 0 [] = Inr M1 \<and> add_to two_modules ''module'' 1 M1 = Inr M2
     \<and> map_of M2 ''a'' = Some 1"
  "\<exists>M e. add_to two_modules ''module'' 1 [] = Inr M \<and> add_to two_modules ''module'' 0 M = Inl e"
proof -
  have n: "module_FullName two_modules 0 = ''a''" "module_FullName two_modules (Suc 0) = ''a@2020-01-01''"
    "node_NName two_modules 0 = ''a''" "node_NName two_modules (Suc 0) = ''a''"
    by code_simp+
  show "\<exists>M1 M2. add_to two_modules ''module'' 0 [] = Inr M1 \<and> add_to two_modules ''module'' 1 M1 = Inr M2
     \<and> map_of M2 ''a'' = Some 1"
    by (simp add: add_to_def n Let_def string_less_def)
  show "\<exists>M e. add_to two_modules ''module'' 1 [] = Inr M \<and> add_to two_modules ''module'' 0 M = Inl e"
    by (simp add: add_to_def n Let_def)
qed

end
