(* ===== verification/Links.thy ===== *)
theory Links
  imports Includes
begin

text \<open>
  The searches of \<open>node.go\<close> and \<open>find.go\<close> that follow imports and includes. Searching by prefix
  may read a file, so it passes the \<open>Modules\<close> on; the left of a result is a panic, a nil
  dereference. \<open>FindNode\<close>, \<open>ChildNode\<close> and \<open>FindGrouping\<close> do not change the state; they take fuel,
  \<open>None\<close> being that it runs out.
\<close>

type_synonym 'a outcome = "modules \<times> (unit + 'a)"

subsection \<open>Modules by prefix\<close>

text \<open>The loop over the imports: \<open>None\<close> is a nil dereference, an import without a prefix.\<close>

fun import_by_prefix :: "heap \<Rightarrow> string \<Rightarrow> nat list \<Rightarrow> nat option option" where
  "import_by_prefix h prefix [] = Some None"
| "import_by_prefix h prefix (i # is') =
     (case ptr h i ''Prefix'' of
        None \<Rightarrow> None
      | Some p \<Rightarrow> if prefix = nd_name (h ! p) then Some (Some i) else import_by_prefix h prefix is')"

definition FindModuleByPrefix :: "filesystem \<Rightarrow> nat option \<Rightarrow> string \<Rightarrow> modules \<Rightarrow> nat option outcome" where
  "FindModuleByPrefix fs n prefix ms =
     (case n of
        None \<Rightarrow> (ms, Inr None)
      | Some a \<Rightarrow>
          (let h = ms_heap ms; md = RootNode h a
           in if prefix = [] \<or> prefix = module_GetPrefix h md then (ms, Inr md)
              else (case md of
                      None \<Rightarrow> (ms, Inl ())
                    | Some m \<Rightarrow>
                        (case import_by_prefix h prefix (field h m ''Import'') of
                           None \<Rightarrow> (ms, Inl ())
                         | Some None \<Rightarrow> (ms, Inr None)
                         | Some (Some i) \<Rightarrow> FindModule fs i ms))))"

text \<open>\<open>module\<close>: the module of a node, that of the belongs-to statement for a submodule.\<close>

definition module_of :: "nat option \<Rightarrow> modules \<Rightarrow> unit + nat option" where
  "module_of n ms =
     (let h = ms_heap ms
      in case Option.bind n (RootNode h) of
           None \<Rightarrow> Inl ()
         | Some m \<Rightarrow>
             if node_Kind h m = ''submodule'' then
               (case ptr h m ''BelongsTo'' of
                  None \<Rightarrow> Inl ()
                | Some b \<Rightarrow> Inr (map_of (ms_Modules ms) (nd_name (h ! b))))
             else Inr (Some m))"

text \<open>\<open>modulePrefixedName\<close> of an identity; the code dereferences the module.\<close>

definition modulePrefixedName :: "nat \<Rightarrow> modules \<Rightarrow> unit + string" where
  "modulePrefixedName i ms =
     (case module_of (Some i) ms of
        Inr (Some m) \<Rightarrow> Inr (nd_name (ms_heap ms ! m) @ '':'' @ nd_name (ms_heap ms ! i))
      | _ \<Rightarrow> Inl ())"

subsection \<open>Extensions\<close>

text \<open>\<open>matchingExtensions\<close>: the left of the inner result is the prefix that was not found.\<close>

fun matching_loop :: "filesystem \<Rightarrow> nat \<Rightarrow> string \<Rightarrow> string \<Rightarrow> Statement list \<Rightarrow> Statement list \<Rightarrow> modules
    \<Rightarrow> (string + Statement list) outcome" where
  "matching_loop fs n mname identifier [] acc ms = (ms, Inr (Inr acc))"
| "matching_loop fs n mname identifier (ext # exts) acc ms =
     (let names = go_split2 (Keyword ext) '':''
      in case FindModuleByPrefix fs (Some n) (hd names) ms of
           (ms1, Inl _) \<Rightarrow> (ms1, Inl ())
         | (ms1, Inr None) \<Rightarrow> (ms1, Inr (Inl (hd names)))
         | (ms1, Inr (Some md)) \<Rightarrow>
             matching_loop fs n mname identifier exts
               (if length names = 2 \<and> names ! 1 = identifier \<and> nd_name (ms_heap ms1 ! md) = mname
                then acc @ [ext] else acc) ms1)"

definition matchingExtensions :: "filesystem \<Rightarrow> nat \<Rightarrow> Statement list \<Rightarrow> string \<Rightarrow> string \<Rightarrow> modules
    \<Rightarrow> (string + Statement list) outcome" where
  "matchingExtensions fs n exts mname identifier ms = matching_loop fs n mname identifier exts [] ms"

definition MatchingExtensions :: "filesystem \<Rightarrow> nat \<Rightarrow> string \<Rightarrow> string \<Rightarrow> modules
    \<Rightarrow> (string + Statement list) outcome" where
  "MatchingExtensions fs n mname identifier ms =
     matchingExtensions fs n (nd_exts (ms_heap ms ! n)) mname identifier ms"

subsection \<open>Groupings\<close>

definition localPrefix :: "heap \<Rightarrow> nat option \<Rightarrow> string" where
  "localPrefix h n = module_GetPrefix h (Option.bind n (RootNode h))"

definition trimLocalPrefix :: "heap \<Rightarrow> nat option \<Rightarrow> string \<Rightarrow> string" where
  "trimLocalPrefix h n name =
     (let pfx = localPrefix h n
      in go_trim_prefix name (if pfx \<noteq> [] then pfx @ '':'' else pfx))"

text \<open>
  \<open>FindGrouping\<close>, from the node \<open>n\<close> (nil for an import that is not linked) up to the root, and
  its loops over imports and includes. \<open>Some (Inl ())\<close> is a nil dereference, an include that is
  not linked; the set holds the names of the submodules searched.
\<close>

function FindGrouping :: "nat \<Rightarrow> heap \<Rightarrow> nat option \<Rightarrow> string \<Rightarrow> string set
      \<Rightarrow> (unit + nat option \<times> string set) option"
  and grouping_up :: "nat \<Rightarrow> heap \<Rightarrow> nat option \<Rightarrow> string \<Rightarrow> string set
      \<Rightarrow> (unit + nat option \<times> string set) option"
  and grouping_imports :: "nat \<Rightarrow> heap \<Rightarrow> nat list \<Rightarrow> string \<Rightarrow> string set
      \<Rightarrow> (unit + nat option \<times> string set) option"
  and grouping_includes :: "nat \<Rightarrow> heap \<Rightarrow> nat list \<Rightarrow> string \<Rightarrow> string set
      \<Rightarrow> (unit + nat option \<times> string set) option" where
  "FindGrouping k h n name seen = grouping_up k h n (trimLocalPrefix h n name) seen"
| "grouping_up k h n name seen =
     (case k of
        0 \<Rightarrow> None
      | Suc k' \<Rightarrow>
          (case n of
             None \<Rightarrow> Some (Inr (None, seen))
           | Some a \<Rightarrow>
               (case List.find (\<lambda>g. nd_name (h ! g) = name) (field h a ''Grouping'') of
                  Some g \<Rightarrow> Some (Inr (Some g, seen))
                | None \<Rightarrow>
                    (case grouping_imports k' h (field h a ''Import'') name seen of
                       Some (Inr (None, seen1)) \<Rightarrow>
                         (case grouping_includes k' h (field h a ''Include'') name seen1 of
                            Some (Inr (None, seen2)) \<Rightarrow> grouping_up k' h (ParentNode h a) name seen2
                          | r \<Rightarrow> r)
                     | r \<Rightarrow> r))))"
| "grouping_imports k h [] name seen = Some (Inr (None, seen))"
| "grouping_imports k h (i # is') name seen =
     (case ptr h i ''Prefix'' of
        None \<Rightarrow> Some (Inl ())
      | Some p \<Rightarrow>
          (let pname = go_trim_prefix name (nd_name (h ! p) @ '':'')
           in if pname = name then grouping_imports k h is' name seen
              else (case k of
                      0 \<Rightarrow> None
                    | Suc k' \<Rightarrow>
                        (case FindGrouping k' h (nd_module (h ! i)) pname seen of
                           Some (Inr (None, seen1)) \<Rightarrow> grouping_imports k h is' name seen1
                         | r \<Rightarrow> r))))"
| "grouping_includes k h [] name seen = Some (Inr (None, seen))"
| "grouping_includes k h (i # is') name seen =
     (case nd_module (h ! i) of
        None \<Rightarrow> Some (Inl ())
      | Some m \<Rightarrow>
          if nd_name (h ! m) \<in> seen then grouping_includes k h is' name seen
          else (case k of
                  0 \<Rightarrow> None
                | Suc k' \<Rightarrow>
                    (case FindGrouping k' h (Some m) name (insert (nd_name (h ! m)) seen) of
                       Some (Inr (None, seen1)) \<Rightarrow> grouping_includes k h is' name seen1
                     | r \<Rightarrow> r)))"
  by pat_completeness auto

termination
  by (relation "measures [\<lambda>p. case p of Inl (Inl (k, _)) \<Rightarrow> k | Inl (Inr (k, _)) \<Rightarrow> k
        | Inr (Inl (k, _)) \<Rightarrow> k | Inr (Inr (k, _)) \<Rightarrow> k,
      \<lambda>p. case p of Inl (Inl _) \<Rightarrow> 1 | Inl (Inr _) \<Rightarrow> 0
        | Inr (Inl (_, _, is', _)) \<Rightarrow> length is' | Inr (Inr (_, _, is', _)) \<Rightarrow> length is']") auto

subsection \<open>Paths in the AST\<close>

text \<open>
  What \<open>FindNode\<close> and \<open>ChildNode\<close> return as a \<open>Node\<close>: a node of the heap, an extension
  statement (the type \<open>Statement\<close> implements \<open>Node\<close>), or \<open>isRPCNode\<close>.
\<close>

datatype nref = RNode nat | RExt Statement | RRpc

datatype find_error = InvalidPath string | UnknownPrefix string | NoParent | NoElement string | FindPanic

definition nref_Kind :: "heap \<Rightarrow> nref \<Rightarrow> string" where
  "nref_Kind h r = (case r of RNode a \<Rightarrow> node_Kind h a | RExt s \<Rightarrow> Keyword s | RRpc \<Rightarrow> ''error'')"

definition nref_NName :: "heap \<Rightarrow> nref \<Rightarrow> string" where
  "nref_NName h r = (case r of RNode a \<Rightarrow> node_NName h a | RExt s \<Rightarrow> Argument s | RRpc \<Rightarrow> ''error'')"

definition nref_Parent :: "heap \<Rightarrow> nref \<Rightarrow> nref option" where
  "nref_Parent h r = (case r of RNode a \<Rightarrow> map_option RNode (ParentNode h a) | _ \<Rightarrow> None)"

text \<open>Up one level for \<open>..\<close>, past choice, leaf and case nodes; the address bounds the steps.\<close>

fun go_up :: "nat \<Rightarrow> heap \<Rightarrow> nref \<Rightarrow> nref option" where
  "go_up 0 h r = None"
| "go_up (Suc k) h r =
     (case nref_Parent h r of
        None \<Rightarrow> None
      | Some p \<Rightarrow> if nref_Kind h p \<in> {''choice'', ''leaf'', ''case''} then go_up k h p else Some p)"

definition up_fuel :: "nref \<Rightarrow> nat" where
  "up_fuel r = (case r of RNode a \<Rightarrow> Suc a | _ \<Rightarrow> 1)"

text \<open>Where an absolute path starts: the module that the prefix of its first part stands for.\<close>

definition import_base :: "heap \<Rightarrow> nat \<Rightarrow> string \<Rightarrow> find_error + nat" where
  "import_base h m prefix =
     (case import_by_prefix h prefix (field h m ''Import'') of
        None \<Rightarrow> Inl FindPanic
      | Some None \<Rightarrow> Inl (UnknownPrefix prefix)
      | Some (Some i) \<Rightarrow> (case nd_module (h ! i) of None \<Rightarrow> Inl FindPanic | Some x \<Rightarrow> Inr x))"

definition module_base :: "heap \<Rightarrow> nat \<Rightarrow> nat \<Rightarrow> string \<Rightarrow> find_error + nat" where
  "module_base h n m prefix =
     (if prefix = [] then Inr n
      else (case ptr h m ''Prefix'' of
              None \<Rightarrow> Inl FindPanic
            | Some p \<Rightarrow> if prefix = nd_name (h ! p) then Inr n else import_base h m prefix))"

definition path_base :: "modules \<Rightarrow> nat \<Rightarrow> string \<Rightarrow> find_error + nat" where
  "path_base ms a prefix =
     (let h = ms_heap ms
      in case RootNode h a of
           None \<Rightarrow> Inl FindPanic
         | Some n \<Rightarrow>
             if node_Kind h n = ''submodule'' then
               (case ptr h n ''BelongsTo'' of
                  None \<Rightarrow> Inl FindPanic
                | Some b \<Rightarrow>
                    (case map_of (ms_Modules ms) (nd_name (h ! b)) of
                       None \<Rightarrow> Inl FindPanic
                     | Some m \<Rightarrow>
                         if prefix = [] then Inr n
                         else (case ptr h b ''Prefix'' of
                                 None \<Rightarrow> Inl FindPanic
                               | Some bp \<Rightarrow>
                                   if prefix = nd_name (h ! bp) then Inr n else module_base h n m prefix)))
             else module_base h n n prefix)"

text \<open>The node an absolute or relative path starts from, with the parts of the path.\<close>

definition path_start :: "modules \<Rightarrow> nref \<Rightarrow> string \<Rightarrow> find_error + nref \<times> string list" where
  "path_start ms r path =
     (if path = ''/'' \<or> last path = CHR ''/'' then Inl (InvalidPath path)
      else (let parts = go_split path ''/''
            in if hd parts \<noteq> [] then Inr (r, parts)
               else (case r of
                       RNode a \<Rightarrow>
                         (case path_base ms a (fst (getPrefix (parts ! 1))) of
                            Inl e \<Rightarrow> Inl e
                          | Inr m \<Rightarrow> Inr (RNode m, tl parts))
                     | _ \<Rightarrow> Inl FindPanic)))"

text \<open>The nodes of a field as \<open>ChildNode\<close> looks at them; fields marked \<open>nomerge\<close> are skipped.\<close>

definition field_nodes :: "heap \<Rightarrow> nat \<Rightarrow> sfield \<Rightarrow> (string \<times> nref list) option" where
  "field_nodes h a f =
     (case f of (fname, ftype, yang) \<Rightarrow>
        (let parts = go_split yang '',''
         in if yang = [] \<or> ''nomerge'' \<in> set (tl parts) then None
            else Some (hd parts, if hd parts = ''Ext'' then List.map RExt (nd_exts (h ! a))
                                 else List.map RNode (field h a fname))))"

definition node_fields :: "heap \<Rightarrow> nref \<Rightarrow> (string \<times> nref list) list" where
  "node_fields h r =
     (case r of
        RNode a \<Rightarrow> (case map_of structs (nd_type (h ! a)) of
                      None \<Rightarrow> []
                    | Some fs \<Rightarrow> List.map_filter (field_nodes h a) fs)
      | _ \<Rightarrow> [])"

text \<open>
  \<open>FindNode\<close> with its loop over the parts, and \<open>ChildNode\<close> with its loops over the fields and
  the nodes of a field. The fuel bounds how often a \<open>uses\<close> is followed.
\<close>

function FindNode :: "nat \<Rightarrow> modules \<Rightarrow> nref \<Rightarrow> string \<Rightarrow> (find_error + nref) option"
  and find_parts :: "nat \<Rightarrow> modules \<Rightarrow> nref \<Rightarrow> string list \<Rightarrow> (find_error + nref) option"
  and ChildNode :: "nat \<Rightarrow> modules \<Rightarrow> nref \<Rightarrow> string \<Rightarrow> (unit + nref option) option"
  and child_fields :: "nat \<Rightarrow> modules \<Rightarrow> (string \<times> nref list) list \<Rightarrow> string \<Rightarrow> (unit + nref option) option"
  and child_items :: "nat \<Rightarrow> modules \<Rightarrow> bool \<Rightarrow> nref list \<Rightarrow> string \<Rightarrow> (unit + nref option) option" where
  "FindNode k ms r path =
     (if path = [] then Some (Inr r)
      else (case path_start ms r path of
              Inl e \<Rightarrow> Some (Inl e)
            | Inr (s, parts) \<Rightarrow> find_parts k ms s parts))"
| "find_parts k ms r [] = Some (Inr r)"
| "find_parts k ms r (part # parts) =
     (if nref_Kind (ms_heap ms) r = ''rpc'' then Some (Inr RRpc)
      else if part = ''..'' then
        (case go_up (up_fuel r) (ms_heap ms) r of
           None \<Rightarrow> Some (Inl NoParent)
         | Some p \<Rightarrow> find_parts k ms p parts)
      else (case ChildNode k ms r (snd (getPrefix part)) of
              None \<Rightarrow> None
            | Some (Inl _) \<Rightarrow> Some (Inl FindPanic)
            | Some (Inr None) \<Rightarrow> Some (Inl (NoElement part))
            | Some (Inr (Some c)) \<Rightarrow> find_parts k ms c parts))"
| "ChildNode k ms r name = child_fields k ms (node_fields (ms_heap ms) r) name"
| "child_fields k ms [] name = Some (Inr None)"
| "child_fields k ms ((tag, rs) # fs) name =
     (case child_items k ms (tag = ''uses'') rs name of
        Some (Inr None) \<Rightarrow> child_fields k ms fs name
      | x \<Rightarrow> x)"
| "child_items k ms uses [] name = Some (Inr None)"
| "child_items k ms uses (r # rs) name =
     (if \<not> uses then
        (if nref_NName (ms_heap ms) r = name then Some (Inr (Some r)) else child_items k ms uses rs name)
      else
        (case k of
           0 \<Rightarrow> None
         | Suc k' \<Rightarrow>
             (let uname = nref_NName (ms_heap ms) r
              in case FindNode k' ms r (if go_has_prefix uname ''/'' then uname else ''/'' @ uname) of
                   None \<Rightarrow> None
                 | Some (Inl e) \<Rightarrow>
                     if e = FindPanic then Some (Inl ()) else child_items k ms uses rs name
                 | Some (Inr x) \<Rightarrow>
                     (case ChildNode k' ms x name of
                        Some (Inr None) \<Rightarrow> child_items k ms uses rs name
                      | y \<Rightarrow> y))))"
  by pat_completeness auto

termination
  by (relation "measures [\<lambda>p. case p of Inl (Inl (k, _)) \<Rightarrow> k | Inl (Inr (k, _)) \<Rightarrow> k
        | Inr (Inl (k, _)) \<Rightarrow> k | Inr (Inr (Inl (k, _))) \<Rightarrow> k | Inr (Inr (Inr (k, _))) \<Rightarrow> k,
      \<lambda>p. case p of Inl (Inl _) \<Rightarrow> 4 | Inl (Inr _) \<Rightarrow> 3 | Inr (Inl _) \<Rightarrow> 2
        | Inr (Inr (Inl _)) \<Rightarrow> 1 | Inr (Inr (Inr _)) \<Rightarrow> 0,
      \<lambda>p. case p of Inl (Inl _) \<Rightarrow> 0 | Inl (Inr (_, _, _, parts)) \<Rightarrow> length parts | Inr (Inl _) \<Rightarrow> 0
        | Inr (Inr (Inl (_, _, fs, _))) \<Rightarrow> length fs | Inr (Inr (Inr (_, _, _, rs, _))) \<Rightarrow> length rs]") auto

declare FindNode.simps [simp del] ChildNode.simps [simp del]

subsection \<open>Searches that do not come back\<close>

text \<open>
  A top-level \<open>uses\<close> of a grouping that does not exist: to find any child, \<open>ChildNode\<close> looks for
  the grouping from the module, where it meets the same \<open>uses\<close> again. No fuel is enough.
\<close>

definition dangling_uses :: modules where
  "dangling_uses = NewModules\<lparr>ms_ast := \<lparr>ast_nodes =
     [(new_node ''Module'')\<lparr>nd_name := ''m'', nd_subs := [(''Uses'', [1])]\<rparr>,
      (new_node ''Uses'')\<lparr>nd_name := ''x'', nd_parent := Some 0\<rparr>], ast_dict = Map.empty\<rparr>\<rparr>"

lemma dangling_fields: "node_fields (ms_heap dangling_uses) (RNode 0) =
  List.map (\<lambda>t. (t, [])) [''Ext'', ''anydata'', ''anyxml'', ''augment'', ''choice'', ''container'', ''deviation'',
     ''extension'', ''feature'', ''grouping'', ''identity'', ''import'', ''include'', ''leaf'', ''leaf-list'',
     ''list'', ''notification'', ''rpc'', ''typedef''] @ [(''uses'', [RNode 1])]"
  by code_simp

lemma uses_recursion: "ChildNode k dangling_uses (RNode 0) name = None"
proof (induction k arbitrary: name rule: less_induct)
  case (less k)
  have start: "path_start dangling_uses (RNode (Suc 0)) ''/x'' = Inr (RNode 0, [''x''])" by code_simp
  have kind: "nref_Kind (ms_heap dangling_uses) (RNode 0) = ''module''" by code_simp
  have name: "nref_NName (ms_heap dangling_uses) (RNode (Suc 0)) = ''x''" by code_simp
  have part: "snd (getPrefix ''x'') = ''x''" by code_simp
  show ?case
  proof (cases k)
    case (Suc k')
    then have "FindNode k' dangling_uses (RNode 1) ''/x'' = None"
      using less [of k' "''x''"] by (simp add: FindNode.simps start kind part)
    then show ?thesis by (simp add: ChildNode.simps dangling_fields Suc name)
  qed (simp add: ChildNode.simps dangling_fields)
qed

text \<open>
  Nil dereferences: \<open>module\<close> of a nil node (its comment promises nil), an absolute path from a
  submodule whose module is not loaded (in the arguments of the error message), and a search
  for a grouping that meets an include without a module.
\<close>

lemma module_of_nil: "module_of None ms = Inl ()"
  by (simp add: module_of_def Let_def)

lemma path_unknown_module:
  assumes "RootNode (ms_heap ms) a = Some n" "node_Kind (ms_heap ms) n = ''submodule''"
    "ptr (ms_heap ms) n ''BelongsTo'' = Some b" "map_of (ms_Modules ms) (nd_name (ms_heap ms ! b)) = None"
  shows "path_base ms a prefix = Inl FindPanic"
  using assms by (simp add: path_base_def Let_def)

lemma grouping_unlinked_include:
  assumes "field h a ''Grouping'' = []" "field h a ''Import'' = []" "field h a ''Include'' = i # rest"
    "nd_module (h ! i) = None"
  shows "FindGrouping (Suc k) h (Some a) name seen = Some (Inl ())"
  using assms by simp

end
