(* ===== verification/Identities.thy ===== *)
theory Identities
  imports Links
begin

text \<open>
  \<open>pkg/yang/identity.go\<close>. The dictionary of identities maps \<open>module:identity\<close> to the module it
  was found in and the identity. The loops over Go maps run in an order that the model leaves
  open: the modules come as a list, and \<open>perm\<close> and \<open>perm'\<close> rearrange the dictionary for the two
  loops over it. \<open>Inl ()\<close> is a nil dereference.
\<close>

type_synonym ident_dict = "(string \<times> nat \<times> nat) list"

datatype ident_error =
    LocalBase string string string    \<comment> \<open>source, base, key\<close>
  | NoExternalModule string string
  | RemoteBase string string

definition appendIfNotIn :: "nat list \<Rightarrow> nat \<Rightarrow> nat list" where
  "appendIfNotIn ids chk = (if chk \<in> set ids then ids else ids @ [chk])"

text \<open>\<open>addChildren\<close> and its loop over the values; \<open>None\<close>: out of fuel.\<close>

fun addChildren :: "nat \<Rightarrow> heap \<Rightarrow> nat \<Rightarrow> nat list \<Rightarrow> nat list option"
  and addChildren_list :: "nat \<Rightarrow> heap \<Rightarrow> nat list \<Rightarrow> nat list \<Rightarrow> nat list option" where
  "addChildren 0 h r ids = None"
| "addChildren (Suc k) h r ids = addChildren_list k h (nd_values (h ! r)) (appendIfNotIn ids r)"
| "addChildren_list k h [] ids = Some ids"
| "addChildren_list k h (c # cs) ids =
     (case addChildren k h c ids of None \<Rightarrow> None | Some ids' \<Rightarrow> addChildren_list k h cs ids')"

definition findIdentityBase :: "filesystem \<Rightarrow> ident_dict \<Rightarrow> nat \<Rightarrow> string \<Rightarrow> modules
    \<Rightarrow> (nat option \<times> ident_error list) outcome" where
  "findIdentityBase fs dict m baseStr ms =
     (let h = ms_heap ms; (basePrefix, baseName) = getPrefix baseStr;
          source = Source h (Some m)
      in if basePrefix = [] \<or> basePrefix = module_GetPrefix h (Some m) then
           (case module_of (Some m) ms of
              Inr (Some mm) \<Rightarrow>
                (let keyName = nd_name (h ! mm) @ '':'' @ baseName
                 in case map_of dict keyName of
                      None \<Rightarrow> (ms, Inr (None, [LocalBase source baseStr keyName]))
                    | Some (_, i) \<Rightarrow> (ms, Inr (Some i, [])))
            | _ \<Rightarrow> (ms, Inl ()))
         else
           (case FindModuleByPrefix fs (Some m) basePrefix ms of
              (ms1, Inl _) \<Rightarrow> (ms1, Inl ())
            | (ms1, Inr None) \<Rightarrow> (ms1, Inr (None, [NoExternalModule source basePrefix]))
            | (ms1, Inr (Some x)) \<Rightarrow>
                (case module_of (Some x) ms1 of
                   Inr (Some mm) \<Rightarrow>
                     (case map_of dict (nd_name (ms_heap ms1 ! mm) @ '':'' @ baseName) of
                        Some (_, i) \<Rightarrow> (ms1, Inr (Some i, []))
                      | None \<Rightarrow> (ms1, Inr (None, [RemoteBase source baseStr])))
                 | _ \<Rightarrow> (ms1, Inl ()))))"

text \<open>The first loop: the identities of a module, then those of the submodules it includes.\<close>

fun add_identities :: "nat \<Rightarrow> nat list \<Rightarrow> modules \<Rightarrow> ident_dict \<Rightarrow> unit + ident_dict" where
  "add_identities m [] ms dict = Inr dict"
| "add_identities m (i # ids) ms dict =
     (case modulePrefixedName i ms of
        Inl _ \<Rightarrow> Inl ()
      | Inr key \<Rightarrow> add_identities m ids ms (AList.update key (m, i) dict))"

fun add_included :: "nat list \<Rightarrow> modules \<Rightarrow> ident_dict \<Rightarrow> unit + ident_dict" where
  "add_included [] ms dict = Inr dict"
| "add_included (i # incs) ms dict =
     (case nd_module (ms_heap ms ! i) of
        None \<Rightarrow> add_included incs ms dict
      | Some m \<Rightarrow>
          (case add_identities m (field (ms_heap ms) m ''Identity'') ms dict of
             Inl _ \<Rightarrow> Inl ()
           | Inr dict' \<Rightarrow> add_included incs ms dict'))"

fun collect_identities :: "nat list \<Rightarrow> modules \<Rightarrow> ident_dict \<Rightarrow> unit + ident_dict" where
  "collect_identities [] ms dict = Inr dict"
| "collect_identities (m # mods) ms dict =
     (case add_identities m (field (ms_heap ms) m ''Identity'') ms dict of
        Inl _ \<Rightarrow> Inl ()
      | Inr dict1 \<Rightarrow>
          (case add_included (field (ms_heap ms) m ''Include'') ms dict1 of
             Inl _ \<Rightarrow> Inl ()
           | Inr dict2 \<Rightarrow> collect_identities mods ms dict2))"

text \<open>The second loop: each identity becomes a value of its bases.\<close>

definition set_values :: "nat \<Rightarrow> nat list \<Rightarrow> heap \<Rightarrow> heap" where
  "set_values i vs h = h[i := (h ! i)\<lparr>nd_values := vs\<rparr>]"

definition ms_set_values :: "nat \<Rightarrow> nat list \<Rightarrow> modules \<Rightarrow> modules" where
  "ms_set_values i vs ms = ms\<lparr>ms_ast := (ms_ast ms)\<lparr>ast_nodes := set_values i vs (ms_heap ms)\<rparr>\<rparr>"

fun link_bases :: "filesystem \<Rightarrow> ident_dict \<Rightarrow> nat \<Rightarrow> nat \<Rightarrow> nat list \<Rightarrow> modules \<Rightarrow> ident_error list outcome" where
  "link_bases fs dict rt i [] ms = (ms, Inr [])"
| "link_bases fs dict rt i (b # bs) ms =
     (case findIdentityBase fs dict rt (asString (ms_heap ms) (Some b)) ms of
        (ms1, Inl _) \<Rightarrow> (ms1, Inl ())
      | (ms1, Inr (base, errs)) \<Rightarrow>
          (let ms2 = (case base of
                 Some x \<Rightarrow> ms_set_values x (nd_values (ms_heap ms1 ! x) @ [i]) ms1
               | None \<Rightarrow> ms1)
           in case link_bases fs dict rt i bs ms2 of
                (ms3, Inl _) \<Rightarrow> (ms3, Inl ())
              | (ms3, Inr errs') \<Rightarrow> (ms3, Inr (errs @ errs'))))"

fun link_identities :: "filesystem \<Rightarrow> ident_dict \<Rightarrow> nat list \<Rightarrow> modules \<Rightarrow> ident_error list outcome" where
  "link_identities fs dict [] ms = (ms, Inr [])"
| "link_identities fs dict (i # ids) ms =
     (case field (ms_heap ms) i ''Base'' of
        [] \<Rightarrow> link_identities fs dict ids ms
      | bs \<Rightarrow>
          (case RootNode (ms_heap ms) i of
             None \<Rightarrow> (ms, Inl ())
           | Some rt \<Rightarrow>
               (case link_bases fs dict rt i bs ms of
                  (ms1, Inl _) \<Rightarrow> (ms1, Inl ())
                | (ms1, Inr errs) \<Rightarrow>
                    (case link_identities fs dict ids ms1 of
                       (ms2, Inl _) \<Rightarrow> (ms2, Inl ())
                     | (ms2, Inr errs') \<Rightarrow> (ms2, Inr (errs @ errs'))))))"

text \<open>The final sweep: the values of each identity become all that are derived from it.\<close>

fun sweep_values :: "nat \<Rightarrow> nat list \<Rightarrow> heap \<Rightarrow> heap option" where
  "sweep_values k [] h = Some h"
| "sweep_values k (i # ids) h =
     (case addChildren_list k h (nd_values (h ! i)) [] of
        None \<Rightarrow> None
      | Some vs \<Rightarrow> sweep_values k ids (set_values i vs h))"

definition resolveIdentities :: "nat \<Rightarrow> filesystem \<Rightarrow> nat list \<Rightarrow> (ident_dict \<Rightarrow> ident_dict)
    \<Rightarrow> (ident_dict \<Rightarrow> ident_dict) \<Rightarrow> ident_dict \<Rightarrow> modules
    \<Rightarrow> (ident_dict \<times> ident_error list outcome) option" where
  "resolveIdentities k fs mods perm perm' dict0 ms =
     (case collect_identities mods ms dict0 of
        Inl _ \<Rightarrow> Some (dict0, ms, Inl ())
      | Inr dict \<Rightarrow>
          (case link_identities fs dict (List.map (\<lambda>(_, _, i). i) (perm dict)) ms of
             (ms1, Inl _) \<Rightarrow> Some (dict, ms1, Inl ())
           | (ms1, Inr errs) \<Rightarrow>
               (case sweep_values k (List.map (\<lambda>(_, _, i). i) (perm' dict)) (ms_heap ms1) of
                  None \<Rightarrow> None
                | Some h \<Rightarrow> Some (dict, ms1\<lparr>ms_ast := (ms_ast ms1)\<lparr>ast_nodes := h\<rparr>\<rparr>, Inr errs))))"

subsection \<open>The values are the derived identities\<close>

text \<open>\<open>derives h\<close>: the second identity is among the values of the first.\<close>

definition derives :: "heap \<Rightarrow> (nat \<times> nat) set" where
  "derives h = {(i, j). i < length h \<and> j \<in> set (nd_values (h ! i))}"

definition values_ok :: "heap \<Rightarrow> bool" where
  "values_ok h \<longleftrightarrow> (\<forall>i<length h. \<forall>j\<in>set (nd_values (h ! i)). j < length h)"

lemma set_appendIfNotIn [simp]: "set (appendIfNotIn ids r) = insert r (set ids)"
  by (auto simp: appendIfNotIn_def)

lemma distinct_appendIfNotIn [simp]: "distinct ids \<Longrightarrow> distinct (appendIfNotIn ids r)"
  by (simp add: appendIfNotIn_def)

lemma finite_derives: "finite (derives h)"
proof -
  have "derives h \<subseteq> (SIGMA i:{..<length h}. set (nd_values (h ! i)))" by (auto simp: derives_def)
  then show ?thesis by (rule finite_subset) simp
qed

lemma derives_range: "values_ok h \<Longrightarrow> derives h \<subseteq> {..<length h} \<times> {..<length h}"
  by (auto simp: derives_def values_ok_def)

lemma reached_step: "S `` {r} = set cs \<Longrightarrow> S\<^sup>* `` {r} = insert r (S\<^sup>* `` set cs)"
  by (auto elim: converse_rtranclE intro: converse_rtrancl_into_rtrancl)

text \<open>
  The recursion along \<open>S\<close> ends when \<open>S\<close> lies inside the transitive closure of an acyclic \<open>R\<close>:
  fewer and fewer identities remain below.
\<close>

lemma below_decreases:
  assumes "acyclic R" "finite R" "(r, c) \<in> R\<^sup>+"
  shows "card (R\<^sup>+ `` {c}) < card (R\<^sup>+ `` {r})"
proof (rule psubset_card_mono)
  have "finite (R\<^sup>+)" using assms(2) by simp
  then show "finite (R\<^sup>+ `` {r})" by (rule finite_Image)
  have "c \<notin> R\<^sup>+ `` {c}" using assms(1) by (simp add: acyclic_def)
  then show "R\<^sup>+ `` {c} \<subset> R\<^sup>+ `` {r}" using assms(3) by (auto intro: trancl_trans)
qed

lemma addChildren_reaches:
  assumes "acyclic R" "finite R"
  shows "derives h \<subseteq> R\<^sup>+ \<Longrightarrow> values_ok h \<Longrightarrow> r < length h \<Longrightarrow> card (R\<^sup>+ `` {r}) < k \<Longrightarrow> distinct ids \<Longrightarrow>
      \<exists>out. addChildren k h r ids = Some out \<and> distinct out \<and> set out = set ids \<union> (derives h)\<^sup>* `` {r}"
    "derives h \<subseteq> R\<^sup>+ \<Longrightarrow> values_ok h \<Longrightarrow> \<forall>c\<in>set cs. c < length h \<and> card (R\<^sup>+ `` {c}) < k \<Longrightarrow> distinct ids \<Longrightarrow>
      \<exists>out. addChildren_list k h cs ids = Some out \<and> distinct out \<and> set out = set ids \<union> (derives h)\<^sup>* `` set cs"
proof (induction k h r ids and k h cs ids rule: addChildren_addChildren_list.induct)
  case (2 k h r ids)
  have "c < length h \<and> card (R\<^sup>+ `` {c}) < k" if "c \<in> set (nd_values (h ! r))" for c
  proof -
    have "(r, c) \<in> R\<^sup>+" using that 2(2,4) by (auto simp: derives_def)
    then show ?thesis using below_decreases [OF assms(1,2)] 2(3-5) that
      by (fastforce simp: values_ok_def)
  qed
  with 2(1) 2(2,3,6) obtain out where "addChildren_list k h (nd_values (h ! r)) (appendIfNotIn ids r) = Some out"
    "distinct out" "set out = insert r (set ids) \<union> (derives h)\<^sup>* `` set (nd_values (h ! r))" by auto
  moreover have "(derives h)\<^sup>* `` {r} = insert r ((derives h)\<^sup>* `` set (nd_values (h ! r)))"
    by (rule reached_step) (use 2(4) in \<open>auto simp: derives_def\<close>)
  ultimately show ?case by auto
next
  case (4 k h c cs ids)
  from 4(1) 4(3-6) obtain out1 where 1: "addChildren k h c ids = Some out1" "distinct out1"
    "set out1 = set ids \<union> (derives h)\<^sup>* `` {c}" by auto
  from 4(2) [OF 1(1)] 4(3-5) 1(2) obtain out where "addChildren_list k h cs out1 = Some out" "distinct out"
    "set out = set out1 \<union> (derives h)\<^sup>* `` set cs" by auto
  with 1 show ?case by auto
qed auto

text \<open>One step of the sweep: the relation stays between \<open>R\<close> and its transitive closure.\<close>

lemma sweep_reaches:
  assumes "acyclic R" "finite R" "R \<subseteq> {..<length h} \<times> {..<length h}" "length h < k"
  shows "values_ok h' \<Longrightarrow> length h' = length h \<Longrightarrow> R \<subseteq> derives h' \<Longrightarrow> derives h' \<subseteq> R\<^sup>+ \<Longrightarrow>
     set ids \<subseteq> {..<length h} \<Longrightarrow> \<forall>i\<in>S. set (nd_values (h' ! i)) = R\<^sup>+ `` {i} \<and> distinct (nd_values (h' ! i)) \<Longrightarrow>
     \<exists>h''. sweep_values k ids h' = Some h'' \<and> length h'' = length h
       \<and> (\<forall>i\<in>S \<union> set ids. set (nd_values (h'' ! i)) = R\<^sup>+ `` {i} \<and> distinct (nd_values (h'' ! i)))
       \<and> (\<forall>i. i \<notin> set ids \<longrightarrow> h'' ! i = h' ! i)"
proof (induction ids arbitrary: h' S)
  case (Cons i ids)
  have tr: "(derives h')\<^sup>+ = R\<^sup>+"
    using trancl_mono_subset [OF Cons(4)] trancl_mono_subset [OF Cons(5)] by (simp add: trans_trancl trancl_id subset_antisym)
  have i: "i < length h'" using Cons(3,6) by simp
  have fuel: "c < length h' \<and> card (R\<^sup>+ `` {c}) < k" if "c \<in> set (nd_values (h' ! i))" for c
  proof -
    have "R\<^sup>+ \<subseteq> {..<length h} \<times> {..<length h}" using assms(3) trancl_subset_Sigma by blast
    then have "R\<^sup>+ `` {c} \<subseteq> {..<length h}" by auto
    then have "card (R\<^sup>+ `` {c}) \<le> length h" using card_mono [of "{..<length h}"] by simp
    then show ?thesis using assms(4) that Cons(2) i by (auto simp: values_ok_def)
  qed
  from addChildren_reaches(2) [OF assms(1,2) Cons(5,2), of "nd_values (h' ! i)" k "[]"] fuel
  obtain vs where vs: "addChildren_list k h' (nd_values (h' ! i)) [] = Some vs" "distinct vs"
    "set vs = (derives h')\<^sup>* `` set (nd_values (h' ! i))" by auto
  have "set vs = (derives h')\<^sup>+ `` {i}"
  proof -
    have "set (nd_values (h' ! i)) = derives h' `` {i}" using i by (auto simp: derives_def)
    then show ?thesis using vs(3) by (auto simp: trancl_unfold_left relcomp_Image)
  qed
  then have set_vs: "set vs = R\<^sup>+ `` {i}" using tr by simp
  let ?h = "set_values i vs h'"
  have nth: "nd_values (?h ! j) = (if j = i then vs else nd_values (h' ! j))" for j
    using i by (cases "j = i") (simp_all add: set_values_def)
  have der: "derives ?h = derives h' \<union> {i} \<times> (R\<^sup>+ `` {i})"
  proof -
    have "derives h' `` {i} \<subseteq> R\<^sup>+ `` {i}" using Cons(5) by auto
    then show ?thesis using i set_vs nth unfolding derives_def
      by (auto simp: set_values_def split: if_splits)
  qed
  have "values_ok ?h"
    unfolding values_ok_def
  proof (intro allI impI ballI)
    fix j c assume j: "j < length ?h" and c: "c \<in> set (nd_values (?h ! j))"
    have "R\<^sup>+ \<subseteq> {..<length h} \<times> {..<length h}" using assms(3) by (rule trancl_subset_Sigma)
    then have "c < length h" if "c \<in> R\<^sup>+ `` {i}" using that by auto
    moreover have "c < length h'" if "c \<in> set (nd_values (h' ! j))"
      using that j Cons(2) by (simp add: values_ok_def set_values_def)
    ultimately show "c < length ?h" using c Cons(3) set_vs unfolding nth by (auto simp: set_values_def split: if_splits)
  qed
  moreover have "length ?h = length h" using Cons(3) by (simp add: set_values_def)
  moreover have "R \<subseteq> derives ?h" "derives ?h \<subseteq> R\<^sup>+" using der Cons(4,5) by auto
  moreover have "\<forall>j\<in>insert i S. set (nd_values (?h ! j)) = R\<^sup>+ `` {j} \<and> distinct (nd_values (?h ! j))"
    using nth set_vs vs(2) Cons(7) by simp
  ultimately obtain h'' where "sweep_values k ids ?h = Some h''" "length h'' = length h"
    "\<forall>j\<in>insert i S \<union> set ids. set (nd_values (h'' ! j)) = R\<^sup>+ `` {j} \<and> distinct (nd_values (h'' ! j))"
    "\<forall>j. j \<notin> set ids \<longrightarrow> h'' ! j = ?h ! j"
    using Cons(1) [of ?h "insert i S"] Cons(6) by auto
  then show ?case using vs(1) by (auto simp: set_values_def)
qed auto

text \<open>
  After a link of the identities that gave no panic, on an acyclic hierarchy, the result of
  \<open>resolveIdentities\<close> in terms of the heap \<open>h\<close> with the direct values.
\<close>

lemma resolve_values:
  assumes "collect_identities mods ms dict0 = Inr dict"
    "link_identities fs dict (List.map (\<lambda>(_, _, i). i) (perm dict)) ms = (ms1, Inr errs)"
    "set (perm' dict) = set dict" "\<forall>(_, _, i)\<in>set dict. i < length (ms_heap ms1)"
    "values_ok (ms_heap ms1)" "acyclic (derives (ms_heap ms1))" "length (ms_heap ms1) < k"
  shows "\<exists>ms'. resolveIdentities k fs mods perm perm' dict0 ms = Some (dict, ms', Inr errs)
     \<and> (\<forall>(_, _, i)\<in>set dict. set (nd_values (ms_heap ms' ! i)) = (derives (ms_heap ms1))\<^sup>+ `` {i}
          \<and> distinct (nd_values (ms_heap ms' ! i)))"
proof -
  let ?h = "ms_heap ms1" and ?ids = "List.map (\<lambda>(_, _, i). i) (perm' dict)"
  have ids: "set ?ids \<subseteq> {..<length ?h}" using assms(3,4) by auto
  obtain h'' where "sweep_values k ?ids ?h = Some h''"
    "\<forall>i\<in>set ?ids. set (nd_values (h'' ! i)) = (derives ?h)\<^sup>+ `` {i} \<and> distinct (nd_values (h'' ! i))"
    using sweep_reaches [OF assms(6) finite_derives derives_range [OF assms(5)] assms(7,5) refl subset_refl _ ids, of "{}"]
    by (simp add: r_into_trancl' subrelI) blast
  then show ?thesis using assms(1-3) by (auto simp: resolveIdentities_def)
qed

text \<open>C12: the values of an identity are all identities derived from it, directly or through
  others, each once, whatever order Go's maps deliver the identities in: when the hierarchy that
  the link of the bases has made is acyclic, \<open>resolveIdentities\<close> returns with the transitive
  closure of the direct derivation in the values of every identity of the dictionary.\<close>

theorem identity_values:
  assumes "collect_identities mods ms dict0 = Inr dict"
    "link_identities fs dict (List.map (\<lambda>(_, _, i). i) (perm dict)) ms = (ms1, Inr errs)"
    "set (perm' dict) = set dict" "\<forall>(_, _, i)\<in>set dict. i < length (ms_heap ms1)"
    "values_ok (ms_heap ms1)" "acyclic (derives (ms_heap ms1))" "length (ms_heap ms1) < k"
  shows "\<exists>ms'. resolveIdentities k fs mods perm perm' dict0 ms = Some (dict, ms', Inr errs)
     \<and> (\<forall>(_, _, i)\<in>set dict. set (nd_values (ms_heap ms' ! i)) = (derives (ms_heap ms1))\<^sup>+ `` {i}
          \<and> distinct (nd_values (ms_heap ms' ! i)))"
  using assms by (rule resolve_values)

text \<open>A module with the identities a, b derived from a, and c derived from b.\<close>

definition identity_chain :: modules where
  "identity_chain = NewModules\<lparr>ms_Modules := [(''m'', 0)], ms_ast := \<lparr>ast_nodes =
     [(new_node ''Module'')\<lparr>nd_name := ''m'', nd_subs := [(''Identity'', [1, 2, 4])]\<rparr>,
      (new_node ''Identity'')\<lparr>nd_name := ''a'', nd_parent := Some 0\<rparr>,
      (new_node ''Identity'')\<lparr>nd_name := ''b'', nd_parent := Some 0, nd_subs := [(''Base'', [3])]\<rparr>,
      (new_node ''Value'')\<lparr>nd_name := ''a'', nd_parent := Some 2\<rparr>,
      (new_node ''Identity'')\<lparr>nd_name := ''c'', nd_parent := Some 0, nd_subs := [(''Base'', [5])]\<rparr>,
      (new_node ''Value'')\<lparr>nd_name := ''b'', nd_parent := Some 4\<rparr>],
     ast_dict = Map.empty\<rparr>\<rparr>"

definition empty_disk :: filesystem where
  "empty_disk = \<lparr>fs_readFile = (\<lambda>_. None), fs_readDir = (\<lambda>_. None), fs_depth = 0\<rparr>"

definition chain_dict :: ident_dict where
  "chain_dict = [(''m:a'', 0, 1), (''m:b'', 0, 2), (''m:c'', 0, 4)]"

theorem identity_values_witness:
  "\<exists>ms'. resolveIdentities 7 empty_disk [0] (\<lambda>d. d) rev [] identity_chain = Some (chain_dict, ms', Inr [])
     \<and> set (nd_values (ms_heap ms' ! 1)) = {2, 4}"
proof -
  let ?l = "link_identities empty_disk chain_dict (List.map (\<lambda>(_, _, i). i) ((\<lambda>d. d) chain_dict)) identity_chain"
  define ms1 where "ms1 = fst ?l"
  have c: "collect_identities [0] identity_chain [] = Inr chain_dict" by code_simp
  have "snd ?l = Inr []" by code_simp
  then have l: "?l = (ms1, Inr [])" unfolding ms1_def by (metis prod.collapse)
  have v: "List.map nd_values (ms_heap ms1) = [[], [2], [4], [], [], []]" unfolding ms1_def by code_simp
  then have len: "length (ms_heap ms1) = 6" using arg_cong [OF v, of length] unfolding length_map by simp
  have nth: "nd_values (ms_heap ms1 ! i) = [[], [2], [4], [], [], []] ! i" if "i < 6" for i
    using arg_cong [OF v, of "\<lambda>l. l ! i"] that len by simp
  have six: "i < (6::nat) \<longleftrightarrow> i \<in> {0, 1, 2, 3, 4, 5}" for i by auto
  have d: "derives (ms_heap ms1) = {(1, 2), (2, 4)}"
    unfolding derives_def len by (auto simp: nth six)
  have "(derives (ms_heap ms1))\<^sup>+ = {(1, 2), (2, 4), (1, 4)}"
  proof
    show "(derives (ms_heap ms1))\<^sup>+ \<subseteq> {(1, 2), (2, 4), (1, 4)}"
      unfolding d by (auto simp: trancl_insert2 elim: converse_tranclE)
    show "{(1, 2), (2, 4), (1, 4)} \<subseteq> (derives (ms_heap ms1))\<^sup>+"
      unfolding d by (auto intro: trancl_into_trancl2)
  qed
  then have tr: "(derives (ms_heap ms1))\<^sup>+ = {(1, 2), (2, 4), (1, 4)}" .
  have "\<exists>ms'. resolveIdentities 7 empty_disk [0] (\<lambda>d. d) rev [] identity_chain = Some (chain_dict, ms', Inr [])
     \<and> (\<forall>(_, _, i)\<in>set chain_dict. set (nd_values (ms_heap ms' ! i)) = (derives (ms_heap ms1))\<^sup>+ `` {i}
          \<and> distinct (nd_values (ms_heap ms' ! i)))"
  proof (rule identity_values [where perm = "\<lambda>d. d", OF c l])
    show "values_ok (ms_heap ms1)" unfolding values_ok_def len by (auto simp: six nth)
    show "acyclic (derives (ms_heap ms1))" using tr by (auto simp: acyclic_def)
    show "\<forall>(_, _, i)\<in>set chain_dict. i < length (ms_heap ms1)" by (simp add: len chain_dict_def)
  qed (simp_all add: len)
  then show ?thesis unfolding tr by (auto simp: chain_dict_def)
qed

text \<open>Two identities that are each other's base: the recursion never ends.\<close>

lemma cyclic_identities:
  assumes "nd_values (h ! 0) = [1]" "nd_values (h ! Suc 0) = [0]"
  shows "addChildren k h 0 ids = None \<and> addChildren k h (Suc 0) ids = None"
proof (induction k arbitrary: ids)
  case (Suc k)
  then show ?case by (simp add: assms [simplified])
qed simp

end
