(* ===== verification/Errors.thy ===== *)
theory Errors
  imports Strconv "HOL-Library.Product_Lexorder"
begin

text \<open>
  The order of error messages in \<open>pkg/yang/entry.go\<close>: \<open>nless\<close>, \<open>sortedErrors.Less\<close> and
  \<open>errorSort\<close>, over errors of any type \<open>'e\<close> with the method \<open>Error()\<close> as the parameter \<open>msg_of\<close>;
  \<open>reflect.DeepEqual\<close> is the equality of \<open>'e\<close>. On messages that start with file, line and column
  the order is the one of the key \<open>error_key\<close>; on others it is not even transitive.
\<close>

text \<open>\<open>strings.SplitN(s, sep, n)\<close> for \<open>n > 0\<close>\<close>

fun go_splitn :: "nat \<Rightarrow> string \<Rightarrow> string \<Rightarrow> string list" where
  "go_splitn 0 s sep = []"
| "go_splitn (Suc 0) s sep = [s]"
| "go_splitn (Suc (Suc n)) s sep =
     (case go_index s sep of
        None \<Rightarrow> [s]
      | Some i \<Rightarrow> take i s # go_splitn (Suc n) (drop (i + length sep) s) sep)"

definition nless :: "string \<Rightarrow> string \<Rightarrow> int" where
  "nless a b =
     (case (go_parse_int10 a, go_parse_int10 b) of
        (Inr an, Inr bn) \<Rightarrow> (if an < bn then - 1 else if bn < an then 1 else 0)
      | _ \<Rightarrow> (if string_less a b then - 1 else if string_less b a then 1 else 0))"

text \<open>The loop of \<open>Less\<close> over the parts after the file name.\<close>

fun less_parts :: "string list \<Rightarrow> string list \<Rightarrow> bool" where
  "less_parts fi [] = False"
| "less_parts [] (y # fj) = True"
| "less_parts (x # fi) (y # fj) =
     (if nless x y = - 1 then True else if nless x y = 1 then False else less_parts fi fj)"

definition error_less :: "string \<Rightarrow> string \<Rightarrow> bool" where
  "error_less a b =
     (let fi = go_splitn 4 a '':''; fj = go_splitn 4 b '':''
      in if string_less (hd fi) (hd fj) then True
         else if string_less (hd fj) (hd fi) then False
         else less_parts (tl fi) (tl fj))"

definition errorSort :: "('e \<Rightarrow> string) \<Rightarrow> 'e list \<Rightarrow> 'e list" where
  "errorSort msg_of es =
     (case es of
        [] \<Rightarrow> []
      | [e] \<Rightarrow> [e]
      | _ \<Rightarrow> remdups_adj (go_sort (\<lambda>a b. error_less (msg_of a) (msg_of b)) es))"

lemmas atoi_eval = go_parse_int10_def go_parse_uint_def digit_val_def byte_def lower_def

lemma errorSort_eq: "errorSort msg_of es = remdups_adj (go_sort (\<lambda>a b. error_less (msg_of a) (msg_of b)) es)"
proof (cases es)
  case (Cons e es')
  then show ?thesis by (cases es') (simp_all add: errorSort_def)
qed (simp add: errorSort_def)

subsection \<open>The order on located messages\<close>

text \<open>What \<open>Source\<close> gives for a statement, followed by a message that is not a number.\<close>

definition error_at :: "string \<Rightarrow> int \<Rightarrow> int \<Rightarrow> string \<Rightarrow> string" where
  "error_at f l c m = f @ '':'' @ go_itoa l @ '':'' @ go_itoa c @ '':'' @ m"

definition int64 :: "int \<Rightarrow> bool" where
  "int64 i \<longleftrightarrow> - (2 ^ 63) \<le> i \<and> i < 2 ^ 63"

definition located :: "string \<Rightarrow> bool" where
  "located s \<longleftrightarrow> (\<exists>f l c m e. s = error_at f l c m \<and> CHR '':'' \<notin> set f \<and> int64 l \<and> int64 c
     \<and> go_parse_int10 m = Inl e)"

definition atoi :: "string \<Rightarrow> int" where
  "atoi s = (case go_parse_int10 s of Inl _ \<Rightarrow> 0 | Inr i \<Rightarrow> i)"

definition error_key :: "string \<Rightarrow> string \<times> int \<times> int \<times> string" where
  "error_key s = (let p = go_splitn 4 s '':'' in (p ! 0, atoi (p ! 1), atoi (p ! 2), p ! 3))"

lemma colon_notin_itoa: "CHR '':'' \<notin> set (go_itoa i)"
proof -
  have "digit_char d \<noteq> CHR '':''" if "d < 10" for d
    using that by (simp add: digit_char_eq) (simp add: byte_def)
  then have "CHR '':'' \<notin> set (go_digits n)" for n
    by (metis go_digits_chars)
  then show ?thesis by (simp add: go_itoa_def)
qed

lemma splitn_colon:
  "CHR '':'' \<notin> set s \<Longrightarrow> go_splitn (Suc (Suc n)) (s @ CHR '':'' # r) '':'' = s # go_splitn (Suc n) r '':''"
  by (simp add: go_index_char_append)

lemma splitn_error_at:
  "CHR '':'' \<notin> set f \<Longrightarrow> go_splitn 4 (error_at f l c m) '':'' = [f, go_itoa l, go_itoa c, m]"
  using colon_notin_itoa
  by (simp add: error_at_def eval_nat_numeral splitn_colon del: go_splitn.simps(3))

lemma error_key_at:
  "CHR '':'' \<notin> set f \<Longrightarrow> int64 l \<Longrightarrow> int64 c \<Longrightarrow> error_key (error_at f l c m) = (f, l, c, m)"
  by (simp add: error_key_def splitn_error_at atoi_def int64_def go_parse_int10_itoa)

lemma located_key: "located s \<Longrightarrow> located t \<Longrightarrow> error_key s = error_key t \<Longrightarrow> s = t"
  by (auto simp: located_def error_key_at)

lemma error_less_key:
  assumes "located s" "located t"
  shows "error_less s t \<longleftrightarrow> error_key s < error_key t"
proof -
  from assms obtain f l c m e f' l' c' m' e' where s: "s = error_at f l c m" "CHR '':'' \<notin> set f" "int64 l"
      "int64 c" "go_parse_int10 m = Inl e"
    and t: "t = error_at f' l' c' m'" "CHR '':'' \<notin> set f'" "int64 l'" "int64 c'" "go_parse_int10 m' = Inl e'"
    unfolding located_def by metis
  have num: "nless (go_itoa i) (go_itoa j) = (if i < j then - 1 else if j < i then 1 else 0)"
    if "int64 i" "int64 j" for i j
    using that by (simp add: nless_def int64_def go_parse_int10_itoa)
  have msg: "nless m m' = (if m < m' then - 1 else if m' < m then 1 else 0)"
    using s(5) t(5) by (simp add: nless_def string_less_def)
  show ?thesis
    using s(2-4) t(2-4)
    by (auto simp: s(1) t(1) error_less_def splitn_error_at error_key_at num msg string_less_def Let_def)
qed

interpretation error_keys: sort_less "\<lambda>a b. error_key (msg_of a) < error_key (msg_of b)" for msg_of
  by unfold_locales auto

lemma go_sort_cong:
  "\<forall>x\<in>set xs. \<forall>y\<in>set xs. lt x y = lt' x y \<Longrightarrow> go_sort lt xs = go_sort lt' xs"
proof (induction xs)
  case (Cons x xs)
  have "go_insort lt x ys = go_insort lt' x ys" if "set ys \<subseteq> set xs" for ys
    using that Cons(2) by (induction ys) auto
  then show ?case using Cons by simp
qed simp

lemma sorted_remdups_adj_distinct:
  fixes key :: "'a \<Rightarrow> 'k::linorder"
  assumes "inj_on key (set xs)"
  shows "sorted_wrt (\<lambda>x y. \<not> key y < key x) xs \<Longrightarrow> distinct (remdups_adj xs)"
  using assms
proof (induction xs rule: remdups_adj.induct)
  case (3 x y xs)
  show ?case
  proof (cases "x = y")
    case False
    have "x \<noteq> z" if "z \<in> set (y # xs)" for z
    proof
      assume "x = z"
      then have "key y \<le> key x" "key x \<le> key y" using 3(3) that by (auto simp: not_less)
      then have "key x = key y" by simp
      then have "x = y" using inj_onD [OF 3(4), of x y] by simp
      with False show False by simp
    qed
    then have "x \<notin> set (remdups_adj (y # xs))" by auto
    moreover have "distinct (remdups_adj (y # xs))"
      using 3(2) [OF False] 3(3,4) by (auto simp: inj_on_def)
    ultimately show ?thesis using False by simp
  qed (use 3 in \<open>auto simp: inj_on_def\<close>)
qed auto

lemma sorted_wrt_remdups_adj: "sorted_wrt P xs \<Longrightarrow> sorted_wrt P (remdups_adj xs)"
  by (induction xs rule: remdups_adj.induct) auto

lemma errorSort_located:
  assumes "\<forall>e\<in>set es. located (msg_of e)" "inj_on msg_of (set es)"
  shows "set (errorSort msg_of es) = set es \<and> distinct (errorSort msg_of es)
    \<and> sorted (List.map (\<lambda>e. error_key (msg_of e)) (errorSort msg_of es))"
proof -
  let ?k = "\<lambda>e. error_key (msg_of e)" and ?s = "go_sort (\<lambda>a b. error_key (msg_of a) < error_key (msg_of b)) es"
  have sort: "go_sort (\<lambda>a b. error_less (msg_of a) (msg_of b)) es = ?s"
    by (rule go_sort_cong) (use assms(1) error_less_key in blast)
  have srt: "sorted_wrt (\<lambda>x y. \<not> ?k y < ?k x) ?s"
    using error_keys.sorted_sort [of msg_of es] unfolding error_keys.le_def .
  have "inj_on ?k (set es)"
    using assms located_key unfolding inj_on_def by blast
  then have d: "distinct (remdups_adj ?s)" using sorted_remdups_adj_distinct [of ?k ?s] srt by simp
  have "sorted (List.map ?k (remdups_adj ?s))"
    using sorted_wrt_remdups_adj [OF srt] by (simp add: sorted_map not_less)
  moreover have "set (remdups_adj ?s) = set es" by simp
  ultimately show ?thesis using d unfolding errorSort_eq sort by blast
qed

text \<open>C13: errors whose messages begin with file, line and column come out of \<open>errorSort\<close> once
  each and in the order of file name, then line and column as numbers, then message.\<close>

theorem error_sort:
  assumes "\<forall>e\<in>set es. located (msg_of e)" "inj_on msg_of (set es)"
  shows "set (errorSort msg_of es) = set es \<and> distinct (errorSort msg_of es)
    \<and> sorted (List.map (\<lambda>e. error_key (msg_of e)) (errorSort msg_of es))"
  using assms by (rule errorSort_located)

theorem error_sort_witness:
  "set (errorSort id [''a:10:2: x'', ''a:9:1: y'', ''a:10:2: x'']) = {''a:10:2: x'', ''a:9:1: y''}
   \<and> distinct (errorSort id [''a:10:2: x'', ''a:9:1: y'', ''a:10:2: x''])"
proof -
  have "error_at ''a'' 10 2 '' x'' = ''a:10:2: x''" "error_at ''a'' 9 1 '' y'' = ''a:9:1: y''"
    by (simp_all add: error_at_def go_itoa_def go_digits.simps digit_char_eq byte_def)
  moreover have "go_parse_int10 '' x'' = Inl ErrSyntax" "go_parse_int10 '' y'' = Inl ErrSyntax"
    by (simp_all add: atoi_eval)
  moreover have "int64 10" "int64 9" "int64 1" "int64 2" by (simp_all add: int64_def)
  moreover have "CHR '':'' \<notin> set ''a''" by code_simp
  ultimately have "located ''a:10:2: x''" "located ''a:9:1: y''" unfolding located_def by metis+
  then show ?thesis
    using error_sort [of "[''a:10:2: x'', ''a:9:1: y'', ''a:10:2: x'']" id] by auto
qed

text \<open>
  The comment on \<open>Less\<close> calls the order total; with a part that is not a number it runs in a
  circle, so that the result of \<open>sort.Sort\<close> is not determined.
\<close>

lemma error_less_circle:
  "error_less ''f:9'' ''f:10'' \<and> error_less ''f:10'' ''f:1a'' \<and> error_less ''f:1a'' ''f:9''"
proof -
  have "go_itoa 9 = ''9''" "go_itoa 10 = ''10''"
    by (simp_all add: go_itoa_def go_digits.simps digit_char_eq byte_def)
  then have n: "go_parse_int10 ''9'' = Inr 9" "go_parse_int10 ''10'' = Inr 10"
    using go_parse_int10_itoa [of 9] go_parse_int10_itoa [of 10] by simp_all
  have a: "go_parse_int10 ''1a'' = Inl ErrSyntax" by (simp add: atoi_eval)
  show ?thesis
    by (simp add: error_less_def eval_nat_numeral nless_def n a string_less_def)
qed

end
