(* ===== verification/YangTypes.thy ===== *)
theory YangTypes
  imports Ranges Enums Nodes
begin

text \<open>
  \<open>pkg/yang/yangtype.go\<close>: the kinds of types, the resolved type \<open>YangType\<close> and its comparison,
  and the base types. A \<open>*YangType\<close> is the index into a store of types. Code that may panic, or
  recurse without end, gives a \<open>run\<close>; \<open>bind_run\<close> continues a run that has returned.
\<close>

datatype 'a run = Done 'a | Panicked | NoFuel

definition bind_run :: "'a run \<Rightarrow> ('a \<Rightarrow> 'b run) \<Rightarrow> 'b run" where
  "bind_run r f = (case r of Done x \<Rightarrow> f x | Panicked \<Rightarrow> Panicked | NoFuel \<Rightarrow> NoFuel)"

lemma bind_run_simps [simp]:
  "bind_run (Done x) f = f x" "bind_run Panicked f = Panicked" "bind_run NoFuel f = NoFuel"
  by (simp_all add: bind_run_def)

lemma bind_run_Done [simp]: "bind_run r f = Done y \<longleftrightarrow> (\<exists>x. r = Done x \<and> f x = Done y)"
  by (cases r) simp_all

lemma bind_run_cong [fundef_cong]: "r = r' \<Longrightarrow> (\<And>x. r' = Done x \<Longrightarrow> f x = f' x) \<Longrightarrow> bind_run r f = bind_run r' f'"
  by (cases r') simp_all

subsection \<open>Kinds\<close>

datatype type_kind =
    Ynone | Yint8 | Yint16 | Yint32 | Yint64 | Yuint8 | Yuint16 | Yuint32 | Yuint64
  | Ybinary | Ybits | Ybool | Ydecimal64 | Yempty | Yenum | Yidentityref | YinstanceIdentifier
  | Yleafref | Ystring | Yunion

definition TypeKindFromName :: "(string \<times> type_kind) list" where
  "TypeKindFromName =
     [(''none'', Ynone), (''int8'', Yint8), (''int16'', Yint16), (''int32'', Yint32), (''int64'', Yint64),
      (''uint8'', Yuint8), (''uint16'', Yuint16), (''uint32'', Yuint32), (''uint64'', Yuint64),
      (''binary'', Ybinary), (''bits'', Ybits), (''boolean'', Ybool), (''decimal64'', Ydecimal64),
      (''empty'', Yempty), (''enumeration'', Yenum), (''identityref'', Yidentityref),
      (''instance-identifier'', YinstanceIdentifier), (''leafref'', Yleafref), (''string'', Ystring),
      (''union'', Yunion)]"

definition TypeKindToName :: "(type_kind \<times> string) list" where
  "TypeKindToName =
     [(Ynone, ''none''), (Yint8, ''int8''), (Yint16, ''int16''), (Yint32, ''int32''), (Yint64, ''int64''),
      (Yuint8, ''uint8''), (Yuint16, ''uint16''), (Yuint32, ''uint32''), (Yuint64, ''uint64''),
      (Ybinary, ''binary''), (Ybits, ''bits''), (Ybool, ''boolean''), (Ydecimal64, ''decimal64''),
      (Yempty, ''empty''), (Yenum, ''enumeration''), (Yidentityref, ''identityref''),
      (YinstanceIdentifier, ''instance-identifier''), (Yleafref, ''leafref''), (Ystring, ''string''),
      (Yunion, ''union'')]"

definition TypeKind_String :: "type_kind \<Rightarrow> string" where
  "TypeKind_String k = the (map_of TypeKindToName k)"

lemma kind_names: "map_of TypeKindFromName (TypeKind_String k) = Some k"
  by (induct k) (simp_all add: TypeKind_String_def TypeKindToName_def TypeKindFromName_def)

subsection \<open>Types\<close>

text \<open>A \<open>*Type\<close> or \<open>*Typedef\<close>: one made for a base type, by its name, or a node of the AST.\<close>

datatype tref = BaseRef string | NodeRef nat

record YangType =
  yt_Name :: string
  yt_Kind :: type_kind
  yt_Base :: "tref option"
  yt_IdentityBase :: "nat option"
  yt_Root :: "nat option"
  yt_Bit :: "enum_type option"
  yt_Enum :: "enum_type option"
  yt_Units :: string
  yt_Default :: string
  yt_HasDefault :: bool
  yt_FractionDigits :: int
  yt_Length :: yang_range
  yt_OptionalInstance :: bool
  yt_Path :: string
  yt_Pattern :: "string list"
  yt_POSIXPattern :: "string list"
  yt_Range :: yang_range
  yt_Type :: "nat list"

text \<open>The base types in a fixed order; their addresses are their positions.\<close>

definition base_type_kinds :: "(string \<times> type_kind) list" where
  "base_type_kinds =
     [(''int8'', Yint8), (''int16'', Yint16), (''int32'', Yint32), (''int64'', Yint64),
      (''uint8'', Yuint8), (''uint16'', Yuint16), (''uint32'', Yuint32), (''uint64'', Yuint64),
      (''decimal64'', Ydecimal64), (''string'', Ystring), (''boolean'', Ybool), (''enumeration'', Yenum),
      (''bits'', Ybits), (''binary'', Ybinary), (''leafref'', Yleafref), (''identityref'', Yidentityref),
      (''empty'', Yempty), (''union'', Yunion), (''instance-identifier'', YinstanceIdentifier)]"

definition base_type :: "nat \<Rightarrow> string \<times> type_kind \<Rightarrow> YangType" where
  "base_type a = (\<lambda>(name, kind). \<lparr>yt_Name = name, yt_Kind = kind, yt_Base = None, yt_IdentityBase = None,
     yt_Root = Some a, yt_Bit = None, yt_Enum = None, yt_Units = [], yt_Default = [], yt_HasDefault = False,
     yt_FractionDigits = 0, yt_Length = [], yt_OptionalInstance = False, yt_Path = [], yt_Pattern = [],
     yt_POSIXPattern = [],
     yt_Range = (case default_range name of None \<Rightarrow> [] | Some r \<Rightarrow> r), yt_Type = []\<rparr>)"

definition baseTypes :: "YangType list" where
  "baseTypes = List.map (\<lambda>(a, p). base_type a p) (List.enumerate 0 base_type_kinds)"

text \<open>\<open>BaseTypedefs\<close>: the address of the type of a base typedef.\<close>

definition BaseTypedefs :: "string \<Rightarrow> nat option" where
  "BaseTypedefs name = map_of (zip (List.map fst base_type_kinds) [0..<19]) name"

subsection \<open>Equality\<close>

fun ssEqual :: "string list \<Rightarrow> string list \<Rightarrow> bool" where
  "ssEqual [] [] = True"
| "ssEqual (s # s1) (t # s2) = (s = t \<and> ssEqual s1 s2)"
| "ssEqual _ _ = False"

lemma ssEqual_eq [simp]: "ssEqual a b \<longleftrightarrow> a = b"
  by (induction a b rule: ssEqual.induct) auto

text \<open>
  The comparison of all fields but the member types. \<open>cmpEnum\<close> is \<open>cmp.Equal\<close> of the package
  go-cmp on two \<open>*EnumType\<close> with the comparer of the code.
\<close>

definition same_fields :: "(enum_type option \<Rightarrow> enum_type option \<Rightarrow> bool) \<Rightarrow> YangType \<Rightarrow> YangType \<Rightarrow> bool" where
  "same_fields cmpEnum y t \<longleftrightarrow>
     yt_Kind y = yt_Kind t \<and> yt_Units y = yt_Units t \<and> yt_Default y = yt_Default t
     \<and> yt_HasDefault y = yt_HasDefault t \<and> yt_FractionDigits y = yt_FractionDigits t
     \<and> yt_IdentityBase y = yt_IdentityBase t
     \<and> length (yt_Length y) = length (yt_Length t) \<and> ranges_Equal (yt_Length y) (yt_Length t)
     \<and> yt_OptionalInstance y = yt_OptionalInstance t \<and> yt_Path y = yt_Path t
     \<and> ssEqual (yt_Pattern y) (yt_Pattern t) \<and> ssEqual (yt_POSIXPattern y) (yt_POSIXPattern t)
     \<and> length (yt_Range y) = length (yt_Range t) \<and> ranges_Equal (yt_Range y) (yt_Range t)
     \<and> cmpEnum (yt_Enum y) (yt_Enum t)"

text \<open>\<open>Equal\<close> and \<open>tsEqual\<close> over the store; \<open>None\<close> is out of fuel.\<close>

fun yt_Equal :: "nat \<Rightarrow> (enum_type option \<Rightarrow> enum_type option \<Rightarrow> bool) \<Rightarrow> YangType list \<Rightarrow> nat option \<Rightarrow> nat option
      \<Rightarrow> bool option"
  and tsEqual :: "nat \<Rightarrow> (enum_type option \<Rightarrow> enum_type option \<Rightarrow> bool) \<Rightarrow> YangType list \<Rightarrow> nat list \<Rightarrow> nat list
      \<Rightarrow> bool option" where
  "yt_Equal 0 cmpEnum ts y t = None"
| "yt_Equal (Suc k) cmpEnum ts y t =
     (if y = t then Some True
      else case (y, t) of
             (Some a, Some b) \<Rightarrow>
               if same_fields cmpEnum (ts ! a) (ts ! b)
               then (if length (yt_Type (ts ! a)) \<noteq> length (yt_Type (ts ! b)) then Some False
                     else tsEqual k cmpEnum ts (yt_Type (ts ! a)) (yt_Type (ts ! b)))
               else Some False
           | _ \<Rightarrow> Some False)"
| "tsEqual k cmpEnum ts (a # as) (b # bs) =
     (case yt_Equal k cmpEnum ts (Some a) (Some b) of
        Some True \<Rightarrow> tsEqual k cmpEnum ts as bs
      | r \<Rightarrow> r)"
| "tsEqual k cmpEnum ts _ _ = Some True"

end
