(* ===== verification/Types.thy ===== *)
theory Types
  imports YangTypes Identities
begin

text \<open>
  The resolution of types and typedefs, \<open>pkg/yang/types.go\<close>. The state \<open>world\<close> is the module
  set with the dictionary of identities, the store of types, and the field \<open>YangType\<close> of the
  nodes for types and typedefs. \<open>cmp.Equal\<close> and \<open>regexp/syntax.Parse\<close>, which the program only
  calls, are parameters: \<open>tv_regexp\<close> gives the error of a pattern, if any. \<open>Type_resolve\<close> and
  \<open>Typedef_resolve\<close> call each other with a fuel; their bodies take the recursive calls as
  arguments. \<open>Panicked\<close> is a nil dereference.
\<close>

record world =
  w_ms :: modules
  w_dict :: ident_dict
  w_types :: "YangType list"
  w_typeOf :: "nat \<Rightarrow> nat option"

record tenv =
  tv_fs :: filesystem
  tv_opts :: options
  tv_cmpEnum :: "enum_type option \<Rightarrow> enum_type option \<Rightarrow> bool"
  tv_regexp :: "string \<Rightarrow> string option"

datatype type_error =
    UnknownPrefixFor string string string
  | UnknownType string string
  | UnknownLocalType string string
  | NoYangType string string string
  | IdentityTypedef string
  | BoolError value_error
  | OverridingFraction string
  | FractionError string value_error
  | FractionNotAllowed string
  | IdentityNoBase string
  | IdentityBaseError ident_error
  | NullBase string
  | BadRange string range_error
  | BadLength string range_error
  | NegativeLength string yang_range
  | EnumNumber string number_error
  | EnumFailed string enum_error
  | ExtensionPrefix string
  | BadPattern string string string

type_synonym 'a stepw = "('a \<times> world) run"

abbreviation w_heap :: "'a world_scheme \<Rightarrow> heap" where
  "w_heap w \<equiv> ms_heap (w_ms w)"

definition put_type :: "nat \<Rightarrow> YangType \<Rightarrow> world \<Rightarrow> world" where
  "put_type a y w = w\<lparr>w_types := (w_types w)[a := y]\<rparr>"

definition types_Equal :: "tenv \<Rightarrow> nat option \<Rightarrow> nat option \<Rightarrow> world \<Rightarrow> bool run" where
  "types_Equal env y t w =
     (case yt_Equal (Suc (length (w_types w))) (tv_cmpEnum env) (w_types w) y t of
        None \<Rightarrow> NoFuel | Some b \<Rightarrow> Done b)"

subsection \<open>Finding the typedef\<close>

definition findExternal :: "tenv \<Rightarrow> nat \<Rightarrow> string \<Rightarrow> string \<Rightarrow> world \<Rightarrow> (type_error + nat) stepw" where
  "findExternal env n prefix name w =
     (case FindModuleByPrefix (tv_fs env) (Some n) prefix (w_ms w) of
        (ms1, Inl _) \<Rightarrow> Panicked
      | (ms1, Inr None) \<Rightarrow>
          Done (Inl (UnknownPrefixFor (Source (ms_heap ms1) (Some n)) prefix name), w\<lparr>w_ms := ms1\<rparr>)
      | (ms1, Inr (Some m)) \<Rightarrow>
          Done (case dict_find m name (ms_ast ms1) of
                  Some td \<Rightarrow> Inr td
                | None \<Rightarrow> Inl (UnknownType (Source (ms_heap ms1) (Some n))
                            (if prefix \<noteq> [] then prefix @ '':'' @ name else name)), w\<lparr>w_ms := ms1\<rparr>))"

text \<open>The loop up the ancestors; parents come before children, so the address bounds it.\<close>

fun find_up :: "nat \<Rightarrow> ast \<Rightarrow> nat option \<Rightarrow> string \<Rightarrow> nat option" where
  "find_up 0 st n name = None"
| "find_up (Suc k) st n name =
     (case n of
        None \<Rightarrow> None
      | Some a \<Rightarrow>
          (case dict_find a name st of
             Some td \<Rightarrow> Some td
           | None \<Rightarrow> find_up k st (ParentNode (ast_nodes st) a) name))"

fun find_in_includes :: "ast \<Rightarrow> nat list \<Rightarrow> string \<Rightarrow> nat option" where
  "find_in_includes st [] name = None"
| "find_in_includes st (i # is') name =
     (case Option.bind (nd_module (ast_nodes st ! i)) (\<lambda>m. dict_find m name st) of
        Some td \<Rightarrow> Some td
      | None \<Rightarrow> find_in_includes st is' name)"

definition local_typedef :: "ast \<Rightarrow> nat \<Rightarrow> nat \<Rightarrow> string \<Rightarrow> nat option" where
  "local_typedef st t rt name =
     (case find_up (Suc t) st (Some t) name of
        Some td \<Rightarrow> Some td
      | None \<Rightarrow> find_in_includes st (field (ast_nodes st) rt ''Include'') name)"

definition local_name :: "heap \<Rightarrow> nat \<Rightarrow> string \<Rightarrow> string \<Rightarrow> string" where
  "local_name h p prefix tname =
     (if prefix = [] \<or> prefix = nd_name (h ! p) then nd_name (h ! p) @ '':'' @ tname
      else prefix @ ''['' @ nd_name (h ! p) @ '']:'' @ tname)"

text \<open>The switch: the typedef with a word for where it was found, or the errors to return.\<close>

definition lookup_typedef :: "tenv \<Rightarrow> nat \<Rightarrow> world \<Rightarrow> (type_error list + tref \<times> string) stepw" where
  "lookup_typedef env t w =
     (let h = w_heap w; tname = nd_name (h ! t); (prefix, name) = getPrefix tname
      in case RootNode h t of
           None \<Rightarrow> Panicked
         | Some rt \<Rightarrow>
             if BaseTypedefs tname \<noteq> None then Done (Inr (BaseRef tname, ''builtin''), w)
             else if prefix = [] \<or> module_GetPrefix h (Some rt) = prefix then
               (case local_typedef (ms_ast (w_ms w)) t rt name of
                  Some td \<Rightarrow> Done (Inr (NodeRef td, ''local''), w)
                | None \<Rightarrow>
                    (case ptr h rt ''Prefix'' of
                       None \<Rightarrow> Panicked
                     | Some p \<Rightarrow>
                         Done (Inl [UnknownLocalType (Source h (Some t)) (local_name h p prefix tname)], w)))
             else
               bind_run (findExternal env t prefix name w) (\<lambda>(r, w1).
                 case r of
                   Inr td \<Rightarrow> Done (Inr (NodeRef td, ''imported''), w1)
                 | Inl e \<Rightarrow> Done (Inl (if IgnoreModuleResolveErrors (tv_opts env) then [] else [e]), w1)))"

subsection \<open>The statements under a type\<close>

text \<open>Each step works on the errors found and the type that is being made.\<close>

type_synonym making = "type_error list \<times> YangType"

definition set_instance :: "heap \<Rightarrow> nat \<Rightarrow> making \<Rightarrow> making" where
  "set_instance h t = (\<lambda>(errs, y).
     case ptr h t ''RequireInstance'' of
       None \<Rightarrow> (errs, y)
     | Some v \<Rightarrow>
         (case asBool h (Some v) of
            Inl e \<Rightarrow> (errs @ [BoolError e], y\<lparr>yt_OptionalInstance := True\<rparr>)
          | Inr b \<Rightarrow> (errs, y\<lparr>yt_OptionalInstance := \<not> b\<rparr>)))"

definition set_path :: "heap \<Rightarrow> nat \<Rightarrow> making \<Rightarrow> making" where
  "set_path h t = (\<lambda>(errs, y).
     case ptr h t ''Path'' of None \<Rightarrow> (errs, y) | Some v \<Rightarrow> (errs, y\<lparr>yt_Path := nd_name (h ! v)\<rparr>))"

definition is_decimal64 :: "heap \<Rightarrow> nat \<Rightarrow> YangType \<Rightarrow> bool" where
  "is_decimal64 h t y \<longleftrightarrow>
     yt_Kind y = Ydecimal64 \<and> (nd_name (h ! t) = ''decimal64'' \<or> yt_FractionDigits y \<noteq> 0)"

definition decimal_range :: "int \<Rightarrow> yang_range" where
  "decimal_range i =
     [mk_range \<lparr>Value = of_int AbsMinInt64, FractionDigits = of_int i, Negative = True\<rparr>
               \<lparr>Value = of_int MaxInt64, FractionDigits = of_int i, Negative = False\<rparr>]"

definition set_fraction :: "heap \<Rightarrow> nat \<Rightarrow> making \<Rightarrow> making" where
  "set_fraction h t = (\<lambda>(errs, y).
     case asRangeInt h (ptr h t ''FractionDigits'') 1 18 of
       Inl e \<Rightarrow> (errs @ [FractionError (Source h (Some t)) e],
                 y\<lparr>yt_FractionDigits := 0, yt_Range := decimal_range 0\<rparr>)
     | Inr i \<Rightarrow> (errs, y\<lparr>yt_FractionDigits := i, yt_Range := decimal_range i\<rparr>))"

definition set_identity :: "tenv \<Rightarrow> nat \<Rightarrow> making \<Rightarrow> world \<Rightarrow> making stepw" where
  "set_identity env t mk w =
     (let (errs, y) = mk; h = w_heap w
      in case ptr h t ''IdentityBase'' of
           None \<Rightarrow> Done ((errs @ [IdentityNoBase (Source h (Some t))], y), w)
         | Some b \<Rightarrow>
             (case Option.bind (ParentNode h t) (RootNode h) of
                None \<Rightarrow> Panicked
              | Some rt \<Rightarrow>
                  (case findIdentityBase (tv_fs env) (w_dict w) rt (nd_name (h ! b)) (w_ms w) of
                     (ms1, Inl _) \<Rightarrow> Panicked
                   | (ms1, Inr (base, es)) \<Rightarrow>
                       Done (if es \<noteq> [] then (errs @ List.map IdentityBaseError es, y)
                             else (case base of
                                     None \<Rightarrow> (errs @ [NullBase (nd_name (h ! b))], y)
                                   | Some i \<Rightarrow> (errs, y\<lparr>yt_IdentityBase := Some i\<rparr>)), w\<lparr>w_ms := ms1\<rparr>))))"

text \<open>The switch over decimal64 and identityref; the left is the early return.\<close>

definition set_special :: "tenv \<Rightarrow> string \<Rightarrow> nat \<Rightarrow> making \<Rightarrow> world \<Rightarrow> (making + making) stepw" where
  "set_special env source t mk w =
     (let (errs, y) = mk; h = w_heap w; dec = is_decimal64 h t y; fd = ptr h t ''FractionDigits''
      in if dec \<and> yt_FractionDigits y \<noteq> 0 then
           Done (if fd \<noteq> None then Inl (errs @ [OverridingFraction (Source h (Some t))], y) else Inr mk, w)
         else if dec then Done (Inr (set_fraction h t mk), w)
         else if fd \<noteq> None then Done (Inr (errs @ [FractionNotAllowed (Source h (Some t))], y), w)
         else if yt_Kind y = Yidentityref \<and> source = ''builtin'' then
           bind_run (set_identity env t mk w) (\<lambda>(mk1, w1). Done (Inr mk1, w1))
         else Done (Inr mk, w))"

definition set_range :: "heap \<Rightarrow> nat \<Rightarrow> bool \<Rightarrow> making \<Rightarrow> making" where
  "set_range h t dec = (\<lambda>(errs, y).
     case ptr h t ''Range'' of
       None \<Rightarrow> (errs, y)
     | Some v \<Rightarrow>
         (case parseChildRanges (yt_Range y) (nd_name (h ! v)) dec (of_int (yt_FractionDigits y)) of
            Inl e \<Rightarrow> (errs @ [BadRange (Source h (Some v)) e], y)
          | Inr yr \<Rightarrow> (errs, if ranges_Equal yr (yt_Range y) then y else y\<lparr>yt_Range := yr\<rparr>)))"

definition set_length :: "heap \<Rightarrow> nat \<Rightarrow> making \<Rightarrow> making" where
  "set_length h t = (\<lambda>(errs, y).
     case ptr h t ''Length'' of
       None \<Rightarrow> (errs, y)
     | Some v \<Rightarrow>
         (case parseChildRanges (if yt_Length y \<noteq> [] then yt_Length y else Uint64Range) (nd_name (h ! v)) False 0 of
            Inl e \<Rightarrow> (errs @ [BadLength (Source h (Some v)) e], y)
          | Inr yr \<Rightarrow>
              if ranges_Equal yr (yt_Length y) then (errs, y)
              else (if list_ex (\<lambda>r. Negative (rmin r)) yr then errs @ [NegativeLength (Source h (Some v)) yr]
                    else errs, y\<lparr>yt_Length := yr\<rparr>)))"

definition set_member :: "heap \<Rightarrow> enum_type \<Rightarrow> string \<Rightarrow> nat option \<Rightarrow> (number_error + enum_error) + enum_type" where
  "set_member h e name v =
     (case v of
        None \<Rightarrow> map_sum Inr id (enum_SetNext e name)
      | Some a \<Rightarrow>
          (case ParseInt (nd_name (h ! a)) of
             Inl x \<Rightarrow> Inl (Inl x)
           | Inr n \<Rightarrow>
               (case Number_Int n of
                  Inl x \<Rightarrow> Inl (Inl x)
                | Inr i \<Rightarrow> map_sum Inr id (enum_Set e name i))))"

text \<open>The loop over the enum or bit statements; \<open>what\<close> is the field with the number.\<close>

fun set_members :: "heap \<Rightarrow> string \<Rightarrow> nat list \<Rightarrow> type_error list \<times> enum_type \<Rightarrow> type_error list \<times> enum_type" where
  "set_members h what [] x = x"
| "set_members h what (m # ms) (errs, e) =
     (case set_member h e (nd_name (h ! m)) (ptr h m what) of
        Inl (Inl x) \<Rightarrow> set_members h what ms (errs @ [EnumNumber (Source h (Some m)) x], e)
      | Inl (Inr x) \<Rightarrow> set_members h what ms (errs @ [EnumFailed (Source h (Some m)) x], e)
      | Inr e' \<Rightarrow> set_members h what ms (errs, e'))"

definition set_enum :: "heap \<Rightarrow> nat \<Rightarrow> making \<Rightarrow> making" where
  "set_enum h t = (\<lambda>(errs, y).
     case field h t ''Enum'' of
       [] \<Rightarrow> (errs, y)
     | es \<Rightarrow> (case set_members h ''Value'' es (errs, NewEnumType) of
                (errs1, e) \<Rightarrow> (errs1, y\<lparr>yt_Enum := Some e\<rparr>)))"

definition set_bits :: "heap \<Rightarrow> nat \<Rightarrow> making \<Rightarrow> making" where
  "set_bits h t = (\<lambda>(errs, y).
     case field h t ''Bit'' of
       [] \<Rightarrow> (errs, y)
     | bs \<Rightarrow> (case set_members h ''Position'' bs (errs, NewBitfield) of
                (errs1, e) \<Rightarrow> (errs1, y\<lparr>yt_Bit := Some e\<rparr>)))"

definition add_patterns :: "string list \<Rightarrow> string list \<Rightarrow> string list" where
  "add_patterns ps new = foldl (\<lambda>ps p. if p \<in> set ps then ps else ps @ [p]) ps new"

definition set_patterns :: "heap \<Rightarrow> nat \<Rightarrow> making \<Rightarrow> making" where
  "set_patterns h t = (\<lambda>(errs, y).
     (errs, y\<lparr>yt_Pattern := add_patterns (yt_Pattern y) (List.map (\<lambda>p. nd_name (h ! p)) (field h t ''Pattern''))\<rparr>))"

text \<open>The posix-pattern extensions; an unknown prefix returns with that error alone.\<close>

definition bad_patterns :: "tenv \<Rightarrow> Statement list \<Rightarrow> type_error list" where
  "bad_patterns env exts =
     List.map_filter (\<lambda>s. map_option (\<lambda>code. BadPattern (Location s) code (Argument s)) (tv_regexp env (Argument s))) exts"

definition set_posix :: "tenv \<Rightarrow> nat \<Rightarrow> making \<Rightarrow> world \<Rightarrow> (making + making) stepw" where
  "set_posix env t mk w =
     (let (errs, y) = mk
      in case MatchingExtensions (tv_fs env) t ''openconfig-extensions'' ''posix-pattern'' (w_ms w) of
           (ms1, Inl _) \<Rightarrow> Panicked
         | (ms1, Inr (Inl p)) \<Rightarrow> Done (Inl ([ExtensionPrefix p], y), w\<lparr>w_ms := ms1\<rparr>)
         | (ms1, Inr (Inr exts)) \<Rightarrow>
             Done (Inr (errs @ bad_patterns env exts,
                        y\<lparr>yt_POSIXPattern := add_patterns (yt_POSIXPattern y) (List.map Argument exts)\<rparr>),
                   w\<lparr>w_ms := ms1\<rparr>))"

subsection \<open>The members of a union\<close>

fun member_known :: "tenv \<Rightarrow> nat \<Rightarrow> nat list \<Rightarrow> world \<Rightarrow> bool run" where
  "member_known env u [] w = Done False"
| "member_known env u (a # as) w =
     bind_run (types_Equal env (Some u) (Some a) w) (\<lambda>b. if b then Done True else member_known env u as w)"

fun set_union :: "tenv \<Rightarrow> (nat \<Rightarrow> world \<Rightarrow> type_error list stepw) \<Rightarrow> nat \<Rightarrow> nat list \<Rightarrow> type_error list \<Rightarrow> world
    \<Rightarrow> type_error list stepw" where
  "set_union env resolve ya [] errs w = Done (errs, w)"
| "set_union env resolve ya (ut # uts) errs w =
     bind_run (resolve ut w) (\<lambda>(es, w1).
       case w_typeOf w1 ut of
         None \<Rightarrow> set_union env resolve ya uts (errs @ es) w1
       | Some u \<Rightarrow>
           bind_run (member_known env u (yt_Type (w_types w1 ! ya)) w1) (\<lambda>known.
             set_union env resolve ya uts (errs @ es)
               (if known then w1
                else put_type ya ((w_types w1 ! ya)\<lparr>yt_Type := yt_Type (w_types w1 ! ya) @ [u]\<rparr>) w1)))"

subsection \<open>resolve\<close>

text \<open>What \<open>resolve\<close> does once the typedef, with the type at \<open>ta\<close>, is known: copy and change.\<close>

definition finish_root :: "tenv \<Rightarrow> nat \<Rightarrow> world \<Rightarrow> world run" where
  "finish_root env ya w =
     bind_run (types_Equal env (Some ya) (yt_Root (w_types w ! ya)) w) (\<lambda>same.
       Done (if same then w else put_type ya ((w_types w ! ya)\<lparr>yt_Root := Some ya\<rparr>) w))"

definition make_type :: "tenv \<Rightarrow> (nat \<Rightarrow> world \<Rightarrow> type_error list stepw) \<Rightarrow> nat \<Rightarrow> string \<Rightarrow> nat \<Rightarrow> tref option
    \<Rightarrow> world \<Rightarrow> type_error list stepw" where
  "make_type env resolve t source ta base w =
     (let ya = length (w_types w); y = (w_types w ! ta)\<lparr>yt_Base := base\<rparr>;
          w1 = w\<lparr>w_types := w_types w @ [y], w_typeOf := (w_typeOf w)(t \<mapsto> ya)\<rparr>; h = w_heap w1;
          mk = set_path h t (set_instance h t ([], y)); dec = is_decimal64 h t y
      in bind_run (set_special env source t mk w1) (\<lambda>(r, w2).
           case r of
             Inl (errs, y2) \<Rightarrow> Done (errs, put_type ya y2 w2)
           | Inr mk2 \<Rightarrow>
               (let h2 = w_heap w2;
                    mk3 = set_patterns h2 t (set_bits h2 t (set_enum h2 t (set_length h2 t (set_range h2 t dec mk2))))
                in bind_run (set_posix env t mk3 w2) (\<lambda>(r, w3).
                     case r of
                       Inl (errs, y3) \<Rightarrow> Done (errs, put_type ya y3 w3)
                     | Inr (errs, y3) \<Rightarrow>
                         bind_run (set_union env resolve ya (field (w_heap w3) t ''Type'') errs (put_type ya y3 w3))
                           (\<lambda>(errs, w4). bind_run (finish_root env ya w4) (\<lambda>w5. Done (errs, w5)))))))"

definition type_body :: "tenv \<Rightarrow> (nat \<Rightarrow> world \<Rightarrow> type_error list stepw) \<Rightarrow> (nat \<Rightarrow> world \<Rightarrow> type_error list stepw)
    \<Rightarrow> nat \<Rightarrow> world \<Rightarrow> type_error list stepw" where
  "type_body env resolve resolve_td t w =
     (if w_typeOf w t \<noteq> None then Done ([], w)
      else bind_run (lookup_typedef env t w) (\<lambda>(r, w1).
        case r of
          Inl errs \<Rightarrow> Done (errs, w1)
        | Inr (BaseRef b, source) \<Rightarrow>
            (case BaseTypedefs b of
               None \<Rightarrow> Panicked
             | Some ta \<Rightarrow> make_type env resolve t source ta (Some (BaseRef b)) w1)
        | Inr (NodeRef td, source) \<Rightarrow>
            bind_run (resolve_td td w1) (\<lambda>(errs, w2).
              if errs \<noteq> [] then Done (errs, w2)
              else (case w_typeOf w2 td of
                      None \<Rightarrow>
                        Done (if IgnoreModuleResolveErrors (tv_opts env) then []
                              else [NoYangType (Source (w_heap w2) (Some td)) source (nd_name (w_heap w2 ! td))], w2)
                    | Some ta \<Rightarrow>
                        make_type env resolve t source ta (map_option NodeRef (ptr (w_heap w2) td ''Type'')) w2))))"

text \<open>The part of \<open>Typedef.resolve\<close> that copies the type \<open>ta\<close> of the statement \<open>ty\<close>.\<close>

definition typedef_local :: "heap \<Rightarrow> nat \<Rightarrow> nat \<Rightarrow> YangType \<Rightarrow> YangType" where
  "typedef_local h td ty y0 =
     (let y = y0\<lparr>yt_Name := nd_name (h ! td), yt_Base := Some (NodeRef ty)\<rparr>;
          y1 = (case ptr h td ''Units'' of None \<Rightarrow> y | Some u \<Rightarrow> y\<lparr>yt_Units := nd_name (h ! u)\<rparr>)
      in case ptr h td ''Default'' of
           None \<Rightarrow> y1
         | Some d \<Rightarrow> y1\<lparr>yt_HasDefault := True, yt_Default := nd_name (h ! d)\<rparr>)"

definition typedef_identity :: "tenv \<Rightarrow> nat \<Rightarrow> nat \<Rightarrow> YangType \<Rightarrow> world \<Rightarrow> (type_error + YangType) stepw" where
  "typedef_identity env td ty y w =
     (let h = w_heap w
      in case ptr h ty ''IdentityBase'' of
           None \<Rightarrow> Done (Inr y, w)
         | Some b \<Rightarrow>
             (case RootNode h td of
                None \<Rightarrow> Panicked
              | Some rt \<Rightarrow>
                  (case findIdentityBase (tv_fs env) (w_dict w) rt (nd_name (h ! b)) (w_ms w) of
                     (ms1, Inl _) \<Rightarrow> Panicked
                   | (ms1, Inr (base, es)) \<Rightarrow>
                       Done (if es = [] then Inr (y\<lparr>yt_IdentityBase := base\<rparr>) else Inl (IdentityTypedef (nd_name (h ! b))),
                             w\<lparr>w_ms := ms1\<rparr>))))"

definition make_typedef :: "tenv \<Rightarrow> nat \<Rightarrow> nat \<Rightarrow> nat \<Rightarrow> world \<Rightarrow> type_error list stepw" where
  "make_typedef env td ty ta w =
     bind_run (typedef_identity env td ty (typedef_local (w_heap w) td ty (w_types w ! ta)) w) (\<lambda>(r, w1).
       case r of
         Inl e \<Rightarrow> Done ([e], w1)
       | Inr y \<Rightarrow>
           (let ya = length (w_types w1); w2 = w1\<lparr>w_types := w_types w1 @ [y], w_typeOf := (w_typeOf w1)(td \<mapsto> ya)\<rparr>
            in if yt_Root y = Some ta then Done ([], put_type ya (y\<lparr>yt_Root := Some ya\<rparr>) w2)
               else bind_run (finish_root env ya w2) (\<lambda>w3. Done ([], w3))))"

definition typedef_body :: "tenv \<Rightarrow> (nat \<Rightarrow> world \<Rightarrow> type_error list stepw) \<Rightarrow> nat \<Rightarrow> world \<Rightarrow> type_error list stepw" where
  "typedef_body env resolve td w =
     (if ParentNode (w_heap w) td = None \<or> w_typeOf w td \<noteq> None then Done ([], w)
      else case ptr (w_heap w) td ''Type'' of
             None \<Rightarrow> Panicked
           | Some ty \<Rightarrow>
               bind_run (resolve ty w) (\<lambda>(errs, w1).
                 if errs \<noteq> [] then Done (errs, w1)
                 else (case w_typeOf w1 ty of
                         None \<Rightarrow> Done ([], w1)
                       | Some ta \<Rightarrow> make_typedef env td ty ta w1)))"

fun Type_resolve :: "nat \<Rightarrow> tenv \<Rightarrow> nat \<Rightarrow> world \<Rightarrow> type_error list stepw"
  and Typedef_resolve :: "nat \<Rightarrow> tenv \<Rightarrow> nat \<Rightarrow> world \<Rightarrow> type_error list stepw" where
  "Type_resolve 0 env t w = NoFuel"
| "Type_resolve (Suc k) env t w = type_body env (Type_resolve k env) (Typedef_resolve k env) t w"
| "Typedef_resolve 0 env td w = NoFuel"
| "Typedef_resolve (Suc k) env td w = typedef_body env (Type_resolve k env) td w"

text \<open>\<open>resolveTypedefs\<close> over the typedefs of the dictionary, in the order the maps deliver them.\<close>

fun resolveTypedefs :: "nat \<Rightarrow> tenv \<Rightarrow> nat list \<Rightarrow> world \<Rightarrow> type_error list stepw" where
  "resolveTypedefs k env [] w = Done ([], w)"
| "resolveTypedefs k env (td # tds) w =
     bind_run (Typedef_resolve k env td w) (\<lambda>(errs, w1).
       bind_run (resolveTypedefs k env tds w1) (\<lambda>(errs', w2). Done (errs @ errs', w2)))"

end
