(* ===== verification/TypeBounds.thy ===== *)
theory TypeBounds
  imports Types
begin

text \<open>
  What the resolution of types keeps: every type in the store has a range within the numbers of
  its kind, a legal number of fraction digits, lengths within 64 bits, and well-formed
  enumerations, whatever errors have been reported on the way.
\<close>

subsection \<open>Well-formed types\<close>

definition kind_ints :: "type_kind \<Rightarrow> int set option" where
  "kind_ints k =
     (case k of
        Yint8 \<Rightarrow> Some {- (2 ^ 7) .. 2 ^ 7 - 1} | Yint16 \<Rightarrow> Some {- (2 ^ 15) .. 2 ^ 15 - 1}
      | Yint32 \<Rightarrow> Some {- (2 ^ 31) .. 2 ^ 31 - 1} | Yint64 \<Rightarrow> Some {- (2 ^ 63) .. 2 ^ 63 - 1}
      | Yuint8 \<Rightarrow> Some {0 .. 2 ^ 8 - 1} | Yuint16 \<Rightarrow> Some {0 .. 2 ^ 16 - 1}
      | Yuint32 \<Rightarrow> Some {0 .. 2 ^ 32 - 1} | Yuint64 \<Rightarrow> Some {0 .. 2 ^ 64 - 1}
      | Ydecimal64 \<Rightarrow> Some {- (2 ^ 63) .. 2 ^ 63 - 1}
      | _ \<Rightarrow> None)"

definition yt_ranged :: "YangType \<Rightarrow> bool" where
  "yt_ranged y \<longleftrightarrow>
     (\<forall>S. kind_ints (yt_Kind y) = Some S \<longrightarrow> yt_Range y \<noteq> [] \<and> ranges_ints (yt_Range y) \<subseteq> S)"

definition enum_wf :: "bool \<Rightarrow> enum_type \<Rightarrow> bool" where
  "enum_wf bits e \<longleftrightarrow> enum_ok e
     \<and> (if bits then et_min e = 0 \<and> et_max e = MaxBitfieldSize - 1 \<and> \<not> et_unique e
        else et_min e = MinEnum \<and> et_max e = MaxEnum \<and> et_unique e)"

definition yt_rest :: "YangType \<Rightarrow> bool" where
  "yt_rest y \<longleftrightarrow>
     0 \<le> yt_FractionDigits y \<and> yt_FractionDigits y \<le> 18
     \<and> (yt_FractionDigits y \<noteq> 0 \<longrightarrow> yt_Kind y = Ydecimal64)
     \<and> (\<forall>r\<in>set (yt_Range y). range_prec (of_int (yt_FractionDigits y)) r)
     \<and> (\<forall>r\<in>set (yt_Length y). range_prec 0 r) \<and> ranges_ints (yt_Length y) \<subseteq> {0 .. 2 ^ 64 - 1}
     \<and> (\<forall>e. yt_Enum y = Some e \<longrightarrow> enum_wf False e) \<and> (\<forall>e. yt_Bit y = Some e \<longrightarrow> enum_wf True e)
     \<and> distinct (yt_Pattern y) \<and> distinct (yt_POSIXPattern y)"

definition yt_ok :: "YangType \<Rightarrow> bool" where
  "yt_ok y \<longleftrightarrow> yt_ranged y \<and> yt_rest y"

lemma yt_ok_cong:
  "yt_ok (y\<lparr>yt_Root := r\<rparr>) = yt_ok y" "yt_ok (y\<lparr>yt_Type := ts\<rparr>) = yt_ok y" "yt_ok (y\<lparr>yt_Base := b\<rparr>) = yt_ok y"
  "yt_ok (y\<lparr>yt_Name := n\<rparr>) = yt_ok y" "yt_ok (y\<lparr>yt_Units := n\<rparr>) = yt_ok y" "yt_ok (y\<lparr>yt_Default := n\<rparr>) = yt_ok y"
  "yt_ok (y\<lparr>yt_HasDefault := d\<rparr>) = yt_ok y" "yt_ok (y\<lparr>yt_IdentityBase := i\<rparr>) = yt_ok y"
  "yt_ok (y\<lparr>yt_OptionalInstance := d\<rparr>) = yt_ok y" "yt_ok (y\<lparr>yt_Path := n\<rparr>) = yt_ok y"
  by (simp_all add: yt_ok_def yt_ranged_def yt_rest_def)

subsection \<open>The steps of resolve keep types well-formed\<close>

lemma asRangeInt_bounds: "asRangeInt h v mn mx = Inr i \<Longrightarrow> mn \<le> i \<and> i \<le> mx"
  by (auto simp: asRangeInt_def split: option.splits sum.splits if_splits)

lemma unat_digits: "0 \<le> i \<Longrightarrow> i \<le> 18 \<Longrightarrow> unat (of_int i :: 8 word) = nat i"
  by (simp add: unat_eq_nat_uint uint_word_of_int)

lemma decimal_range_ok:
  assumes "0 \<le> i" "i \<le> 18"
  shows "decimal_range i \<noteq> []" "ranges_ints (decimal_range i) \<subseteq> {- (2 ^ 63) .. 2 ^ 63 - 1}"
    "\<forall>r\<in>set (decimal_range i). range_prec (of_int i) r"
proof -
  have "unat (of_int i :: 8 word) = nat i" using assms by (rule unat_digits)
  then show "\<forall>r\<in>set (decimal_range i). range_prec (of_int i) r"
    using assms by (simp add: decimal_range_def range_prec_def prec_def mk_range_def)
  show "ranges_ints (decimal_range i) \<subseteq> {- (2 ^ 63) .. 2 ^ 63 - 1}"
    by (simp add: decimal_range_def range_ints_def num_int_def mk_range_def AbsMinInt64_def MaxInt64_def)
  show "decimal_range i \<noteq> []" by (simp add: decimal_range_def)
qed

lemma yt_ok_fraction:
  assumes "yt_rest y" "yt_Kind y = Ydecimal64" "0 \<le> i" "i \<le> 18"
  shows "yt_ok (y\<lparr>yt_FractionDigits := i, yt_Range := decimal_range i\<rparr>)"
  unfolding yt_ok_def yt_rest_def yt_ranged_def using assms decimal_range_ok [OF assms(3,4)]
  by (simp add: yt_rest_def kind_ints_def)

lemma set_fraction_ok:
  assumes "yt_rest y" "yt_Kind y = Ydecimal64" "set_fraction h t (errs, y) = (errs', y')"
  shows "yt_ok y'"
proof (cases "asRangeInt h (ptr h t ''FractionDigits'') 1 18")
  case (Inl e)
  then show ?thesis using assms(3) yt_ok_fraction [OF assms(1,2), of 0] by (auto simp: set_fraction_def)
next
  case (Inr i)
  then show ?thesis
    using assms(3) yt_ok_fraction [OF assms(1,2), of i] asRangeInt_bounds [OF Inr] by (auto simp: set_fraction_def)
qed

lemma set_range_ok:
  assumes "yt_ok y" "dec \<or> yt_FractionDigits y = 0" "set_range h t dec (errs, y) = (errs', y')"
  shows "yt_ok y' \<and> yt_FractionDigits y' = yt_FractionDigits y"
proof (cases "y' = y")
  case False
  let ?f = "of_int (yt_FractionDigits y) :: 8 word"
  from False assms(3) obtain s where p: "parseChildRanges (yt_Range y) s dec ?f = Inr (yt_Range y')"
    and y': "y' = y\<lparr>yt_Range := yt_Range y'\<rparr>"
    by (auto simp: set_range_def split: option.splits sum.splits if_splits)
  have fd: "0 \<le> yt_FractionDigits y" "yt_FractionDigits y \<le> 18" and pr: "\<forall>r\<in>set (yt_Range y). range_prec ?f r"
    using assms(1) by (auto simp: yt_ok_def yt_rest_def)
  have "unat ?f \<le> 18" using unat_digits [OF fd] fd by simp
  moreover have "dec \<or> ?f = 0" using assms(2) by auto
  ultimately have "yt_Range y' \<noteq> []" "\<forall>r\<in>set (yt_Range y'). range_prec ?f r"
    "yt_Range y \<noteq> [] \<longrightarrow> ranges_ints (yt_Range y') \<subseteq> ranges_ints (yt_Range y)"
    using parseChildRanges_spec [OF pr _ _ p] by auto
  with assms(1) show ?thesis
    by (subst (1 2) y') (fastforce simp: yt_ok_def yt_ranged_def yt_rest_def)
qed (use assms in simp)

lemma Uint64Range_ints: "ranges_ints Uint64Range = {0 .. 2 ^ 64 - 1}" "\<forall>r\<in>set Uint64Range. range_prec 0 r"
  by (simp_all add: Uint64Range_def range_prec_def prec_def FromUint_def mk_range_def mk_number_def range_ints_def
      num_int_def unsigned_minus_1_eq_mask mask_eq_exp_minus_1)

lemma set_length_ok:
  assumes "yt_ok y" "set_length h t (errs, y) = (errs', y')"
  shows "yt_ok y'"
proof (cases "y' = y")
  case False
  let ?p = "if yt_Length y \<noteq> [] then yt_Length y else Uint64Range"
  from False assms(2) obtain s where p: "parseChildRanges ?p s False 0 = Inr (yt_Length y')"
    and y': "y' = y\<lparr>yt_Length := yt_Length y'\<rparr>"
    by (auto simp: set_length_def split: option.splits sum.splits if_splits)
  have pr: "\<forall>r\<in>set ?p. range_prec 0 r" and b: "ranges_ints ?p \<subseteq> {0 .. 2 ^ 64 - 1}" "?p \<noteq> []"
    using assms(1) Uint64Range_ints by (auto simp: yt_ok_def yt_rest_def Uint64Range_def)
  have "\<forall>r\<in>set (yt_Length y'). range_prec 0 r" "ranges_ints (yt_Length y') \<subseteq> ranges_ints ?p"
    using parseChildRanges_spec [OF pr _ _ p] b(2) by auto
  with assms(1) b(1) show ?thesis
    by (subst y') (auto simp: yt_ok_def yt_ranged_def yt_rest_def)
qed (use assms in simp)

lemma set_member_wf:
  assumes "enum_wf bits e" "set_member h e name v = Inr e'"
  shows "enum_wf bits e'"
proof -
  have "enum_wf bits e'" if "enum_Set e name i = Inr e'" for i
    using assms(1) enum_ok_Set [OF _ that] that by (auto simp: enum_wf_def enum_Set_Inr split: if_splits)
  then show ?thesis
    using assms(2)
    by (auto simp: set_member_def enum_SetNext_def map_sum_def split: option.splits sum.splits if_splits)
qed

lemma set_members_wf:
  "enum_wf bits e \<Longrightarrow> set_members h what ms (errs, e) = (errs', e') \<Longrightarrow> enum_wf bits e'"
proof (induction h what ms "(errs, e)" arbitrary: errs e rule: set_members.induct)
  case (2 h what m ms errs e)
  then show ?case
    using set_member_wf [OF 2(4)] by (auto split: sum.splits)
qed simp

lemma new_wf: "enum_wf False NewEnumType" "enum_wf True NewBitfield"
  using enum_ok_new by (simp_all add: enum_wf_def NewEnumType_def NewBitfield_def)

lemma set_enum_ok:
  assumes "yt_ok y" "set_enum h t (errs, y) = (errs', y')"
  shows "yt_ok y'"
proof (cases "field h t ''Enum''")
  case (Cons m ms)
  obtain es e where m: "set_members h ''Value'' (m # ms) (errs, NewEnumType) = (es, e)" by fastforce
  then have "y' = y\<lparr>yt_Enum := Some e\<rparr>" using assms(2) Cons by (simp add: set_enum_def del: set_members.simps)
  then show ?thesis
    using assms(1) set_members_wf [OF new_wf(1) m] unfolding yt_ok_def yt_rest_def yt_ranged_def by simp
qed (use assms in \<open>simp add: set_enum_def\<close>)

lemma set_bits_ok:
  assumes "yt_ok y" "set_bits h t (errs, y) = (errs', y')"
  shows "yt_ok y'"
proof (cases "field h t ''Bit''")
  case (Cons m ms)
  obtain es e where m: "set_members h ''Position'' (m # ms) (errs, NewBitfield) = (es, e)" by fastforce
  then have "y' = y\<lparr>yt_Bit := Some e\<rparr>" using assms(2) Cons by (simp add: set_bits_def del: set_members.simps)
  then show ?thesis
    using assms(1) set_members_wf [OF new_wf(2) m] unfolding yt_ok_def yt_rest_def yt_ranged_def by simp
qed (use assms in \<open>simp add: set_bits_def\<close>)

lemma distinct_add_patterns: "distinct ps \<Longrightarrow> distinct (add_patterns ps new)"
  unfolding add_patterns_def by (induction new arbitrary: ps) auto

lemma set_patterns_ok: "yt_ok y \<Longrightarrow> set_patterns h t (errs, y) = (errs', y') \<Longrightarrow> yt_ok y'"
  using distinct_add_patterns by (auto simp: set_patterns_def yt_ok_def yt_rest_def yt_ranged_def)

lemma set_instance_eq: "set_instance h t (errs, y) = (errs', y') \<Longrightarrow> \<exists>b. y' = y\<lparr>yt_OptionalInstance := b\<rparr> \<or> y' = y"
  by (auto simp: set_instance_def split: option.splits sum.splits)

lemma set_path_eq: "set_path h t (errs, y) = (errs', y') \<Longrightarrow> \<exists>p. y' = y\<lparr>yt_Path := p\<rparr> \<or> y' = y"
  by (auto simp: set_path_def split: option.splits)

text \<open>The steps that may read modules leave the types alone.\<close>

definition same_types :: "world \<Rightarrow> world \<Rightarrow> bool" where
  "same_types w w' \<longleftrightarrow> w_types w' = w_types w \<and> w_typeOf w' = w_typeOf w"

lemma same_types_refl [simp]: "same_types w w" "same_types w (w\<lparr>w_ms := m\<rparr>)"
  by (simp_all add: same_types_def)

lemma set_identity_ok:
  "set_identity env t (errs, y) w = Done ((errs', y'), w') \<Longrightarrow>
     same_types w w' \<and> (\<exists>i. y' = y\<lparr>yt_IdentityBase := i\<rparr> \<or> y' = y)"
  by (auto simp: set_identity_def Let_def split: option.splits prod.splits sum.splits if_splits)

lemma set_special_ok:
  assumes "set_special env source t (errs, y) w = Done (r, w')" "r = Inl (errs', y') \<or> r = Inr (errs', y')"
    "yt_ok y \<or> yt_rest y \<and> is_decimal64 (w_heap w) t y \<and> yt_FractionDigits y = 0"
  shows "same_types w w' \<and> yt_ok y' \<and> (yt_FractionDigits y' = 0 \<or> is_decimal64 (w_heap w) t y)"
proof -
  let ?d = "is_decimal64 (w_heap w) t y" and ?fd = "ptr (w_heap w) t ''FractionDigits''"
  have dec: "yt_FractionDigits y = 0 \<or> ?d" if "yt_ok y"
    using that by (auto simp: yt_ok_def yt_rest_def is_decimal64_def)
  consider "?d" "yt_FractionDigits y \<noteq> 0" | "?d" "yt_FractionDigits y = 0" | "\<not> ?d" "yt_ok y" using assms(3) by blast
  then show ?thesis
  proof cases
    case 1
    then have "w' = w" "y' = y" using assms(1,2) by (auto simp: set_special_def Let_def split: if_splits)
    with 1 assms(3) show ?thesis by auto
  next
    case 2
    then have "w' = w" "set_fraction (w_heap w) t (errs, y) = (errs', y')"
      using assms(1,2) by (auto simp: set_special_def Let_def)
    moreover have "yt_rest y" "yt_Kind y = Ydecimal64" using assms(3) 2 by (auto simp: yt_ok_def is_decimal64_def)
    ultimately show ?thesis using set_fraction_ok 2 by auto
  next
    case 3
    then have fd: "yt_FractionDigits y = 0" using dec by simp
    show ?thesis
    proof (cases "?fd \<noteq> None \<or> \<not> (yt_Kind y = Yidentityref \<and> source = ''builtin'')")
      case True
      then have "w' = w \<and> y' = y" using assms(1,2) 3 by (auto simp: set_special_def Let_def split: if_splits)
      then show ?thesis using 3 fd by simp
    next
      case False
      then have "set_identity env t (errs, y) w = Done ((errs', y'), w')"
        using assms(1,2) 3 by (auto simp: set_special_def Let_def)
      then show ?thesis using set_identity_ok [of env t errs y w errs' y' w'] 3 fd by (auto simp: yt_ok_cong)
    qed
  qed
qed

lemma set_posix_ok:
  assumes "set_posix env t (errs, y) w = Done (r, w')" "r = Inl (errs', y') \<or> r = Inr (errs', y')" "yt_ok y"
  shows "same_types w w' \<and> yt_ok y'"
  using assms distinct_add_patterns
  by (auto simp: set_posix_def yt_ok_def yt_rest_def yt_ranged_def split: prod.splits sum.splits)

subsection \<open>The store\<close>

definition types_ok :: "world \<Rightarrow> bool" where
  "types_ok w \<longleftrightarrow> length baseTypes \<le> length (w_types w)
     \<and> (\<forall>a<length baseTypes. w_types w ! a = baseTypes ! a)
     \<and> (\<forall>a. length baseTypes \<le> a \<longrightarrow> a < length (w_types w) \<longrightarrow> yt_ok (w_types w ! a))
     \<and> (\<forall>n a. w_typeOf w n = Some a \<longrightarrow> length baseTypes \<le> a \<and> a < length (w_types w))"

lemma length_baseTypes [simp]: "length baseTypes = 19"
  by (simp add: baseTypes_def base_type_kinds_def)

lemma types_okD:
  assumes "types_ok w"
  shows "19 \<le> length (w_types w)" "a < 19 \<Longrightarrow> w_types w ! a = baseTypes ! a"
    "19 \<le> a \<Longrightarrow> a < length (w_types w) \<Longrightarrow> yt_ok (w_types w ! a)"
    "w_typeOf w n = Some a \<Longrightarrow> 19 \<le> a \<and> a < length (w_types w)"
  using assms by (simp_all add: types_ok_def)

lemma same_types_ok: "same_types w w' \<Longrightarrow> types_ok w' = types_ok w"
  by (simp add: types_ok_def same_types_def)

lemma same_types_kept:
  "same_types w w' \<Longrightarrow> types_ok w \<Longrightarrow> types_ok w'" "same_types w w' \<Longrightarrow> length (w_types w') = length (w_types w)"
  by (simp_all add: types_ok_def same_types_def)

lemma put_type_ok:
  assumes "types_ok w" "yt_ok y" "19 \<le> a"
  shows "types_ok (put_type a y w)"
  using assms by (cases "a < length (w_types w)") (auto simp: types_ok_def put_type_def nth_list_update)

lemma append_type_ok:
  assumes "types_ok w" "yt_ok y"
  shows "types_ok (w\<lparr>w_types := w_types w @ [y], w_typeOf := (w_typeOf w)(n \<mapsto> length (w_types w))\<rparr>)"
  using assms by (auto simp: types_ok_def nth_append less_Suc_eq)

definition types_kept :: "(nat \<Rightarrow> world \<Rightarrow> type_error list stepw) \<Rightarrow> bool" where
  "types_kept r \<longleftrightarrow> (\<forall>t w errs w'. types_ok w \<longrightarrow> r t w = Done (errs, w') \<longrightarrow>
     types_ok w' \<and> length (w_types w) \<le> length (w_types w'))"

lemma types_keptD:
  "types_kept r \<Longrightarrow> types_ok w \<Longrightarrow> r t w = Done (errs, w') \<Longrightarrow> types_ok w' \<and> length (w_types w) \<le> length (w_types w')"
  unfolding types_kept_def by blast

lemma set_union_kept:
  "types_kept r \<Longrightarrow> types_ok w \<Longrightarrow> 19 \<le> ya \<Longrightarrow> ya < length (w_types w) \<Longrightarrow>
     set_union env r ya uts errs w = Done (errs', w') \<Longrightarrow>
     types_ok w' \<and> length (w_types w) \<le> length (w_types w')"
proof (induction env r ya uts errs w rule: set_union.induct)
  case (2 env r ya ut uts errs w)
  from 2(7) obtain es w1 where r: "r ut w = Done (es, w1)" by auto
  from types_keptD [OF 2(3,4) r] have ok: "types_ok w1" "length (w_types w) \<le> length (w_types w1)" by auto
  show ?case
  proof (cases "w_typeOf w1 ut")
    case None
    then show ?thesis using 2(1) [OF r refl None 2(3) ok(1) 2(5)] 2(6,7) r ok(2) by simp
  next
    case (Some u)
    with 2(7) r obtain known where k: "member_known env u (yt_Type (w_types w1 ! ya)) w1 = Done known"
      and u: "set_union env r ya uts (errs @ es)
          (if known then w1 else put_type ya ((w_types w1 ! ya)\<lparr>yt_Type := yt_Type (w_types w1 ! ya) @ [u]\<rparr>) w1)
        = Done (errs', w')"
      by auto
    let ?w = "if known then w1 else put_type ya ((w_types w1 ! ya)\<lparr>yt_Type := yt_Type (w_types w1 ! ya) @ [u]\<rparr>) w1"
    have "yt_ok (w_types w1 ! ya)" using types_okD(3) [OF ok(1) 2(5)] 2(6) ok(2) by simp
    then have "types_ok ?w" "length (w_types ?w) = length (w_types w1)"
      using put_type_ok [OF ok(1) _ 2(5)] ok(1) yt_ok_cong(2) by (simp_all add: put_type_def)
    then show ?thesis using 2(2) [OF r refl Some k 2(3) _ 2(5) _ u] 2(6) ok(2) by simp
  qed
qed simp

lemma finish_root_kept:
  assumes "types_ok w" "19 \<le> ya" "ya < length (w_types w)" "finish_root env ya w = Done w'"
  shows "types_ok w' \<and> length (w_types w') = length (w_types w)"
  using assms put_type_ok [OF assms(1) _ assms(2)] types_okD(3) [OF assms(1-3)] yt_ok_cong(1)
  by (auto simp: finish_root_def put_type_def split: if_splits)

lemma default_range_eqs:
  "default_range ''int8'' = Some [mk_range (FromInt (- (2 ^ 7))) (FromInt (2 ^ 7 - 1))]"
  "default_range ''int16'' = Some [mk_range (FromInt (- (2 ^ 15))) (FromInt (2 ^ 15 - 1))]"
  "default_range ''int32'' = Some [mk_range (FromInt (- (2 ^ 31))) (FromInt (2 ^ 31 - 1))]"
  "default_range ''int64'' = Some [mk_range (FromInt MinInt64) (FromInt MaxInt64)]"
  "default_range ''uint8'' = Some [mk_range (FromInt 0) (FromInt (2 ^ 8 - 1))]"
  "default_range ''uint16'' = Some [mk_range (FromInt 0) (FromInt (2 ^ 16 - 1))]"
  "default_range ''uint32'' = Some [mk_range (FromInt 0) (FromInt (2 ^ 32 - 1))]"
  "default_range ''uint64'' = Some [mk_range (FromInt 0) (FromInt (2 ^ 64 - 1))]"
  using default_ranges unfolding default_range_texts_def list.map prod.case list.inject
  apply -
  apply (elim conjE, assumption)+
  done

lemma FromInt_bound:
  assumes "- (2 ^ 63) \<le> i" "i < 2 ^ 64"
  shows "num_int (FromInt i) = i" "prec 0 (FromInt i)"
proof -
  show "prec 0 (FromInt i)" by (simp add: prec_def FromInt_def mk_number_def)
  have u: "int (unat (of_int j :: 64 word)) = j" if "0 \<le> j" "j < 2 ^ 64" for j
    using that by (simp add: uint_word_of_int)
  show "num_int (FromInt i) = i"
  proof (cases "i < 0")
    case True
    then have "num_int (FromInt i) = - int (unat (of_int (- i) :: 64 word))"
      by (simp only: FromInt_def mk_number_def num_int_def if_True number.simps)
    then show ?thesis using u [of "- i"] True assms(1) by simp
  next
    case False
    then have "num_int (FromInt i) = int (unat (of_int i :: 64 word))"
      by (simp only: FromInt_def mk_number_def num_int_def if_False number.simps)
    then show ?thesis using u [of i] False assms(2) by simp
  qed
qed

lemma base_int_ok:
  assumes "default_range n = Some [mk_range (FromInt lo) (FromInt hi)]" "kind_ints k = Some {lo .. hi}"
    "- (2 ^ 63) \<le> lo" "lo \<le> hi" "hi < 2 ^ 64"
  shows "yt_ok (base_type a (n, k))"
  using assms FromInt_bound [of lo] FromInt_bound [of hi]
  by (simp add: yt_ok_def yt_ranged_def yt_rest_def base_type_def range_ints_def range_prec_def mk_range_def)

lemma base_plain_ok:
  assumes "default_range n = None"
  shows "yt_rest (base_type a (n, k))" "kind_ints k = None \<Longrightarrow> yt_ok (base_type a (n, k))"
  using assms by (simp_all add: yt_ok_def yt_ranged_def yt_rest_def base_type_def)

lemma base_kinds_ok:
  "yt_ok (base_type a (''int8'', Yint8))" "yt_ok (base_type a (''int16'', Yint16))"
  "yt_ok (base_type a (''int32'', Yint32))" "yt_ok (base_type a (''int64'', Yint64))"
  "yt_ok (base_type a (''uint8'', Yuint8))" "yt_ok (base_type a (''uint16'', Yuint16))"
  "yt_ok (base_type a (''uint32'', Yuint32))" "yt_ok (base_type a (''uint64'', Yuint64))"
  by (rule base_int_ok, rule default_range_eqs, simp_all add: kind_ints_def MinInt64_def MaxInt64_def)+

lemma default_range_None: "n \<notin> fst ` set default_range_texts \<Longrightarrow> default_range n = None"
proof -
  assume "n \<notin> fst ` set default_range_texts"
  then have "map_of default_range_texts n = None" by (simp add: map_of_eq_None_iff)
  then show ?thesis by (simp add: default_range_def)
qed

lemma base_type_ok:
  "\<forall>p\<in>set base_type_kinds. yt_ok (base_type a p)
    \<or> yt_rest (base_type a p) \<and> yt_Kind (base_type a p) = Ydecimal64 \<and> fst p = ''decimal64''
      \<and> yt_FractionDigits (base_type a p) = 0"
proof -
  have "yt_rest (base_type a (''decimal64'', Ydecimal64))"
    by (rule base_plain_ok(1), rule default_range_None) (simp add: default_range_texts_def)
  then have dec: "yt_rest (base_type a (''decimal64'', Ydecimal64))
      \<and> yt_Kind (base_type a (''decimal64'', Ydecimal64)) = Ydecimal64
      \<and> yt_FractionDigits (base_type a (''decimal64'', Ydecimal64)) = 0"
    by (simp add: base_type_def)
  have other: "yt_ok (base_type a (n, k))"
    if "kind_ints k = None" "n \<notin> fst ` set default_range_texts" for n k
    using base_plain_ok(2) [OF default_range_None [OF that(2)] that(1)] .
  show ?thesis
    unfolding base_type_kinds_def list.set ball_simps(5,7) fst_conv
    by (intro conjI TrueI; (rule disjI1, rule base_kinds_ok
        | rule disjI1, rule other, simp add: kind_ints_def, simp add: default_range_texts_def
        | simp add: dec))
qed

lemma length_base_kinds: "length base_type_kinds = 19"
  by (simp add: base_type_kinds_def)

lemma baseTypes_nth: "a < 19 \<Longrightarrow> baseTypes ! a = base_type a (base_type_kinds ! a)"
  by (simp add: baseTypes_def nth_enumerate_eq length_base_kinds)

lemma base_typedef_ok:
  assumes "BaseTypedefs b = Some a"
  shows "a < 19" "yt_ok (baseTypes ! a)
    \<or> yt_rest (baseTypes ! a) \<and> yt_Kind (baseTypes ! a) = Ydecimal64 \<and> b = ''decimal64''
      \<and> yt_FractionDigits (baseTypes ! a) = 0"
proof -
  have a: "a < 19" "b = fst (base_type_kinds ! a)"
    using assms by (auto simp: BaseTypedefs_def dest!: map_of_SomeD simp: set_zip length_base_kinds)
  then show "a < 19" by simp
  have "base_type_kinds ! a \<in> set base_type_kinds" using a(1) by (simp add: length_base_kinds)
  from bspec [OF base_type_ok this, of a]
  show "yt_ok (baseTypes ! a)
    \<or> yt_rest (baseTypes ! a) \<and> yt_Kind (baseTypes ! a) = Ydecimal64 \<and> b = ''decimal64''
      \<and> yt_FractionDigits (baseTypes ! a) = 0"
    using a by (simp add: baseTypes_nth)
qed

text \<open>What \<open>make_type\<close> may copy: a well-formed type, or the base type decimal64 by its name.\<close>

definition copyable :: "heap \<Rightarrow> nat \<Rightarrow> YangType \<Rightarrow> bool" where
  "copyable h t y \<longleftrightarrow> yt_ok y
     \<or> yt_rest y \<and> yt_Kind y = Ydecimal64 \<and> nd_name (h ! t) = ''decimal64'' \<and> yt_FractionDigits y = 0"

lemma yt_rest_cong:
  "yt_rest (y\<lparr>yt_OptionalInstance := d\<rparr>) = yt_rest y" "yt_rest (y\<lparr>yt_Path := n\<rparr>) = yt_rest y"
  "yt_rest (y\<lparr>yt_Base := b\<rparr>) = yt_rest y"
  by (simp_all add: yt_rest_def)

lemma first_steps:
  assumes "copyable h t y0" "set_path h t (set_instance h t ([], y0\<lparr>yt_Base := b\<rparr>)) = (errs, y)"
  shows "yt_ok y \<or> yt_rest y \<and> is_decimal64 h t y \<and> yt_FractionDigits y = 0"
    "is_decimal64 h t y = is_decimal64 h t (y0\<lparr>yt_Base := b\<rparr>)"
proof -
  obtain e1 y1 where 1: "set_instance h t ([], y0\<lparr>yt_Base := b\<rparr>) = (e1, y1)" by fastforce
  then have 2: "set_path h t (e1, y1) = (errs, y)" using assms(2) by simp
  from set_instance_eq [OF 1] set_path_eq [OF 2]
  have "yt_ok y = yt_ok y0" "yt_rest y = yt_rest y0" "yt_Kind y = yt_Kind y0"
    "yt_FractionDigits y = yt_FractionDigits y0" by (auto simp: yt_ok_cong yt_rest_cong)
  then show "yt_ok y \<or> yt_rest y \<and> is_decimal64 h t y \<and> yt_FractionDigits y = 0"
    "is_decimal64 h t y = is_decimal64 h t (y0\<lparr>yt_Base := b\<rparr>)"
    using assms(1) by (auto simp: copyable_def is_decimal64_def)
qed

lemma middle_steps:
  assumes "yt_ok y" "dec \<or> yt_FractionDigits y = 0"
    "set_patterns h t (set_bits h t (set_enum h t (set_length h t (set_range h t dec (errs, y))))) = (errs', y')"
  shows "yt_ok y'"
proof -
  obtain e1 y1 where 1: "set_range h t dec (errs, y) = (e1, y1)" by fastforce
  obtain e2 y2 where 2: "set_length h t (e1, y1) = (e2, y2)" by fastforce
  obtain e3 y3 where 3: "set_enum h t (e2, y2) = (e3, y3)" by fastforce
  obtain e4 y4 where 4: "set_bits h t (e3, y3) = (e4, y4)" by fastforce
  have "set_patterns h t (e4, y4) = (errs', y')" using assms(3) 1 2 3 4 by simp
  then show ?thesis
    using set_range_ok [OF assms(1,2) 1] set_length_ok [OF _ 2] set_enum_ok [OF _ 3] set_bits_ok [OF _ 4]
      set_patterns_ok by blast
qed

lemma make_type_kept:
  assumes "types_ok w" "types_kept r" "copyable (w_heap w) t (w_types w ! ta)"
    "make_type env r t source ta base w = Done (errs, w')"
  shows "types_ok w' \<and> length (w_types w) \<le> length (w_types w')"
proof -
  let ?ya = "length (w_types w)" and ?y = "(w_types w ! ta)\<lparr>yt_Base := base\<rparr>" and ?h = "w_heap w"
  let ?w1 = "w\<lparr>w_types := w_types w @ [?y], w_typeOf := (w_typeOf w)(t \<mapsto> ?ya)\<rparr>"
  let ?dec = "is_decimal64 ?h t ?y"
  obtain e0 y0 where mk: "set_path ?h t (set_instance ?h t ([], ?y)) = (e0, y0)" by fastforce
  note first = first_steps [OF assms(3) mk]
  obtain q w2 where sp: "set_special env source t (e0, y0) ?w1 = Done (q, w2)"
    using assms(4) mk by (auto simp: make_type_def Let_def)
  obtain eq yq where q: "q = Inl (eq, yq) \<or> q = Inr (eq, yq)" by (cases q) auto
  have s: "same_types ?w1 w2" "yt_ok yq" "?dec \<or> yt_FractionDigits yq = 0"
    using set_special_ok [OF sp q] first by auto
  have put: "types_ok (put_type ?ya y v)" "length (w_types (put_type ?ya y v)) = Suc ?ya"
    if "yt_ok y" "same_types ?w1 v" for y v
  proof -
    have "w_types (put_type ?ya y v) = w_types w @ [y]" "w_typeOf (put_type ?ya y v) = (w_typeOf w)(t \<mapsto> ?ya)"
      using that(2) by (simp_all add: put_type_def same_types_def)
    then have "same_types (w\<lparr>w_types := w_types w @ [y], w_typeOf := (w_typeOf w)(t \<mapsto> ?ya)\<rparr>) (put_type ?ya y v)"
      by (simp add: same_types_def)
    then show "types_ok (put_type ?ya y v)" using append_type_ok [OF assms(1) that(1), of t] same_types_ok by blast
    show "length (w_types (put_type ?ya y v)) = Suc ?ya" using \<open>w_types _ = _\<close> by simp
  qed
  show ?thesis
  proof (cases q)
    case (Inl x)
    then have "w' = put_type ?ya yq w2" using assms(4) mk sp q by (auto simp: make_type_def Let_def)
    then show ?thesis using put [OF s(2,1)] by simp
  next
    case (Inr x)
    let ?h2 = "w_heap w2"
    obtain e3 y3 where 3: "set_patterns ?h2 t (set_bits ?h2 t (set_enum ?h2 t (set_length ?h2 t
        (set_range ?h2 t ?dec (eq, yq))))) = (e3, y3)" by fastforce
    have y3: "yt_ok y3" by (rule middle_steps [OF s(2,3) 3])
    obtain q' w3 where px: "set_posix env t (e3, y3) w2 = Done (q', w3)"
      using assms(4) mk sp q Inr 3 by (auto simp: make_type_def Let_def)
    obtain e4 y4 where q': "q' = Inl (e4, y4) \<or> q' = Inr (e4, y4)" by (cases q') auto
    have p: "same_types ?w1 w3" "yt_ok y4" using set_posix_ok [OF px q' y3] s(1) by (auto simp: same_types_def)
    note put4 = put [OF p(2,1)]
    show ?thesis
    proof (cases q')
      case (Inl z)
      then have "w' = put_type ?ya y4 w3" using assms(4) mk sp q Inr 3 px q' by (auto simp: make_type_def Let_def)
      then show ?thesis using put4 by simp
    next
      case (Inr z)
      have ya: "19 \<le> ?ya" using types_okD(1) [OF assms(1)] .
      obtain e5 w4 where u: "set_union env r ?ya (field (w_heap w3) t ''Type'') e4 (put_type ?ya y4 w3) = Done (e5, w4)"
        and f: "finish_root env ?ya w4 = Done w'"
        using assms(4) mk sp q \<open>q = _\<close> 3 px q' Inr by (auto simp: make_type_def Let_def)
      have "types_ok w4 \<and> Suc ?ya \<le> length (w_types w4)"
        using set_union_kept [OF assms(2) put4(1) ya _ u] put4(2) by simp
      then show ?thesis using finish_root_kept [OF _ ya _ f] by auto
    qed
  qed
qed

lemma lookup_typedef_same:
  "lookup_typedef env t w = Done (r, w') \<Longrightarrow> same_types w w'
     \<and> (\<forall>b s. r = Inr (BaseRef b, s) \<longrightarrow> b = nd_name (w_heap w ! t) \<and> w' = w)"
  by (auto simp: lookup_typedef_def findExternal_def Let_def split: option.splits prod.splits if_splits sum.splits)

lemma type_body_kept:
  assumes "types_kept r" "types_kept rtd"
  shows "types_kept (type_body env r rtd)"
  unfolding types_kept_def
proof (intro allI impI)
  fix t w errs w' assume ok: "types_ok w" and d: "type_body env r rtd t w = Done (errs, w')"
  show "types_ok w' \<and> length (w_types w) \<le> length (w_types w')"
  proof (cases "w_typeOf w t")
    case None
    then obtain q w1 where l: "lookup_typedef env t w = Done (q, w1)" using d by (auto simp: type_body_def)
    note same = lookup_typedef_same [OF l]
    have ok1: "types_ok w1" "length (w_types w1) = length (w_types w)"
      using same_types_kept [OF conjunct1 [OF same]] ok by simp_all
    consider (err) es where "q = Inl es" | (base) b s where "q = Inr (BaseRef b, s)"
      | (td) td s where "q = Inr (NodeRef td, s)"
      by (cases q rule: sum.exhaust) (auto, metis tref.exhaust surj_pair)
    then show ?thesis
    proof cases
      case err
      then show ?thesis using d None l ok1 by (auto simp: type_body_def)
    next
      case (base b s)
      then obtain ta where ta: "BaseTypedefs b = Some ta"
        and m: "make_type env r t s ta (Some (BaseRef b)) w1 = Done (errs, w')"
        using d None l by (auto simp: type_body_def split: option.splits)
      have "copyable (w_heap w1) t (w_types w1 ! ta)"
        using base_typedef_ok [OF ta] same base types_okD(2) [OF ok] by (auto simp: copyable_def)
      then show ?thesis using make_type_kept [OF ok1(1) assms(1) _ m] ok1(2) by simp
    next
      case (td td s)
      then obtain es w2 where r: "rtd td w1 = Done (es, w2)"
        using d None l by (auto simp: type_body_def)
      have ok2: "types_ok w2" "length (w_types w1) \<le> length (w_types w2)" using types_keptD [OF assms(2) ok1(1) r] by auto
      show ?thesis
      proof (cases "es \<noteq> [] \<or> w_typeOf w2 td = None")
        case True
        then have "w' = w2" using d None l td r by (auto simp: type_body_def split: if_splits)
        then show ?thesis using ok2 ok1(2) by simp
      next
        case False
        then obtain ta where ta: "w_typeOf w2 td = Some ta"
          and m: "make_type env r t s ta (map_option NodeRef (ptr (w_heap w2) td ''Type'')) w2 = Done (errs, w')"
          using d None l td r by (auto simp: type_body_def)
        have "copyable (w_heap w2) t (w_types w2 ! ta)"
          using types_okD(3) [OF ok2(1)] types_okD(4) [OF ok2(1) ta] by (simp add: copyable_def)
        then show ?thesis using make_type_kept [OF ok2(1) assms(1) _ m] ok2(2) ok1(2) by simp
      qed
    qed
  qed (use d ok in \<open>auto simp: type_body_def\<close>)
qed

lemma typedef_local_ok: "yt_ok (typedef_local h td ty y) = yt_ok y"
  by (simp add: typedef_local_def Let_def yt_ok_cong split: option.split)

lemma typedef_identity_ok:
  "typedef_identity env td ty y w = Done (r, w') \<Longrightarrow> same_types w w' \<and> (\<forall>y'. r = Inr y' \<longrightarrow> yt_ok y' = yt_ok y)"
  by (auto simp: typedef_identity_def Let_def yt_ok_cong split: option.splits prod.splits sum.splits if_splits)

lemma make_typedef_kept:
  assumes "types_ok w" "yt_ok (w_types w ! ta)" "make_typedef env td ty ta w = Done (errs, w')"
  shows "types_ok w' \<and> length (w_types w) \<le> length (w_types w')"
proof -
  obtain r w1 where i: "typedef_identity env td ty (typedef_local (w_heap w) td ty (w_types w ! ta)) w = Done (r, w1)"
    using assms(3) by (auto simp: make_typedef_def)
  note same = typedef_identity_ok [OF i]
  have ok1: "types_ok w1" "length (w_types w1) = length (w_types w)"
    using same_types_kept [OF conjunct1 [OF same]] assms(1) by simp_all
  show ?thesis
  proof (cases r)
    case (Inl e)
    then show ?thesis using assms(3) i ok1 by (auto simp: make_typedef_def)
  next
    case (Inr y)
    have y: "yt_ok y" using same Inr assms(2) typedef_local_ok by simp
    let ?ya = "length (w_types w1)"
    let ?w2 = "w1\<lparr>w_types := w_types w1 @ [y], w_typeOf := (w_typeOf w1)(td \<mapsto> ?ya)\<rparr>"
    have ok2: "types_ok ?w2" by (rule append_type_ok [OF ok1(1) y])
    have ya: "19 \<le> ?ya" using types_okD(1) [OF ok1(1)] .
    show ?thesis
    proof (cases "yt_Root y = Some ta")
      case True
      then have "w' = put_type ?ya (y\<lparr>yt_Root := Some ?ya\<rparr>) ?w2"
        using assms(3) i Inr by (auto simp: make_typedef_def Let_def)
      then show ?thesis using put_type_ok [OF ok2 _ ya] y ok1(2) by (simp add: yt_ok_cong put_type_def)
    next
      case False
      then have "finish_root env ?ya ?w2 = Done w'"
        using assms(3) i Inr by (auto simp: make_typedef_def Let_def)
      from finish_root_kept [OF ok2 ya _ this] show ?thesis using ok1(2) by simp
    qed
  qed
qed

lemma typedef_body_kept:
  assumes "types_kept r"
  shows "types_kept (typedef_body env r)"
  unfolding types_kept_def
proof (intro allI impI)
  fix td w errs w' assume ok: "types_ok w" and d: "typedef_body env r td w = Done (errs, w')"
  show "types_ok w' \<and> length (w_types w) \<le> length (w_types w')"
  proof (cases "ParentNode (w_heap w) td = None \<or> w_typeOf w td \<noteq> None")
    case False
    then obtain ty es w1 where ty: "ptr (w_heap w) td ''Type'' = Some ty" and r: "r ty w = Done (es, w1)"
      using d by (auto simp: typedef_body_def split: option.splits)
    have ok1: "types_ok w1" "length (w_types w) \<le> length (w_types w1)" using types_keptD [OF assms ok r] by auto
    show ?thesis
    proof (cases "es \<noteq> [] \<or> w_typeOf w1 ty = None")
      case True
      then have "w' = w1" using d False ty r by (auto simp: typedef_body_def split: if_splits)
      then show ?thesis using ok1 by simp
    next
      case b: False
      then obtain ta where ta: "w_typeOf w1 ty = Some ta" and m: "make_typedef env td ty ta w1 = Done (errs, w')"
        using d False ty r by (auto simp: typedef_body_def)
      have "yt_ok (w_types w1 ! ta)" using types_okD(3) [OF ok1(1)] types_okD(4) [OF ok1(1) ta] by simp
      then show ?thesis using make_typedef_kept [OF ok1(1) _ m] ok1(2) by simp
    qed
  qed (use d ok in \<open>auto simp: typedef_body_def\<close>)
qed

lemma resolve_kept: "types_kept (Type_resolve k env)" "types_kept (Typedef_resolve k env)"
proof (induction k)
  case (Suc k)
  have "Type_resolve (Suc k) env = type_body env (Type_resolve k env) (Typedef_resolve k env)"
    "Typedef_resolve (Suc k) env = typedef_body env (Type_resolve k env)" by (simp_all add: fun_eq_iff)
  then show "types_kept (Type_resolve (Suc k) env)" "types_kept (Typedef_resolve (Suc k) env)"
    using type_body_kept typedef_body_kept Suc by simp_all
qed (simp_all add: types_kept_def)

subsection \<open>Properties\<close>

text \<open>The worlds that resolving types and typedefs reaches, while modules may be read.\<close>

inductive type_run :: "tenv \<Rightarrow> world \<Rightarrow> bool" for env where
  start: "w_types w = baseTypes \<Longrightarrow> w_typeOf w = (\<lambda>_. None) \<Longrightarrow> type_run env w"
| step_type: "type_run env w \<Longrightarrow> Type_resolve k env t w = Done (errs, w') \<Longrightarrow> type_run env w'"
| step_typedef: "type_run env w \<Longrightarrow> Typedef_resolve k env td w = Done (errs, w') \<Longrightarrow> type_run env w'"
| step_modules: "type_run env w \<Longrightarrow> type_run env (w\<lparr>w_ms := ms, w_dict := d\<rparr>)"

lemma type_run_ok: "type_run env w \<Longrightarrow> types_ok w"
proof (induction rule: type_run.induct)
  case (start w)
  then show ?case by (simp add: types_ok_def)
next
  case (step_type w k t errs w')
  then show ?case using types_keptD [OF resolve_kept(1)] by blast
next
  case (step_typedef w k td errs w')
  then show ?case using types_keptD [OF resolve_kept(2)] by blast
qed (simp add: types_ok_def)

text \<open>C14: whatever types and typedefs are resolved, with errors or without, the type of every
  node has a range within the numbers of its kind (the chain of typedefs can only narrow it), at
  most 18 fraction digits and only for decimal64, lengths within 64 bits, and an enumeration whose
  values fit 32 bits; the numbers of a type with a numeric kind are never left unrestricted.\<close>

theorem type_bounds:
  assumes "type_run env w" "w_typeOf w n = Some a"
  shows "a < length (w_types w) \<and>
    (let y = w_types w ! a
     in (\<forall>S. kind_ints (yt_Kind y) = Some S \<longrightarrow> yt_Range y \<noteq> [] \<and> ranges_ints (yt_Range y) \<subseteq> S)
        \<and> 0 \<le> yt_FractionDigits y \<and> yt_FractionDigits y \<le> 18
        \<and> (yt_FractionDigits y \<noteq> 0 \<longrightarrow> yt_Kind y = Ydecimal64)
        \<and> ranges_ints (yt_Length y) \<subseteq> {0 .. 2 ^ 64 - 1}
        \<and> (\<forall>e name v. yt_Enum y = Some e \<longrightarrow> map_of (et_toInt e) name = Some v \<longrightarrow> MinEnum \<le> v \<and> v \<le> MaxEnum))"
proof -
  have ok: "types_ok w" using assms(1) by (rule type_run_ok)
  have "yt_ok (w_types w ! a)" using types_okD(3) [OF ok] types_okD(4) [OF ok assms(2)] by simp
  moreover have "MinEnum \<le> v \<and> v \<le> MaxEnum" if "enum_wf False e" "map_of (et_toInt e) name = Some v" for e name v
    using that enum_okD(4,5) [of e] by (fastforce simp: enum_wf_def)
  ultimately show ?thesis
    using types_okD(4) [OF ok assms(2)] by (auto simp: yt_ok_def yt_ranged_def yt_rest_def Let_def)
qed

text \<open>A typedef for the numbers 1 to 100 over uint8.\<close>

definition percent_module :: modules where
  "percent_module = NewModules\<lparr>ms_Modules := [(''m'', 0)], ms_ast := \<lparr>ast_nodes =
     [(new_node ''Module'')\<lparr>nd_name := ''m'', nd_subs := [(''Prefix'', [1]), (''Typedef'', [2])]\<rparr>,
      (new_node ''Value'')\<lparr>nd_name := ''m'', nd_parent := Some 0\<rparr>,
      (new_node ''Typedef'')\<lparr>nd_name := ''percent'', nd_parent := Some 0, nd_subs := [(''Type'', [3])]\<rparr>,
      (new_node ''Type'')\<lparr>nd_name := ''uint8'', nd_parent := Some 2, nd_subs := [(''Range'', [4])]\<rparr>,
      (new_node ''Range'')\<lparr>nd_name := ''1..100'', nd_parent := Some 3\<rparr>],
     ast_dict = [(0, ''percent'') \<mapsto> 2]\<rparr>\<rparr>"

definition no_env :: tenv where
  "no_env = \<lparr>tv_fs = empty_disk, tv_opts = \<lparr>IgnoreSubmoduleCircularDependencies = False, StoreUses = False,
     IgnoreModuleResolveErrors = False\<rparr>, tv_cmpEnum = (=), tv_regexp = (\<lambda>_. None)\<rparr>"

definition start_world :: "modules \<Rightarrow> world" where
  "start_world ms = \<lparr>w_ms = ms, w_dict = [], w_types = baseTypes, w_typeOf = (\<lambda>_. None)\<rparr>"

lemma percent_resolves:
  "\<exists>w. Type_resolve (Suc 0) no_env 3 (start_world percent_module) = Done ([], w) \<and> w_typeOf w 3 = Some 19
     \<and> yt_Kind (w_types w ! 19) = Yuint8 \<and> yt_Range (w_types w ! 19) = [mk_range (FromUint 1) (FromUint 100)]"
proof -
  let ?h = "ms_heap percent_module"
  have root: "RootNode ?h 3 = Some 0" by code_simp
  have names: "nd_name (?h ! 3) = ''uint8''" "nd_name (?h ! 4) = ''1..100''" by code_simp+
  have pre: "getPrefix ''uint8'' = ([], ''uint8'')" by code_simp
  have base: "BaseTypedefs ''uint8'' = Some 4" by code_simp
  have ptrs: "ptr ?h 3 ''RequireInstance'' = None" "ptr ?h 3 ''Path'' = None" "ptr ?h 3 ''FractionDigits'' = None"
    "ptr ?h 3 ''Range'' = Some 4" "ptr ?h 3 ''Length'' = None" "field ?h 3 ''Enum'' = []" "field ?h 3 ''Bit'' = []"
    "field ?h 3 ''Pattern'' = []" "field ?h 3 ''Type'' = []" "nd_exts (?h ! 3) = []" by code_simp+
  have b4: "baseTypes ! 4 = base_type 4 (''uint8'', Yuint8)" by (simp add: baseTypes_nth) (simp add: base_type_kinds_def)
  have "default_range ''uint8'' = Some [mk_range (FromInt 0) (FromInt (2 ^ 8 - 1))]" by (rule default_range_eqs)
  then have rng: "yt_Range (base_type 4 (''uint8'', Yuint8)) = [mk_range (FromInt 0) (FromInt 255)]"
    by (simp add: base_type_def)
  have parse: "parseChildRanges [mk_range (FromInt 0) (FromInt 255)] ''1..100'' False 0
      = Inr [mk_range (FromUint 1) (FromUint 100)]"
    by (simp add: range_eval FromInt_def FromUint_def)
  have neq: "\<not> ranges_Equal [mk_range (FromUint 1) (FromUint 100)] [mk_range (FromInt 0) (FromInt 255)]"
    by (simp add: ranges_Equal_def range_Equal_def Equal_def range_eval FromInt_def FromUint_def)
  let ?y = "base_type 4 (''uint8'', Yuint8)"
  have fields: "yt_Kind ?y = Yuint8" "yt_FractionDigits ?y = 0" "yt_Pattern ?y = []" "yt_POSIXPattern ?y = []"
    "yt_Type ?y = []" "yt_Root ?y = Some 4" "yt_Length ?y = []" by (simp_all add: base_type_def)
  have post: "MatchingExtensions fs 3 m i percent_module = (percent_module, Inr (Inr []))" for fs m i
    by (simp add: MatchingExtensions_def matchingExtensions_def ptrs)
  show ?thesis
    by (simp add: type_body_def lookup_typedef_def start_world_def root names pre base make_type_def b4 Let_def
        set_instance_def set_path_def ptrs set_special_def is_decimal64_def fields set_range_def rng parse neq
        set_length_def set_enum_def set_bits_def set_patterns_def add_patterns_def set_posix_def post
        bad_patterns_def finish_root_def types_Equal_def put_type_def nth_append list_update_append same_fields_def map_filter_simps)
qed

theorem type_bounds_witness:
  "\<exists>w. type_run no_env w \<and> w_typeOf w 3 = Some 19 \<and> ranges_ints (yt_Range (w_types w ! 19)) \<subseteq> {0 .. 2 ^ 8 - 1}"
proof -
  obtain w where w: "Type_resolve (Suc 0) no_env 3 (start_world percent_module) = Done ([], w)" "w_typeOf w 3 = Some 19"
    "yt_Kind (w_types w ! 19) = Yuint8" using percent_resolves by blast
  have r: "type_run no_env w" by (rule type_run.step_type [OF type_run.start w(1)]) (simp_all add: start_world_def)
  show ?thesis using type_bounds [OF r w(2)] r w(2,3) by (auto simp: kind_ints_def Let_def)
qed

subsection \<open>Where resolution goes wrong\<close>

text \<open>A typedef of itself: no fuel is enough, the recursion never ends.\<close>

definition self_typedef :: modules where
  "self_typedef = NewModules\<lparr>ms_Modules := [(''m'', 0)], ms_ast := \<lparr>ast_nodes =
     [(new_node ''Module'')\<lparr>nd_name := ''m'', nd_subs := [(''Prefix'', [1]), (''Typedef'', [2])]\<rparr>,
      (new_node ''Value'')\<lparr>nd_name := ''m'', nd_parent := Some 0\<rparr>,
      (new_node ''Typedef'')\<lparr>nd_name := ''loop'', nd_parent := Some 0, nd_subs := [(''Type'', [3])]\<rparr>,
      (new_node ''Type'')\<lparr>nd_name := ''loop'', nd_parent := Some 2\<rparr>],
     ast_dict = [(0, ''loop'') \<mapsto> 2]\<rparr>\<rparr>"

lemma typedef_cycle:
  "Type_resolve k no_env 3 (start_world self_typedef) = NoFuel
   \<and> Typedef_resolve k no_env 2 (start_world self_typedef) = NoFuel"
proof (induction k)
  case (Suc k)
  let ?h = "ms_heap self_typedef"
  have "RootNode ?h 3 = Some 0" "nd_name (?h ! 3) = ''loop''" "getPrefix ''loop'' = ([], ''loop'')"
    "BaseTypedefs ''loop'' = None" "local_typedef (ms_ast self_typedef) 3 0 ''loop'' = Some 2" by code_simp+
  then have l: "lookup_typedef no_env 3 (start_world self_typedef) = Done (Inr (NodeRef 2, ''local''), start_world self_typedef)"
    by (simp add: lookup_typedef_def start_world_def)
  have "ParentNode ?h 2 = Some 0" "ptr ?h 2 ''Type'' = Some 3" by code_simp+
  then show ?case using Suc l by (simp add: type_body_def typedef_body_def start_world_def)
qed simp

text \<open>An unknown type in a submodule: the error message dereferences the prefix of the root,
  which only a module has.\<close>

lemma unknown_type_in_submodule:
  assumes "w_typeOf w t = None" "RootNode (w_heap w) t = Some rt" "ptr (w_heap w) rt ''Prefix'' = None"
    "nd_name (w_heap w ! t) = name" "getPrefix name = ([], name)" "BaseTypedefs name = None"
    "local_typedef (ms_ast (w_ms w)) t rt name = None"
  shows "Type_resolve (Suc k) env t w = Panicked"
  using assms by (simp add: type_body_def lookup_typedef_def)

text \<open>\<open>Equal\<close> leaves the bits out, so a union keeps only the first of two bits types.\<close>

lemma bits_not_compared:
  "yt_Equal 2 (=) [(base_type 0 (''bits'', Ybits))\<lparr>yt_Bit := Some a\<rparr>, (base_type 0 (''bits'', Ybits))\<lparr>yt_Bit := Some b\<rparr>]
     (Some 0) (Some 1) = Some True"
proof -
  have "default_range ''bits'' = None" by (rule default_range_None) (simp add: default_range_texts_def)
  then show ?thesis
    by (simp add: eval_nat_numeral same_fields_def base_type_def ranges_Equal_def)
qed

end
