(* ===== verification/Entries.thy ===== *)
theory Entries
  imports TypeBounds Errors Indent
begin

text \<open>
  The entries of \<open>pkg/yang/entry.go\<close>: the data, and the operations that work on entries alone.
  Entries, their list attributes and their maps \<open>Extra\<close> live in three stores of the state
  \<open>estate\<close>, a pointer being an index, because copies of an entry share the latter two. A
  directory is an association list in the order in which Go's \<open>range\<close> delivers it. An error has an
  identity, as \<open>GetErrors\<close> compares pointers. Slices are lists: that two copies may append into
  the same spare capacity is not modelled.
\<close>

subsection \<open>Data\<close>

datatype TriState = TSUnset | TSTrue | TSFalse

definition TriState_Value :: "TriState \<Rightarrow> bool" where
  "TriState_Value t \<longleftrightarrow> t = TSTrue"

definition TriState_String :: "TriState \<Rightarrow> string" where
  "TriState_String t = (case t of TSUnset \<Rightarrow> ''unset'' | TSTrue \<Rightarrow> ''true'' | TSFalse \<Rightarrow> ''false'')"

datatype EntryKind =
    LeafEntry | DirectoryEntry | AnyDataEntry | AnyXMLEntry | CaseEntry | ChoiceEntry | InputEntry
  | NotificationEntry | OutputEntry | DeviateEntry

definition EntryKind_String :: "EntryKind \<Rightarrow> string" where
  "EntryKind_String k =
     (case k of
        LeafEntry \<Rightarrow> ''Leaf'' | DirectoryEntry \<Rightarrow> ''Directory'' | AnyDataEntry \<Rightarrow> ''AnyData'' | AnyXMLEntry \<Rightarrow> ''AnyXML''
      | CaseEntry \<Rightarrow> ''Case'' | ChoiceEntry \<Rightarrow> ''Choice'' | InputEntry \<Rightarrow> ''Input''
      | NotificationEntry \<Rightarrow> ''Notification'' | OutputEntry \<Rightarrow> ''Output'' | DeviateEntry \<Rightarrow> ''Deviate'')"

datatype deviationType =
    DeviationUnset | DeviationNotSupported | DeviationAdd | DeviationReplace | DeviationDelete

definition fromDeviation :: "deviationType \<Rightarrow> string" where
  "fromDeviation d =
     (case d of
        DeviationNotSupported \<Rightarrow> ''not-supported'' | DeviationAdd \<Rightarrow> ''add'' | DeviationReplace \<Rightarrow> ''replace''
      | DeviationDelete \<Rightarrow> ''delete'' | DeviationUnset \<Rightarrow> ''unknown'')"

definition toDeviation :: "(string \<times> deviationType) list" where
  "toDeviation = [(''not-supported'', DeviationNotSupported), (''add'', DeviationAdd),
     (''replace'', DeviationReplace), (''delete'', DeviationDelete)]"

lemma toDeviation_from: "map_of toDeviation s = Some d \<Longrightarrow> fromDeviation d = s"
  by (auto simp: toDeviation_def fromDeviation_def split: if_splits)

text \<open>The errors on entries, with the values in their messages; the first string is the source.\<close>

datatype entry_error =
    ENilNode
  | EType type_error
  | EDuplicateKey string string string
  | EUnknownChild string string
  | EDuplicateNode string string string string string string string
  | EBadTristate string string
  | EMaxElements string string strconv_error
  | EMaxElementsZero string
  | EMinElements string string strconv_error
  | EUnknownGroup string string
  | ENotConvertible string string
  | ENilStatement string
  | ECircular string string
  | ETypeOutsideDeviate
  | EDeviationType "type_error list"
  | EDefaultType string string string
  | EUnknownDeviation string string string
  | EMandatoryType string
  | EElementsType string string string
  | EUnitsType string string string
  | EUnexpected string string
  | EPrefixModule string string
  | EAugmentNotFound string string
  | ENoDeviationTarget string
  | EManyDefaults string
  | EHasDefault string
  | ENotAList string EntryKind
  | ENoParent string string
  | EListDefault string
  | ENoDefault string
  | EOtherDefault string
  | EMinDiffers "64 word" "64 word" string
  | EMaxDiffers "64 word" "64 word" string
  | EDeviationInvalid deviationType

type_synonym goerr = "nat \<times> entry_error"

text \<open>A namespace: the value of a namespace statement, or the empty value that \<open>Namespace\<close> makes.\<close>

datatype nsval = NsValue nat | NsEmpty

record ListAttr =
  la_MinElements :: "64 word"
  la_MaxElements :: "64 word"
  la_OrderedBy :: "nat option"

record entry =
  en_Parent :: "nat option"
  en_Node :: "nat option"                      \<comment> \<open>\<open>None\<close> is an \<open>ErrorNode\<close>\<close>
  en_Name :: string
  en_Description :: string
  en_Default :: "string list"
  en_Units :: string
  en_Errors :: "goerr list"
  en_Kind :: EntryKind
  en_Config :: TriState
  en_Prefix :: "nat option"
  en_Mandatory :: TriState
  en_Dir :: "(string \<times> nat) list option"
  en_Key :: string
  en_Type :: "nat option"
  en_Exts :: "Statement list"
  en_ListAttr :: "nat option"
  en_RPC :: "(nat option \<times> nat option) option"  \<comment> \<open>\<open>Input\<close> and \<open>Output\<close>\<close>
  en_Identities :: "nat list"
  en_Augments :: "nat list"
  en_Augmented :: "nat list"
  en_Deviations :: "(string \<times> nat) list"        \<comment> \<open>\<open>DeviatedPath\<close> and the entry\<close>
  en_Deviate :: "(deviationType \<times> nat list) list"
  en_hasMin :: bool
  en_hasMax :: bool
  en_Uses :: "(nat \<times> nat) list"
  en_Extra :: "nat option"
  en_namespace :: "nsval option"

record estate =
  es_w :: world
  es_entries :: "entry list"
  es_attrs :: "ListAttr list"
  es_extras :: "(string \<times> nat list) list list"
  es_cache :: "nat \<Rightarrow> nat option"
  es_merged :: "string set"
  es_nextErr :: nat

abbreviation es_ms :: "estate \<Rightarrow> modules" where
  "es_ms s \<equiv> w_ms (es_w s)"

abbreviation es_heap :: "estate \<Rightarrow> heap" where
  "es_heap s \<equiv> ms_heap (w_ms (es_w s))"

abbreviation ent :: "estate \<Rightarrow> nat \<Rightarrow> entry" where
  "ent s e \<equiv> es_entries s ! e"

definition upd :: "nat \<Rightarrow> (entry \<Rightarrow> entry) \<Rightarrow> estate \<Rightarrow> estate" where
  "upd e f s = s\<lparr>es_entries := (es_entries s)[e := f (ent s e)]\<rparr>"

definition alloc :: "entry \<Rightarrow> estate \<Rightarrow> nat \<times> estate" where
  "alloc x s = (length (es_entries s), s\<lparr>es_entries := es_entries s @ [x]\<rparr>)"

definition dir :: "estate \<Rightarrow> nat \<Rightarrow> (string \<times> nat) list" where
  "dir s e = (case en_Dir (ent s e) of None \<Rightarrow> [] | Some d \<Rightarrow> d)"

subsection \<open>Making entries\<close>

definition blank :: entry where
  "blank = \<lparr>en_Parent = None, en_Node = None, en_Name = [], en_Description = [], en_Default = [], en_Units = [],
     en_Errors = [], en_Kind = LeafEntry, en_Config = TSUnset, en_Prefix = None, en_Mandatory = TSUnset,
     en_Dir = None, en_Key = [], en_Type = None, en_Exts = [], en_ListAttr = None, en_RPC = None,
     en_Identities = [], en_Augments = [], en_Augmented = [], en_Deviations = [], en_Deviate = [],
     en_hasMin = False, en_hasMax = False, en_Uses = [], en_Extra = None, en_namespace = None\<rparr>"

definition new_extra :: "estate \<Rightarrow> nat \<times> estate" where
  "new_extra s = (length (es_extras s), s\<lparr>es_extras := es_extras s @ [[]]\<rparr>)"

definition newDirectory :: "nat \<Rightarrow> estate \<Rightarrow> nat \<times> estate" where
  "newDirectory n s =
     (let (x, s1) = new_extra s
      in alloc (blank\<lparr>en_Kind := DirectoryEntry, en_Dir := Some [], en_Node := Some n,
           en_Name := node_NName (es_heap s) n, en_Extra := Some x\<rparr>) s1)"

definition newLeaf :: "nat \<Rightarrow> estate \<Rightarrow> nat \<times> estate" where
  "newLeaf n s =
     (let (x, s1) = new_extra s
      in alloc (blank\<lparr>en_Node := Some n, en_Name := node_NName (es_heap s) n, en_Extra := Some x\<rparr>) s1)"

definition add_errs :: "nat \<Rightarrow> goerr list \<Rightarrow> estate \<Rightarrow> estate" where
  "add_errs e errs s = upd e (\<lambda>x. x\<lparr>en_Errors := en_Errors x @ errs\<rparr>) s"

definition errorf :: "nat \<Rightarrow> entry_error \<Rightarrow> estate \<Rightarrow> estate" where
  "errorf e err s = (add_errs e [(es_nextErr s, err)] s)\<lparr>es_nextErr := Suc (es_nextErr s)\<rparr>"

definition addError :: "nat \<Rightarrow> entry_error option \<Rightarrow> estate \<Rightarrow> estate" where
  "addError e err s = (case err of None \<Rightarrow> s | Some x \<Rightarrow> errorf e x s)"

definition newError :: "nat option \<Rightarrow> entry_error \<Rightarrow> estate \<Rightarrow> nat \<times> estate" where
  "newError n err s = (let (e, s1) = alloc (blank\<lparr>en_Node := n\<rparr>) s in (e, errorf e err s1))"

definition NewDefaultListAttr :: ListAttr where
  "NewDefaultListAttr = \<lparr>la_MinElements = 0, la_MaxElements = - 1, la_OrderedBy = None\<rparr>"

subsection \<open>Kinds of entries\<close>

definition IsDir :: "entry \<Rightarrow> bool" where "IsDir x \<longleftrightarrow> en_Dir x \<noteq> None"

definition IsLeaf :: "entry \<Rightarrow> bool" where
  "IsLeaf x \<longleftrightarrow> \<not> IsDir x \<and> en_Kind x = LeafEntry \<and> en_ListAttr x = None"

definition IsLeafList :: "entry \<Rightarrow> bool" where
  "IsLeafList x \<longleftrightarrow> \<not> IsDir x \<and> en_Kind x = LeafEntry \<and> en_ListAttr x \<noteq> None"

definition IsList :: "entry \<Rightarrow> bool" where "IsList x \<longleftrightarrow> IsDir x \<and> en_ListAttr x \<noteq> None"

definition IsContainer :: "entry \<Rightarrow> bool" where
  "IsContainer x \<longleftrightarrow> en_Kind x = DirectoryEntry \<and> en_ListAttr x = None"

definition IsChoice :: "entry \<Rightarrow> bool" where "IsChoice x \<longleftrightarrow> en_Kind x = ChoiceEntry"

definition IsCase :: "entry \<Rightarrow> bool" where "IsCase x \<longleftrightarrow> en_Kind x = CaseEntry"

subsection \<open>Errors\<close>

text \<open>\<open>importErrors\<close> and its loop over the directory.\<close>

fun importErrors :: "nat \<Rightarrow> nat \<Rightarrow> nat \<Rightarrow> estate \<Rightarrow> estate run"
  and import_children :: "nat \<Rightarrow> nat \<Rightarrow> nat list \<Rightarrow> estate \<Rightarrow> estate run" where
  "importErrors 0 e c s = NoFuel"
| "importErrors (Suc k) e c s =
     (let s1 = add_errs e (en_Errors (ent s c)) s in import_children k e (List.map snd (dir s1 c)) s1)"
| "import_children k e [] s = Done s"
| "import_children k e (c # cs) s = bind_run (importErrors k e c s) (\<lambda>s1. import_children k e cs s1)"

text \<open>\<open>checkErrors\<close>: the errors in the order in which \<open>f\<close> gets them.\<close>

fun checkErrors :: "nat \<Rightarrow> estate \<Rightarrow> nat \<Rightarrow> goerr list run"
  and check_children :: "nat \<Rightarrow> estate \<Rightarrow> nat list \<Rightarrow> goerr list run" where
  "checkErrors 0 s e = NoFuel"
| "checkErrors (Suc k) s e =
     bind_run (check_children k s (List.map snd (dir s e))) (\<lambda>errs. Done (errs @ en_Errors (ent s e)))"
| "check_children k s [] = Done []"
| "check_children k s (c # cs) =
     bind_run (checkErrors k s c) (\<lambda>errs. bind_run (check_children k s cs) (\<lambda>errs'. Done (errs @ errs')))"

text \<open>The closure of \<open>GetErrors\<close>: each error object once, where it comes first.\<close>

fun unseen :: "nat set \<Rightarrow> goerr list \<Rightarrow> entry_error list" where
  "unseen seen [] = []"
| "unseen seen ((i, err) # errs) = (if i \<in> seen then unseen seen errs else err # unseen (insert i seen) errs)"

definition GetErrors :: "nat \<Rightarrow> (entry_error \<Rightarrow> string) \<Rightarrow> estate \<Rightarrow> nat \<Rightarrow> entry_error list run" where
  "GetErrors k msg_of s e =
     bind_run (checkErrors k s e) (\<lambda>errs. Done (errorSort msg_of (unseen {} errs)))"

subsection \<open>Adding and deleting children\<close>

definition entry_Source :: "estate \<Rightarrow> nat \<Rightarrow> string" where
  "entry_Source s e = Source (es_heap s) (en_Node (ent s e))"

text \<open>Assigning to a nil map panics; deleting from one does nothing.\<close>

definition entry_add :: "nat \<Rightarrow> string \<Rightarrow> nat \<Rightarrow> estate \<Rightarrow> estate run" where
  "entry_add e key v s =
     (let s1 = upd v (\<lambda>x. x\<lparr>en_Parent := Some e\<rparr>) s
      in case en_Dir (ent s1 e) of
           None \<Rightarrow> Panicked
         | Some d \<Rightarrow>
             if map_of d key \<noteq> None
             then Done (errorf e (EDuplicateKey (entry_Source s1 e) (entry_Source s1 v) key) s1)
             else Done (upd e (\<lambda>x. x\<lparr>en_Dir := Some (AList.update key v d)\<rparr>) s1))"

definition entry_delete :: "nat \<Rightarrow> string \<Rightarrow> estate \<Rightarrow> estate" where
  "entry_delete e key s =
     (let s1 = (if map_of (dir s e) key = None then errorf e (EUnknownChild (entry_Source s e) key) s else s)
      in upd e (\<lambda>x. x\<lparr>en_Dir := map_option (AList.delete key) (en_Dir x)\<rparr>) s1)"

subsection \<open>Copies\<close>

text \<open>\<open>dup\<close> and its loop over the directory, \<open>ne\<close> being the copy.\<close>

fun dup :: "nat \<Rightarrow> nat \<Rightarrow> estate \<Rightarrow> (nat \<times> estate) run"
  and dup_children :: "nat \<Rightarrow> nat \<Rightarrow> (string \<times> nat) list \<Rightarrow> estate \<Rightarrow> estate run" where
  "dup 0 e s = NoFuel"
| "dup (Suc k) e s =
     (let (ne, s1) = alloc (ent s e) s
      in case en_Dir (ent s e) of
           None \<Rightarrow> Done (ne, s1)
         | Some d \<Rightarrow>
             bind_run (dup_children k ne d (upd ne (\<lambda>x. x\<lparr>en_Dir := Some []\<rparr>) s1)) (\<lambda>s2. Done (ne, s2)))"
| "dup_children k ne [] s = Done s"
| "dup_children k ne ((key, v) # d) s =
     bind_run (dup k v s) (\<lambda>(de, s1).
       dup_children k ne d
         (upd ne (\<lambda>x. x\<lparr>en_Dir := map_option (\<lambda>dd. AList.update key de dd) (en_Dir x)\<rparr>)
           (upd de (\<lambda>x. x\<lparr>en_Parent := Some ne\<rparr>) s1)))"

text \<open>\<open>shallowDup\<close>: the children without their directories.\<close>

fun shallow_children :: "nat \<Rightarrow> (string \<times> nat) list \<Rightarrow> estate \<Rightarrow> estate" where
  "shallow_children ne [] s = s"
| "shallow_children ne ((key, v) # d) s =
     (let (de, s1) = alloc ((ent s v)\<lparr>en_Dir := None, en_Parent := Some ne\<rparr>) s
      in shallow_children ne d
           (upd ne (\<lambda>x. x\<lparr>en_Dir := map_option (\<lambda>dd. AList.update key de dd) (en_Dir x)\<rparr>) s1))"

definition shallowDup :: "nat \<Rightarrow> estate \<Rightarrow> nat \<times> estate" where
  "shallowDup e s =
     (let (ne, s1) = alloc (ent s e) s
      in case en_Dir (ent s e) of
           None \<Rightarrow> (ne, s1)
         | Some d \<Rightarrow> (ne, shallow_children ne d (upd ne (\<lambda>x. x\<lparr>en_Dir := Some []\<rparr>) s1)))"

subsection \<open>merge\<close>

text \<open>One child of \<open>oe\<close>, already copied to \<open>v\<close>; then the loop.\<close>

definition merge_child :: "nat option \<Rightarrow> nsval option \<Rightarrow> nat \<Rightarrow> nat \<Rightarrow> string \<Rightarrow> nat \<Rightarrow> estate \<Rightarrow> estate" where
  "merge_child prefix ns e oe key v s =
     (let s1 = (if prefix = None then s else upd v (\<lambda>x. x\<lparr>en_Prefix := prefix\<rparr>) s);
          s2 = (if ns = None then s1 else upd v (\<lambda>x. x\<lparr>en_namespace := ns\<rparr>) s1)
      in case map_of (dir s2 e) key of
           Some se \<Rightarrow>
             errorf e (EDuplicateNode (entry_Source s2 oe) key (en_Name (ent s2 e))
               (entry_Source s2 v) (en_Name (ent s2 v)) (entry_Source s2 se) (en_Name (ent s2 se))) s2
         | None \<Rightarrow>
             (let s3 = upd v (\<lambda>x. x\<lparr>en_Parent := Some e, en_Exts := en_Exts x @ en_Exts (ent s2 oe)\<rparr>) s2
              in upd e (\<lambda>x. x\<lparr>en_Dir := map_option (\<lambda>dd. AList.update key v dd) (en_Dir x)\<rparr>) s3))"

fun merge_loop :: "nat \<Rightarrow> nat option \<Rightarrow> nsval option \<Rightarrow> nat \<Rightarrow> nat \<Rightarrow> (string \<times> nat) list \<Rightarrow> estate \<Rightarrow> estate run" where
  "merge_loop k prefix ns e oe [] s = Done s"
| "merge_loop k prefix ns e oe ((key, v) # d) s =
     bind_run (dup k v s) (\<lambda>(v', s1). merge_loop k prefix ns e oe d (merge_child prefix ns e oe key v' s1))"

text \<open>An entry of a node that is not a directory has no map to assign to.\<close>

definition entry_merge :: "nat \<Rightarrow> nat option \<Rightarrow> nsval option \<Rightarrow> nat \<Rightarrow> nat \<Rightarrow> estate \<Rightarrow> estate run" where
  "entry_merge k prefix ns e oe s =
     bind_run (importErrors k e oe s) (\<lambda>s1.
       if en_Dir (ent s1 e) = None \<and> dir s1 oe \<noteq> [] then Panicked
       else merge_loop k prefix ns e oe (dir s1 oe) s1)"

subsection \<open>Up the parents\<close>

fun entry_root :: "nat \<Rightarrow> estate \<Rightarrow> nat \<Rightarrow> nat run" where
  "entry_root 0 s e = NoFuel"
| "entry_root (Suc k) s e = (case en_Parent (ent s e) of None \<Rightarrow> Done e | Some p \<Rightarrow> entry_root k s p)"

fun entry_Path :: "nat \<Rightarrow> estate \<Rightarrow> nat option \<Rightarrow> string run" where
  "entry_Path 0 s e = NoFuel"
| "entry_Path (Suc k) s e =
     (case e of
        None \<Rightarrow> Done []
      | Some a \<Rightarrow> bind_run (entry_Path k s (en_Parent (ent s a))) (\<lambda>p. Done (p @ ''/'' @ en_Name (ent s a))))"

fun ReadOnly :: "nat \<Rightarrow> estate \<Rightarrow> nat option \<Rightarrow> bool run" where
  "ReadOnly 0 s e = NoFuel"
| "ReadOnly (Suc k) s e =
     (case e of
        None \<Rightarrow> Done False
      | Some a \<Rightarrow>
          if en_Kind (ent s a) = OutputEntry then Done True
          else if en_Config (ent s a) = TSUnset then ReadOnly k s (en_Parent (ent s a))
          else Done (\<not> TriState_Value (en_Config (ent s a))))"

text \<open>\<open>Namespace\<close>: the walk to the root, and the value of the root's module (\<open>None\<close> is nil).\<close>

fun ns_walk :: "nat \<Rightarrow> estate \<Rightarrow> nat \<Rightarrow> (nsval + nat) run" where
  "ns_walk 0 s e = NoFuel"
| "ns_walk (Suc k) s e =
     (case en_Parent (ent s e) of
        None \<Rightarrow> Done (Inr e)
      | Some p \<Rightarrow> (case en_namespace (ent s e) of Some v \<Rightarrow> Done (Inl v) | None \<Rightarrow> ns_walk k s p))"

definition root_namespace :: "modules \<Rightarrow> nat option \<Rightarrow> nsval option run" where
  "root_namespace ms n =
     (let h = ms_heap ms
      in case Option.bind n (RootNode h) of
           None \<Rightarrow> Done (Some NsEmpty)
         | Some rt \<Rightarrow>
             if node_Kind h rt = ''submodule'' then
               (case ptr h rt ''BelongsTo'' of
                  None \<Rightarrow> Panicked
                | Some b \<Rightarrow>
                    (case map_of (ms_Modules ms) (nd_name (h ! b)) of
                       None \<Rightarrow> Done (Some NsEmpty)
                     | Some m \<Rightarrow> Done (map_option NsValue (ptr h m ''Namespace''))))
             else Done (map_option NsValue (ptr h rt ''Namespace'')))"

definition entry_Namespace :: "nat \<Rightarrow> estate \<Rightarrow> nat \<Rightarrow> nsval option run" where
  "entry_Namespace k s e =
     bind_run (ns_walk k s e) (\<lambda>r.
       case r of Inl v \<Rightarrow> Done (Some v) | Inr rt \<Rightarrow> root_namespace (es_ms s) (en_Node (ent s rt)))"

definition ns_name :: "heap \<Rightarrow> nsval \<Rightarrow> string" where
  "ns_name h v = (case v of NsValue a \<Rightarrow> nd_name (h ! a) | NsEmpty \<Rightarrow> [])"

datatype instantiating_error = NilNamespace string | NoSuchModule string string namespace_error

text \<open>\<open>InstantiatingModule\<close>; \<open>Modules\<close> needs the root entry to be that of a module.\<close>

definition entry_Modules :: "nat \<Rightarrow> estate \<Rightarrow> nat \<Rightarrow> modules run" where
  "entry_Modules k s e =
     bind_run (entry_root k s e) (\<lambda>rt.
       case en_Node (ent s rt) of
         None \<Rightarrow> Panicked
       | Some n \<Rightarrow> if nd_type (es_heap s ! n) = ''Module'' then Done (es_ms s) else Panicked)"

definition InstantiatingModule :: "nat \<Rightarrow> estate \<Rightarrow> nat \<Rightarrow> ((instantiating_error + string) \<times> estate) run" where
  "InstantiatingModule k s e =
     bind_run (entry_Namespace k s e) (\<lambda>n.
       case n of
         None \<Rightarrow> Done (Inl (NilNamespace (en_Name (ent s e))), s)
       | Some v \<Rightarrow>
           bind_run (entry_Modules k s e) (\<lambda>ms.
             case FindModuleByNamespace (ns_name (es_heap s) v) ms of
               (ms1, None) \<Rightarrow> Panicked
             | (ms1, Some r) \<Rightarrow>
                 Done (case r of
                         Inl err \<Rightarrow> Inl (NoSuchModule (ns_name (es_heap s) v) (en_Name (ent s e)) err)
                       | Inr m \<Rightarrow> Inr (nd_name (ms_heap ms1 ! m)), s\<lparr>es_w := (es_w s)\<lparr>w_ms := ms1\<rparr>\<rparr>)))"

subsection \<open>Defaults\<close>

text \<open>\<open>DefaultValues\<close> and \<open>SingleDefaultValue\<close>; the left out \<open>type switch\<close> cases give nothing.\<close>

definition DefaultValues :: "estate \<Rightarrow> nat \<Rightarrow> string list" where
  "DefaultValues s e =
     (let x = ent s e; h = es_heap s
      in if en_Default x \<noteq> [] then en_Default x
         else case (en_Type x, en_Node x) of
                (Some t, Some n) \<Rightarrow>
                  if yt_HasDefault (w_types (es_w s) ! t) \<and> nd_type (h ! n) = ''Leaf''
                     \<and> (IsLeaf x \<and> (case ptr h n ''Mandatory'' of None \<Rightarrow> True | Some m \<Rightarrow> nd_name (h ! m) = ''false'')
                        \<or> IsLeafList x \<and> la_MinElements (es_attrs s ! the (en_ListAttr x)) = 0)
                  then [yt_Default (w_types (es_w s) ! t)] else []
              | _ \<Rightarrow> [])"

definition SingleDefaultValue :: "estate \<Rightarrow> nat \<Rightarrow> string option" where
  "SingleDefaultValue s e = (case DefaultValues s e of [v] \<Rightarrow> Some v | _ \<Rightarrow> None)"

text \<open>\<open>GetWhenXPath\<close>: the argument of the when statement of the nodes that have one.\<close>

definition GetWhenXPath :: "estate \<Rightarrow> nat \<Rightarrow> (string \<times> bool)" where
  "GetWhenXPath s e =
     (let h = es_heap s
      in case en_Node (ent s e) of
           None \<Rightarrow> ([], False)
         | Some n \<Rightarrow>
             if nd_type (h ! n) \<in> {''Container'', ''Leaf'', ''LeafList'', ''List'', ''Choice'', ''Case'', ''AnyXML'',
                 ''AnyData'', ''Augment''}
             then (case Option.bind (ptr h n ''When'') (\<lambda>w. nd_source (h ! w)) of
                     None \<Rightarrow> ([], False) | Some st \<Rightarrow> Arg st)
             else ([], False))"

subsection \<open>FixChoice\<close>

text \<open>A node added to the AST, as the address it gets.\<close>

definition alloc_node :: "node \<Rightarrow> estate \<Rightarrow> nat \<times> estate" where
  "alloc_node n s =
     (let w = es_w s; ms = w_ms w; st = ms_ast ms
      in (length (ast_nodes st),
          s\<lparr>es_w := w\<lparr>w_ms := ms\<lparr>ms_ast := st\<lparr>ast_nodes := ast_nodes st @ [n]\<rparr>\<rparr>\<rparr>\<rparr>))"

definition case_node :: "heap \<Rightarrow> nat option \<Rightarrow> node" where
  "case_node h n =
     (case n of
        None \<Rightarrow> (new_node ''Case'')\<lparr>nd_name := ''error''\<rparr>
      | Some a \<Rightarrow> (new_node ''Case'')\<lparr>nd_parent := ParentNode h a, nd_name := node_NName h a,
          nd_source := nd_source (h ! a), nd_exts := nd_exts (h ! a)\<rparr>)"

definition insert_case :: "nat \<Rightarrow> string \<Rightarrow> nat \<Rightarrow> estate \<Rightarrow> estate" where
  "insert_case e key ce s =
     (if en_Kind (ent s ce) = CaseEntry then s
      else let (cn, s1) = alloc_node (case_node (es_heap s) (en_Node (ent s ce))) s;
               (x, s2) = new_extra s1; ch = ent s ce;
               (ne, s3) = alloc (blank\<lparr>en_Parent := Some e, en_Node := Some cn, en_Name := en_Name ch,
                 en_Kind := CaseEntry, en_Config := en_Config ch, en_Prefix := en_Prefix ch,
                 en_Dir := Some [(en_Name ch, ce)], en_Extra := Some x\<rparr>) s2
           in upd e (\<lambda>y. y\<lparr>en_Dir := map_option (AList.update key ne) (en_Dir y)\<rparr>)
                (upd ce (\<lambda>y. y\<lparr>en_Parent := Some ne\<rparr>) s3))"

definition fix_children :: "nat \<Rightarrow> estate \<Rightarrow> estate" where
  "fix_children e s =
     (if en_Kind (ent s e) = ChoiceEntry \<and> en_Errors (ent s e) = []
      then fold (\<lambda>(key, ce). insert_case e key ce) (dir s e) s
      else s)"

fun FixChoice :: "nat \<Rightarrow> nat \<Rightarrow> estate \<Rightarrow> estate run"
  and fix_list :: "nat \<Rightarrow> nat list \<Rightarrow> estate \<Rightarrow> estate run" where
  "FixChoice 0 e s = NoFuel"
| "FixChoice (Suc k) e s =
     (let s1 = fix_children e s in fix_list k (List.map snd (dir s1 e)) s1)"
| "fix_list k [] s = Done s"
| "fix_list k (c # cs) s = bind_run (FixChoice k c s) (\<lambda>s1. fix_list k cs s1)"

subsection \<open>Print\<close>

text \<open>The text \<open>Print\<close> writes; a child goes through an indenting writer of its own.\<close>

definition print_head :: "estate \<Rightarrow> nat \<Rightarrow> bool \<Rightarrow> string" where
  "print_head s e ro =
     (let x = ent s e
      in (if en_Description x \<noteq> [] then [nl] @ indent_String ''// '' (en_Description x @ [nl]) else [])
         @ (if ro then ''RO: '' else ''rw: '')
         @ (case en_Type x of None \<Rightarrow> [] | Some t \<Rightarrow> yt_Name (w_types (es_w s) ! t) @ '' ''))"

fun entry_Print :: "nat \<Rightarrow> estate \<Rightarrow> nat \<Rightarrow> string run"
  and print_children :: "nat \<Rightarrow> estate \<Rightarrow> nat \<Rightarrow> string list \<Rightarrow> string run" where
  "entry_Print 0 s e = NoFuel"
| "entry_Print (Suc k) s e =
     bind_run (ReadOnly (Suc (length (es_entries s))) s (Some e)) (\<lambda>ro.
       let x = ent s e; hd1 = print_head s e ro
       in case en_Dir x of
            None \<Rightarrow> Done (hd1 @ (if en_ListAttr x \<noteq> None then ''[]'' else []) @ en_Name x @ [nl])
          | Some d \<Rightarrow>
              bind_run (print_children k s e (sort_strings (List.map fst d))) (\<lambda>body.
                Done (hd1 @ (if en_ListAttr x \<noteq> None then ''['' @ en_Key x @ '']'' else []) @ en_Name x @ '' {'' @ [nl]
                  @ body @ ''}'' @ [nl])))"
| "print_children k s e [] = Done []"
| "print_children k s e (key # keys) =
     (case map_of (dir s e) key of
        None \<Rightarrow> Panicked
      | Some c \<Rightarrow>
          bind_run (entry_Print k s c) (\<lambda>t. bind_run (print_children k s e keys) (\<lambda>ts.
            Done (indent_String ''  '' t @ ts))))"

end
