(* ===== verification/Convert.thy ===== *)
theory Convert
  imports Entries
begin

text \<open>
  From the AST to entries: \<open>ToEntry\<close>, \<open>Find\<close> and \<open>Augment\<close> of \<open>pkg/yang/entry.go\<close>. The body of
  \<open>ToEntry\<close> takes the recursive call as the argument \<open>te\<close>; the fuel \<open>k\<close> also bounds the walks over
  entries, types and groupings in it. \<open>None\<close> in place of an entry is the nil that a \<open>uses\<close> of an
  unknown grouping gives under \<open>IgnoreModuleResolveErrors\<close>.
\<close>

type_synonym toentry = "nat \<Rightarrow> estate \<Rightarrow> (nat option \<times> estate) run"

fun run_list :: "('x \<Rightarrow> 's \<Rightarrow> 's run) \<Rightarrow> 'x list \<Rightarrow> 's \<Rightarrow> 's run" where
  "run_list f [] s = Done s"
| "run_list f (x # xs) s = bind_run (f x s) (run_list f xs)"

subsection \<open>Values\<close>

definition tristateValue :: "heap \<Rightarrow> nat \<Rightarrow> nat option \<Rightarrow> TriState \<times> entry_error option" where
  "tristateValue h n v =
     (case v of
        None \<Rightarrow> (TSUnset, None)
      | Some a \<Rightarrow>
          if nd_name (h ! a) = ''true'' then (TSTrue, None)
          else if nd_name (h ! a) = ''false'' then (TSFalse, None)
          else (TSUnset, Some (EBadTristate (Source h (Some n)) (nd_name (h ! a)))))"

text \<open>What \<open>strconv.ParseUint\<close> returns, the value that goes with an error included.\<close>

definition parse_uint64 :: "string \<Rightarrow> 64 word \<times> strconv_error option" where
  "parse_uint64 s =
     (case go_parse_uint 10 s of
        Inl ErrSyntax \<Rightarrow> (0, Some ErrSyntax)
      | Inl ErrRange \<Rightarrow> (- 1, Some ErrRange)
      | Inr n \<Rightarrow> (of_nat n, None))"

definition semCheckMaxElements :: "heap \<Rightarrow> nat option \<Rightarrow> 64 word \<times> entry_error option" where
  "semCheckMaxElements h v =
     (case v of
        None \<Rightarrow> (- 1, None)
      | Some a \<Rightarrow>
          if nd_name (h ! a) = ''unbounded'' then (- 1, None)
          else (case parse_uint64 (nd_name (h ! a)) of
                  (x, Some e) \<Rightarrow> (x, Some (EMaxElements (Source h (Some a)) (nd_name (h ! a)) e))
                | (x, None) \<Rightarrow> (x, if x = 0 then Some (EMaxElementsZero (Source h (Some a))) else None)))"

definition semCheckMinElements :: "heap \<Rightarrow> nat option \<Rightarrow> 64 word \<times> entry_error option" where
  "semCheckMinElements h v =
     (case v of
        None \<Rightarrow> (0, None)
      | Some a \<Rightarrow>
          (case parse_uint64 (nd_name (h ! a)) of
             (x, Some e) \<Rightarrow> (x, Some (EMinElements (Source h (Some a)) (nd_name (h ! a)) e))
           | (x, None) \<Rightarrow> (x, None)))"

definition getRootPrefix :: "heap \<Rightarrow> nat option \<Rightarrow> nat option" where
  "getRootPrefix h n = module_getPrefix h (Option.bind n (RootNode h))"

subsection \<open>Extra statements\<close>

definition addToExtrasSlice :: "string \<Rightarrow> nat list \<Rightarrow> nat \<Rightarrow> estate \<Rightarrow> estate run" where
  "addToExtrasSlice name vs e s =
     (case en_Extra (ent s e) of
        None \<Rightarrow> Panicked
      | Some x \<Rightarrow>
          (let m = es_extras s ! x; old = (case map_of m name of None \<Rightarrow> [] | Some l \<Rightarrow> l)
           in Done (s\<lparr>es_extras := (es_extras s)[x := AList.update name (old @ vs) m]\<rparr>)))"

text \<open>The fields of a node from the last to the second.\<close>

definition fields_back :: "heap \<Rightarrow> nat \<Rightarrow> sfield list" where
  "fields_back h n = (case map_of structs (nd_type (h ! n)) of None \<Rightarrow> [] | Some fs \<Rightarrow> rev (tl fs))"

definition tag_name :: "sfield \<Rightarrow> string" where
  "tag_name f = (case f of (fname, ftype, yang) \<Rightarrow> hd (go_split yang '',''))"

definition leaf_extra :: "nat \<Rightarrow> nat \<Rightarrow> sfield \<Rightarrow> estate \<Rightarrow> estate run" where
  "leaf_extra n e f s =
     (if tag_name f \<in> {''if-feature'', ''must'', ''reference'', ''status'', ''when''}
         \<and> field (es_heap s) n (fst f) \<noteq> []
      then addToExtrasSlice (tag_name f) (field (es_heap s) n (fst f)) e s else Done s)"

definition addExtraKeywordsToLeafEntry :: "nat \<Rightarrow> nat \<Rightarrow> estate \<Rightarrow> estate run" where
  "addExtraKeywordsToLeafEntry n e s = run_list (leaf_extra n e) (fields_back (es_heap s) n) s"

subsection \<open>Leaves, leaf-lists and uses\<close>

definition add_errors :: "nat \<Rightarrow> entry_error list \<Rightarrow> estate \<Rightarrow> estate" where
  "add_errors e errs s = fold (\<lambda>x. errorf e x) errs s"

definition resolve_type :: "nat \<Rightarrow> tenv \<Rightarrow> nat option \<Rightarrow> estate \<Rightarrow> (type_error list \<times> estate) run" where
  "resolve_type k env t s =
     (case t of
        None \<Rightarrow> Panicked
      | Some a \<Rightarrow> bind_run (Type_resolve k env a (es_w s)) (\<lambda>(errs, w). Done (errs, s\<lparr>es_w := w\<rparr>)))"

definition leaf_entry :: "nat \<Rightarrow> tenv \<Rightarrow> nat \<Rightarrow> estate \<Rightarrow> (nat option \<times> estate) run" where
  "leaf_entry k env n s =
     (let (e, s1) = newLeaf n s; ty = ptr (es_heap s1) n ''Type''
      in bind_run (resolve_type k env ty s1) (\<lambda>(errs, s2).
        let h = es_heap s2; s3 = add_errors e (List.map EType errs) s2;
            (cfg, err) = tristateValue h n (ptr h n ''Config'');
            s4 = upd e (\<lambda>x. x\<lparr>en_Description := asString h (ptr h n ''Description''),
                   en_Default := (case ptr h n ''Default'' of None \<Rightarrow> [] | Some d \<Rightarrow> [nd_name (h ! d)]),
                   en_Type := Option.bind ty (w_typeOf (es_w s2)), en_Config := cfg\<rparr>) s3;
            s5 = upd e (\<lambda>x. x\<lparr>en_Prefix := getRootPrefix h (Some n)\<rparr>) (addError e err s4)
        in bind_run (addExtraKeywordsToLeafEntry n e s5) (\<lambda>s6.
             let (m, err) = tristateValue h n (ptr h n ''Mandatory'')
             in Done (Some e, addError e err (upd e (\<lambda>x. x\<lparr>en_Mandatory := m\<rparr>) s6)))))"

text \<open>The list attributes from the statements under a list or leaf-list.\<close>

definition set_list_attr :: "nat \<Rightarrow> nat \<Rightarrow> estate \<Rightarrow> estate" where
  "set_list_attr n e s =
     (let h = es_heap s; a = length (es_attrs s);
          (mx, e1) = semCheckMaxElements h (ptr h n ''MaxElements'');
          (mn, e2) = semCheckMinElements h (ptr h n ''MinElements'');
          s1 = s\<lparr>es_attrs := es_attrs s @
                 [\<lparr>la_MinElements = mn, la_MaxElements = mx, la_OrderedBy = ptr h n ''OrderedBy''\<rparr>]\<rparr>
      in addError e e2 (addError e e1 (upd e (\<lambda>x. x\<lparr>en_ListAttr := Some a\<rparr>) s1)))"

definition leaf_of_list :: "heap \<Rightarrow> nat \<Rightarrow> node" where
  "leaf_of_list h n =
     (h ! n)\<lparr>nd_type := ''Leaf'',
       nd_subs := List.filter (\<lambda>(f, _). f \<in> {''Config'', ''Description'', ''IfFeature'', ''Must'', ''Reference'',
         ''Status'', ''Type'', ''Units'', ''When''}) (nd_subs (h ! n))\<rparr>"

definition leaf_list_entry :: "toentry \<Rightarrow> nat \<Rightarrow> estate \<Rightarrow> (nat option \<times> estate) run" where
  "leaf_list_entry te n s =
     (let (leaf, s1) = alloc_node (leaf_of_list (es_heap s) n) s
      in bind_run (te leaf s1) (\<lambda>(r, s2).
        case r of
          None \<Rightarrow> Panicked
        | Some e \<Rightarrow>
            (let s3 = set_list_attr n e s2; h = es_heap s3
             in Done (Some e, upd e (\<lambda>x. x\<lparr>
                  en_Default := en_Default x @ List.map (\<lambda>d. nd_name (h ! d)) (field h n ''Default''),
                  en_Prefix := getRootPrefix h (en_Node x)\<rparr>) s3))))"

definition uses_entry :: "nat \<Rightarrow> tenv \<Rightarrow> toentry \<Rightarrow> nat \<Rightarrow> estate \<Rightarrow> (nat option \<times> estate) run" where
  "uses_entry k env te n s =
     (case FindGrouping k (es_heap s) (Some n) (nd_name (es_heap s ! n)) {} of
        None \<Rightarrow> NoFuel
      | Some (Inl _) \<Rightarrow> Panicked
      | Some (Inr (None, _)) \<Rightarrow>
          if IgnoreModuleResolveErrors (tv_opts env) then Done (None, s)
          else (let (e, s1) = newError (Some n)
                  (EUnknownGroup (Source (es_heap s) (Some n)) (nd_name (es_heap s ! n))) s in Done (Some e, s1))
      | Some (Inr (Some g, _)) \<Rightarrow>
          bind_run (te g s) (\<lambda>(r, s1).
            case r of
              None \<Rightarrow> Panicked
            | Some ge \<Rightarrow> bind_run (dup k ge s1) (\<lambda>(e, s2).
                bind_run (addExtraKeywordsToLeafEntry n e s2) (\<lambda>s3. Done (Some e, s3)))))"

subsection \<open>The fields of a directory\<close>

definition kind_of_node :: "string \<Rightarrow> EntryKind" where
  "kind_of_node t =
     (if t = ''Choice'' then ChoiceEntry else if t = ''Case'' then CaseEntry
      else if t = ''AnyData'' then AnyDataEntry else if t = ''AnyXML'' then AnyXMLEntry
      else if t = ''Input'' then InputEntry else if t = ''Output'' then OutputEntry
      else if t = ''Notification'' then NotificationEntry else if t = ''Deviate'' then DeviateEntry
      else DirectoryEntry)"

definition start_directory :: "nat \<Rightarrow> estate \<Rightarrow> nat \<times> estate" where
  "start_directory n s =
     (let (e, s1) = newDirectory n s; h = es_heap s1; t = nd_type (h ! n);
          s2 = upd e (\<lambda>x. x\<lparr>en_Kind := kind_of_node t\<rparr>) s1
      in (e, if t = ''List'' then set_list_attr n e s2
             else if t = ''Choice'' then upd e (\<lambda>x. x\<lparr>en_Default :=
               (case ptr h n ''Default'' of None \<Rightarrow> [] | Some d \<Rightarrow> [nd_name (h ! d)])\<rparr>) s2
             else s2))"

definition add_child :: "toentry \<Rightarrow> nat \<Rightarrow> nat \<Rightarrow> estate \<Rightarrow> estate run" where
  "add_child te e a s =
     bind_run (te a s) (\<lambda>(r, s1).
       case r of None \<Rightarrow> Panicked | Some v \<Rightarrow> entry_add e (nd_name (es_heap s ! a)) v s1)"

definition add_augment :: "toentry \<Rightarrow> nat \<Rightarrow> nat \<Rightarrow> estate \<Rightarrow> estate run" where
  "add_augment te e a s =
     bind_run (te a s) (\<lambda>(r, s1).
       case r of
         None \<Rightarrow> Panicked
       | Some v \<Rightarrow> Done (upd e (\<lambda>x. x\<lparr>en_Augments := en_Augments x @ [v]\<rparr>) (upd v (\<lambda>x. x\<lparr>en_Parent := Some e\<rparr>) s1)))"

definition check_grouping :: "nat \<Rightarrow> toentry \<Rightarrow> nat \<Rightarrow> nat \<Rightarrow> estate \<Rightarrow> estate run" where
  "check_grouping k te e a s =
     bind_run (te a s) (\<lambda>(r, s1). case r of None \<Rightarrow> Done s1 | Some g \<Rightarrow> importErrors k e g s1)"

text \<open>An include statement \<open>i\<close> of the node named \<open>nname\<close>.\<close>

definition add_include :: "nat \<Rightarrow> tenv \<Rightarrow> toentry \<Rightarrow> nat \<Rightarrow> string \<Rightarrow> nat \<Rightarrow> estate \<Rightarrow> estate run" where
  "add_include k env te e nname i s =
     (let h = es_heap s
      in case nd_module (h ! i) of
           None \<Rightarrow> Panicked
         | Some m \<Rightarrow>
             (let mname = nd_name (h ! m); srcToIncluded = mname @ '':'' @ nname; includedToSrc = nname @ '':'' @ mname
              in if srcToIncluded \<in> es_merged s then Done s
                 else if includedToSrc \<notin> es_merged s \<and> mname \<noteq> nname then
                   (case ptr h m ''BelongsTo'' of
                      None \<Rightarrow> Panicked
                    | Some b \<Rightarrow>
                        (let includedToParent = mname @ '':'' @ nd_name (h ! b)
                         in if includedToParent \<in> es_merged s then Done s
                            else
                              bind_run (te m (s\<lparr>es_merged := es_merged s \<union> {srcToIncluded, includedToParent}\<rparr>))
                                (\<lambda>(r, s1). case r of
                                   None \<Rightarrow> Panicked
                                 | Some v \<Rightarrow> entry_merge k (ptr h m ''Prefix'') None e v s1)))
                 else if IgnoreSubmoduleCircularDependencies (tv_opts env) then Done s
                 else Done (errorf e (ECircular nname mname) s)))"

definition add_rpc :: "toentry \<Rightarrow> nat \<Rightarrow> nat \<Rightarrow> estate \<Rightarrow> estate run" where
  "add_rpc te e a s =
     bind_run (te a s) (\<lambda>(r, s1).
       case r of
         None \<Rightarrow> Panicked
       | Some v \<Rightarrow>
           entry_add e (nd_name (es_heap s ! a)) v
             (if en_RPC (ent s1 v) = None then upd v (\<lambda>x. x\<lparr>en_RPC := Some (None, None)\<rparr>) s1 else s1))"

text \<open>The input or output of an rpc or action.\<close>

definition add_inout :: "toentry \<Rightarrow> bool \<Rightarrow> nat \<Rightarrow> nat \<Rightarrow> estate \<Rightarrow> estate run" where
  "add_inout te out e a s =
     bind_run (te a s) (\<lambda>(r, s1).
       case r of
         None \<Rightarrow> Panicked
       | Some v \<Rightarrow>
           (let io = (case en_RPC (ent s1 e) of None \<Rightarrow> (None, None) | Some p \<Rightarrow> p)
            in Done (upd e (\<lambda>x. x\<lparr>en_RPC := Some (if out then (fst io, Some v) else (Some v, snd io))\<rparr>)
                 (upd v (\<lambda>x. x\<lparr>en_Parent := Some e, en_Name := (if out then ''output'' else ''input''),
                    en_Kind := (if out then OutputEntry else InputEntry)\<rparr>) s1))))"

definition add_uses :: "nat \<Rightarrow> tenv \<Rightarrow> toentry \<Rightarrow> nat \<Rightarrow> nat \<Rightarrow> estate \<Rightarrow> estate run" where
  "add_uses k env te e a s =
     bind_run (te a s) (\<lambda>(r, s1).
       case r of
         None \<Rightarrow> Done s1
       | Some g \<Rightarrow> bind_run (entry_merge k None None e g s1) (\<lambda>s2.
           if StoreUses (tv_opts env) then
             (let (sd, s3) = shallowDup g s2 in Done (upd e (\<lambda>x. x\<lparr>en_Uses := en_Uses x @ [(a, sd)]\<rparr>) s3))
           else Done s2))"

definition deviate_type :: "nat \<Rightarrow> tenv \<Rightarrow> nat \<Rightarrow> nat \<Rightarrow> estate \<Rightarrow> estate run" where
  "deviate_type k env n e s =
     (if nd_type (es_heap s ! n) \<noteq> ''Deviate'' then Done (errorf e ETypeOutsideDeviate s)
      else (case ptr (es_heap s) n ''Type'' of
              None \<Rightarrow> Done s
            | Some t \<Rightarrow> bind_run (resolve_type k env (Some t) s) (\<lambda>(errs, s1).
                Done (if errs \<noteq> [] then errorf e (EDeviationType errs) s1
                      else upd e (\<lambda>x. x\<lparr>en_Type := w_typeOf (es_w s1) t\<rparr>) s1))))"

definition node_source_arg :: "heap \<Rightarrow> nat \<Rightarrow> string option" where
  "node_source_arg h d = map_option Argument (nd_source (h ! d))"

definition add_deviation :: "nat \<Rightarrow> tenv \<Rightarrow> toentry \<Rightarrow> nat \<Rightarrow> nat \<Rightarrow> estate \<Rightarrow> estate run" where
  "add_deviation k env te e d s =
     bind_run (te d s) (\<lambda>(r, s1).
       case (r, node_source_arg (es_heap s1) d) of
         (Some v, Some path) \<Rightarrow>
           bind_run (importErrors k e v s1) (\<lambda>s2.
             run_list (\<lambda>sd s. case ptr (es_heap s) sd ''Type'' of
                 None \<Rightarrow> Done s
               | Some t \<Rightarrow> bind_run (resolve_type k env (Some t) s) (\<lambda>(_, s'). Done s'))
               (field (es_heap s2) d ''Deviate'')
               (upd e (\<lambda>x. x\<lparr>en_Deviations := en_Deviations x @ [(path, v)]\<rparr>) s2))
       | _ \<Rightarrow> Panicked)"

definition add_deviate :: "toentry \<Rightarrow> nat \<Rightarrow> nat \<Rightarrow> nat \<Rightarrow> estate \<Rightarrow> estate run" where
  "add_deviate te n e d s =
     bind_run (te d s) (\<lambda>(r, s1).
       case (r, node_source_arg (es_heap s1) d) of
         (Some de, Some arg) \<Rightarrow>
           (case map_of toDeviation arg of
              None \<Rightarrow>
                Done (errorf e (EUnknownDeviation (Source (es_heap s1) (Some n)) (node_Kind (es_heap s1) n)
                  (node_NName (es_heap s1) n)) s1)
            | Some dt \<Rightarrow>
                Done (upd e (\<lambda>x. x\<lparr>en_Deviate :=
                  AList.update dt ((case map_of (en_Deviate x) dt of None \<Rightarrow> [] | Some l \<Rightarrow> l) @ [de]) (en_Deviate x)\<rparr>) s1))
       | _ \<Rightarrow> Panicked)"

text \<open>max-elements and min-elements of a deviate statement.\<close>

definition deviate_elements :: "bool \<Rightarrow> nat \<Rightarrow> nat option \<Rightarrow> estate \<Rightarrow> estate" where
  "deviate_elements mx e v s =
     (let s1 = (case en_ListAttr (ent s e) of
            Some _ \<Rightarrow> s
          | None \<Rightarrow> upd e (\<lambda>x. x\<lparr>en_ListAttr := Some (length (es_attrs s))\<rparr>)
              (s\<lparr>es_attrs := es_attrs s @ [NewDefaultListAttr]\<rparr>));
          a = the (en_ListAttr (ent s1 e)); h = es_heap s1
      in case v of
           None \<Rightarrow> s1
         | Some _ \<Rightarrow>
             if mx then
               (let (val, err) = semCheckMaxElements h v
                in addError e err ((upd e (\<lambda>x. x\<lparr>en_hasMax := True\<rparr>) s1)\<lparr>es_attrs :=
                     (es_attrs s1)[a := (es_attrs s1 ! a)\<lparr>la_MaxElements := val\<rparr>]\<rparr>))
             else
               (let (val, err) = semCheckMinElements h v
                in addError e err ((upd e (\<lambda>x. x\<lparr>en_hasMin := True\<rparr>) s1)\<lparr>es_attrs :=
                     (es_attrs s1)[a := (es_attrs s1 ! a)\<lparr>la_MinElements := val\<rparr>]\<rparr>)))"

definition child_tags :: "string list" where
  "child_tags = [''action'', ''anydata'', ''anyxml'', ''case'', ''choice'', ''container'', ''leaf'', ''leaf-list'',
     ''list'', ''notification'']"

definition extra_tags :: "string list" where
  "extra_tags = [''belongs-to'', ''contact'', ''extension'', ''feature'', ''if-feature'', ''must'', ''namespace'',
     ''ordered-by'', ''organization'', ''presence'', ''reference'', ''revision'', ''status'', ''unique'', ''when'',
     ''yang-version'']"

text \<open>
  The switch over the tag of one field of \<open>n\<close>, with whether it sets \<open>found\<close>. A pointer field has
  at most one node; \<open>isv\<close> is the type assertion to \<open>*Value\<close>.
\<close>

definition field_step :: "nat \<Rightarrow> tenv \<Rightarrow> toentry \<Rightarrow> nat \<Rightarrow> nat \<Rightarrow> sfield \<Rightarrow> estate \<Rightarrow> (bool \<times> estate) run" where
  "field_step k env te n e f s =
     (let (fname, ftype, yang) = f; name = tag_name f; h = es_heap s;
          vs = field h n fname; v = ptr h n fname; isv = (ftype = GoPtr ''Value'');
          found = (\<lambda>r. bind_run r (\<lambda>s'. Done (True, s'))); skip = (\<lambda>r. bind_run r (\<lambda>s'. Done (False, s')));
          src = Source h (Some n); kind = node_Kind h n; nname = node_NName h n
      in if yang = [] then Done (False, s)
         else if name = [] then Done (True, errorf e (ENilStatement src) s)
         else if name = ''config'' then
           (let (c, err) = tristateValue h n (if isv then v else None)
            in Done (True, addError e err (upd e (\<lambda>x. x\<lparr>en_Config := c\<rparr>) s)))
         else if name = ''description'' then
           Done (True, if v = None then s else upd e (\<lambda>x. x\<lparr>en_Description := asString h v\<rparr>) s)
         else if name = ''prefix'' then Done (True, if v = None then s else upd e (\<lambda>x. x\<lparr>en_Prefix := v\<rparr>) s)
         else if name \<in> set child_tags then found (run_list (add_child te e) vs s)
         else if name = ''augment'' then found (run_list (add_augment te e) vs s)
         else if name = ''grouping'' then found (run_list (check_grouping k te e) vs s)
         else if name = ''import'' then Done (True, s)
         else if name = ''include'' then found (run_list (add_include k env te e nname) vs s)
         else if name = ''key'' then Done (True, if v = None then s else upd e (\<lambda>x. x\<lparr>en_Key := asString h v\<rparr>) s)
         else if name = ''rpc'' then found (run_list (add_rpc te e) vs s)
         else if name = ''input'' then found (run_list (add_inout te False e) (take 1 vs) s)
         else if name = ''output'' then found (run_list (add_inout te True e) (take 1 vs) s)
         else if name = ''identity'' then
           Done (True, if vs = [] then s else upd e (\<lambda>x. x\<lparr>en_Identities := vs\<rparr>) s)
         else if name = ''uses'' then found (run_list (add_uses k env te e) vs s)
         else if name = ''type'' then skip (deviate_type k env n e s)
         else if name = ''default'' then
           Done (True,
             if en_Kind (ent s e) = DeviateEntry then
               (if \<not> isv then errorf e (EDefaultType src kind nname) s
                else if v = None then s else upd e (\<lambda>x. x\<lparr>en_Default := [asString h v]\<rparr>) s)
             else s)
         else if name = ''typedef'' then Done (False, s)
         else if name = ''deviation'' then found (run_list (add_deviation k env te e) vs s)
         else if name = ''deviate'' then found (run_list (add_deviate te n e) vs s)
         else if name = ''mandatory'' then
           (let s1 = (if isv then s else errorf e (EMandatoryType src) s);
                (m, err) = tristateValue h n (if isv then v else None)
            in Done (True, addError e err (upd e (\<lambda>x. x\<lparr>en_Mandatory := m\<rparr>) s1)))
         else if name = ''max-elements'' \<or> name = ''min-elements'' then
           (if en_Kind (ent s e) \<noteq> DeviateEntry then Done (False, s)
            else if \<not> isv then Done (False, errorf e (EElementsType src kind nname) s)
            else Done (True, deviate_elements (name = ''max-elements'') e v s))
         else if name = ''units'' then
           (let s1 = (if isv then s else errorf e (EUnitsType src kind nname) s)
            in Done (True, if isv \<and> v \<noteq> None then upd e (\<lambda>x. x\<lparr>en_Units := asString h v\<rparr>) s1 else s1))
         else if name \<in> set extra_tags then skip (if vs = [] then Done s else addToExtrasSlice name vs e s)
         else if name \<in> {''Ext'', ''Name'', ''Parent'', ''Statement''} then Done (False, s)
         else Done (False, errorf e (EUnexpected src name) s))"

fun field_loop :: "nat \<Rightarrow> tenv \<Rightarrow> toentry \<Rightarrow> nat \<Rightarrow> nat \<Rightarrow> sfield list \<Rightarrow> bool \<Rightarrow> estate \<Rightarrow> (bool \<times> estate) run" where
  "field_loop k env te n e [] found s = Done (found, s)"
| "field_loop k env te n e (f # fs) found s =
     bind_run (field_step k env te n e f s) (\<lambda>(b, s1). field_loop k env te n e fs (found \<or> b) s1)"

definition directory_entry :: "nat \<Rightarrow> tenv \<Rightarrow> toentry \<Rightarrow> nat \<Rightarrow> estate \<Rightarrow> (nat option \<times> estate) run" where
  "directory_entry k env te n s =
     (let (e, s1) = start_directory n s
      in bind_run (field_loop k env te n e (fields_back (es_heap s1) n) False s1) (\<lambda>(found, s2).
        if \<not> found then
          (let (er, s3) = newError (Some n) (ENotConvertible (Source (es_heap s2) (Some n)) (nd_type (es_heap s2 ! n))) s2
           in Done (Some er, s3))
        else Done (Some e,
          if en_Prefix (ent s2 e) = None
          then upd e (\<lambda>x. x\<lparr>en_Prefix := getRootPrefix (es_heap s2) (en_Node x)\<rparr>) s2 else s2)))"

subsection \<open>ToEntry\<close>

definition convert_node :: "nat \<Rightarrow> tenv \<Rightarrow> toentry \<Rightarrow> nat \<Rightarrow> estate \<Rightarrow> (nat option \<times> estate) run" where
  "convert_node k env te n s =
     (let t = nd_type (es_heap s ! n)
      in if t = ''Leaf'' then leaf_entry k env n s
         else if t = ''LeafList'' then leaf_list_entry te n s
         else if t = ''Uses'' then uses_entry k env te n s
         else directory_entry k env te n s)"

text \<open>The two deferred functions: the extensions of the node, then the cache.\<close>

definition finish_entry :: "nat \<Rightarrow> nat option \<Rightarrow> estate \<Rightarrow> estate" where
  "finish_entry n r s =
     (let s1 = (case r of
            None \<Rightarrow> s
          | Some e \<Rightarrow> upd e (\<lambda>x. x\<lparr>en_Exts := en_Exts x @ nd_exts (es_heap s ! n)\<rparr>) s)
      in s1\<lparr>es_cache := (es_cache s1)(n := r)\<rparr>)"

definition ToEntry_body :: "nat \<Rightarrow> tenv \<Rightarrow> toentry \<Rightarrow> nat \<Rightarrow> estate \<Rightarrow> (nat option \<times> estate) run" where
  "ToEntry_body k env te n s =
     (if RootNode (es_heap s) n = None then Panicked
      else case es_cache s n of
             Some e \<Rightarrow> Done (Some e, s)
           | None \<Rightarrow> bind_run (convert_node k env te n s) (\<lambda>(r, s1). Done (r, finish_entry n r s1)))"

fun ToEntry :: "nat \<Rightarrow> tenv \<Rightarrow> nat \<Rightarrow> estate \<Rightarrow> (nat option \<times> estate) run" where
  "ToEntry 0 env n s = NoFuel"
| "ToEntry (Suc k) env n s = ToEntry_body k env (ToEntry k env) n s"

text \<open>A nil node.\<close>

definition ToEntry_nil :: "estate \<Rightarrow> nat \<times> estate" where
  "ToEntry_nil s = newError None ENilNode s"

subsection \<open>Find\<close>

text \<open>The module that the prefix of an absolute path names; \<open>rt\<close> is the root of the entry.\<close>

definition find_module :: "nat \<Rightarrow> tenv \<Rightarrow> nat option \<Rightarrow> string \<Rightarrow> nat \<Rightarrow> estate \<Rightarrow> (nat option \<times> estate) run" where
  "find_module k env ctx prefix rt s =
     (case ctx of
        None \<Rightarrow> Panicked
      | Some c \<Rightarrow>
          (case FindModuleByPrefix (tv_fs env) (Some c) prefix (es_ms s) of
             (ms1, Inl _) \<Rightarrow> Panicked
           | (ms1, Inr md) \<Rightarrow>
               (let s1 = s\<lparr>es_w := (es_w s)\<lparr>w_ms := ms1\<rparr>\<rparr>;
                    unknown = bind_run (entry_Path (Suc (Suc (length (es_entries s1)))) s1 (Some rt)) (\<lambda>p.
                      Done (None, errorf rt (EPrefixModule prefix p) s1))
                in case md of
                     None \<Rightarrow>
                       (case Option.bind (en_Node (ent s1 rt)) (RootNode (es_heap s1)) of
                          None \<Rightarrow> Panicked
                        | Some _ \<Rightarrow> if IgnoreModuleResolveErrors (tv_opts env) then Done (None, s1) else unknown)
                   | Some x \<Rightarrow>
                       (case module_of (Some x) ms1 of
                          Inl _ \<Rightarrow> Panicked
                        | Inr None \<Rightarrow> unknown
                        | Inr (Some m) \<Rightarrow>
                            (case en_Node (ent s1 rt) of
                               None \<Rightarrow> Panicked
                             | Some rn \<Rightarrow>
                                 if nd_type (es_heap s1 ! rn) \<noteq> ''Module'' then Panicked
                                 else if m = rn then Done (Some rt, s1) else ToEntry k env m s1)))))"

text \<open>The loop over the parts of the path.\<close>

fun find_entry_parts :: "estate \<Rightarrow> nat option \<Rightarrow> string list \<Rightarrow> nat option" where
  "find_entry_parts s e [] = e"
| "find_entry_parts s e (part # parts) =
     (case e of
        None \<Rightarrow> None
      | Some a \<Rightarrow>
          if part = ''.'' then find_entry_parts s e parts
          else if part = ''..'' then find_entry_parts s (en_Parent (ent s a)) parts
          else (let p = snd (getPrefix part)
            in case en_RPC (ent s a) of
                 Some (i, out) \<Rightarrow>
                   find_entry_parts s (if p = ''input'' then i else if p = ''output'' then out else e) parts
               | None \<Rightarrow>
                   if p = ''.'' then find_entry_parts s e parts
                   else if p = [] \<or> p = ''..'' then None
                   else find_entry_parts s (map_of (dir s a) p) parts))"

definition entry_Find :: "nat \<Rightarrow> tenv \<Rightarrow> nat option \<Rightarrow> string \<Rightarrow> estate \<Rightarrow> (nat option \<times> estate) run" where
  "entry_Find k env e name s =
     (case e of
        None \<Rightarrow> Done (None, s)
      | Some a \<Rightarrow>
          if name = [] then Done (None, s)
          else (let parts = go_split name ''/''
            in if hd parts \<noteq> [] then Done (find_entry_parts s e parts, s)
               else bind_run (entry_root (Suc (length (es_entries s))) s a) (\<lambda>rt.
                 let prefix = fst (getPrefix (parts ! 1))
                 in if prefix = [] then Done (find_entry_parts s (Some rt) (tl parts), s)
                    else bind_run (find_module k env (en_Node (ent s a)) prefix rt s) (\<lambda>(r, s1).
                      Done (find_entry_parts s1 r (tl parts), s1)))))"

subsection \<open>Augment\<close>

text \<open>The loop: \<open>un\<close> are the augments not applied so far; the result counts those applied too.\<close>

fun augment_loop :: "nat \<Rightarrow> tenv \<Rightarrow> bool \<Rightarrow> nat \<Rightarrow> nat list \<Rightarrow> nat \<Rightarrow> nat list \<Rightarrow> estate
    \<Rightarrow> (nat \<times> nat list \<times> estate) run" where
  "augment_loop k env addErrors e [] p un s = Done (p, un, s)"
| "augment_loop k env addErrors e (a # as) p un s =
     bind_run (entry_Find k env (Some a) (en_Name (ent s a)) s) (\<lambda>(target, s1).
       case target of
         None \<Rightarrow>
           (case Option.bind (en_Node (ent s1 e)) (RootNode (es_heap s1)) of
              None \<Rightarrow> Panicked
            | Some _ \<Rightarrow>
                augment_loop k env addErrors e as p (un @ [a])
                  (if \<not> IgnoreModuleResolveErrors (tv_opts env) \<and> addErrors
                   then errorf e (EAugmentNotFound (entry_Source s1 a) (en_Name (ent s1 a))) s1 else s1))
       | Some t \<Rightarrow>
           bind_run (entry_Namespace (Suc (length (es_entries s1))) s1 a) (\<lambda>ns.
             bind_run (entry_merge k None ns t a s1) (\<lambda>s2.
               let (sd, s3) = shallowDup a s2
               in augment_loop k env addErrors e as (Suc p) un
                    (upd t (\<lambda>x. x\<lparr>en_Augmented := en_Augmented x @ [sd]\<rparr>) s3))))"

definition entry_Augment :: "nat \<Rightarrow> tenv \<Rightarrow> bool \<Rightarrow> nat \<Rightarrow> estate \<Rightarrow> ((nat \<times> nat) \<times> estate) run" where
  "entry_Augment k env addErrors e s =
     bind_run (augment_loop k env addErrors e (en_Augments (ent s e)) 0 [] s) (\<lambda>(p, un, s1).
       Done ((p, length un), upd e (\<lambda>x. x\<lparr>en_Augments := un\<rparr>) s1))"

end
