(* ===== verification/Deviate.thy ===== *)
theory Deviate
  imports Convert
begin

text \<open>
  \<open>ApplyDeviate\<close> of \<open>pkg/yang/entry.go\<close>: the deviations of an entry applied to the schema. The
  errors are those of the local closure \<open>appendErr\<close>; \<open>continue\<close> after one of them leaves the rest
  of a deviate statement out.
\<close>

definition set_attr :: "nat \<Rightarrow> (ListAttr \<Rightarrow> ListAttr) \<Rightarrow> estate \<Rightarrow> estate" where
  "set_attr e f s =
     (case en_ListAttr (ent s e) of
        None \<Rightarrow> s
      | Some a \<Rightarrow> s\<lparr>es_attrs := (es_attrs s)[a := f (es_attrs s ! a)]\<rparr>)"

definition attr_of :: "estate \<Rightarrow> nat \<Rightarrow> ListAttr" where
  "attr_of s e = es_attrs s ! the (en_ListAttr (ent s e))"

definition is_list_like :: "entry \<Rightarrow> bool" where
  "is_list_like x \<longleftrightarrow> IsList x \<or> IsLeafList x"

type_synonym deviated = "entry_error list \<times> estate"

text \<open>The default of a deviate statement \<open>d\<close> of the kind add or replace.\<close>

definition deviate_default :: "string \<Rightarrow> deviationType \<Rightarrow> nat \<Rightarrow> nat \<Rightarrow> estate \<Rightarrow> deviated" where
  "deviate_default src dt d n s =
     (let ds = en_Default (ent s d); old = en_Default (ent s n)
      in if ds = [] then ([], s)
         else if dt = DeviationReplace then ([], upd n (\<lambda>x. x\<lparr>en_Default := ds\<rparr>) s)
         else if IsLeafList (ent s n) then ([], upd n (\<lambda>x. x\<lparr>en_Default := old @ ds\<rparr>) s)
         else if 1 < length ds then ([EManyDefaults src], s)
         else if old \<noteq> [] then ([EHasDefault src], s)
         else ([], upd n (\<lambda>x. x\<lparr>en_Default := [hd ds]\<rparr>) s))"

text \<open>The fields after the bounds on the elements.\<close>

definition deviate_rest :: "nat \<Rightarrow> nat \<Rightarrow> estate \<Rightarrow> estate" where
  "deviate_rest d n s =
     (let s1 = (if en_Units (ent s d) \<noteq> [] then upd n (\<lambda>x. x\<lparr>en_Units := en_Units (ent s d)\<rparr>) s else s)
      in if en_Type (ent s1 d) \<noteq> None then upd n (\<lambda>x. x\<lparr>en_Type := en_Type (ent s1 d)\<rparr>) s1 else s1)"

definition deviate_max :: "nat \<Rightarrow> nat \<Rightarrow> estate \<Rightarrow> deviated" where
  "deviate_max d n s =
     (if en_hasMax (ent s d) then
        (if \<not> is_list_like (ent s n) then ([ENotAList ''max-elements'' (en_Kind (ent s n))], s)
         else ([], deviate_rest d n (set_attr n (\<lambda>a. a\<lparr>la_MaxElements := la_MaxElements (attr_of s d)\<rparr>) s)))
      else ([], deviate_rest d n s))"

definition deviate_min :: "nat \<Rightarrow> nat \<Rightarrow> estate \<Rightarrow> deviated" where
  "deviate_min d n s =
     (if en_hasMin (ent s d) then
        (if \<not> is_list_like (ent s n) then ([ENotAList ''min-elements'' (en_Kind (ent s n))], s)
         else deviate_max d n (set_attr n (\<lambda>a. a\<lparr>la_MinElements := la_MinElements (attr_of s d)\<rparr>) s))
      else deviate_max d n s)"

definition deviate_add :: "string \<Rightarrow> deviationType \<Rightarrow> nat \<Rightarrow> nat \<Rightarrow> estate \<Rightarrow> deviated" where
  "deviate_add src dt d n s =
     (let s1 = (if en_Config (ent s d) \<noteq> TSUnset then upd n (\<lambda>x. x\<lparr>en_Config := en_Config (ent s d)\<rparr>) s else s);
          (errs, s2) = deviate_default src dt d n s1;
          s3 = (if en_Mandatory (ent s2 d) \<noteq> TSUnset
                then upd n (\<lambda>x. x\<lparr>en_Mandatory := en_Mandatory (ent s2 d)\<rparr>) s2 else s2);
          (errs', s4) = deviate_min d n s3
      in (errs @ errs', s4))"

definition deviate_not_supported :: "string \<Rightarrow> string \<Rightarrow> nat \<Rightarrow> estate \<Rightarrow> deviated" where
  "deviate_not_supported src name n s =
     (case en_Parent (ent s n) of
        None \<Rightarrow> ([ENoParent src name], s)
      | Some dp \<Rightarrow> ([], entry_delete dp (en_Name (ent s n)) s))"

definition delete_default :: "string \<Rightarrow> nat \<Rightarrow> nat \<Rightarrow> estate \<Rightarrow> deviated" where
  "delete_default src d n s =
     (let ds = en_Default (ent s d); old = en_Default (ent s n)
      in if ds = [] then ([], s)
         else if IsLeafList (ent s n) then ([EListDefault src], s)
         else if old = [] then ([ENoDefault src], s)
         else if hd ds \<noteq> hd old then ([EOtherDefault src], s)
         else ([], upd n (\<lambda>x. x\<lparr>en_Default := []\<rparr>) s))"

definition delete_max :: "string \<Rightarrow> nat \<Rightarrow> nat \<Rightarrow> estate \<Rightarrow> deviated" where
  "delete_max path d n s =
     (if \<not> en_hasMax (ent s d) then ([], s)
      else if \<not> is_list_like (ent s n) then ([ENotAList ''max-elements'' (en_Kind (ent s n))], s)
      else (if la_MaxElements (attr_of s n) \<noteq> la_MaxElements (attr_of s d)
            then [EMaxDiffers (la_MaxElements (attr_of s d)) (la_MaxElements (attr_of s n)) path] else [],
            set_attr n (\<lambda>a. a\<lparr>la_MaxElements := - 1\<rparr>) s))"

definition delete_min :: "string \<Rightarrow> nat \<Rightarrow> nat \<Rightarrow> estate \<Rightarrow> deviated" where
  "delete_min path d n s =
     (if \<not> en_hasMin (ent s d) then delete_max path d n s
      else if \<not> is_list_like (ent s n) then ([ENotAList ''min-elements'' (en_Kind (ent s n))], s)
      else (let (errs, s1) = delete_max path d n (set_attr n (\<lambda>a. a\<lparr>la_MinElements := 0\<rparr>) s)
            in ((if la_MinElements (attr_of s n) \<noteq> la_MinElements (attr_of s d)
                 then [EMinDiffers (la_MinElements (attr_of s d)) (la_MinElements (attr_of s n)) path] else []) @ errs, s1)))"

definition deviate_delete :: "string \<Rightarrow> string \<Rightarrow> nat \<Rightarrow> nat \<Rightarrow> estate \<Rightarrow> deviated" where
  "deviate_delete src path d n s =
     (let s1 = (if en_Config (ent s d) \<noteq> TSUnset then upd n (\<lambda>x. x\<lparr>en_Config := TSUnset\<rparr>) s else s);
          (errs, s2) = delete_default src d n s1;
          s3 = (if en_Mandatory (ent s2 d) \<noteq> TSUnset then upd n (\<lambda>x. x\<lparr>en_Mandatory := TSUnset\<rparr>) s2 else s2);
          (errs', s4) = delete_min path d n s3
      in (errs @ errs', s4))"

text \<open>One deviate statement \<open>d\<close> of the deviation of the entry \<open>e\<close>, on the node \<open>n\<close>.\<close>

definition deviate_one :: "nat \<Rightarrow> string \<Rightarrow> deviationType \<Rightarrow> nat \<Rightarrow> nat \<Rightarrow> estate \<Rightarrow> deviated" where
  "deviate_one e path dt d n s =
     (let src = entry_Source s e
      in case dt of
           DeviationAdd \<Rightarrow> deviate_add src dt d n s
         | DeviationReplace \<Rightarrow> deviate_add src dt d n s
         | DeviationNotSupported \<Rightarrow> deviate_not_supported src (en_Name (ent s e)) n s
         | DeviationDelete \<Rightarrow> deviate_delete src path d n s
         | DeviationUnset \<Rightarrow> ([EDeviationInvalid dt], s))"

fun deviate_specs :: "nat \<Rightarrow> string \<Rightarrow> nat \<Rightarrow> (deviationType \<times> nat) list \<Rightarrow> estate \<Rightarrow> deviated" where
  "deviate_specs e path n [] s = ([], s)"
| "deviate_specs e path n ((dt, d) # ds) s =
     (let (errs, s1) = deviate_one e path dt d n s; (errs', s2) = deviate_specs e path n ds s1
      in (errs @ errs', s2))"

text \<open>The deviate statements of a deviation, map entry by map entry.\<close>

definition specs_of :: "estate \<Rightarrow> nat \<Rightarrow> (deviationType \<times> nat) list" where
  "specs_of s d = concat (List.map (\<lambda>(dt, ds). List.map (Pair dt) ds) (en_Deviate (ent s d)))"

fun deviate_loop :: "nat \<Rightarrow> tenv \<Rightarrow> nat \<Rightarrow> (string \<times> nat) list \<Rightarrow> estate \<Rightarrow> (entry_error list \<times> estate) run" where
  "deviate_loop k env e [] s = Done ([], s)"
| "deviate_loop k env e ((path, d) # ds) s =
     bind_run (entry_Find k env (Some e) path s) (\<lambda>(n, s1).
       let (errs, s2) = (case n of
              None \<Rightarrow> ([ENoDeviationTarget path], s1)
            | Some a \<Rightarrow> deviate_specs e path a (specs_of s1 d) s1)
       in bind_run (deviate_loop k env e ds s2) (\<lambda>(errs', s3). Done (errs @ errs', s3)))"

definition ApplyDeviate :: "nat \<Rightarrow> tenv \<Rightarrow> nat \<Rightarrow> estate \<Rightarrow> (entry_error list \<times> estate) run" where
  "ApplyDeviate k env e s = deviate_loop k env e (en_Deviations (ent s e)) s"

end
