(* ===== verification/Process.thy ===== *)
theory Process
  imports Deviate
begin

text \<open>
  \<open>process\<close>, \<open>Process\<close> and \<open>GetModule\<close> of \<open>pkg/yang/modules.go\<close>: everything after the sources have
  been read. The orders in which Go's maps deliver identities and typedefs are parameters in the
  record \<open>orders\<close>; those of the modules are the orders of the association lists. \<open>msg_of\<close> is the
  method \<open>Error()\<close> of the errors.
\<close>

datatype process_error =
    PInclude string | PIdent ident_error | PType type_error | PEntry entry_error | PLoad string | PNotFound string

record orders =
  or_link :: "ident_dict \<Rightarrow> ident_dict"
  or_sweep :: "ident_dict \<Rightarrow> ident_dict"
  or_typedefs :: "modules \<Rightarrow> nat list"

definition set_ms :: "modules \<Rightarrow> estate \<Rightarrow> estate" where
  "set_ms ms s = s\<lparr>es_w := (es_w s)\<lparr>w_ms := ms\<rparr>\<rparr>"

subsection \<open>process\<close>

fun include_all :: "nat \<Rightarrow> tenv \<Rightarrow> nat list \<Rightarrow> modules \<Rightarrow> (process_error list \<times> modules) run" where
  "include_all k env [] ms = Done ([], ms)"
| "include_all k env (m # mods) ms =
     (case ms_include k (tv_fs env) (tv_opts env) m ms of
        None \<Rightarrow> NoFuel
      | Some (ms1, Some IncludePanic) \<Rightarrow> Panicked
      | Some (ms1, r) \<Rightarrow>
          bind_run (include_all k env mods ms1) (\<lambda>(errs, ms2).
            Done ((case r of Some (IncludeErr m) \<Rightarrow> [PInclude m] | _ \<Rightarrow> []) @ errs, ms2)))"

definition ms_process :: "nat \<Rightarrow> tenv \<Rightarrow> orders \<Rightarrow> estate \<Rightarrow> (process_error list \<times> estate) run" where
  "ms_process k env ord s =
     bind_run (include_all k env (List.map snd (ms_Modules (es_ms s))) (es_ms s)) (\<lambda>(errs1, ms1).
       case resolveIdentities k (tv_fs env) (List.map snd (ms_Modules ms1)) (or_link ord) (or_sweep ord)
              (w_dict (es_w s)) ms1 of
         None \<Rightarrow> NoFuel
       | Some (dict, ms2, Inl _) \<Rightarrow> Panicked
       | Some (dict, ms2, Inr errs2) \<Rightarrow>
           bind_run (resolveTypedefs k env (or_typedefs ord ms2) ((es_w s)\<lparr>w_ms := ms2, w_dict := dict\<rparr>))
             (\<lambda>(errs3, w). Done (errs1 @ List.map PIdent errs2 @ List.map PType errs3, s\<lparr>es_w := w\<rparr>)))"

subsection \<open>Process\<close>

definition module_entry :: "nat \<Rightarrow> tenv \<Rightarrow> nat \<Rightarrow> estate \<Rightarrow> (nat \<times> estate) run" where
  "module_entry k env m s =
     bind_run (ToEntry k env m s) (\<lambda>(r, s1). case r of None \<Rightarrow> Panicked | Some e \<Rightarrow> Done (e, s1))"

text \<open>\<open>ToEntry\<close> and \<open>GetErrors\<close> of every module of a map.\<close>

fun convert_all :: "nat \<Rightarrow> tenv \<Rightarrow> (process_error \<Rightarrow> string) \<Rightarrow> nat list \<Rightarrow> estate
    \<Rightarrow> (process_error list \<times> estate) run" where
  "convert_all k env msg_of [] s = Done ([], s)"
| "convert_all k env msg_of (m # mods) s =
     bind_run (module_entry k env m s) (\<lambda>(e, s1).
       bind_run (GetErrors k (\<lambda>x. msg_of (PEntry x)) s1 e) (\<lambda>errs.
         bind_run (convert_all k env msg_of mods s1) (\<lambda>(errs', s2). Done (List.map PEntry errs @ errs', s2))))"

text \<open>
  The inner loop of the augments: modules without augments left go, the last taking their place.
  \<open>i\<close> is the index of Go's loop; the result has what was processed and the modules that stay.
\<close>

function augment_round :: "nat \<Rightarrow> tenv \<Rightarrow> nat \<Rightarrow> nat list \<Rightarrow> nat \<Rightarrow> estate \<Rightarrow> (nat \<times> nat list \<times> estate) run" where
  "augment_round k env i mods p s =
     (if length mods \<le> i then Done (p, mods, s)
      else bind_run (module_entry k env (mods ! i) s) (\<lambda>(e, s1).
        bind_run (entry_Augment k env False e s1) (\<lambda>((pr, sk), s2).
          if sk = 0 then augment_round k env i (butlast (mods[i := last mods])) (p + pr) s2
          else augment_round k env (Suc i) mods (p + pr) s2)))"
  by pat_completeness auto

termination
  by (relation "measure (\<lambda>(k, env, i, mods, p, s). 2 * length mods - i)") auto

text \<open>The outer loop, until there are no modules or no progress.\<close>

fun augment_rounds :: "nat \<Rightarrow> nat \<Rightarrow> tenv \<Rightarrow> nat list \<Rightarrow> estate \<Rightarrow> (nat list \<times> estate) run" where
  "augment_rounds 0 k env mods s = NoFuel"
| "augment_rounds (Suc r) k env mods s =
     (if mods = [] then Done ([], s)
      else bind_run (augment_round k env 0 mods 0 s) (\<lambda>(p, mods1, s1).
        if p = 0 then Done (mods1, s1) else augment_rounds r k env mods1 s1))"

definition fix_module :: "nat \<Rightarrow> tenv \<Rightarrow> nat \<Rightarrow> estate \<Rightarrow> estate run" where
  "fix_module k env m s = bind_run (module_entry k env m s) (\<lambda>(e, s1). FixChoice k e s1)"

fun left_over :: "nat \<Rightarrow> tenv \<Rightarrow> (process_error \<Rightarrow> string) \<Rightarrow> nat list \<Rightarrow> estate \<Rightarrow> (process_error list \<times> estate) run" where
  "left_over k env msg_of [] s = Done ([], s)"
| "left_over k env msg_of (m # mods) s =
     bind_run (module_entry k env m s) (\<lambda>(e, s1).
       bind_run (entry_Augment k env True e s1) (\<lambda>(_, s2).
         bind_run (GetErrors k (\<lambda>x. msg_of (PEntry x)) s2 e) (\<lambda>errs.
           bind_run (left_over k env msg_of mods s2) (\<lambda>(errs', s3). Done (List.map PEntry errs @ errs', s3)))))"

text \<open>The deviations, once per name of a module.\<close>

fun deviate_all :: "nat \<Rightarrow> tenv \<Rightarrow> nat list \<Rightarrow> string set \<Rightarrow> estate \<Rightarrow> (process_error list \<times> estate) run" where
  "deviate_all k env [] done s = Done ([], s)"
| "deviate_all k env (m # mods) done s =
     bind_run (module_entry k env m s) (\<lambda>(e, s1).
       if en_Name (ent s1 e) \<in> done then deviate_all k env mods done s1
       else bind_run (ApplyDeviate k env e s1) (\<lambda>(errs, s2).
         bind_run (deviate_all k env mods (insert (en_Name (ent s2 e)) done) s2) (\<lambda>(errs', s3).
           Done (List.map PEntry errs @ errs', s3))))"

definition all_modules :: "estate \<Rightarrow> nat list" where
  "all_modules s = List.map snd (ms_Modules (es_ms s)) @ List.map snd (ms_SubModules (es_ms s))"

definition ms_Process :: "nat \<Rightarrow> tenv \<Rightarrow> orders \<Rightarrow> (process_error \<Rightarrow> string) \<Rightarrow> estate
    \<Rightarrow> (process_error list \<times> estate) run" where
  "ms_Process k env ord msg_of s0 =
     bind_run (ms_process k env ord (s0\<lparr>es_merged := {}, es_cache := (\<lambda>_. None)\<rparr>)) (\<lambda>(errs1, s1).
       if errs1 \<noteq> [] then Done (errorSort msg_of errs1, s1)
       else bind_run (convert_all k env msg_of (List.map snd (ms_Modules (es_ms s1))) s1) (\<lambda>(errs2, s2).
         bind_run (convert_all k env msg_of (List.map snd (ms_SubModules (es_ms s2))) s2) (\<lambda>(errs3, s3).
           if errs2 @ errs3 \<noteq> [] then Done (errorSort msg_of (errs2 @ errs3), s3)
           else bind_run (augment_rounds k k env (all_modules s3) s3) (\<lambda>(mods, s4).
             bind_run (run_list (fix_module k env) (List.map snd (ms_Modules (es_ms s4))) s4) (\<lambda>s5.
               bind_run (run_list (fix_module k env) (List.map snd (ms_SubModules (es_ms s5))) s5) (\<lambda>s6.
                 bind_run (left_over k env msg_of mods s6) (\<lambda>(errs4, s7).
                   bind_run (deviate_all k env (all_modules s7) {} s7) (\<lambda>(errs5, s8).
                     Done (errorSort msg_of (errs4 @ errs5), s8)))))))))"

subsection \<open>GetModule\<close>

definition ms_GetModule :: "nat \<Rightarrow> tenv \<Rightarrow> orders \<Rightarrow> (process_error \<Rightarrow> string) \<Rightarrow> string \<Rightarrow> estate
    \<Rightarrow> ((process_error list + nat option) \<times> estate) run" where
  "ms_GetModule k env ord msg_of name s =
     bind_run (if map_of (ms_Modules (es_ms s)) name \<noteq> None then Done (None, s)
       else (case ms_Read (tv_fs env) name (es_ms s) of
               (ms1, Some LoadPanic) \<Rightarrow> Panicked
             | (ms1, Some (LoadErr e)) \<Rightarrow> Done (Some (PLoad e), set_ms ms1 s)
             | (ms1, None) \<Rightarrow>
                 Done (if map_of (ms_Modules ms1) name = None then Some (PNotFound name) else None, set_ms ms1 s)))
       (\<lambda>(err, s1). case err of
          Some e \<Rightarrow> Done (Inl [e], s1)
        | None \<Rightarrow>
            bind_run (ms_Process k env ord msg_of s1) (\<lambda>(errs, s2).
              if errs \<noteq> [] then Done (Inl errs, s2)
              else (case map_of (ms_Modules (es_ms s2)) name of
                      None \<Rightarrow> Panicked
                    | Some m \<Rightarrow> bind_run (ToEntry k env m s2) (\<lambda>(e, s3). Done (Inr e, s3)))))"

definition new_estate :: estate where
  "new_estate = \<lparr>es_w = start_world NewModules, es_entries = [], es_attrs = [], es_extras = [], es_cache = (\<lambda>_. None),
     es_merged = {}, es_nextErr = 0\<rparr>"

fun read_all :: "tenv \<Rightarrow> string list \<Rightarrow> modules \<Rightarrow> (process_error list \<times> modules) run" where
  "read_all env [] ms = Done ([], ms)"
| "read_all env (src # srcs) ms =
     (case ms_Read (tv_fs env) src ms of
        (ms1, Some LoadPanic) \<Rightarrow> Panicked
      | (ms1, r) \<Rightarrow>
          bind_run (read_all env srcs ms1) (\<lambda>(errs, ms2).
            Done ((case r of Some (LoadErr e) \<Rightarrow> [PLoad e] | _ \<Rightarrow> []) @ errs, ms2)))"

text \<open>The function \<open>GetModule\<close>.\<close>

definition GetModule :: "nat \<Rightarrow> tenv \<Rightarrow> orders \<Rightarrow> (process_error \<Rightarrow> string) \<Rightarrow> string \<Rightarrow> string list
    \<Rightarrow> ((process_error list + nat option) \<times> estate) run" where
  "GetModule k env ord msg_of name sources =
     bind_run (read_all env sources NewModules) (\<lambda>(errs, ms).
       if errs \<noteq> [] then Done (Inl errs, set_ms ms new_estate)
       else ms_GetModule k env ord msg_of name (set_ms ms new_estate))"

end
