(* ===== verification/EntryTrees.thy ===== *)
theory EntryTrees
  imports Entries
begin

text \<open>
  What an entry denotes: a tree, in which the addresses and the \<open>Parent\<close> pointers are forgotten.
  \<open>tree_of k\<close> reads the tree of an entry off the store, to the depth \<open>k\<close>; it is undefined for an
  entry that is out of the store, whose subtree is deeper, or below itself, or lists a key twice.
  \<open>below\<close> are the addresses of that tree. The second part shows that \<open>dup\<close> is a copy of trees.
\<close>

subsection \<open>Trees\<close>

datatype etree = Tree entry "(string \<times> etree) list option"

definition bare :: "entry \<Rightarrow> entry" where
  "bare x = x\<lparr>en_Parent := None, en_Dir := None\<rparr>"

fun tree_of :: "nat \<Rightarrow> estate \<Rightarrow> nat \<Rightarrow> etree option"
  and trees_of :: "nat \<Rightarrow> estate \<Rightarrow> (string \<times> nat) list \<Rightarrow> (string \<times> etree) list option" where
  "tree_of 0 s e = None"
| "tree_of (Suc k) s e =
     (if length (es_entries s) \<le> e then None
      else case en_Dir (ent s e) of
             None \<Rightarrow> Some (Tree (bare (ent s e)) None)
           | Some d \<Rightarrow>
               if distinct (List.map fst d)
               then map_option (\<lambda>ts. Tree (bare (ent s e)) (Some ts)) (trees_of k s d) else None)"
| "trees_of k s [] = Some []"
| "trees_of k s ((key, v) # d) =
     (case (tree_of k s v, trees_of k s d) of (Some t, Some ts) \<Rightarrow> Some ((key, t) # ts) | _ \<Rightarrow> None)"

fun below :: "nat \<Rightarrow> estate \<Rightarrow> nat \<Rightarrow> nat set" where
  "below 0 s e = {}"
| "below (Suc k) s e = insert e (\<Union>v\<in>snd ` set (dir s e). below k s v)"

text \<open>States that agree on the entries of a tree, up to \<open>Parent\<close>, have the same tree there.\<close>

definition same_entry :: "entry \<Rightarrow> entry \<Rightarrow> bool" where
  "same_entry x y \<longleftrightarrow> bare x = bare y \<and> en_Dir x = en_Dir y"

definition agree :: "nat set \<Rightarrow> estate \<Rightarrow> estate \<Rightarrow> bool" where
  "agree A s s' \<longleftrightarrow> (\<forall>a\<in>A. a < length (es_entries s') \<and> same_entry (ent s' a) (ent s a))"

lemma same_entry_refl [simp]: "same_entry x x"
  by (simp add: same_entry_def)

lemma agree_subset: "agree A s s' \<Longrightarrow> B \<subseteq> A \<Longrightarrow> agree B s s'"
  by (auto simp: agree_def)

lemma trees_of_child:
  "trees_of k s d = Some ts \<Longrightarrow> v \<in> snd ` set d \<Longrightarrow> \<exists>u. tree_of k s v = Some u"
  by (induction d arbitrary: ts) (force split: option.splits)+

lemma trees_of_cong:
  assumes "\<And>v t. v \<in> snd ` set d \<Longrightarrow> tree_of k s v = Some t \<Longrightarrow> tree_of k s' v = Some t"
    and "trees_of k s d = Some ts"
  shows "trees_of k s' d = Some ts"
  using assms by (induction d arbitrary: ts) (auto split: option.splits)

lemma tree_frame:
  assumes "tree_of k s e = Some t" "agree (below k s e) s s'"
  shows "tree_of k s' e = Some t \<and> below k s' e = below k s e"
  using assms
proof (induction k arbitrary: e t)
  case 0
  then show ?case by simp
next
  case (Suc k)
  have e: "e < length (es_entries s')" "bare (ent s' e) = bare (ent s e)" "en_Dir (ent s' e) = en_Dir (ent s e)"
    using Suc.prems(2) by (auto simp: agree_def same_entry_def)
  have d: "dir s' e = dir s e" using e by (simp add: dir_def)
  have sub: "tree_of k s' v = Some u \<and> below k s' v = below k s v"
    if "v \<in> snd ` set (dir s e)" "tree_of k s v = Some u" for v u
  proof (rule Suc.IH [OF that(2)])
    show "agree (below k s v) s s'"
      using that(1) by (intro agree_subset [OF Suc.prems(2)]) auto
  qed
  show ?case
  proof (cases "en_Dir (ent s e)")
    case None
    then show ?thesis using Suc.prems(1) e by (auto simp: dir_def split: if_splits)
  next
    case (Some ds)
    then have ds: "dir s e = ds" by (simp add: dir_def)
    obtain ts where ts: "trees_of k s ds = Some ts" "distinct (List.map fst ds)" "e < length (es_entries s)"
        "t = Tree (bare (ent s e)) (Some ts)"
      using Suc.prems(1) Some by (auto split: if_splits)
    have "trees_of k s' ds = Some ts"
      using trees_of_cong [OF _ ts(1), of s'] sub unfolding ds by blast
    moreover have "below k s' v = below k s v" if "v \<in> snd ` set ds" for v
      using trees_of_child [OF ts(1) that] sub that ds by blast
    ultimately show ?thesis using ts e Some d ds by simp
  qed
qed

lemma tree_in_range: "tree_of k s e = Some t \<Longrightarrow> below k s e \<subseteq> {..<length (es_entries s)}"
proof (induction k arbitrary: e t)
  case (Suc k)
  then have e: "e < length (es_entries s)" by (auto split: if_splits)
  have "below k s v \<subseteq> {..<length (es_entries s)}" if "v \<in> snd ` set (dir s e)" for v
  proof -
    obtain ts where "trees_of k s (dir s e) = Some ts"
      using Suc.prems that e by (auto simp: dir_def split: option.splits if_splits)
    then show ?thesis using trees_of_child that Suc.IH by blast
  qed
  then show ?case using e by auto
qed simp

subsection \<open>Copies\<close>

text \<open>
  \<open>extends M\<close>: the state grew by new entries, the old ones outside \<open>M\<close> and all other stores are
  unchanged. \<open>copy_ok A m\<close>: the children of the entries in \<open>A\<close> point back to them and are above \<open>m\<close>.
\<close>

definition copy_ok :: "nat set \<Rightarrow> nat \<Rightarrow> estate \<Rightarrow> bool" where
  "copy_ok A m s \<longleftrightarrow>
     (\<forall>a\<in>A. \<forall>(key, c)\<in>set (dir s a). en_Parent (ent s c) = Some a \<and> m < c \<and> c < length (es_entries s))"

definition extends :: "nat set \<Rightarrow> estate \<Rightarrow> estate \<Rightarrow> bool" where
  "extends M s s' \<longleftrightarrow> s' = s\<lparr>es_entries := es_entries s'\<rparr> \<and> length (es_entries s) \<le> length (es_entries s')
     \<and> (\<forall>a<length (es_entries s). a \<notin> M \<longrightarrow> ent s' a = ent s a)"

definition fresh_copy :: "nat \<Rightarrow> estate \<Rightarrow> estate \<Rightarrow> nat \<Rightarrow> etree \<Rightarrow> bool" where
  "fresh_copy k s s' ne t \<longleftrightarrow>
     ne = length (es_entries s) \<and> ne < length (es_entries s') \<and> tree_of k s' ne = Some t
     \<and> below k s' ne \<subseteq> {length (es_entries s)..<length (es_entries s')} \<and> copy_ok (below k s' ne) ne s'"

text \<open>The loop of \<open>dup\<close> over the children: \<open>d'\<close> are the copies it adds to the directory \<open>d0\<close> of \<open>n\<close>.\<close>

definition child_copies :: "nat \<Rightarrow> nat \<Rightarrow> estate \<Rightarrow> estate \<Rightarrow> (string \<times> nat) list \<Rightarrow> (string \<times> nat) list \<Rightarrow> (string \<times> etree) list \<Rightarrow> bool" where
  "child_copies k n s s' d0 d' us \<longleftrightarrow>
     extends {n} s s' \<and> ent s' n = (ent s n)\<lparr>en_Dir := Some (d0 @ d')\<rparr> \<and> trees_of k s' d' = Some us
     \<and> (\<forall>c\<in>snd ` set d'. en_Parent (ent s' c) = Some n \<and> n < c \<and> c < length (es_entries s')
          \<and> below k s' c \<subseteq> {length (es_entries s)..<length (es_entries s')} \<and> copy_ok (below k s' c) n s')"

lemma child_copiesD:
  assumes "child_copies k n s s' d0 d' us" "c \<in> snd ` set d'"
  shows "en_Parent (ent s' c) = Some n \<and> n < c \<and> c < length (es_entries s')
    \<and> below k s' c \<subseteq> {length (es_entries s)..<length (es_entries s')} \<and> copy_ok (below k s' c) n s'"
  using assms unfolding child_copies_def by blast

lemma ent_upd: "a < length (es_entries s) \<Longrightarrow> ent (upd e f s) a = (if a = e then f (ent s e) else ent s a)"
  by (simp add: upd_def nth_list_update)

lemma length_upd [simp]: "length (es_entries (upd e f s)) = length (es_entries s)"
  by (simp add: upd_def)

lemma extends_trans: "extends M s s1 \<Longrightarrow> extends M s1 s2 \<Longrightarrow> extends M s s2"
  unfolding extends_def by (auto dest: order.strict_trans2) (metis estate.surjective estate.update_convs(2))

lemma extends_upd: "extends M s s' \<Longrightarrow> e \<in> M \<or> length (es_entries s) \<le> e \<Longrightarrow> extends M s (upd e f s')"
  by (cases s; cases s') (auto simp: extends_def upd_def, (metis nth_list_update_neq)+)

lemma extends_mono: "extends M s s' \<Longrightarrow> M \<subseteq> N \<Longrightarrow> extends N s s'"
  by (auto simp: extends_def)

lemma extends_new:
  assumes "extends {} s s1" "extends M s1 s'" "M \<subseteq> {length (es_entries s)..}"
  shows "extends {} s s'"
proof -
  have "s' = s\<lparr>es_entries := es_entries s'\<rparr>"
    using assms(1,2) unfolding extends_def by (metis estate.surjective estate.update_convs(2))
  moreover have "ent s' a = ent s a" if "a < length (es_entries s)" for a
  proof -
    have "a \<notin> M" "a < length (es_entries s1)" using that assms by (auto simp: extends_def)
    then show ?thesis using that assms(1,2) unfolding extends_def by simp
  qed
  ultimately show ?thesis using assms(1,2) unfolding extends_def by simp
qed

lemma extends_agree: "extends M s s' \<Longrightarrow> A \<subseteq> {..<length (es_entries s)} - M \<Longrightarrow> agree A s s'"
  by (fastforce simp: extends_def agree_def)

lemma copy_ok_frame:
  assumes "copy_ok A m s" "A \<subseteq> {..<length (es_entries s)}" "extends M s s'" "\<forall>a\<in>M. a \<le> m \<and> a \<notin> A"
  shows "copy_ok A m s'"
  unfolding copy_ok_def
proof clarify
  fix a key c
  assume a: "a \<in> A" "(key, c) \<in> set (dir s' a)"
  have "ent s' a = ent s a" using assms a by (auto simp: extends_def)
  then have "dir s' a = dir s a" by (simp add: dir_def)
  then have c: "en_Parent (ent s c) = Some a \<and> m < c \<and> c < length (es_entries s)"
    using assms(1) a by (auto simp: copy_ok_def)
  then have "ent s' c = ent s c" using assms(3,4) by (fastforce simp: extends_def)
  then show "en_Parent (ent s' c) = Some a \<and> m < c \<and> c < length (es_entries s')"
    using c assms(3) by (auto simp: extends_def)
qed

lemma update_new: "key \<notin> fst ` set d \<Longrightarrow> AList.update key v d = d @ [(key, v)]"
  by (induction d) auto

lemma dup_children_copies:
  assumes IH: "\<And>e s t. tree_of k s e = Some t \<Longrightarrow> \<exists>ne s'. dup k e s = Done (ne, s') \<and> extends {} s s' \<and> fresh_copy k s s' ne t"
    and "trees_of k s d = Some us" "distinct (List.map fst (d0 @ d))" "n < length (es_entries s)"
      "en_Dir (ent s n) = Some d0" "\<And>v. v \<in> snd ` set d \<Longrightarrow> below k s v \<subseteq> {..<n}"
  shows "\<exists>d' s'. dup_children k n d s = Done s' \<and> List.map fst d' = List.map fst d \<and> child_copies k n s s' d0 d' us"
  using assms(2-)
proof (induction d arbitrary: s d0 us)
  case Nil
  then show ?case
    by (intro exI [of _ "[]"] exI [of _ s]) (simp add: child_copies_def extends_def)
next
  case (Cons x d)
  obtain key v where x: "x = (key, v)" by force
  obtain u us' where u: "tree_of k s v = Some u" "trees_of k s d = Some us'" "us = (key, u) # us'"
    using Cons.prems(1) x by (auto split: option.splits)
  obtain de s2 where de: "dup k v s = Done (de, s2)" "extends {} s s2" "fresh_copy k s s2 de u"
    using IH [OF u(1)] by blast
  have de': "de = length (es_entries s)" "de < length (es_entries s2)" "n \<noteq> de" "n < length (es_entries s2)"
    using de Cons.prems(3) by (auto simp: fresh_copy_def extends_def)
  define s3 where "s3 = upd n (\<lambda>x. x\<lparr>en_Dir := map_option (\<lambda>dd. AList.update key de dd) (en_Dir x)\<rparr>)
    (upd de (\<lambda>x. x\<lparr>en_Parent := Some n\<rparr>) s2)"
  have key: "key \<notin> fst ` set d0" using Cons.prems(2) x by auto
  have upd: "AList.update key de d0 = d0 @ [(key, de)]" using key by (rule update_new)
  have s3: "ent s3 n = (ent s n)\<lparr>en_Dir := Some (d0 @ [(key, de)])\<rparr>" "length (es_entries s3) = length (es_entries s2)"
      "\<And>a. a < length (es_entries s2) \<Longrightarrow> a \<noteq> n \<Longrightarrow> a \<noteq> de \<Longrightarrow> ent s3 a = ent s2 a"
      "ent s3 de = (ent s2 de)\<lparr>en_Parent := Some n\<rparr>"
    using de' Cons.prems(3,4) de(2) upd by (auto simp: s3_def ent_upd extends_def)
  have ext3: "extends {n} s s3"
    using de(2) de' unfolding s3_def by (intro extends_upd) (auto elim: extends_mono)
  have below_de: "below k s2 de \<subseteq> {length (es_entries s)..<length (es_entries s2)}" and ok2: "copy_ok (below k s2 de) de s2"
      and u2: "tree_of k s2 de = Some u"
    using de(3) by (auto simp: fresh_copy_def)
  have same3: "same_entry (ent s3 a) (ent s2 a)" if "a \<in> below k s2 de" for a
  proof (cases "a = de")
    case True
    then show ?thesis using s3(4) by (simp add: same_entry_def bare_def)
  next
    case False
    have "a < length (es_entries s2)" "a \<noteq> n" using that below_de Cons.prems(3) by auto
    then show ?thesis using s3(3) False by simp
  qed
  have "agree (below k s2 de) s2 s3"
    unfolding agree_def s3(2)
  proof
    fix a
    assume a: "a \<in> below k s2 de"
    then have "a < length (es_entries s2)" using below_de by auto
    then show "a < length (es_entries s2) \<and> same_entry (ent s3 a) (ent s2 a)" using same3 [OF a] by simp
  qed
  then have de3: "tree_of k s3 de = Some u" "below k s3 de = below k s2 de"
    using tree_frame [OF u2] by simp_all
  have ok3: "copy_ok (below k s3 de) n s3"
    unfolding copy_ok_def de3
  proof clarify
    fix a x c
    assume a: "a \<in> below k s2 de" "(x, c) \<in> set (dir s3 a)"
    then have "(x, c) \<in> set (dir s2 a)" using same3 [OF a(1)] by (simp add: dir_def same_entry_def)
    then have "en_Parent (ent s2 c) = Some a" "de < c" "c < length (es_entries s2)"
      using ok2 a(1) by (auto simp: copy_ok_def)
    then show "en_Parent (ent s3 c) = Some a \<and> n < c \<and> c < length (es_entries s3)"
      using s3(2) s3(3) [of c] de' Cons.prems(3) by simp
  qed
  have agree_d: "agree (below k s v) s s3" if "v \<in> snd ` set d" for v
  proof (rule extends_agree [OF ext3])
    have "below k s v \<subseteq> {..<n}" using Cons.prems(5) [of v] that by simp
    then show "below k s v \<subseteq> {..<length (es_entries s)} - {n}" using Cons.prems(3) by auto
  qed
  have ds3: "trees_of k s3 d = Some us'"
    using trees_of_cong [OF _ u(2), of s3] tree_frame [OF _ agree_d] by blast
  have below3: "below k s3 w \<subseteq> {..<n}" if "w \<in> snd ` set d" for w
  proof -
    have "\<exists>t. tree_of k s w = Some t" by (rule trees_of_child [OF u(2) that])
    then have "below k s3 w = below k s w" using tree_frame [OF _ agree_d [OF that]] by blast
    then show ?thesis using Cons.prems(5) [of w] that by simp
  qed
  have "\<exists>d' s'. dup_children k n d s3 = Done s' \<and> List.map fst d' = List.map fst d
      \<and> child_copies k n s3 s' (d0 @ [(key, de)]) d' us'"
    using Cons.IH [OF ds3 _ _ _ below3, of "d0 @ [(key, de)]"] Cons.prems(2) s3(1,2) de' x by simp
  then obtain d' s' where d': "dup_children k n d s3 = Done s'" "List.map fst d' = List.map fst d"
      "child_copies k n s3 s' (d0 @ [(key, de)]) d' us'" by blast
  have ext: "extends {n} s3 s'" using d'(3) by (simp add: child_copies_def)
  have "agree (below k s3 de) s3 s'"
    using below_de de3 s3(2) Cons.prems(3) by (intro extends_agree [OF ext]) auto
  then have de4: "tree_of k s' de = Some u" "below k s' de = below k s3 de" using tree_frame [OF de3(1)] by simp_all
  have ok4: "copy_ok (below k s' de) n s'"
    unfolding de4 using below_de de3 s3(2) Cons.prems(3) by (intro copy_ok_frame [OF ok3 _ ext]) auto
  have "ent s' de = ent s3 de" using ext de' s3(2) by (auto simp: extends_def)
  then have "en_Parent (ent s' de) = Some n" using s3(4) by simp
  moreover have "{length (es_entries s3)..<length (es_entries s')} \<subseteq> {length (es_entries s)..<length (es_entries s')}"
      "below k s' de \<subseteq> {length (es_entries s)..<length (es_entries s')}"
    using below_de de4(2) de3(2) s3(2) de' ext by (auto simp: extends_def)
  moreover have "en_Parent (ent s' c) = Some n \<and> n < c \<and> c < length (es_entries s')
      \<and> below k s' c \<subseteq> {length (es_entries s3)..<length (es_entries s')} \<and> copy_ok (below k s' c) n s'"
    if "c \<in> snd ` set d'" for c
    using child_copiesD [OF d'(3) that] .
  moreover have "trees_of k s' ((key, de) # d') = Some us"
    using d'(3) de4(1) u(3) by (simp add: child_copies_def)
  moreover have "ent s' n = (ent s n)\<lparr>en_Dir := Some (d0 @ (key, de) # d')\<rparr>" "n < de" "de < length (es_entries s')"
    using d'(3) s3(1,2) de' Cons.prems(3) ext by (simp_all add: child_copies_def extends_def)
  ultimately have "child_copies k n s s' d0 ((key, de) # d') us"
    unfolding child_copies_def using ok4 extends_trans [OF ext3 ext] by (simp, blast)
  then show ?case using d' de(1) x by (intro exI [of _ "(key, de) # d'"] exI [of _ s']) (simp add: s3_def)
qed

lemma dup_copies:
  assumes "tree_of k s e = Some t"
  shows "\<exists>ne s'. dup k e s = Done (ne, s') \<and> extends {} s s' \<and> fresh_copy k s s' ne t"
  using assms
proof (induction k arbitrary: e s t)
  case (Suc k)
  define n where "n = length (es_entries s)"
  have e: "e < n" using Suc.prems by (auto simp: n_def split: if_splits)
  show ?case
  proof (cases "en_Dir (ent s e)")
    case None
    then have t: "t = Tree (bare (ent s e)) None" using Suc.prems by (auto split: if_splits)
    show ?thesis
      using None
      by (intro exI [of _ n] exI [of _ "s\<lparr>es_entries := es_entries s @ [ent s e]\<rparr>"])
        (simp add: t alloc_def n_def fresh_copy_def dir_def copy_ok_def extends_def nth_append)
  next
    case (Some ds)
    obtain ts where ts: "trees_of k s ds = Some ts" "distinct (List.map fst ds)"
        "t = Tree (bare (ent s e)) (Some ts)"
      using Suc.prems Some by (auto split: if_splits)
    define s1 where "s1 = upd n (\<lambda>x. x\<lparr>en_Dir := Some []\<rparr>) (snd (alloc (ent s e) s))"
    have s1: "extends {} s s1" "ent s1 n = (ent s e)\<lparr>en_Dir := Some []\<rparr>" "length (es_entries s1) = Suc n"
      by (auto simp: s1_def alloc_def n_def ent_upd extends_def upd_def nth_append)
    have agree1: "agree (below k s v) s s1" "below k s v \<subseteq> {..<n}" if "v \<in> snd ` set ds" for v
    proof -
      have "\<exists>u. tree_of k s v = Some u" by (rule trees_of_child [OF ts(1) that])
      then obtain u where "tree_of k s v = Some u" by blast
      then show "below k s v \<subseteq> {..<n}" unfolding n_def by (rule tree_in_range)
      then show "agree (below k s v) s s1" by (intro extends_agree [OF s1(1)]) (simp add: n_def)
    qed
    have below1: "below k s1 v \<subseteq> {..<n}" if "v \<in> snd ` set ds" for v
      using trees_of_child [OF ts(1) that] tree_frame [OF _ agree1(1) [OF that]] agree1(2) [OF that] by auto
    have trees1: "trees_of k s1 ds = Some ts"
      using trees_of_cong [OF _ ts(1), of s1] tree_frame [OF _ agree1(1)] by blast
    have "\<exists>d' s'. dup_children k n ds s1 = Done s' \<and> List.map fst d' = List.map fst ds \<and> child_copies k n s1 s' [] d' ts"
      by (rule dup_children_copies [OF Suc.IH trees1]) (use ts(2) s1(2,3) below1 in simp_all)
    then obtain d' s' where d': "dup_children k n ds s1 = Done s'" "List.map fst d' = List.map fst ds"
        "child_copies k n s1 s' [] d' ts" by blast
    have n': "ent s' n = (ent s e)\<lparr>en_Dir := Some d'\<rparr>" "n < length (es_entries s')" "dir s' n = d'"
      using d'(3) s1(2,3) by (auto simp: child_copies_def extends_def dir_def)
    have kids: "en_Parent (ent s' c) = Some n \<and> n < c \<and> c < length (es_entries s')
        \<and> below k s' c \<subseteq> {Suc n..<length (es_entries s')} \<and> copy_ok (below k s' c) n s'"
      if "c \<in> snd ` set d'" for c
      using child_copiesD [OF d'(3) that] s1(3) by simp
    have "below (Suc k) s' n \<subseteq> {n..<length (es_entries s')}"
      using kids n'(2) by (fastforce simp: n'(3))
    moreover have "copy_ok (below (Suc k) s' n) n s'"
      using kids unfolding copy_ok_def by (fastforce simp: n'(3))
    moreover have "tree_of (Suc k) s' n = Some t"
    proof -
      have "bare (ent s' n) = bare (ent s e)" "en_Dir (ent s' n) = Some d'" using n'(1) by (simp_all add: bare_def)
      moreover have "trees_of k s' d' = Some ts" using d'(3) by (simp add: child_copies_def)
      ultimately show ?thesis using n'(2) d'(2) ts(2,3) by simp
    qed
    moreover have "extends {} s s'"
      using extends_new [OF s1(1), of "{n}" s'] d'(3) by (simp add: child_copies_def n_def)
    moreover have "dup (Suc k) e s = Done (n, s')"
      using Some d'(1) by (simp add: alloc_def n_def s1_def)
    ultimately show ?thesis using n'(2) unfolding fresh_copy_def n_def by blast
  qed
qed simp

definition state_of :: "entry list \<Rightarrow> estate" where
  "state_of xs = \<lparr>es_w = start_world NewModules, es_entries = xs, es_attrs = [], es_extras = [], es_cache = (\<lambda>_. None),
     es_merged = {}, es_nextErr = 0\<rparr>"

text \<open>C5: \<open>dup\<close> refines the copying of a tree. For an entry whose subtree is a tree of depth at most
  \<open>k\<close> it returns; the old entries and all other parts of the state are as before, so that the
  original still has its tree; the copy consists of new entries only, has the same tree, and in it
  each child's \<open>Parent\<close> is the entry whose directory holds it.\<close>

theorem dup_refines:
  assumes "tree_of k s e = Some t"
  shows "\<exists>ne s'. dup k e s = Done (ne, s') \<and> extends {} s s' \<and> fresh_copy k s s' ne t \<and> tree_of k s' e = Some t"
proof -
  obtain ne s' where c: "dup k e s = Done (ne, s')" "extends {} s s'" "fresh_copy k s s' ne t"
    using dup_copies [OF assms] by blast
  have "agree (below k s e) s s'"
    by (rule extends_agree [OF c(2)]) (use tree_in_range [OF assms] in simp)
  then show ?thesis using c tree_frame [OF assms] by blast
qed

definition two_leaves :: "entry list" where
  "two_leaves = [blank\<lparr>en_Name := ''c'', en_Kind := DirectoryEntry, en_Dir := Some [(''x'', 1), (''y'', 2)]\<rparr>,
     blank\<lparr>en_Name := ''x'', en_Parent := Some 0\<rparr>, blank\<lparr>en_Name := ''y'', en_Parent := Some 0\<rparr>]"

theorem dup_refines_witness:
  "\<exists>t. tree_of (Suc (Suc 0)) (state_of two_leaves) 0 = Some t
     \<and> (\<exists>ne s'. dup (Suc (Suc 0)) 0 (state_of two_leaves) = Done (ne, s') \<and> tree_of (Suc (Suc 0)) s' ne = Some t
          \<and> tree_of (Suc (Suc 0)) s' 0 = Some t)"
proof -
  let ?leaf = "\<lambda>n. Tree (blank\<lparr>en_Name := n\<rparr>) None"
  have t: "tree_of (Suc (Suc 0)) (state_of two_leaves) 0
      = Some (Tree (blank\<lparr>en_Name := ''c'', en_Kind := DirectoryEntry\<rparr>) (Some [(''x'', ?leaf ''x''), (''y'', ?leaf ''y'')]))"
    by (simp add: state_of_def two_leaves_def blank_def bare_def)
  then show ?thesis using dup_refines [OF t] unfolding fresh_copy_def by blast
qed

end
