(* ===== verification/EntryMerge.thy ===== *)
theory EntryMerge
  imports EntryTrees
begin

text \<open>
  \<open>merge\<close> on trees. First, a tree has no entry below itself; then \<open>importErrors\<close> collects the errors
  of a tree; then \<open>merge_trees\<close> says what \<open>merge\<close> does to the children, and \<open>merge_refines\<close> that it
  does.
\<close>

subsection \<open>No entry is below itself\<close>

lemma tree_of_Suc: "tree_of k s e = Some t \<Longrightarrow> tree_of (Suc k) s e = Some t"
proof (induction k arbitrary: e t)
  case (Suc k)
  have "trees_of (Suc k) s d = Some ts" if "trees_of k s d = Some ts" for d ts
    using that Suc.IH by (induction d arbitrary: ts) (auto simp del: tree_of.simps split: option.splits)
  then show ?case using Suc.prems
    by (auto simp only: tree_of.simps split: if_splits option.splits)
qed simp

definition rank :: "estate \<Rightarrow> nat \<Rightarrow> nat" where
  "rank s a = (LEAST k. tree_of k s a \<noteq> None)"

lemma rank_le: "tree_of k s a = Some t \<Longrightarrow> rank s a \<le> k"
  unfolding rank_def by (rule Least_le) simp

lemma rank_tree: "tree_of k s a = Some t \<Longrightarrow> \<exists>u. tree_of (rank s a) s a = Some u"
  unfolding rank_def using LeastI [of "\<lambda>k. tree_of k s a \<noteq> None" k] by auto

lemma child_tree:
  assumes "tree_of (Suc k) s a = Some t" "v \<in> snd ` set (dir s a)"
  shows "\<exists>u. tree_of k s v = Some u"
proof -
  have "\<exists>ts. trees_of k s (dir s a) = Some ts"
    using assms by (auto simp: dir_def split: option.splits if_splits)
  then show ?thesis using trees_of_child assms(2) by blast
qed

lemma child_rank:
  assumes "tree_of k s a = Some t" "v \<in> snd ` set (dir s a)"
  shows "rank s v < rank s a"
proof -
  obtain u where u: "tree_of (rank s a) s a = Some u" using rank_tree [OF assms(1)] by blast
  then obtain j where "rank s a = Suc j" by (cases "rank s a") auto
  then show ?thesis using child_tree u assms(2) rank_le by (metis less_Suc_eq_le)
qed

lemma below_rank:
  assumes "tree_of k s a = Some t" "b \<in> below k s a"
  shows "rank s b \<le> rank s a"
  using assms
proof (induction k arbitrary: a t)
  case (Suc k)
  show ?case
  proof (cases "b = a")
    case False
    then obtain v where v: "v \<in> snd ` set (dir s a)" "b \<in> below k s v" using Suc.prems(2) by auto
    then obtain u where "tree_of k s v = Some u" using child_tree Suc.prems(1) by blast
    then have "rank s b \<le> rank s v" using Suc.IH v(2) by blast
    then show ?thesis using child_rank [OF Suc.prems(1) v(1)] by simp
  qed simp
qed simp

lemma not_below_child:
  assumes "tree_of (Suc k) s a = Some t" "v \<in> snd ` set (dir s a)"
  shows "a \<notin> below k s v"
proof
  assume "a \<in> below k s v"
  moreover obtain u where "tree_of k s v = Some u" using child_tree [OF assms] by blast
  ultimately show False using below_rank child_rank [OF assms] by fastforce
qed

lemma tree_root:
  assumes "tree_of k s a = Some (Tree x cs)" "\<And>y. en_Dir (f y) = en_Dir y"
  shows "tree_of k (upd a f s) a = Some (Tree (bare (f (ent s a))) cs)"
proof (cases k)
  case (Suc j)
  have a: "a < length (es_entries s)" using assms(1) Suc by (auto split: if_splits)
  have "trees_of j (upd a f s) d = Some ts" if "trees_of j s d = Some ts" "d = dir s a" for d ts
  proof (rule trees_of_cong [OF _ that(1)])
    fix v t assume v: "v \<in> snd ` set d" "tree_of j s v = Some t"
    have "a \<notin> below j s v" using not_below_child assms(1) v(1) that(2) Suc by blast
    moreover have "below j s v \<subseteq> {..<length (es_entries s)}" using tree_in_range v(2) by blast
    ultimately have "agree (below j s v) s (upd a f s)" by (auto simp: agree_def ent_upd)
    then show "tree_of j (upd a f s) v = Some t" using tree_frame [OF v(2)] by blast
  qed
  then show ?thesis
    using assms a Suc by (auto simp: ent_upd dir_def split: option.splits if_splits)
qed (use assms in simp)

subsection \<open>Errors of a tree\<close>

fun tree_errors :: "etree \<Rightarrow> goerr list" and trees_errors :: "(string \<times> etree) list \<Rightarrow> goerr list" where
  "tree_errors (Tree x None) = en_Errors x"
| "tree_errors (Tree x (Some ts)) = en_Errors x @ trees_errors ts"
| "trees_errors [] = []"
| "trees_errors ((key, t) # ts) = tree_errors t @ trees_errors ts"

lemma add_errs_append: "add_errs e ys (add_errs e xs s) = add_errs e (xs @ ys) s"
  by (cases "e < length (es_entries s)") (simp_all add: add_errs_def upd_def list_update_beyond)

lemma agree_upd: "e \<notin> A \<Longrightarrow> A \<subseteq> {..<length (es_entries s)} \<Longrightarrow> agree A s (upd e f s)"
  unfolding agree_def by (metis ent_upd length_upd lessThan_iff same_entry_refl subsetD)

lemma tree_upd: "tree_of k s a = Some t \<Longrightarrow> e \<notin> below k s a \<Longrightarrow> tree_of k (upd e f s) a = Some t \<and> below k (upd e f s) a = below k s a"
  using tree_frame agree_upd tree_in_range by metis

lemma importErrors_tree:
  assumes "tree_of k s c = Some t" "e \<notin> below k s c"
  shows "importErrors k e c s = Done (add_errs e (tree_errors t) s)"
  using assms
proof (induction k arbitrary: c t s)
  case (Suc k)
  have bare: "en_Errors (bare x) = en_Errors x" for x by (simp add: bare_def)
  define s1 where "s1 = add_errs e (en_Errors (ent s c)) s"
  have loop: "import_children k e (List.map snd d) s = Done (add_errs e (trees_errors ts) s)"
    if "trees_of k s d = Some ts" "e \<notin> (\<Union>v\<in>snd ` set d. below k s v)" for d ts s
    using that
  proof (induction d arbitrary: ts s)
    case Nil
    then show ?case by (simp add: add_errs_def upd_def)
  next
    case (Cons x d)
    obtain key v where x: "x = (key, v)" by force
    obtain u us where u: "tree_of k s v = Some u" "trees_of k s d = Some us" "ts = (key, u) # us"
      using Cons.prems(1) x by (auto split: option.splits)
    let ?s = "add_errs e (tree_errors u) s"
    have keep: "tree_of k ?s w = Some t \<and> below k ?s w = below k s w" if "w \<in> snd ` set d" "tree_of k s w = Some t" for w t
    proof -
      have "e \<notin> below k s w" using that(1) Cons.prems(2) by auto
      then show ?thesis using tree_upd [OF that(2)] unfolding add_errs_def by blast
    qed
    have "trees_of k ?s d = Some us" using trees_of_cong [OF _ u(2), of ?s] keep by blast
    moreover have "e \<notin> (\<Union>v\<in>snd ` set d. below k ?s v)"
      using keep trees_of_child [OF u(2)] Cons.prems(2) by fastforce
    ultimately have "import_children k e (List.map snd d) ?s = Done (add_errs e (trees_errors us) ?s)"
      using Cons.IH by blast
    moreover have "importErrors k e v s = Done ?s" using Suc.IH [OF u(1)] Cons.prems(2) x by simp
    ultimately show ?case by (simp add: x u add_errs_append)
  qed
  have c: "c \<noteq> e" "tree_of (Suc k) s1 c = Some t" "below (Suc k) s1 c = below (Suc k) s c"
    using Suc.prems(2) tree_upd [OF Suc.prems] unfolding s1_def add_errs_def by auto
  have same: "ent s1 c = ent s c" using c(1) by (simp add: s1_def add_errs_def upd_def)
  show ?case
  proof (cases "en_Dir (ent s c)")
    case None
    then have "t = Tree (bare (ent s c)) None" using Suc.prems(1) by (auto split: if_splits)
    then show ?thesis using None same by (simp add: dir_def bare Let_def s1_def [symmetric]) 
  next
    case (Some d)
    then obtain ts where ts: "trees_of k s1 d = Some ts" "t = Tree (bare (ent s c)) (Some ts)"
      using c(2) same by (auto split: if_splits)
    have d: "dir s1 c = d" using Some same by (simp add: dir_def)
    have "e \<notin> (\<Union>v\<in>snd ` set d. below k s1 v)" using c(3) Suc.prems(2) d by auto
    then have "import_children k e (List.map snd d) s1 = Done (add_errs e (trees_errors ts) s1)"
      by (rule loop [OF ts(1)])
    then show ?thesis using d ts(2) by (simp add: Let_def s1_def [symmetric] bare) (simp add: s1_def add_errs_append)
  qed
qed simp

subsection \<open>Merging trees\<close>

text \<open>
  \<open>adopt\<close> is what a copied child takes over, \<open>merge_trees\<close> the children of the result, \<open>clashes\<close> the
  keys that both sides have, and \<open>dup_key\<close> the key of an error about a duplicate.
\<close>

definition adopt :: "nat option \<Rightarrow> nsval option \<Rightarrow> Statement list \<Rightarrow> entry \<Rightarrow> entry" where
  "adopt prefix ns exts x =
     x\<lparr>en_Prefix := (if prefix = None then en_Prefix x else prefix),
       en_namespace := (if ns = None then en_namespace x else ns), en_Exts := en_Exts x @ exts\<rparr>"

fun adopt_tree :: "nat option \<Rightarrow> nsval option \<Rightarrow> Statement list \<Rightarrow> etree \<Rightarrow> etree" where
  "adopt_tree prefix ns exts (Tree x cs) = Tree (adopt prefix ns exts x) cs"

definition merge_trees :: "nat option \<Rightarrow> nsval option \<Rightarrow> Statement list \<Rightarrow> (string \<times> etree) list \<Rightarrow> (string \<times> etree) list
    \<Rightarrow> (string \<times> etree) list" where
  "merge_trees prefix ns exts ts us =
     ts @ List.map (\<lambda>(key, u). (key, adopt_tree prefix ns exts u)) (List.filter (\<lambda>(key, u). key \<notin> fst ` set ts) us)"

fun dup_key :: "goerr \<Rightarrow> string option" where
  "dup_key (i, EDuplicateNode src key _ _ _ _ _) = Some key"
| "dup_key _ = None"

definition clashes :: "(string \<times> etree) list \<Rightarrow> (string \<times> etree) list \<Rightarrow> string list" where
  "clashes ts us = List.filter (\<lambda>key. key \<in> fst ` set ts) (List.map fst us)"

definition grows :: "nat set \<Rightarrow> estate \<Rightarrow> estate \<Rightarrow> bool" where
  "grows M s s' \<longleftrightarrow> length (es_entries s) \<le> length (es_entries s')
     \<and> (\<forall>a<length (es_entries s). a \<notin> M \<longrightarrow> ent s' a = ent s a)"

lemma grows_trans: "grows M s s1 \<Longrightarrow> grows M s1 s2 \<Longrightarrow> grows M s s2"
  by (fastforce simp: grows_def)

lemma grows_extends: "extends M s s' \<Longrightarrow> grows M s s'"
  by (simp add: grows_def extends_def)

lemma grows_mono: "grows M s s' \<Longrightarrow> M \<subseteq> N \<Longrightarrow> grows N s s'"
  by (auto simp: grows_def)

lemma grows_upd: "grows M s s' \<Longrightarrow> e \<in> M \<or> length (es_entries s) \<le> e \<Longrightarrow> grows M s (upd e f s')"
  by (auto simp: grows_def ent_upd)

lemma grows_next [simp]: "grows M s (s'\<lparr>es_nextErr := n\<rparr>) = grows M s s'"
  by (simp add: grows_def)

lemma tree_grows:
  assumes "grows M s s'" "tree_of k s a = Some t" "below k s a \<inter> M = {}"
  shows "tree_of k s' a = Some t \<and> below k s' a = below k s a"
proof (rule tree_frame [OF assms(2)])
  have "below k s a \<subseteq> {..<length (es_entries s)}" by (rule tree_in_range [OF assms(2)])
  then show "agree (below k s a) s s'" using assms(1,3) by (fastforce simp: agree_def grows_def)
qed

lemma trees_grows:
  assumes "grows M s s'" "trees_of k s d = Some ts" "\<forall>v\<in>snd ` set d. below k s v \<inter> M = {}"
  shows "trees_of k s' d = Some ts \<and> (\<forall>v\<in>snd ` set d. below k s' v = below k s v)"
proof
  show "trees_of k s' d = Some ts"
    using trees_of_cong [OF _ assms(2), of s'] tree_grows [OF assms(1)] assms(3) by blast
  show "\<forall>v\<in>snd ` set d. below k s' v = below k s v"
    using tree_grows [OF assms(1)] assms(3) trees_of_child [OF assms(2)] by blast
qed

lemma trees_of_append:
  "trees_of k s d = Some ts \<Longrightarrow> trees_of k s d' = Some us \<Longrightarrow> trees_of k s (d @ d') = Some (ts @ us)"
  by (induction d arbitrary: ts) (auto split: option.splits)

lemma trees_of_keys: "trees_of k s d = Some ts \<Longrightarrow> List.map fst ts = List.map fst d"
  by (induction d arbitrary: ts) (auto split: option.splits)

lemma tree_next [simp]:
  "tree_of k (s\<lparr>es_nextErr := n\<rparr>) a = tree_of k s a" "trees_of k (s\<lparr>es_nextErr := n\<rparr>) d = trees_of k s d"
  by (induction k s a and k s d rule: tree_of_trees_of.induct) (auto split: option.split)

lemma below_next [simp]: "below k (s\<lparr>es_nextErr := n\<rparr>) a = below k s a"
  by (induction k arbitrary: a) (simp_all add: dir_def)

lemma dir_upd: "(\<And>y. en_Dir (f y) = en_Dir y) \<Longrightarrow> dir (upd a f s) b = dir s b"
  by (cases "a < length (es_entries s)"; cases "b = a") (simp_all add: dir_def upd_def list_update_beyond)

lemma below_upd: "(\<And>y. en_Dir (f y) = en_Dir y) \<Longrightarrow> below k (upd a f s) b = below k s b"
  by (induction k arbitrary: b) (simp_all add: dir_upd)

lemma merge_trees_Cons:
  assumes "key \<notin> fst ` set us" "ts @ tt = merge_trees prefix ns exts ts [(key, u)]"
  shows "merge_trees prefix ns exts (ts @ tt) us = merge_trees prefix ns exts ts ((key, u) # us)"
    "clashes ts ((key, u) # us) = clashes ts [(key, u)] @ clashes (ts @ tt) us"
proof -
  have tt: "fst ` set tt \<subseteq> {key}" using assms(2) by (auto simp: merge_trees_def split: if_splits)
  have "List.filter (\<lambda>(x, w). x \<notin> fst ` set (ts @ tt)) us = List.filter (\<lambda>(x, w). x \<notin> fst ` set ts) us"
    using assms(1) tt by (intro filter_cong) force+
  then show "merge_trees prefix ns exts (ts @ tt) us = merge_trees prefix ns exts ts ((key, u) # us)"
    using assms(2) by (auto simp: merge_trees_def split: if_splits)
  have "List.filter (\<lambda>x. x \<in> fst ` set (ts @ tt)) (List.map fst us) = List.filter (\<lambda>x. x \<in> fst ` set ts) (List.map fst us)"
    using assms(1) tt by (intro filter_cong) force+
  then show "clashes ts ((key, u) # us) = clashes ts [(key, u)] @ clashes (ts @ tt) us"
    by (simp add: clashes_def)
qed

lemma tree_root_grown:
  assumes "tree_of k s a = Some t" "a < length (es_entries s)" "\<And>y. en_Dir (f y) = en_Dir y"
    "\<And>y. bare (f y) = bare (adopt prefix ns exts y)"
  shows "tree_of k (upd a f s) a = Some (adopt_tree prefix ns exts t)"
proof -
  obtain x cs where t: "t = Tree x cs" by (cases t)
  have x: "x = bare (ent s a)" using assms(1) t by (cases k) (auto split: if_splits option.splits)
  have "tree_of k (upd a f s) a = Some (Tree (bare (f (ent s a))) cs)"
    using tree_root [OF assms(1) [unfolded t]] assms(3) by blast
  then show ?thesis using t x assms(4) by (simp add: adopt_def bare_def)
qed

lemma merge_child_adds:
  assumes "map_of (dir s e) key = None" "e \<noteq> v" "e < length (es_entries s)" "v < length (es_entries s)" "oe \<noteq> v"
    "en_Dir (ent s e) = Some d"
  shows "merge_child prefix ns e oe key v s =
    upd e (\<lambda>x. x\<lparr>en_Dir := Some (d @ [(key, v)])\<rparr>)
      (upd v (\<lambda>x. (adopt prefix ns (en_Exts (ent s oe)) x)\<lparr>en_Parent := Some e\<rparr>) s)"
proof -
  have "key \<notin> fst ` set d" using assms(1,6) by (simp add: dir_def map_of_eq_None_iff)
  then have "AList.update key v d = d @ [(key, v)]" by (rule update_new)
  then show ?thesis
    using assms unfolding merge_child_def
    by (cases "ent s v") (auto simp: Let_def upd_def adopt_def dir_def nth_list_update list_update_swap intro!: estate.equality)
qed

lemma merge_child_clash:
  assumes "map_of (dir s e) key = Some se" "e \<noteq> v" "e < length (es_entries s)"
  shows "\<exists>f err i. merge_child prefix ns e oe key v s = (add_errs e [(i, err)] (upd v f s))\<lparr>es_nextErr := Suc i\<rparr>
    \<and> dup_key (i, err) = Some key"
proof -
  define s1 where "s1 = (if prefix = None then s else upd v (\<lambda>x. x\<lparr>en_Prefix := prefix\<rparr>) s)"
  define s2 where "s2 = (if ns = None then s1 else upd v (\<lambda>x. x\<lparr>en_namespace := ns\<rparr>) s1)"
  have "\<exists>f. s2 = upd v f s"
    unfolding s2_def s1_def
    by (intro exI [of _ "\<lambda>x. (let y = (if prefix = None then x else x\<lparr>en_Prefix := prefix\<rparr>) in
      if ns = None then y else y\<lparr>en_namespace := ns\<rparr>)"]) (cases "v < length (es_entries s)", auto simp: upd_def list_update_beyond)
  then obtain f where f: "s2 = upd v f s" by blast
  have "dir s2 e = dir s e" using assms(2,3) f by (simp add: dir_def ent_upd)
  then have "map_of (dir s2 e) key = Some se" using assms(1) by simp
  then show ?thesis
    by (intro exI [of _ f]) (simp add: merge_child_def Let_def s1_def [symmetric] s2_def [symmetric] errorf_def f,
      intro exI conjI, rule refl, simp)
qed

lemma merge_loop_trees:
  assumes "trees_of k s d = Some us" "distinct (List.map fst d)" "e < length (es_entries s)" "en_Dir (ent s e) = Some d0"
    "trees_of k s d0 = Some ts" "\<forall>v\<in>snd ` set d \<union> snd ` set d0. e \<notin> below k s v" "oe \<noteq> e" "oe < length (es_entries s)"
  shows "\<exists>s' d1 derrs. merge_loop k prefix ns e oe d s = Done s' \<and> grows {e} s s'
    \<and> ent s' e = (ent s e)\<lparr>en_Dir := Some (d0 @ d1), en_Errors := en_Errors (ent s e) @ derrs\<rparr>
    \<and> trees_of k s' (d0 @ d1) = Some (merge_trees prefix ns (en_Exts (ent s oe)) ts us)
    \<and> List.map dup_key derrs = List.map Some (clashes ts us)
    \<and> (\<forall>c\<in>snd ` set d1. en_Parent (ent s' c) = Some e \<and> length (es_entries s) \<le> c \<and> e \<notin> below k s' c)"
  using assms
proof (induction d arbitrary: s d0 ts us)
  case Nil
  then show ?case
    by (intro exI [of _ s] exI [of _ "[]"]) (simp add: grows_def merge_trees_def clashes_def)
next
  case (Cons x d)
  obtain key v where x: "x = (key, v)" by force
  obtain u us' where u: "tree_of k s v = Some u" "trees_of k s d = Some us'" "us = (key, u) # us'"
    using Cons.prems(1) x by (auto split: option.splits)
  obtain v' s1 where v': "dup k v s = Done (v', s1)" "extends {} s s1" "fresh_copy k s s1 v' u"
    using dup_copies [OF u(1)] by blast
  have g1: "grows {} s s1" by (rule grows_extends [OF v'(2)])
  have len: "v' = length (es_entries s)" "v' < length (es_entries s1)" "e \<noteq> v'" "oe \<noteq> v'" "e < length (es_entries s1)"
    using v'(3) Cons.prems(3,8) by (auto simp: fresh_copy_def)
  have old: "ent s1 e = ent s e" "ent s1 oe = ent s oe" using g1 Cons.prems(3,8) by (auto simp: grows_def)
  have tv: "tree_of k s1 v' = Some u" "e \<notin> below k s1 v'"
    using v'(3) Cons.prems(3) by (auto simp: fresh_copy_def)
  define s2 where "s2 = merge_child prefix ns e oe key v' s1"
  have keys: "List.map fst ts = List.map fst d0" "List.map fst us' = List.map fst d" using trees_of_keys Cons.prems(5) u(2) by auto
  define exts where "exts = en_Exts (ent s oe)"
  have step: "\<exists>dd tt derrs. grows {e} s s2
      \<and> ent s2 e = (ent s e)\<lparr>en_Dir := Some (d0 @ dd), en_Errors := en_Errors (ent s e) @ derrs\<rparr>
      \<and> trees_of k s2 dd = Some tt \<and> ts @ tt = merge_trees prefix ns exts ts [(key, u)]
      \<and> List.map dup_key derrs = List.map Some (clashes ts [(key, u)])
      \<and> (\<forall>c\<in>snd ` set dd. en_Parent (ent s2 c) = Some e \<and> length (es_entries s) \<le> c \<and> c < length (es_entries s2) \<and> e \<notin> below k s2 c)"
  proof (cases "map_of (dir s1 e) key")
    case None
    have Dir: "en_Dir (ent s1 e) = Some d0" using old Cons.prems(4) by simp
    have key: "key \<notin> fst ` set ts"
      using None Dir keys(1) by (simp add: dir_def map_of_eq_None_iff flip: set_map)
    define f where "f = (\<lambda>x. (adopt prefix ns exts x)\<lparr>en_Parent := Some e\<rparr>)"
    define s3 where "s3 = upd v' f s1"
    have s2: "s2 = upd e (\<lambda>x. x\<lparr>en_Dir := Some (d0 @ [(key, v')])\<rparr>) s3"
      unfolding s2_def s3_def f_def exts_def
      using merge_child_adds [OF None len(3) len(5) len(2) len(4) Dir] old by simp
    have "tree_of k s3 v' = Some (adopt_tree prefix ns exts u)"
      unfolding s3_def by (rule tree_root_grown [OF tv(1) len(2)]) (simp_all add: f_def bare_def adopt_def)
    moreover have "e \<notin> below k s3 v'"
      using tv(2) below_upd [of f] unfolding s3_def by (simp add: f_def adopt_def)
    ultimately have t2: "tree_of k s2 v' = Some (adopt_tree prefix ns exts u)" "e \<notin> below k s2 v'"
      using tree_upd s2 by (metis, metis)
    have "ent s2 e = (ent s e)\<lparr>en_Dir := Some (d0 @ [(key, v')])\<rparr>" "en_Parent (ent s2 v') = Some e"
      using len old by (auto simp: s2 s3_def ent_upd f_def)
    moreover have "grows {e} s s2"
      unfolding s2 s3_def using grows_mono [OF g1] len by (intro grows_upd) auto
    ultimately show ?thesis
      using t2 key len
      by (intro exI [of _ "[(key, v')]"] exI [of _ "[(key, adopt_tree prefix ns exts u)]"] exI [of _ "[]"])
        (simp add: merge_trees_def clashes_def s2 s3_def)
  next
    case (Some se)
    then have key: "key \<in> fst ` set ts"
      using old Cons.prems(4) keys(1) by (auto simp: dir_def simp flip: set_map dest!: map_of_SomeD) (metis fst_conv image_eqI set_map)
    obtain f err i where s2: "s2 = (add_errs e [(i, err)] (upd v' f s1))\<lparr>es_nextErr := Suc i\<rparr>" "dup_key (i, err) = Some key"
      using merge_child_clash [OF Some len(3,5)] s2_def by blast
    have "grows {e} s s2"
      unfolding s2(1) add_errs_def using grows_mono [OF g1] len by (simp, intro grows_upd) auto
    moreover have "ent s2 e = (ent s e)\<lparr>en_Dir := Some (d0 @ []), en_Errors := en_Errors (ent s e) @ [(i, err)]\<rparr>"
      using len old Cons.prems(4) by (simp add: s2 add_errs_def ent_upd)
    ultimately show ?thesis
      using key s2(2) by (intro exI [of _ "[]"] exI [of _ "[(i, err)]"]) (simp add: merge_trees_def clashes_def)
  qed
  then obtain dd tt derrs where dd: "grows {e} s s2"
      "ent s2 e = (ent s e)\<lparr>en_Dir := Some (d0 @ dd), en_Errors := en_Errors (ent s e) @ derrs\<rparr>"
      "trees_of k s2 dd = Some tt" "ts @ tt = merge_trees prefix ns exts ts [(key, u)]"
      "List.map dup_key derrs = List.map Some (clashes ts [(key, u)])"
    and new: "\<And>c. c \<in> snd ` set dd \<Longrightarrow> en_Parent (ent s2 c) = Some e \<and> length (es_entries s) \<le> c \<and> c < length (es_entries s2) \<and> e \<notin> below k s2 c"
    by blast
  have kept_d: "trees_of k s2 d = Some us' \<and> (\<forall>v\<in>snd ` set d. below k s2 v = below k s v)"
    using Cons.prems(6) x by (intro trees_grows [OF dd(1) u(2)]) auto
  have kept_d0: "trees_of k s2 d0 = Some ts \<and> (\<forall>v\<in>snd ` set d0. below k s2 v = below k s v)"
    using Cons.prems(6) by (intro trees_grows [OF dd(1) Cons.prems(5)]) auto
  have "trees_of k s2 (d0 @ dd) = Some (ts @ tt)" using trees_of_append kept_d0 dd(3) by blast
  moreover have "\<forall>v\<in>snd ` set d \<union> snd ` set (d0 @ dd). e \<notin> below k s2 v"
  proof
    have old: "\<forall>w\<in>snd ` set d \<union> snd ` set d0. e \<notin> below k s w" using Cons.prems(6) by auto
    fix w assume "w \<in> snd ` set d \<union> snd ` set (d0 @ dd)"
    then consider "w \<in> snd ` set d" | "w \<in> snd ` set d0" | "w \<in> snd ` set dd" by (simp add: image_Un) blast
    then show "e \<notin> below k s2 w"
    proof cases
      case 1
      then have "below k s2 w = below k s w" "e \<notin> below k s w" using kept_d old by blast+
      then show ?thesis by simp
    next
      case 2
      then have "below k s2 w = below k s w" "e \<notin> below k s w" using kept_d0 old by blast+
      then show ?thesis by simp
    qed (use new in blast)
  qed
  moreover have "length (es_entries s) \<le> length (es_entries s2)" "ent s2 oe = ent s oe"
    using dd(1) Cons.prems(7,8) by (auto simp: grows_def)
  ultimately obtain s' d1 derrs1 where IH: "merge_loop k prefix ns e oe d s2 = Done s'" "grows {e} s2 s'"
      "ent s' e = (ent s2 e)\<lparr>en_Dir := Some ((d0 @ dd) @ d1), en_Errors := en_Errors (ent s2 e) @ derrs1\<rparr>"
      "trees_of k s' ((d0 @ dd) @ d1) = Some (merge_trees prefix ns exts (ts @ tt) us')"
      "List.map dup_key derrs1 = List.map Some (clashes (ts @ tt) us')"
    and new1: "\<And>c. c \<in> snd ` set d1 \<Longrightarrow> en_Parent (ent s' c) = Some e \<and> length (es_entries s2) \<le> c \<and> e \<notin> below k s' c"
    using Cons.IH [of s2 us' "d0 @ dd" "ts @ tt"] kept_d Cons.prems(2,3,7,8) dd(2) x unfolding exts_def by fastforce
  have key: "key \<notin> fst ` set us'" using keys(2) Cons.prems(2) x by (metis distinct.simps(2) fst_conv list.simps(9) set_map)
  have newd: "en_Parent (ent s' c) = Some e \<and> length (es_entries s) \<le> c \<and> e \<notin> below k s' c" if c: "c \<in> snd ` set dd" for c
  proof -
    have c': "en_Parent (ent s2 c) = Some e" "length (es_entries s) \<le> c" "c < length (es_entries s2)" "e \<notin> below k s2 c"
      using new [OF c] by auto
    have "\<exists>t. tree_of k s2 c = Some t" by (rule trees_of_child [OF dd(3) c])
    then have "below k s' c = below k s2 c" using tree_grows [OF IH(2)] c'(4) by blast
    moreover have "ent s' c = ent s2 c" using IH(2) c' Cons.prems(3) by (auto simp: grows_def)
    ultimately show ?thesis using c' by simp
  qed
  have later: "en_Parent (ent s' c) = Some e \<and> length (es_entries s) \<le> c \<and> e \<notin> below k s' c" if c: "c \<in> snd ` set d1" for c
    using new1 [OF c] dd(1) by (auto simp: grows_def)
  have "merge_loop k prefix ns e oe (x # d) s = Done s'"
    using v'(1) IH(1) by (simp add: x s2_def)
  moreover have "grows {e} s s'" by (rule grows_trans [OF dd(1) IH(2)])
  moreover have "ent s' e = (ent s e)\<lparr>en_Dir := Some (d0 @ (dd @ d1)), en_Errors := en_Errors (ent s e) @ (derrs @ derrs1)\<rparr>"
    using IH(3) dd(2) by simp
  moreover have "trees_of k s' (d0 @ (dd @ d1)) = Some (merge_trees prefix ns exts ts us)"
    using IH(4) merge_trees_Cons(1) [OF key dd(4)] u(3) by simp
  moreover have "List.map dup_key (derrs @ derrs1) = List.map Some (clashes ts us)"
    using dd(5) IH(5) merge_trees_Cons(2) [OF key dd(4)] u(3) by simp
  moreover have "\<forall>c\<in>snd ` set (dd @ d1). en_Parent (ent s' c) = Some e \<and> length (es_entries s) \<le> c \<and> e \<notin> below k s' c"
    using newd later by (auto simp: image_Un)
  ultimately show ?case unfolding exts_def by blast
qed

lemma below_Suc: "tree_of k s a = Some t \<Longrightarrow> below (Suc k) s a = below k s a"
proof (induction k arbitrary: a t)
  case (Suc k)
  have "below (Suc k) s v = below k s v" if "v \<in> snd ` set (dir s a)" for v
    using child_tree [OF Suc.prems that] Suc.IH by blast
  then show ?case by auto
qed simp

lemma trees_of_Suc: "trees_of k s d = Some ts \<Longrightarrow> trees_of (Suc k) s d = Some ts"
proof (induction d arbitrary: ts)
  case (Cons x d)
  obtain key v where x: "x = (key, v)" by force
  obtain u us where "tree_of k s v = Some u" "trees_of k s d = Some us" "ts = (key, u) # us"
    using Cons.prems x by (auto split: option.splits)
  then show ?case using tree_of_Suc [of k s v u] Cons.IH [of us] x by (simp del: tree_of.simps)
qed simp

lemma merge_trees_keys: "List.map fst (merge_trees prefix ns exts ts us)
    = List.map fst ts @ List.filter (\<lambda>key. key \<notin> fst ` set ts) (List.map fst us)"
proof -
  have "List.map fst (List.map (\<lambda>(key, u). (key, f u)) (List.filter (\<lambda>(key, u). key \<notin> K) us))
      = List.filter (\<lambda>key. key \<notin> K) (List.map fst us)" for K and f :: "etree \<Rightarrow> etree"
    by (induction us) auto
  then show ?thesis by (simp only: merge_trees_def map_append)
qed

definition kids :: "etree \<Rightarrow> (string \<times> etree) list" where
  "kids t = (case t of Tree x None \<Rightarrow> [] | Tree x (Some ts) \<Rightarrow> ts)"

definition content :: "etree \<Rightarrow> entry" where
  "content t = (case t of Tree x cs \<Rightarrow> x)"

lemma kids_trees:
  assumes "tree_of (Suc k) s a = Some t"
  shows "trees_of k s (dir s a) = Some (kids t)" "content t = bare (ent s a)" "distinct (List.map fst (dir s a))" "a < length (es_entries s)"
  using assms by (auto simp: dir_def kids_def content_def split: option.splits if_splits)

lemma merge_trees_refines:
  assumes e: "tree_of (Suc k) s e = Some (Tree x (Some ts))" and oe: "tree_of (Suc k) s oe = Some ot"
    and apart: "e \<notin> below (Suc k) s oe"
  shows "\<exists>s' derrs. entry_merge (Suc k) prefix ns e oe s = Done s'
    \<and> tree_of (Suc (Suc k)) s' e = Some (Tree (x\<lparr>en_Errors := en_Errors x @ tree_errors ot @ derrs\<rparr>)
        (Some (merge_trees prefix ns (en_Exts (content ot)) ts (kids ot))))
    \<and> List.map dup_key derrs = List.map Some (clashes ts (kids ot))
    \<and> tree_of (Suc k) s' oe = Some ot
    \<and> grows {e} s s'
    \<and> (\<forall>(key, c)\<in>set (dir s' e). key \<notin> fst ` set ts \<longrightarrow> en_Parent (ent s' c) = Some e \<and> length (es_entries s) \<le> c)"
proof -
  define s1 where "s1 = add_errs e (tree_errors ot) s"
  have e': "trees_of k s (dir s e) = Some ts" "x = bare (ent s e)" "distinct (List.map fst (dir s e))" "e < length (es_entries s)"
    using kids_trees [OF e] by (simp_all add: kids_def content_def)
  have Dir: "en_Dir (ent s e) = Some (dir s e)" using e by (auto simp: dir_def split: if_splits option.splits)
  have oe': "trees_of k s (dir s oe) = Some (kids ot)" "content ot = bare (ent s oe)" "distinct (List.map fst (dir s oe))"
      "oe < length (es_entries s)"
    using kids_trees [OF oe] by simp_all
  have ne: "oe \<noteq> e" using apart by auto
  have s1: "ent s1 e = (ent s e)\<lparr>en_Errors := en_Errors (ent s e) @ tree_errors ot\<rparr>" "ent s1 oe = ent s oe"
      "length (es_entries s1) = length (es_entries s)" "grows {e} s s1"
    using e'(4) oe'(4) ne by (auto simp: s1_def add_errs_def ent_upd grows_def)
  then have dirs: "en_Dir (ent s1 e) = Some (dir s e)" "dir s1 oe = dir s oe" using Dir by (auto simp: dir_def)
  have below_e: "e \<notin> below (Suc k) s v" if "v \<in> snd ` set (dir s e)" for v
    by (rule not_below_child [OF tree_of_Suc [OF e] that])
  have below_oe: "e \<notin> below (Suc k) s v" if "v \<in> snd ` set (dir s oe)" for v
    using trees_of_child [OF oe'(1) that] below_Suc apart that by fastforce
  have kept_oe: "trees_of (Suc k) s1 (dir s oe) = Some (kids ot) \<and> (\<forall>v\<in>snd ` set (dir s oe). below (Suc k) s1 v = below (Suc k) s v)"
    by (rule trees_grows [OF s1(4) trees_of_Suc [OF oe'(1)]]) (use below_oe in blast)
  have kept_e: "trees_of (Suc k) s1 (dir s e) = Some ts \<and> (\<forall>v\<in>snd ` set (dir s e). below (Suc k) s1 v = below (Suc k) s v)"
    by (rule trees_grows [OF s1(4) trees_of_Suc [OF e'(1)]]) (use below_e in blast)
  have "\<forall>v\<in>snd ` set (dir s oe) \<union> snd ` set (dir s e). e \<notin> below (Suc k) s1 v"
    using kept_oe kept_e below_e below_oe by blast
  then obtain s' d1 derrs where m: "merge_loop (Suc k) prefix ns e oe (dir s oe) s1 = Done s'" "grows {e} s1 s'"
      "ent s' e = (ent s1 e)\<lparr>en_Dir := Some (dir s e @ d1), en_Errors := en_Errors (ent s1 e) @ derrs\<rparr>"
      "trees_of (Suc k) s' (dir s e @ d1) = Some (merge_trees prefix ns (en_Exts (ent s1 oe)) ts (kids ot))"
      "List.map dup_key derrs = List.map Some (clashes ts (kids ot))"
    and new: "\<And>c. c \<in> snd ` set d1 \<Longrightarrow> en_Parent (ent s' c) = Some e \<and> length (es_entries s1) \<le> c \<and> e \<notin> below (Suc k) s' c"
    using merge_loop_trees [OF conjunct1 [OF kept_oe] oe'(3) _ dirs(1) conjunct1 [OF kept_e] _ ne, of prefix ns] e'(4) oe'(4) s1(3)
    by fastforce
  have g: "grows {e} s s'" by (rule grows_trans [OF s1(4) m(2)])
  have "importErrors (Suc k) e oe s = Done s1" unfolding s1_def by (rule importErrors_tree [OF oe apart])
  then have "entry_merge (Suc k) prefix ns e oe s = Done s'"
    using m(1) dirs by (simp add: entry_merge_def del: importErrors.simps)
  moreover have "tree_of (Suc k) s' oe = Some ot" using tree_grows [OF g oe] apart by blast
  moreover have "dir s' e = dir s e @ d1" using m(3) by (simp add: dir_def)
  moreover have keys: "distinct (List.map fst (dir s e @ d1))"
  proof -
    have "List.map fst d1 = List.filter (\<lambda>key. key \<notin> set (List.map fst (dir s e))) (List.map fst (dir s oe))"
      using trees_of_keys [OF m(4)] trees_of_keys [OF e'(1)] trees_of_keys [OF oe'(1)]
      unfolding merge_trees_keys by (auto simp flip: set_map)
    then show ?thesis using e'(3) oe'(3) by (simp only: map_append distinct_append) (auto simp del: set_map)
  qed
  moreover have "tree_of (Suc (Suc k)) s' e = Some (Tree (x\<lparr>en_Errors := en_Errors x @ tree_errors ot @ derrs\<rparr>)
        (Some (merge_trees prefix ns (en_Exts (content ot)) ts (kids ot))))"
  proof -
    have "en_Exts (content ot) = en_Exts (ent s1 oe)" using oe'(2) s1(2) by (simp add: bare_def)
    moreover have "bare (ent s' e) = x\<lparr>en_Errors := en_Errors x @ tree_errors ot @ derrs\<rparr>"
      using m(3) s1(1) e'(2) by (simp add: bare_def)
    moreover have "e < length (es_entries s')" using g e'(4) by (auto simp: grows_def)
    ultimately show ?thesis using m(3,4) keys by (simp del: trees_of.simps tree_of.simps(2) add: tree_of.simps(2) [of "Suc k"])
  qed
  moreover have "en_Parent (ent s' c) = Some e \<and> length (es_entries s) \<le> c"
    if "(key, c) \<in> set (dir s e @ d1)" "key \<notin> fst ` set ts" for key c
  proof -
    have "fst ` set (dir s e) = fst ` set ts" using trees_of_keys [OF e'(1)] by (metis set_map)
    then have "c \<in> snd ` set d1" using that by force
    then show ?thesis using new s1(3) by simp
  qed
  ultimately show ?thesis using m(5) g by (intro exI [of _ s'] exI [of _ derrs]) auto
qed

text \<open>C1: \<open>merge\<close> refines the merging of trees. If the entries \<open>e\<close> and \<open>oe\<close> have trees and \<open>e\<close> is
  not inside the tree of \<open>oe\<close>, it returns; \<open>e\<close> keeps its children and gets a copy of every child of
  \<open>oe\<close> under a key it did not have, with the prefix and namespace given and the extensions of \<open>oe\<close>
  added; for every key that both have there is one error about the duplicate, after the errors of
  the whole tree of \<open>oe\<close>; \<open>oe\<close> and all other entries are unchanged, and the new children point back
  to \<open>e\<close>.\<close>

theorem merge_refines:
  assumes "tree_of (Suc k) s e = Some (Tree x (Some ts))" "tree_of (Suc k) s oe = Some ot" "e \<notin> below (Suc k) s oe"
  shows "\<exists>s' derrs. entry_merge (Suc k) prefix ns e oe s = Done s'
    \<and> tree_of (Suc (Suc k)) s' e = Some (Tree (x\<lparr>en_Errors := en_Errors x @ tree_errors ot @ derrs\<rparr>)
        (Some (merge_trees prefix ns (en_Exts (content ot)) ts (kids ot))))
    \<and> List.map dup_key derrs = List.map Some (clashes ts (kids ot))
    \<and> tree_of (Suc k) s' oe = Some ot
    \<and> grows {e} s s'
    \<and> (\<forall>(key, c)\<in>set (dir s' e). key \<notin> fst ` set ts \<longrightarrow> en_Parent (ent s' c) = Some e \<and> length (es_entries s) \<le> c)"
  using assms by (rule merge_trees_refines)

definition merge_example :: "entry list" where
  "merge_example =
     [blank\<lparr>en_Name := ''a'', en_Kind := DirectoryEntry, en_Dir := Some [(''x'', 1)]\<rparr>,
      blank\<lparr>en_Name := ''x'', en_Parent := Some 0\<rparr>,
      blank\<lparr>en_Name := ''b'', en_Kind := DirectoryEntry, en_Dir := Some [(''x'', 3), (''y'', 4)]\<rparr>,
      blank\<lparr>en_Name := ''x'', en_Parent := Some 2\<rparr>, blank\<lparr>en_Name := ''y'', en_Parent := Some 2\<rparr>]"

theorem merge_refines_witness:
  "\<exists>s' t. entry_merge (Suc (Suc 0)) None (Some NsEmpty) 0 2 (state_of merge_example) = Done s'
     \<and> tree_of (Suc (Suc (Suc 0))) s' 0 = Some t \<and> List.map fst (kids t) = [''x'', ''y'']
     \<and> List.map dup_key (en_Errors (content t)) = [Some ''x'']"
proof -
  let ?s = "state_of merge_example"
  let ?leaf = "\<lambda>n. Tree (blank\<lparr>en_Name := n\<rparr>) None"
  have a: "tree_of (Suc (Suc 0)) ?s 0
      = Some (Tree (blank\<lparr>en_Name := ''a'', en_Kind := DirectoryEntry\<rparr>) (Some [(''x'', ?leaf ''x'')]))"
    by (simp add: state_of_def merge_example_def blank_def bare_def)
  have b: "tree_of (Suc (Suc 0)) ?s 2
      = Some (Tree (blank\<lparr>en_Name := ''b'', en_Kind := DirectoryEntry\<rparr>) (Some [(''x'', ?leaf ''x''), (''y'', ?leaf ''y'')]))"
    by (simp add: state_of_def merge_example_def blank_def bare_def)
  have apart: "0 \<notin> below (Suc (Suc 0)) ?s 2"
    by (simp add: state_of_def merge_example_def blank_def dir_def)
  obtain s' derrs where m: "entry_merge (Suc (Suc 0)) None (Some NsEmpty) 0 2 ?s = Done s'"
      "tree_of (Suc (Suc (Suc 0))) s' 0 = Some (Tree ((blank\<lparr>en_Name := ''a'', en_Kind := DirectoryEntry\<rparr>)\<lparr>en_Errors := [] @ [] @ derrs\<rparr>)
         (Some (merge_trees None (Some NsEmpty) [] [(''x'', ?leaf ''x'')] [(''x'', ?leaf ''x''), (''y'', ?leaf ''y'')])))"
      "List.map dup_key derrs = [Some ''x'']"
    using merge_refines [OF a b apart, of None "Some NsEmpty"]
    by (auto simp: content_def kids_def blank_def clashes_def simp del: tree_of.simps)
  show ?thesis
    by (intro exI conjI, rule m(1), rule m(2)) (use m(3) in \<open>simp_all add: kids_def content_def merge_trees_def\<close>)
qed

end
