(* ===== verification/Choices.thy ===== *)
theory Choices
  imports EntryTrees
begin

text \<open>
  \<open>FixChoice\<close>: it returns on entries without cycles, afterwards the children of every choice without
  errors are cases, and nothing else has changed: a child that was not a case is now the only child
  of a new case under the old key.
\<close>

subsection \<open>Entries without cycles\<close>

definition acyclic_entries :: "(nat \<Rightarrow> nat) \<Rightarrow> estate \<Rightarrow> bool" where
  "acyclic_entries rk s \<longleftrightarrow> (\<forall>a<length (es_entries s). distinct (List.map fst (dir s a))
     \<and> (\<forall>c\<in>snd ` set (dir s a). c < length (es_entries s) \<and> rk c < rk a))"

text \<open>Room for a case between a choice and a child of it.\<close>

definition roomy :: "(nat \<Rightarrow> nat) \<Rightarrow> estate \<Rightarrow> bool" where
  "roomy rk s \<longleftrightarrow> acyclic_entries rk s \<and> (\<forall>a<length (es_entries s). \<forall>c\<in>snd ` set (dir s a).
     en_Kind (ent s a) = ChoiceEntry \<and> en_Kind (ent s c) \<noteq> CaseEntry \<longrightarrow> rk c + 2 \<le> rk a)"

lemma roomy_double: "acyclic_entries rk s \<Longrightarrow> roomy (\<lambda>a. 2 * rk a) s"
  by (fastforce simp: roomy_def acyclic_entries_def)

lemma acyclicD:
  assumes "acyclic_entries rk s" "a < length (es_entries s)"
  shows "distinct (List.map fst (dir s a))"
    "c \<in> snd ` set (dir s a) \<Longrightarrow> c < length (es_entries s) \<and> rk c < rk a"
  using assms unfolding acyclic_entries_def by blast+

lemma roomyD:
  assumes "roomy rk s" "a < length (es_entries s)"
  shows "distinct (List.map fst (dir s a))"
    "c \<in> snd ` set (dir s a) \<Longrightarrow> c < length (es_entries s) \<and> rk c < rk a"
    "c \<in> snd ` set (dir s a) \<Longrightarrow> en_Kind (ent s a) = ChoiceEntry \<Longrightarrow> en_Kind (ent s c) \<noteq> CaseEntry \<Longrightarrow> rk c + 2 \<le> rk a"
  using assms unfolding roomy_def acyclic_entries_def by blast+

subsection \<open>One case\<close>

text \<open>What all entries share: nodes are added to the AST, maps of extra statements to their store.\<close>

definition extended :: "estate \<Rightarrow> estate \<Rightarrow> bool" where
  "extended s s' \<longleftrightarrow> (\<exists>hs m. es_w s' = (es_w s)\<lparr>w_ms := (es_ms s)\<lparr>ms_ast := (ms_ast (es_ms s))\<lparr>ast_nodes := es_heap s @ hs\<rparr>\<rparr>\<rparr>
     \<and> es_extras s' = es_extras s @ replicate m [])
     \<and> es_attrs s' = es_attrs s \<and> es_cache s' = es_cache s \<and> es_merged s' = es_merged s \<and> es_nextErr s' = es_nextErr s"

text \<open>The entries keep all fields but \<open>Parent\<close>, and those not in \<open>M\<close> their directory.\<close>

definition kept :: "nat set \<Rightarrow> estate \<Rightarrow> estate \<Rightarrow> bool" where
  "kept M s s' \<longleftrightarrow> length (es_entries s) \<le> length (es_entries s') \<and> extended s s' \<and> (\<forall>a<length (es_entries s).
     bare (ent s' a) = bare (ent s a) \<and> (a \<notin> M \<longrightarrow> en_Dir (ent s' a) = en_Dir (ent s a)))"

lemma extended_refl [simp]: "extended s s"
proof -
  have "es_extras s = es_extras s @ replicate 0 []" by simp
  moreover have "es_w s = (es_w s)\<lparr>w_ms := (es_ms s)\<lparr>ms_ast := (ms_ast (es_ms s))\<lparr>ast_nodes := es_heap s @ []\<rparr>\<rparr>\<rparr>" by simp
  ultimately show ?thesis unfolding extended_def by blast
qed

lemma extended_trans:
  assumes "extended s s1" "extended s1 s2"
  shows "extended s s2"
proof -
  obtain hs m where 1: "es_w s1 = (es_w s)\<lparr>w_ms := (es_ms s)\<lparr>ms_ast := (ms_ast (es_ms s))\<lparr>ast_nodes := es_heap s @ hs\<rparr>\<rparr>\<rparr>"
      "es_extras s1 = es_extras s @ replicate m []"
    using assms(1) unfolding extended_def by blast
  obtain hs' m' where 2: "es_w s2 = (es_w s1)\<lparr>w_ms := (es_ms s1)\<lparr>ms_ast := (ms_ast (es_ms s1))\<lparr>ast_nodes := es_heap s1 @ hs'\<rparr>\<rparr>\<rparr>"
      "es_extras s2 = es_extras s1 @ replicate m' []"
    using assms(2) unfolding extended_def by blast
  have "es_w s2 = (es_w s)\<lparr>w_ms := (es_ms s)\<lparr>ms_ast := (ms_ast (es_ms s))\<lparr>ast_nodes := es_heap s @ (hs @ hs')\<rparr>\<rparr>\<rparr>"
    unfolding 2(1) 1(1) by simp
  moreover have "es_extras s2 = es_extras s @ replicate (m + m') []" by (simp add: 1 2 replicate_add)
  ultimately show ?thesis using assms unfolding extended_def by auto
qed

lemma extended_len: "extended s s' \<Longrightarrow> length (es_heap s) \<le> length (es_heap s') \<and> length (es_extras s) \<le> length (es_extras s')"
  unfolding extended_def by auto

lemma extended_nth: "extended s s' \<Longrightarrow> n < length (es_heap s) \<Longrightarrow> es_heap s' ! n = es_heap s ! n"
  unfolding extended_def by (auto simp: nth_append)

lemma kept_refl [simp]: "kept M s s" by (simp add: kept_def)

lemma kept_trans: "kept M s s1 \<Longrightarrow> kept M s1 s2 \<Longrightarrow> kept M s s2"
  unfolding kept_def by (intro conjI allI impI; (elim conjE)?) (auto simp: order.strict_trans2 intro: extended_trans)

lemma bare_fields:
  assumes "bare x = bare y"
  shows "en_Kind x = en_Kind y" "en_Errors x = en_Errors y" "en_Name x = en_Name y" "en_Config x = en_Config y"
    "en_Prefix x = en_Prefix y" "en_Node x = en_Node y"
  using assms by (cases x; cases y; simp add: bare_def)+

lemma keptD:
  assumes "kept M s s'" "a < length (es_entries s)"
  shows "a < length (es_entries s')" "en_Kind (ent s' a) = en_Kind (ent s a)" "en_Errors (ent s' a) = en_Errors (ent s a)"
    "en_Name (ent s' a) = en_Name (ent s a)" "a \<notin> M \<Longrightarrow> en_Dir (ent s' a) = en_Dir (ent s a)"
    "en_Config (ent s' a) = en_Config (ent s a)" "en_Prefix (ent s' a) = en_Prefix (ent s a)"
    "en_Node (ent s' a) = en_Node (ent s a)"
proof -
  have "bare (ent s' a) = bare (ent s a)" using assms unfolding kept_def by blast
  note bare_fields [OF this]
  then show "en_Kind (ent s' a) = en_Kind (ent s a)" "en_Errors (ent s' a) = en_Errors (ent s a)"
    "en_Name (ent s' a) = en_Name (ent s a)" "en_Config (ent s' a) = en_Config (ent s a)"
    "en_Prefix (ent s' a) = en_Prefix (ent s a)" "en_Node (ent s' a) = en_Node (ent s a)" by blast+
  show "a < length (es_entries s')" "a \<notin> M \<Longrightarrow> en_Dir (ent s' a) = en_Dir (ent s a)"
    using assms unfolding kept_def by auto
qed

lemma kept_grown: "kept M s s' \<Longrightarrow> extended s s'" by (simp add: kept_def)

lemma update_middle:
  "key \<notin> fst ` set d0 \<Longrightarrow> AList.update key v (d0 @ (key, w) # d) = d0 @ (key, v) # d"
  by (induction d0) auto

text \<open>The new case \<open>p\<close> around the child \<open>c\<close> of the choice \<open>e\<close>: its node is new, has the parent, the name, the
  statement and the extensions of the child's node (where that is a node of the AST).\<close>

definition case_around :: "estate \<Rightarrow> estate \<Rightarrow> nat \<Rightarrow> nat \<Rightarrow> nat \<Rightarrow> bool" where
  "case_around s s' e c p \<longleftrightarrow> length (es_entries s) \<le> p \<and> p < length (es_entries s') \<and> (\<exists>cn x.
     ent s' p = blank\<lparr>en_Parent := Some e, en_Node := Some cn, en_Name := en_Name (ent s c), en_Kind := CaseEntry,
       en_Config := en_Config (ent s c), en_Prefix := en_Prefix (ent s c), en_Dir := Some [(en_Name (ent s c), c)],
       en_Extra := Some x\<rparr>
     \<and> length (es_heap s) \<le> cn \<and> cn < length (es_heap s') \<and> length (es_extras s) \<le> x \<and> x < length (es_extras s')
     \<and> (\<forall>n. en_Node (ent s c) = Some n \<and> n < length (es_heap s)
          \<longrightarrow> es_heap s' ! cn = case_node (es_heap s) (en_Node (ent s c))))"

text \<open>The \<open>Parent\<close> of \<open>c\<close> is a new case that holds it.\<close>

definition held :: "estate \<Rightarrow> estate \<Rightarrow> nat \<Rightarrow> bool" where
  "held s s' c \<longleftrightarrow> en_Kind (ent s c) \<noteq> CaseEntry \<and> (\<exists>p. en_Parent (ent s' c) = Some p \<and> length (es_entries s) \<le> p
     \<and> p < length (es_entries s') \<and> en_Kind (ent s' p) = CaseEntry \<and> en_Dir (ent s' p) = Some [(en_Name (ent s c), c)])"

definition linked :: "estate \<Rightarrow> estate \<Rightarrow> bool" where
  "linked s s' \<longleftrightarrow> (\<forall>a<length (es_entries s). en_Parent (ent s' a) = en_Parent (ent s a) \<or> held s s' a)"

lemma linked_refl [simp]: "linked s s" by (simp add: linked_def)

lemma case_node_kept: "extended s s' \<Longrightarrow> n < length (es_heap s) \<Longrightarrow> case_node (es_heap s') (Some n) = case_node (es_heap s) (Some n)"
  by (simp add: case_node_def ParentNode_def node_NName_def extended_nth)

lemma insert_case_effect:
  assumes "en_Kind (ent s c) \<noteq> CaseEntry" "c \<noteq> e" "e < length (es_entries s)" "c < length (es_entries s)"
    "en_Dir (ent s e) = Some (d0 @ (key, c) # d)" "key \<notin> fst ` set d0"
  defines "n \<equiv> length (es_entries s)" and "s' \<equiv> insert_case e key c s"
  shows "length (es_entries s') = Suc n" "en_Dir (ent s' e) = Some (d0 @ (key, n) # d)" "kept {e} s s'"
    "case_around s s' e c n" "held s s' c" "linked s s'"
proof -
  let ?h = "es_heap s" and ?ch = "ent s c"
  define ne where "ne = blank\<lparr>en_Parent := Some e, en_Node := Some (length ?h), en_Name := en_Name ?ch, en_Kind := CaseEntry,
       en_Config := en_Config ?ch, en_Prefix := en_Prefix ?ch, en_Dir := Some [(en_Name ?ch, c)],
       en_Extra := Some (length (es_extras s))\<rparr>"
  have ents: "es_entries s' = (es_entries s @ [ne])
      [c := (ent s c)\<lparr>en_Parent := Some n\<rparr>, e := (ent s e)\<lparr>en_Dir := Some (d0 @ (key, n) # d)\<rparr>]"
    using assms(1-6) unfolding s'_def n_def insert_case_def ne_def
    by (simp add: Let_def alloc_node_def new_extra_def alloc_def upd_def nth_append nth_list_update update_middle)
  have w: "es_w s' = (es_w s)\<lparr>w_ms := (es_ms s)\<lparr>ms_ast := (ms_ast (es_ms s))\<lparr>ast_nodes :=
        ?h @ [case_node ?h (en_Node ?ch)]\<rparr>\<rparr>\<rparr>" "es_extras s' = es_extras s @ replicate 1 []"
      "es_attrs s' = es_attrs s" "es_cache s' = es_cache s" "es_merged s' = es_merged s" "es_nextErr s' = es_nextErr s"
    using assms(1) by (simp_all add: s'_def insert_case_def Let_def alloc_node_def new_extra_def alloc_def upd_def)
  have ent: "ent s' a = (if a = n then ne else if a = e then (ent s e)\<lparr>en_Dir := Some (d0 @ (key, n) # d)\<rparr>
      else if a = c then (ent s c)\<lparr>en_Parent := Some n\<rparr> else ent s a)" if "a \<le> n" for a
    using that assms(2-4) unfolding ents n_def by (auto simp: nth_list_update nth_append)
  show len: "length (es_entries s') = Suc n" by (simp add: ents n_def)
  show "en_Dir (ent s' e) = Some (d0 @ (key, n) # d)" using assms(3) by (simp add: ent n_def)
  have g: "extended s s'" using w unfolding extended_def by blast
  have "bare (ent s' a) = bare (ent s a) \<and> (a \<notin> {e} \<longrightarrow> en_Dir (ent s' a) = en_Dir (ent s a))" if "a < n" for a
    using that by (simp add: ent bare_def)
  then show "kept {e} s s'" using g len by (simp add: kept_def n_def)
  show h: "held s s' c" using assms(1,2,4) len by (auto simp: held_def ent n_def ne_def)
  show "linked s s'" using h assms(2) unfolding linked_def by (auto simp: ent n_def)
  show "case_around s s' e c n"
    unfolding case_around_def
  proof (intro conjI exI)
    show "ent s' n = blank\<lparr>en_Parent := Some e, en_Node := Some (length ?h), en_Name := en_Name ?ch, en_Kind := CaseEntry,
       en_Config := en_Config ?ch, en_Prefix := en_Prefix ?ch, en_Dir := Some [(en_Name ?ch, c)],
       en_Extra := Some (length (es_extras s))\<rparr>" by (simp add: ent ne_def)
  qed (simp_all add: w n_def len [unfolded n_def])
qed

text \<open>What becomes of a child of the choice \<open>e\<close>: it stays, or a new case around it takes its place.\<close>

definition wrapped :: "estate \<Rightarrow> estate \<Rightarrow> nat \<Rightarrow> string \<times> nat \<Rightarrow> string \<times> nat \<Rightarrow> bool" where
  "wrapped s s' e x y \<longleftrightarrow> fst y = fst x \<and> snd y < length (es_entries s') \<and> en_Kind (ent s' (snd y)) = CaseEntry
     \<and> (if en_Kind (ent s (snd x)) = CaseEntry then snd y = snd x
        else case_around s s' e (snd x) (snd y) \<and> held s s' (snd x))"

lemma case_aroundD:
  assumes "case_around s s' e c p"
  shows "length (es_entries s) \<le> p" "p < length (es_entries s')" "en_Kind (ent s' p) = CaseEntry"
    "en_Dir (ent s' p) = Some [(en_Name (ent s c), c)]" "en_Parent (ent s' p) = Some e"
  using assms unfolding case_around_def by (auto simp: blank_def)

text \<open>The cases that are new in \<open>s1\<close> have the same children in \<open>s2\<close>.\<close>

definition cases_stay :: "estate \<Rightarrow> estate \<Rightarrow> estate \<Rightarrow> bool" where
  "cases_stay s s1 s2 \<longleftrightarrow> (\<forall>p<length (es_entries s1). length (es_entries s) \<le> p \<and> en_Kind (ent s1 p) = CaseEntry
     \<longrightarrow> en_Dir (ent s2 p) = en_Dir (ent s1 p))"

lemma kept_len: "kept M s s' \<Longrightarrow> length (es_entries s) \<le> length (es_entries s')" by (simp add: kept_def)

lemma held_later:
  assumes "held s s1 a" "kept M s1 s2" "cases_stay s s1 s2" "en_Parent (ent s2 a) = en_Parent (ent s1 a)"
  shows "held s s2 a"
  using assms keptD(2) [OF assms(2)] kept_len [OF assms(2)] unfolding held_def cases_stay_def by fastforce

lemma held_earlier:
  assumes "held s1 s2 a" "kept M s s1" "a < length (es_entries s)"
  shows "held s s2 a"
  using assms(1) keptD [OF assms(2,3)] kept_len [OF assms(2)] unfolding held_def by force

lemma held_trans:
  assumes "held s s1 a" "a < length (es_entries s)" "kept M s s1" "kept N s1 s2" "linked s1 s2" "cases_stay s s1 s2"
  shows "held s s2 a"
proof -
  have "a < length (es_entries s1)" by (rule keptD(1) [OF assms(3,2)])
  then show ?thesis
    using assms(5) held_later [OF assms(1,4,6)] held_earlier [OF _ assms(3,2)] unfolding linked_def by blast
qed

lemma linked_trans:
  assumes "linked s s1" "kept M s s1" "kept N s1 s2" "linked s1 s2" "cases_stay s s1 s2"
  shows "linked s s2"
  unfolding linked_def
proof (intro allI impI)
  fix a assume a: "a < length (es_entries s)"
  have "a < length (es_entries s1)" by (rule keptD(1) [OF assms(2) a])
  then have "en_Parent (ent s2 a) = en_Parent (ent s1 a) \<or> held s1 s2 a" using assms(4) unfolding linked_def by blast
  then show "en_Parent (ent s2 a) = en_Parent (ent s a) \<or> held s s2 a"
    using assms(1) a held_trans [OF _ a assms(2-5)] held_earlier [OF _ assms(2) a] unfolding linked_def by metis
qed

lemma entry_eqI: "bare x = bare y \<Longrightarrow> en_Parent x = en_Parent y \<Longrightarrow> en_Dir x = en_Dir y \<Longrightarrow> (x :: entry) = y"
  by (cases x; cases y; simp add: bare_def)

lemma case_around_later:
  assumes "case_around s s1 e c p" "kept M s1 s2" "linked s1 s2" "cases_stay s s1 s2"
  shows "case_around s s2 e c p"
proof -
  note p = case_aroundD [OF assms(1)]
  have "en_Parent (ent s2 p) = en_Parent (ent s1 p)" using assms(3) p(2,3) unfolding linked_def held_def by blast
  moreover have "en_Dir (ent s2 p) = en_Dir (ent s1 p)" using assms(4) p(1-3) unfolding cases_stay_def by blast
  moreover have "bare (ent s2 p) = bare (ent s1 p)" using assms(2) p(2) unfolding kept_def by blast
  ultimately have ent: "ent s2 p = ent s1 p" by (rule entry_eqI [rotated])
  obtain cn x where c: "ent s1 p = blank\<lparr>en_Parent := Some e, en_Node := Some cn, en_Name := en_Name (ent s c), en_Kind := CaseEntry,
       en_Config := en_Config (ent s c), en_Prefix := en_Prefix (ent s c), en_Dir := Some [(en_Name (ent s c), c)],
       en_Extra := Some x\<rparr>"
     "length (es_heap s) \<le> cn" "cn < length (es_heap s1)" "length (es_extras s) \<le> x" "x < length (es_extras s1)"
     "\<forall>n. en_Node (ent s c) = Some n \<and> n < length (es_heap s)
          \<longrightarrow> es_heap s1 ! cn = case_node (es_heap s) (en_Node (ent s c))"
    using assms(1) unfolding case_around_def by blast
  have "es_heap s2 ! cn = es_heap s1 ! cn" by (rule extended_nth [OF kept_grown [OF assms(2)] c(3)])
  moreover have "cn < length (es_heap s2)" "x < length (es_extras s2)"
    using extended_len [OF kept_grown [OF assms(2)]] c(3,5) by simp_all
  ultimately show ?thesis
    unfolding case_around_def using c p(1,2) kept_len [OF assms(2)] ent by (intro conjI exI [of _ cn] exI [of _ x]) simp_all
qed

lemma case_around_earlier:
  assumes "case_around s1 s2 e c p" "kept M s s1" "c < length (es_entries s)"
  shows "case_around s s2 e c p"
proof -
  note k = keptD [OF assms(2,3)] and g = kept_grown [OF assms(2)]
  obtain cn x where c: "ent s2 p = blank\<lparr>en_Parent := Some e, en_Node := Some cn, en_Name := en_Name (ent s c), en_Kind := CaseEntry,
       en_Config := en_Config (ent s c), en_Prefix := en_Prefix (ent s c), en_Dir := Some [(en_Name (ent s c), c)],
       en_Extra := Some x\<rparr>"
     "length (es_heap s1) \<le> cn" "cn < length (es_heap s2)" "length (es_extras s1) \<le> x" "x < length (es_extras s2)"
     "\<And>n. en_Node (ent s c) = Some n \<Longrightarrow> n < length (es_heap s1)
          \<Longrightarrow> es_heap s2 ! cn = case_node (es_heap s1) (en_Node (ent s c))"
    using assms(1) unfolding case_around_def k by blast
  have node: "es_heap s2 ! cn = case_node (es_heap s) (en_Node (ent s c))"
    if "en_Node (ent s c) = Some n" "n < length (es_heap s)" for n
    using c(6) [OF that(1)] that extended_len [OF g] case_node_kept [OF g that(2)] by simp
  show ?thesis
    unfolding case_around_def
    using c(1-5) extended_len [OF g] node case_aroundD(1,2) [OF assms(1)] kept_len [OF assms(2)]
    by (intro conjI exI [of _ cn] exI [of _ x]) auto
qed

lemma wrapped_later:
  assumes "wrapped s s1 e x y" "kept M s s1" "snd x < length (es_entries s)" "kept N s1 s2" "linked s1 s2" "cases_stay s s1 s2"
  shows "wrapped s s2 e x y"
proof -
  have y: "snd y < length (es_entries s1)" using assms(1) by (simp add: wrapped_def)
  show ?thesis
    using assms(1) keptD(1,2) [OF assms(4) y] case_around_later [OF _ assms(4-6)] held_trans [OF _ assms(3,2,4-6)]
    by (auto simp: wrapped_def)
qed

lemma wrapped_earlier:
  assumes "kept M s s1" "snd x < length (es_entries s)" "wrapped s1 s2 e x y"
  shows "wrapped s s2 e x y"
  using assms(3) keptD(2) [OF assms(1,2)] case_around_earlier [OF _ assms(1,2)] held_earlier [OF _ assms(1,2)]
  by (auto simp: wrapped_def split: if_splits)

definition extends_rank :: "(nat \<Rightarrow> nat) \<Rightarrow> estate \<Rightarrow> (nat \<Rightarrow> nat) \<Rightarrow> bool" where
  "extends_rank rk s rk' \<longleftrightarrow> (\<forall>a<length (es_entries s). rk' a = rk a)"

lemma roomy_insert:
  assumes "roomy rk s" "e < length (es_entries s)" "en_Kind (ent s e) = ChoiceEntry"
    "en_Dir (ent s e) = Some (d0 @ (key, c) # d)" "en_Kind (ent s c) \<noteq> CaseEntry"
  defines "n \<equiv> length (es_entries s)" and "s' \<equiv> insert_case e key c s"
  shows "roomy (rk(n := Suc (rk c))) s'"
proof -
  have de: "dir s e = d0 @ (key, c) # d" using assms(4) by (simp add: dir_def)
  have e: "distinct (List.map fst (d0 @ (key, c) # d))" "c < n" "rk c + 2 \<le> rk e"
      "\<And>b. b \<in> snd ` set (d0 @ d) \<Longrightarrow> b < n \<and> rk b < rk e \<and> (en_Kind (ent s b) \<noteq> CaseEntry \<longrightarrow> rk b + 2 \<le> rk e)"
    using roomyD [OF assms(1,2)] assms(3,5) unfolding de n_def by auto
  then have "c \<noteq> e" "key \<notin> fst ` set d0" by auto
  note eff = insert_case_effect [OF assms(5) this(1) assms(2) e(2) [unfolded n_def] assms(4) this(2), folded n_def s'_def]
  note cas = case_aroundD [OF eff(4)]
  have dirs: "dir s' a = (if a = n then [(en_Name (ent s c), c)] else if a = e then d0 @ (key, n) # d else dir s a)"
    if "a < Suc n" for a
    using that eff(2) cas(4) keptD(5) [OF eff(3), of a] assms(2) by (auto simp: dir_def n_def)
  have kinds: "en_Kind (ent s' a) = (if a = n then CaseEntry else en_Kind (ent s a))" if "a < Suc n" for a
    using that cas(3) keptD(2) [OF eff(3), of a] by (auto simp: n_def)
  show ?thesis
    unfolding roomy_def acyclic_entries_def eff(1)
  proof (intro conjI allI impI ballI)
    fix a assume a: "a < Suc n"
    show "distinct (List.map fst (dir s' a))"
      using dirs [OF a] e(1) roomyD(1) [OF assms(1), of a] a by (auto simp: n_def less_Suc_eq)
    fix b assume b: "b \<in> snd ` set (dir s' a)"
    have ab: "b < Suc n \<and> (rk(n := Suc (rk c))) b < (rk(n := Suc (rk c))) a \<and>
        (en_Kind (ent s' a) = ChoiceEntry \<and> en_Kind (ent s' b) \<noteq> CaseEntry \<longrightarrow> (rk(n := Suc (rk c))) b + 2 \<le> (rk(n := Suc (rk c))) a)"
    proof (cases "a = n")
      case True
      then show ?thesis using b dirs [OF a] kinds [OF a] e(2) by auto
    next
      case False
      then have an: "a < n" using a by simp
      show ?thesis
      proof (cases "a = e")
        case True
        then consider "b = n" | "b \<in> snd ` set (d0 @ d)" using b dirs [OF a] False by (auto simp: image_Un)
        then show ?thesis
        proof cases
          case 1
          then show ?thesis using e(3) kinds [of b] False True by simp
        next
          case 2
          then have "b < n" "rk b < rk e" "en_Kind (ent s b) \<noteq> CaseEntry \<Longrightarrow> rk b + 2 \<le> rk e" using e(4) by blast+
          then show ?thesis using kinds [of b] False True by simp
        qed
      next
        case no: False
        then have "b \<in> snd ` set (dir s a)" using b dirs [OF a] False by simp
        then show ?thesis using roomyD(2,3) [OF assms(1), of a b] an kinds [OF a] kinds [of b] by (auto simp: n_def)
      qed
    qed
    then show "b < Suc n" "(rk(n := Suc (rk c))) b < (rk(n := Suc (rk c))) a" by blast+
    assume "en_Kind (ent s' a) = ChoiceEntry \<and> en_Kind (ent s' b) \<noteq> CaseEntry"
    then show "(rk(n := Suc (rk c))) b + 2 \<le> (rk(n := Suc (rk c))) a" using ab by blast
  qed
qed

lemma insert_cases:
  assumes "roomy rk s" "e < length (es_entries s)" "en_Kind (ent s e) = ChoiceEntry" "en_Dir (ent s e) = Some (d0 @ d)"
  shows "\<exists>d' rk'. (let s' = fold (\<lambda>(key, ce). insert_case e key ce) d s in
    en_Dir (ent s' e) = Some (d0 @ d') \<and> list_all2 (wrapped s s' e) d d' \<and> kept {e} s s' \<and> linked s s'
      \<and> {length (es_entries s)..<length (es_entries s')} \<subseteq> snd ` set d' \<and> roomy rk' s' \<and> extends_rank rk s rk')"
  using assms
proof (induction d arbitrary: s d0 rk)
  case Nil
  then show ?case by (auto simp: extends_rank_def)
next
  case (Cons x d)
  obtain key c where x: "x = (key, c)" by force
  define s1 where "s1 = insert_case e key c s"
  have de: "dir s e = d0 @ (key, c) # d" using Cons.prems(4) by (simp add: dir_def x)
  have c: "c < length (es_entries s)" "c \<noteq> e" "key \<notin> fst ` set d0" "\<And>b. b \<in> snd ` set d \<Longrightarrow> b < length (es_entries s)"
    using roomyD [OF Cons.prems(1,2)] unfolding de by auto
  obtain c' rk1 where s1: "roomy rk1 s1" "extends_rank rk s rk1" "kept {e} s s1" "en_Dir (ent s1 e) = Some ((d0 @ [(key, c')]) @ d)"
      "wrapped s s1 e x (key, c')" "c' \<noteq> e" "linked s s1" "{length (es_entries s)..<length (es_entries s1)} \<subseteq> {c'}"
  proof (cases "en_Kind (ent s c) = CaseEntry")
    case True
    then have "s1 = s" by (simp add: s1_def insert_case_def)
    then show thesis using that [of rk c] Cons.prems c True by (simp add: x wrapped_def extends_rank_def)
  next
    case False
    note eff = insert_case_effect [OF False c(2) Cons.prems(2) c(1) Cons.prems(4) [unfolded x] c(3), folded s1_def]
    have "roomy (rk(length (es_entries s) := Suc (rk c))) s1"
      unfolding s1_def by (rule roomy_insert [OF Cons.prems(1-3) Cons.prems(4) [unfolded x] False])
    then show thesis
      using that [of "rk(length (es_entries s) := Suc (rk c))" "length (es_entries s)"] eff case_aroundD(3) [OF eff(4)] Cons.prems(2) False
      by (simp add: x wrapped_def extends_rank_def atLeastLessThanSuc)
  qed
  have len: "length (es_entries s) \<le> length (es_entries s1)" using s1(3) by (simp add: kept_def)
  obtain d' rk' where IH: "en_Dir (ent (fold (\<lambda>(key, ce). insert_case e key ce) d s1) e) = Some ((d0 @ [(key, c')]) @ d')"
      "list_all2 (wrapped s1 (fold (\<lambda>(key, ce). insert_case e key ce) d s1) e) d d'"
      "kept {e} s1 (fold (\<lambda>(key, ce). insert_case e key ce) d s1)"
      "linked s1 (fold (\<lambda>(key, ce). insert_case e key ce) d s1)"
      "{length (es_entries s1)..<length (es_entries (fold (\<lambda>(key, ce). insert_case e key ce) d s1))} \<subseteq> snd ` set d'"
      "roomy rk' (fold (\<lambda>(key, ce). insert_case e key ce) d s1)" "extends_rank rk1 s1 rk'"
    using Cons.IH [OF s1(1) _ _ s1(4)] keptD [OF s1(3) Cons.prems(2)] Cons.prems(3) by (auto simp: Let_def)
  define s' where "s' = fold (\<lambda>(key, ce). insert_case e key ce) d s1"
  note k1 = s1(3) and k2 = IH(3) [folded s'_def] and l2 = IH(4) [folded s'_def]
  have stay: "cases_stay s s1 s'"
    using keptD(5) [OF k2] Cons.prems(2) unfolding cases_stay_def by auto
  have "wrapped s s' e y z" if "y \<in> set d" "wrapped s1 s' e y z" for y z
    using wrapped_earlier [OF k1 c(4) that(2)] that(1) by blast
  then have "list_all2 (wrapped s s' e) d d'"
    using IH(2) unfolding s'_def by (metis (mono_tags, lifting) list.rel_mono_strong)
  moreover have "wrapped s s' e x (key, c')"
    by (rule wrapped_later [OF s1(5) k1 _ k2 l2 stay]) (simp add: x c(1))
  moreover have "kept {e} s s'" using kept_trans k1 k2 by blast
  moreover have "linked s s'" by (rule linked_trans [OF s1(7) k1 k2 l2 stay])
  moreover have "{length (es_entries s)..<length (es_entries s')} \<subseteq> snd ` set ((key, c') # d')"
    using s1(8) IH(5) [folded s'_def] by (fastforce simp: subset_iff not_less)
  moreover have "extends_rank rk s rk'" using s1(2) IH(7) len by (auto simp: extends_rank_def)
  ultimately show ?case
    using IH(1,6) by (intro exI [of _ "(key, c') # d'"] exI [of _ rk']) (simp add: x s'_def s1_def Let_def)
qed

subsection \<open>All choices\<close>

definition choice_ok :: "estate \<Rightarrow> nat \<Rightarrow> bool" where
  "choice_ok s a \<longleftrightarrow> (en_Kind (ent s a) = ChoiceEntry \<and> en_Errors (ent s a) = []
     \<longrightarrow> (\<forall>c\<in>snd ` set (dir s a). en_Kind (ent s c) = CaseEntry))"

inductive all_cases :: "estate \<Rightarrow> nat \<Rightarrow> bool" for s where
  all_cases: "choice_ok s a \<Longrightarrow> (\<And>c. c \<in> snd ` set (dir s a) \<Longrightarrow> all_cases s c) \<Longrightarrow> all_cases s a"

inductive_cases all_casesE: "all_cases s a"

text \<open>The relation between the states before and after: what is right stays, what is not gets its cases.\<close>

definition settled :: "estate \<Rightarrow> estate \<Rightarrow> bool" where
  "settled s s' \<longleftrightarrow> kept UNIV s s' \<and> linked s s'
     \<and> (\<forall>p<length (es_entries s'). length (es_entries s) \<le> p \<longrightarrow> (\<exists>a<length (es_entries s). p \<in> snd ` set (dir s' a)))
     \<and> (\<forall>a<length (es_entries s). (choice_ok s a \<longrightarrow> en_Dir (ent s' a) = en_Dir (ent s a))
         \<and> (en_Dir (ent s' a) = en_Dir (ent s a) \<or> choice_ok s' a \<and> list_all2 (wrapped s s' a) (dir s a) (dir s' a)))"

lemma settled_refl [simp]: "settled s s" by (simp add: settled_def)

lemma settledD:
  assumes "settled s s'"
  shows "kept UNIV s s'" "a < length (es_entries s) \<Longrightarrow> choice_ok s a \<Longrightarrow> en_Dir (ent s' a) = en_Dir (ent s a)"
    "a < length (es_entries s) \<Longrightarrow> en_Dir (ent s' a) = en_Dir (ent s a) \<or>
      choice_ok s' a \<and> list_all2 (wrapped s s' a) (dir s a) (dir s' a)"
    "linked s s'" "p < length (es_entries s') \<Longrightarrow> length (es_entries s) \<le> p
      \<Longrightarrow> \<exists>a<length (es_entries s). p \<in> snd ` set (dir s' a)"
  using assms unfolding settled_def by blast+

lemma kept_mono: "kept M s s' \<Longrightarrow> M \<subseteq> N \<Longrightarrow> kept N s s'"
  by (auto simp: kept_def)

lemma choice_ok_settled:
  assumes "settled s s'" "roomy rk s" "a < length (es_entries s)" "choice_ok s a"
  shows "choice_ok s' a"
proof -
  have "dir s' a = dir s a" using settledD(2) [OF assms(1,3,4)] by (simp add: dir_def)
  moreover have "en_Kind (ent s' c) = en_Kind (ent s c)" if "c \<in> snd ` set (dir s a)" for c
    using keptD [OF settledD(1) [OF assms(1)]] roomyD(2) [OF assms(2,3) that] by blast
  ultimately show ?thesis using assms(4) keptD [OF settledD(1) [OF assms(1)] assms(3)] by (simp add: choice_ok_def)
qed

lemma settled_stay: "settled s1 s2 \<Longrightarrow> cases_stay s s1 s2"
  using settledD(2) unfolding cases_stay_def choice_ok_def by fastforce

text \<open>A directory with an entry that is new has been settled.\<close>

lemma settled_new:
  assumes "settled s s1" "roomy rk s" "a < length (es_entries s)" "p \<in> snd ` set (dir s1 a)" "length (es_entries s) \<le> p"
  shows "choice_ok s1 a"
proof -
  have "p \<notin> snd ` set (dir s a)" using roomyD(2) [OF assms(2,3), of p] assms(5) by linarith
  then have "dir s1 a \<noteq> dir s a" using assms(4) by metis
  then show ?thesis using settledD(3) [OF assms(1,3)] by (auto simp: dir_def)
qed

lemma settled_trans:
  assumes "settled s s1" "settled s1 s2" "roomy rk s" "roomy rk1 s1"
  shows "settled s s2"
  unfolding settled_def
proof (intro conjI allI impI)
  note k1 = settledD(1) [OF assms(1)] and k2 = settledD(1) [OF assms(2)] and l2 = settledD(4) [OF assms(2)]
    and stay = settled_stay [OF assms(2), of s]
  show "kept UNIV s s2" using kept_trans k1 k2 by blast
  show "linked s s2" by (rule linked_trans [OF settledD(4) [OF assms(1)] k1 k2 l2 stay])
  show "\<exists>a<length (es_entries s). p \<in> snd ` set (dir s2 a)" if p: "p < length (es_entries s2)" "length (es_entries s) \<le> p" for p
  proof (cases "p < length (es_entries s1)")
    case True
    then obtain a where a: "a < length (es_entries s)" "p \<in> snd ` set (dir s1 a)" using settledD(5) [OF assms(1)] p(2) by blast
    have "dir s2 a = dir s1 a"
      using settledD(2) [OF assms(2) keptD(1) [OF k1 a(1)] settled_new [OF assms(1,3) a p(2)]] by (simp add: dir_def)
    then show ?thesis using a by (intro exI [of _ a]) simp
  next
    case False
    then obtain a where a: "a < length (es_entries s1)" "p \<in> snd ` set (dir s2 a)" using settledD(5) [OF assms(2)] p(1) by fastforce
    have "p \<notin> snd ` set (dir s1 a)" using roomyD(2) [OF assms(4) a(1), of p] False by blast
    then have ne: "dir s2 a \<noteq> dir s1 a" using a(2) by metis
    have "a < length (es_entries s)"
    proof (rule ccontr)
      assume "\<not> a < length (es_entries s)"
      then obtain b where b: "b < length (es_entries s)" "a \<in> snd ` set (dir s1 b)" "length (es_entries s) \<le> a"
        using settledD(5) [OF assms(1) a(1)] by auto
      have "en_Kind (ent s1 a) = CaseEntry"
      proof -
        have "a \<notin> snd ` set (dir s b)" using roomyD(2) [OF assms(3) b(1), of a] b(3) by linarith
        then have "dir s1 b \<noteq> dir s b" using b(2) by metis
        then have "list_all2 (wrapped s s1 b) (dir s b) (dir s1 b)" using settledD(3) [OF assms(1) b(1)] by (auto simp: dir_def)
        then show ?thesis using b(2) by (fastforce simp: list_all2_conv_all_nth in_set_conv_nth wrapped_def)
      qed
      then have "en_Dir (ent s2 a) = en_Dir (ent s1 a)" using settledD(2) [OF assms(2) a(1)] by (simp add: choice_ok_def)
      then show False using ne by (simp add: dir_def)
    qed
    then show ?thesis using a(2) by blast
  qed
  fix a assume a: "a < length (es_entries s)"
  have a1: "a < length (es_entries s1)" using keptD(1) [OF k1 a] .
  show "en_Dir (ent s2 a) = en_Dir (ent s a)" if "choice_ok s a"
    using settledD(2) [OF assms(1) a that] settledD(2) [OF assms(2) a1 choice_ok_settled [OF assms(1,3) a that]] by simp
  have old: "snd x < length (es_entries s)" if "x \<in> set (dir s a)" for x using roomyD(2) [OF assms(3) a] that by blast
  show "en_Dir (ent s2 a) = en_Dir (ent s a) \<or> choice_ok s2 a \<and> list_all2 (wrapped s s2 a) (dir s a) (dir s2 a)"
  proof (cases "en_Dir (ent s1 a) = en_Dir (ent s a)")
    case True
    then have d: "dir s1 a = dir s a" by (simp add: dir_def)
    have "wrapped s s2 a x y" if "x \<in> set (dir s a)" "wrapped s1 s2 a x y" for x y
      using wrapped_earlier [OF k1 old [OF that(1)] that(2)] .
    then have "list_all2 (wrapped s1 s2 a) (dir s1 a) (dir s2 a) \<Longrightarrow> list_all2 (wrapped s s2 a) (dir s a) (dir s2 a)"
      unfolding d by (metis (mono_tags, lifting) list.rel_mono_strong)
    then show ?thesis using settledD(3) [OF assms(2) a1] True by auto
  next
    case False
    then have ok: "choice_ok s1 a" "list_all2 (wrapped s s1 a) (dir s a) (dir s1 a)" using settledD(3) [OF assms(1) a] by auto
    then have d: "dir s2 a = dir s1 a" using settledD(2) [OF assms(2) a1] by (simp add: dir_def)
    have "list_all2 (wrapped s s2 a) (dir s a) (dir s2 a)"
      unfolding d using ok(2) wrapped_later [OF _ k1 old k2 l2 stay] by (metis (mono_tags, lifting) list.rel_mono_strong)
    then show ?thesis using choice_ok_settled [OF assms(2,4) a1 ok(1)] by blast
  qed
qed

lemma all_cases_settled:
  assumes "all_cases s a" "settled s s'" "roomy rk s" "a < length (es_entries s)"
  shows "all_cases s' a"
  using assms(1,4)
proof (induction rule: all_cases.induct)
  case (all_cases a)
  have d: "dir s' a = dir s a" using settledD(2) [OF assms(2) all_cases.prems all_cases.hyps(1)] by (simp add: dir_def)
  show ?case
  proof (rule all_cases.all_cases)
    show "choice_ok s' a" by (rule choice_ok_settled [OF assms(2,3) all_cases.prems all_cases.hyps(1)])
    fix c assume c: "c \<in> snd ` set (dir s' a)"
    then have "c < length (es_entries s)" using roomyD(2) [OF assms(3) all_cases.prems] d by simp
    then show "all_cases s' c" using all_cases.IH c d by simp
  qed
qed

lemma fix_children_settles:
  assumes "roomy rk s" "e < length (es_entries s)"
  shows "settled s (fix_children e s) \<and> choice_ok (fix_children e s) e
    \<and> (\<exists>rk'. roomy rk' (fix_children e s) \<and> extends_rank rk s rk')"
proof (cases "en_Kind (ent s e) = ChoiceEntry \<and> en_Errors (ent s e) = []")
  case False
  then have "fix_children e s = s" by (auto simp: fix_children_def)
  then show ?thesis using False assms by (auto simp: choice_ok_def extends_rank_def)
next
  case True
  then have f: "fix_children e s = fold (\<lambda>(key, ce). insert_case e key ce) (dir s e) s" by (simp add: fix_children_def)
  show ?thesis
  proof (cases "en_Dir (ent s e)")
    case None
    then show ?thesis using f assms by (auto simp: dir_def choice_ok_def extends_rank_def)
  next
    case (Some d)
    then have d: "dir s e = d" by (simp add: dir_def)
    obtain d' rk' where w: "en_Dir (ent (fix_children e s) e) = Some d'" "list_all2 (wrapped s (fix_children e s) e) d d'"
        "kept {e} s (fix_children e s)" "linked s (fix_children e s)"
        "{length (es_entries s)..<length (es_entries (fix_children e s))} \<subseteq> snd ` set d'" "roomy rk' (fix_children e s)" "extends_rank rk s rk'"
      using insert_cases [OF assms, of "[]" d] True Some f d by (auto simp: Let_def)
    have d': "dir (fix_children e s) e = d'" using w(1) by (simp add: dir_def)
    have ok: "choice_ok (fix_children e s) e"
      unfolding choice_ok_def d' using w(2) by (fastforce simp: list_all2_conv_all_nth in_set_conv_nth wrapped_def)
    have same: "d' = d" if "choice_ok s e"
    proof -
      have "y = x" if "x \<in> set d" "wrapped s (fix_children e s) e x y" for x y
        using that \<open>choice_ok s e\<close> True unfolding choice_ok_def d wrapped_def by (simp add: prod_eq_iff)
      then have "list_all2 (\<lambda>x y. y = x) d d'" using w(2) by (metis (mono_tags, lifting) list.rel_mono_strong)
      then show ?thesis by (simp add: list_all2_conv_all_nth list_eq_iff_nth_eq)
    qed
    have "settled s (fix_children e s)"
      unfolding settled_def
    proof (intro conjI allI impI)
      show "kept UNIV s (fix_children e s)" by (rule kept_mono [OF w(3)]) simp
      show "linked s (fix_children e s)" by (rule w(4))
      show "\<exists>a<length (es_entries s). p \<in> snd ` set (dir (fix_children e s) a)"
        if "p < length (es_entries (fix_children e s))" "length (es_entries s) \<le> p" for p
        using w(5) that assms(2) d' by (intro exI [of _ e]) auto
      fix a assume a: "a < length (es_entries s)"
      show "en_Dir (ent (fix_children e s) a) = en_Dir (ent s a)" if "choice_ok s a"
        using keptD(5) [OF w(3) a] same that w(1) Some by (cases "a = e") auto
      show "en_Dir (ent (fix_children e s) a) = en_Dir (ent s a) \<or>
          choice_ok (fix_children e s) a \<and> list_all2 (wrapped s (fix_children e s) a) (dir s a) (dir (fix_children e s) a)"
        using keptD(5) [OF w(3) a] ok w(2) d d' by (cases "a = e") auto
    qed
    then show ?thesis using ok w(6,7) by blast
  qed
qed

lemma FixChoice_settles:
  assumes "roomy rk s" "e < length (es_entries s)" "rk e < k"
  shows "\<exists>s' rk'. FixChoice k e s = Done s' \<and> settled s s' \<and> all_cases s' e \<and> roomy rk' s' \<and> extends_rank rk s rk'"
  using assms
proof (induction k arbitrary: e s rk)
  case (Suc k)
  have loop: "\<exists>s' rk'. fix_list k cs s = Done s' \<and> settled s s' \<and> (\<forall>c\<in>set cs. all_cases s' c) \<and> roomy rk' s' \<and> extends_rank rk s rk'"
    if "roomy rk s" "\<And>c. c \<in> set cs \<Longrightarrow> c < length (es_entries s) \<and> rk c < k" for cs s rk
    using that
  proof (induction cs arbitrary: s rk)
    case Nil
    then show ?case by (auto simp: extends_rank_def)
  next
    case (Cons c cs)
    obtain s1 rk1 where c: "FixChoice k c s = Done s1" "settled s s1" "all_cases s1 c" "roomy rk1 s1" "extends_rank rk s rk1"
      using Suc.IH [OF Cons.prems(1), of c] Cons.prems(2) [of c] by auto
    have len: "length (es_entries s) \<le> length (es_entries s1)" using settledD(1) [OF c(2)] by (simp add: kept_def)
    have "b < length (es_entries s1) \<and> rk1 b < k" if "b \<in> set cs" for b
      using Cons.prems(2) [of b] that len c(5) by (auto simp: extends_rank_def)
    then obtain s2 rk2 where cs: "fix_list k cs s1 = Done s2" "settled s1 s2" "\<forall>c\<in>set cs. all_cases s2 c" "roomy rk2 s2"
        "extends_rank rk1 s1 rk2"
      using Cons.IH [OF c(4)] by blast
    have "c < length (es_entries s1)" using Cons.prems(2) [of c] len by auto
    then have "all_cases s2 c" by (rule all_cases_settled [OF c(3) cs(2) c(4)])
    moreover have "extends_rank rk s rk2" using c(5) cs(5) len by (auto simp: extends_rank_def)
    ultimately show ?case using c(1) cs settled_trans [OF c(2) cs(2) Cons.prems(1) c(4)] by auto
  qed
  define s1 where "s1 = fix_children e s"
  obtain rk1 where f: "settled s s1" "choice_ok s1 e" "roomy rk1 s1" "extends_rank rk s rk1"
    using fix_children_settles [OF Suc.prems(1,2)] unfolding s1_def by blast
  have e1: "e < length (es_entries s1)" using keptD(1) [OF settledD(1) [OF f(1)] Suc.prems(2)] .
  have "c < length (es_entries s1) \<and> rk1 c < k" if "c \<in> set (List.map snd (dir s1 e))" for c
    using roomyD(2) [OF f(3) e1, of c] that f(4) Suc.prems(2,3) by (auto simp: extends_rank_def)
  then obtain s2 rk2 where l: "fix_list k (List.map snd (dir s1 e)) s1 = Done s2" "settled s1 s2"
      "\<forall>c\<in>set (List.map snd (dir s1 e)). all_cases s2 c" "roomy rk2 s2" "extends_rank rk1 s1 rk2"
    using loop [OF f(3)] by blast
  have d: "dir s2 e = dir s1 e" using settledD(2) [OF l(2) e1 f(2)] by (simp add: dir_def)
  have "all_cases s2 e"
  proof (rule all_cases.all_cases)
    show "choice_ok s2 e" by (rule choice_ok_settled [OF l(2) f(3) e1 f(2)])
    show "all_cases s2 c" if "c \<in> snd ` set (dir s2 e)" for c using l(3) that unfolding d set_map by blast
  qed
  moreover have "extends_rank rk s rk2"
    using f(4) l(5) settledD(1) [OF f(1)] by (auto simp: extends_rank_def kept_def)
  ultimately show ?case
    using l settled_trans [OF f(1) l(2) Suc.prems(1) f(3)] by (auto simp: s1_def [symmetric] Let_def)
qed simp


definition bare_choice :: "entry list" where
  "bare_choice =
     [blank\<lparr>en_Name := ''m'', en_Kind := DirectoryEntry, en_Dir := Some [(''ch'', 1)]\<rparr>,
      blank\<lparr>en_Name := ''ch'', en_Kind := ChoiceEntry, en_Dir := Some [(''x'', 2)], en_Parent := Some 0, en_Node := None\<rparr>,
      blank\<lparr>en_Name := ''x'', en_Parent := Some 1\<rparr>]"


end
