(* ===== verification/EntryWalks.thy ===== *)
theory EntryWalks
  imports Convert EntryTrees
begin

text \<open>
  Walks over entries. Upwards, \<open>ReadOnly\<close>, \<open>Namespace\<close>, \<open>Path\<close> and the search for the root are
  functions of the list of an entry and its ancestors; downwards, \<open>Find\<close> follows the names that
  \<open>Path\<close> prints.
\<close>

subsection \<open>Up\<close>

inductive ancestors :: "estate \<Rightarrow> nat \<Rightarrow> nat list \<Rightarrow> bool" for s where
  root: "en_Parent (ent s a) = None \<Longrightarrow> ancestors s a [a]"
| child: "en_Parent (ent s a) = Some p \<Longrightarrow> ancestors s p as \<Longrightarrow> ancestors s a (a # as)"

lemma ancestors_not_Nil [simp]: "\<not> ancestors s a []"
  by (auto elim: ancestors.cases)

lemma ancestors_hd: "ancestors s a as \<Longrightarrow> \<exists>bs. as = a # bs"
  by (auto elim: ancestors.cases)

definition decides_config :: "entry \<Rightarrow> bool" where
  "decides_config x \<longleftrightarrow> en_Kind x = OutputEntry \<or> en_Config x \<noteq> TSUnset"

definition read_only_of :: "entry list \<Rightarrow> bool" where
  "read_only_of xs = (case List.find decides_config xs of
     None \<Rightarrow> False | Some x \<Rightarrow> en_Kind x = OutputEntry \<or> en_Config x = TSFalse)"

lemma ReadOnly_ancestors:
  "ancestors s a as \<Longrightarrow> length as < k \<Longrightarrow> ReadOnly k s (Some a) = Done (read_only_of (List.map (ent s) as))"
proof (induction arbitrary: k rule: ancestors.induct)
  case (root a)
  then obtain j where "k = Suc (Suc j)" by (metis One_nat_def length_Cons less_iff_Suc_add list.size(3) add_Suc plus_1_eq_Suc)
  then show ?case
    using root by (cases "en_Config (ent s a)") (auto simp: read_only_of_def decides_config_def TriState_Value_def)
next
  case (child a p as)
  then obtain j where "k = Suc j" "length as < j" by (cases k) auto
  then show ?case
    using child by (cases "en_Config (ent s a)") (auto simp: read_only_of_def decides_config_def TriState_Value_def)
qed

definition namespace_of :: "entry list \<Rightarrow> nsval option" where
  "namespace_of xs = (case List.find (\<lambda>x. en_namespace x \<noteq> None) xs of None \<Rightarrow> None | Some x \<Rightarrow> en_namespace x)"

lemma ns_walk_ancestors:
  "ancestors s a as \<Longrightarrow> length as \<le> k \<Longrightarrow>
     ns_walk k s a = Done (case namespace_of (List.map (ent s) (butlast as)) of Some v \<Rightarrow> Inl v | None \<Rightarrow> Inr (last as))"
proof (induction arbitrary: k rule: ancestors.induct)
  case (root a)
  then show ?case by (cases k) (auto simp: namespace_of_def)
next
  case (child a p as)
  then obtain j where k: "k = Suc j" "length as \<le> j" by (cases k) auto
  have "as \<noteq> []" using child.hyps(2) by auto
  then show ?case
    using child k by (auto simp: namespace_of_def split: option.splits)
qed

lemma entry_root_ancestors: "ancestors s a as \<Longrightarrow> length as \<le> k \<Longrightarrow> entry_root k s a = Done (last as)"
proof (induction arbitrary: k rule: ancestors.induct)
  case (root a)
  then show ?case by (cases k) auto
next
  case (child a p as)
  then obtain j where k: "k = Suc j" "length as \<le> j" by (cases k) auto
  have "as \<noteq> []" using child.hyps(2) by auto
  then show ?case using child k by auto
qed

definition path_text :: "string list \<Rightarrow> string" where
  "path_text ns = concat (List.map (\<lambda>n. ''/'' @ n) ns)"

lemma entry_Path_ancestors:
  "ancestors s a as \<Longrightarrow> length as < k \<Longrightarrow> entry_Path k s (Some a) = Done (path_text (List.map (\<lambda>x. en_Name (ent s x)) (rev as)))"
proof (induction arbitrary: k rule: ancestors.induct)
  case (root a)
  then obtain j where "k = Suc (Suc j)" by (metis One_nat_def length_Cons less_iff_Suc_add list.size(3) add_Suc plus_1_eq_Suc)
  then show ?case using root by (auto simp: path_text_def)
next
  case (child a p as)
  then obtain j where "k = Suc j" "length as < j" by (cases k) auto
  then show ?case using child by (auto simp: path_text_def)
qed

subsection \<open>Down\<close>

definition plain :: "string \<Rightarrow> bool" where
  "plain n \<longleftrightarrow> n \<noteq> [] \<and> n \<noteq> ''.'' \<and> n \<noteq> ''..'' \<and> CHR ''/'' \<notin> set n \<and> CHR '':'' \<notin> set n"

inductive child_path :: "estate \<Rightarrow> nat \<Rightarrow> string list \<Rightarrow> nat \<Rightarrow> bool" for s where
  here: "child_path s a [] a"
| down: "map_of (dir s a) n = Some c \<Longrightarrow> en_Name (ent s c) = n \<Longrightarrow> plain n \<Longrightarrow> en_Parent (ent s c) = Some a
    \<Longrightarrow> en_RPC (ent s a) = None \<Longrightarrow> child_path s c ns b \<Longrightarrow> child_path s a (n # ns) b"

lemma getPrefix_plain: "plain n \<Longrightarrow> getPrefix n = ([], n)"
  using go_index_char_None [of n "CHR '':''"] by (simp add: getPrefix_def go_split2_def plain_def)

lemma child_path_plain: "child_path s a ns b \<Longrightarrow> n \<in> set ns \<Longrightarrow> plain n"
  by (induction rule: child_path.induct) auto

lemma find_parts_down: "child_path s a ns b \<Longrightarrow> find_entry_parts s (Some a) ns = Some b"
  by (induction rule: child_path.induct) (auto simp: getPrefix_plain, auto simp: plain_def)

lemma find_parts_None [simp]: "find_entry_parts s None ps = None"
  by (cases ps) simp_all

lemma find_parts_append:
  "find_entry_parts s e (ps @ qs) = find_entry_parts s (find_entry_parts s e ps) qs"
proof (induction ps arbitrary: e)
  case (Cons part ps)
  then show ?case by (cases e) (simp_all add: Let_def split: option.split prod.split)
qed simp

lemma find_parts_up:
  "child_path s a ns b \<Longrightarrow> find_entry_parts s (Some b) (replicate (length ns) ''..'') = Some a"
proof (induction rule: child_path.induct)
  case (down a n c ns b)
  have "replicate (length (n # ns)) ''..'' = replicate (length ns) ''..'' @ [''..'']"
    by (simp add: replicate_append_same)
  then show ?case using down by (simp only: find_parts_append) simp
qed simp

lemma Path_down:
  "child_path s a ns b \<Longrightarrow> entry_Path j s (Some a) = Done p
   \<Longrightarrow> entry_Path (j + length ns) s (Some b) = Done (p @ path_text ns)"
proof (induction arbitrary: j p rule: child_path.induct)
  case (down a n c ns b)
  have "entry_Path (Suc j) s (Some c) = Done (p @ ''/'' @ n)" using down.hyps down.prems by simp
  from down.IH [OF this] show ?case by (simp add: path_text_def)
qed (simp add: path_text_def)

lemma path_text_join: "ns \<noteq> [] \<Longrightarrow> path_text ns = ''/'' @ go_join ns ''/''"
  by (induction ns rule: induct_list012) (auto simp: path_text_def)

lemma Find_relative:
  assumes "ns \<noteq> []" "\<And>n. n \<in> set ns \<Longrightarrow> CHR ''/'' \<notin> set n" "hd ns \<noteq> []"
  shows "entry_Find k env (Some a) (go_join ns ''/'') s = Done (find_entry_parts s (Some a) ns, s)"
proof -
  have split: "go_split (go_join ns ''/'') ''/'' = ns" using assms(1,2) by (intro go_split_join) auto
  have "go_join ns ''/'' \<noteq> []" using assms(1,3) by (cases ns rule: list.exhaust; cases "tl ns") auto
  then show ?thesis using assms(3) by (simp add: entry_Find_def split)
qed

lemma Find_absolute:
  assumes "ns \<noteq> []" "\<And>n. n \<in> set ns \<Longrightarrow> plain n" "entry_root (Suc (length (es_entries s))) s c = Done a"
  shows "entry_Find k env (Some c) (path_text ns) s = Done (find_entry_parts s (Some a) ns, s)"
proof -
  have "go_split (path_text ns) ''/'' = [] # ns"
  proof -
    have "path_text ns = go_join ([] # ns) ''/''" using assms(1) by (simp add: path_text_join go_join_cons)
    then show ?thesis using assms(2) by (simp only:, intro go_split_join) (auto simp: plain_def)
  qed
  moreover have "fst (getPrefix (([] # ns) ! 1)) = []"
    using assms(1,2) by (cases ns) (auto simp: getPrefix_plain)
  moreover have "path_text ns \<noteq> []" using assms(1) by (simp add: path_text_join)
  ultimately show ?thesis using assms(3) by (simp add: entry_Find_def)
qed

lemma plain_dots: "CHR ''/'' \<notin> set ''..''" by simp

text \<open>C8: \<open>Find\<close> follows what \<open>Path\<close> prints. Let \<open>b\<close> be below \<open>a\<close> on a path of directories that are
  not rpcs, with names that hold no slash or colon and are not dots, the names being the keys and the
  parents linked back. Then the path of \<open>b\<close> is that of \<open>a\<close> with the names appended; \<open>Find\<close> from \<open>a\<close>
  with the names joined gives \<open>b\<close>; from \<open>b\<close> with as many \<open>..\<close> it gives \<open>a\<close>; and when \<open>a\<close> is a
  root, \<open>Find\<close> from any entry under that root with the absolute path gives \<open>b\<close>.\<close>

theorem find_path:
  assumes "child_path s a ns b" "ns \<noteq> []"
  shows "(\<forall>j p. entry_Path j s (Some a) = Done p \<longrightarrow> entry_Path (j + length ns) s (Some b) = Done (p @ path_text ns))
    \<and> entry_Find k env (Some a) (go_join ns ''/'') s = Done (Some b, s)
    \<and> entry_Find k env (Some b) (go_join (replicate (length ns) ''..'') ''/'') s = Done (Some a, s)
    \<and> (\<forall>c. entry_root (Suc (length (es_entries s))) s c = Done a \<longrightarrow>
          entry_Find k env (Some c) (path_text ns) s = Done (Some b, s))"
proof (intro conjI allI impI)
  have plain: "plain n" if "n \<in> set ns" for n using child_path_plain [OF assms(1) that] .
  show "entry_Path (j + length ns) s (Some b) = Done (p @ path_text ns)" if "entry_Path j s (Some a) = Done p" for j p
    by (rule Path_down [OF assms(1) that])
  have "hd ns \<noteq> []" using plain [of "hd ns"] assms(2) by (simp add: plain_def)
  then have "entry_Find k env (Some a) (go_join ns ''/'') s = Done (find_entry_parts s (Some a) ns, s)"
    using assms(2) plain by (intro Find_relative) (auto simp: plain_def)
  then show "entry_Find k env (Some a) (go_join ns ''/'') s = Done (Some b, s)" by (simp add: find_parts_down [OF assms(1)])
  have "entry_Find k env (Some b) (go_join (replicate (length ns) ''..'') ''/'') s
      = Done (find_entry_parts s (Some b) (replicate (length ns) ''..''), s)"
    using assms(2) by (intro Find_relative) auto
  then show "entry_Find k env (Some b) (go_join (replicate (length ns) ''..'') ''/'') s = Done (Some a, s)"
    by (simp add: find_parts_up [OF assms(1)])
  show "entry_Find k env (Some c) (path_text ns) s = Done (Some b, s)"
    if "entry_root (Suc (length (es_entries s))) s c = Done a" for c
    using Find_absolute [OF assms(2) plain that] by (simp add: find_parts_down [OF assms(1)])
qed

text \<open>C9: The walks up are functions of the list of the entry and its ancestors. With fuel for that
  list, \<open>ReadOnly\<close> is decided by the nearest entry that is an rpc output or has a config value, and
  is false without one; \<open>Namespace\<close> is that of the nearest entry below the root that has one of its
  own, and else comes from the module of the root; the root is the last of the list; and \<open>Path\<close>
  is the names in reverse order, each after a slash.\<close>

theorem walks_up:
  assumes "ancestors s a as" "length as < k"
  shows "ReadOnly k s (Some a) = Done (read_only_of (List.map (ent s) as))
    \<and> entry_Namespace k s a = (case namespace_of (List.map (ent s) (butlast as)) of
        Some v \<Rightarrow> Done (Some v) | None \<Rightarrow> root_namespace (es_ms s) (en_Node (ent s (last as))))
    \<and> entry_root k s a = Done (last as)
    \<and> entry_Path k s (Some a) = Done (path_text (List.map (\<lambda>x. en_Name (ent s x)) (rev as)))"
  using ReadOnly_ancestors [OF assms] ns_walk_ancestors [OF assms(1), of k] entry_root_ancestors [OF assms(1), of k]
    entry_Path_ancestors [OF assms] assms(2)
  by (auto simp: entry_Namespace_def split: option.split)

definition small_schema :: "entry list" where
  "small_schema =
     [blank\<lparr>en_Name := ''m'', en_Kind := DirectoryEntry, en_Dir := Some [(''c'', 1)]\<rparr>,
      blank\<lparr>en_Name := ''c'', en_Kind := DirectoryEntry, en_Dir := Some [(''x'', 2)], en_Parent := Some 0,
        en_Config := TSFalse, en_namespace := Some NsEmpty\<rparr>,
      blank\<lparr>en_Name := ''x'', en_Parent := Some 1\<rparr>]"

lemma small_entries:
  "dir (state_of small_schema) 0 = [(''c'', 1)]" "dir (state_of small_schema) 1 = [(''x'', 2)]"
  "en_Name (ent (state_of small_schema) 1) = ''c''" "en_Name (ent (state_of small_schema) 2) = ''x''"
  "en_Parent (ent (state_of small_schema) 0) = None"
  "en_Parent (ent (state_of small_schema) 1) = Some 0" "en_Parent (ent (state_of small_schema) 2) = Some 1"
  "en_RPC (ent (state_of small_schema) 0) = None" "en_RPC (ent (state_of small_schema) 1) = None"
  by (simp_all add: state_of_def small_schema_def dir_def blank_def)

lemma small_path: "child_path (state_of small_schema) 0 [''c'', ''x''] 2"
  by (rule child_path.down [where c = 1], simp_all only: small_entries, simp_all add: plain_def,
      rule child_path.down [where c = 2], simp_all add: small_entries [simplified One_nat_def] plain_def child_path.here)

lemma small_ancestors: "ancestors (state_of small_schema) 2 [2, 1, 0]"
  by (rule ancestors.child, rule small_entries, rule ancestors.child, rule small_entries, rule ancestors.root, rule small_entries)

theorem find_path_witness:
  "entry_Find 0 no_env (Some 0) ''c/x'' (state_of small_schema) = Done (Some 2, state_of small_schema)
   \<and> entry_Find 0 no_env (Some 2) ''../..'' (state_of small_schema) = Done (Some 0, state_of small_schema)
   \<and> entry_Find 0 no_env (Some 2) ''/c/x'' (state_of small_schema) = Done (Some 2, state_of small_schema)
   \<and> entry_Path 4 (state_of small_schema) (Some 2) = Done ''/m/c/x''"
proof -
  have "entry_root (Suc (length (es_entries (state_of small_schema)))) (state_of small_schema) 2 = Done 0"
    by (simp add: state_of_def small_schema_def blank_def eval_nat_numeral)
  moreover have "entry_Path 2 (state_of small_schema) (Some 0) = Done ''/m''"
    by (simp add: state_of_def small_schema_def blank_def eval_nat_numeral)
  moreover have "go_join [''c'', ''x''] ''/'' = ''c/x''" "go_join (replicate (length [''c'', ''x'']) ''..'') ''/'' = ''../..''"
      "path_text [''c'', ''x''] = ''/c/x''" "''/m'' @ path_text [''c'', ''x''] = ''/m/c/x''" "2 + length [''c'', ''x''] = 4"
    by (simp_all add: path_text_def)
  ultimately show ?thesis
    using find_path [OF small_path, of 0 no_env] by (metis list.discI)
qed

theorem walks_up_witness:
  "ReadOnly 4 (state_of small_schema) (Some 2) = Done True
   \<and> entry_Namespace 4 (state_of small_schema) 2 = Done (Some NsEmpty)"
proof -
  have "read_only_of (List.map (ent (state_of small_schema)) [2, 1, 0])"
      "namespace_of (List.map (ent (state_of small_schema)) (butlast [2, 1, 0])) = Some NsEmpty"
    by (simp_all add: state_of_def small_schema_def blank_def read_only_of_def decides_config_def namespace_of_def)
  then show ?thesis using walks_up [OF small_ancestors, of 4] by simp
qed

end
