(* ===== verification/EntryErrors.thy ===== *)
theory EntryErrors
  imports EntryMerge
begin

text \<open>
  \<open>GetErrors\<close> delivers the errors of the tree of an entry, each once; what hangs on an rpc is not
  part of that tree.
\<close>

lemma checkErrors_tree:
  "tree_of k s e = Some t \<Longrightarrow> \<exists>es. checkErrors k s e = Done es \<and> set es = set (tree_errors t)"
proof (induction k arbitrary: e t)
  case (Suc k)
  have loop: "\<exists>es. check_children k s (List.map snd d) = Done es \<and> set es = set (trees_errors ts)"
    if "trees_of k s d = Some ts" for d ts
    using that
  proof (induction d arbitrary: ts)
    case (Cons x d)
    obtain key v where x: "x = (key, v)" by force
    obtain u us where u: "tree_of k s v = Some u" "trees_of k s d = Some us" "ts = (key, u) # us"
      using Cons.prems x by (auto split: option.splits)
    then show ?case using Suc.IH [OF u(1)] Cons.IH [OF u(2)] x by auto
  qed simp
  have kids: "trees_of k s (dir s e) = Some (kids t)" "content t = bare (ent s e)"
    using kids_trees [OF Suc.prems] by simp_all
  have "set (tree_errors t) = set (en_Errors (ent s e)) \<union> set (trees_errors (kids t))"
    using kids(2) by (cases t rule: tree_errors.cases) (auto simp: kids_def content_def bare_def)
  then show ?case using loop [OF kids(1)] by auto
qed simp

lemma unseen_set:
  assumes "\<forall>x\<in>set errs. \<forall>y\<in>set errs. fst x = fst y \<longrightarrow> snd x = snd y"
  shows "set (unseen seen errs) = snd ` {x \<in> set errs. fst x \<notin> seen}"
  using assms
proof (induction seen errs rule: unseen.induct)
  case (2 seen i err errs)
  have same: "snd x = err" if "x \<in> set errs" "fst x = i" for x
    using 2(3) that by (metis fst_conv list.set_intros snd_conv)
  show ?case
  proof (cases "i \<in> seen")
    case True
    then show ?thesis using 2 by auto
  next
    case False
    have "set (unseen seen ((i, err) # errs)) = insert err (snd ` {x \<in> set errs. fst x \<notin> insert i seen})"
      using 2(2) [OF False] 2(3) False by simp
    also have "\<dots> = insert err (snd ` {x \<in> set errs. fst x \<notin> seen})" using same by force
    finally show ?thesis using False by (auto simp: image_iff)
  qed
qed simp

text \<open>C7: \<open>GetErrors\<close> loses nothing. For an entry with a tree whose error objects are told apart by
  their identities it returns the errors of the tree: every error of the entry and of the entries
  below it, and no others. If the messages name file, line and column and differ for different errors,
  each error comes once, in the order of file, line, column and message.\<close>

theorem get_errors:
  assumes "tree_of k s e = Some t"
    and "\<forall>x\<in>set (tree_errors t). \<forall>y\<in>set (tree_errors t). fst x = fst y \<longrightarrow> snd x = snd y"
  shows "\<exists>errs. GetErrors k msg_of s e = Done errs \<and> set errs = snd ` set (tree_errors t)
    \<and> ((\<forall>x\<in>set errs. located (msg_of x)) \<and> inj_on msg_of (set errs) \<longrightarrow>
        distinct errs \<and> sorted (List.map (\<lambda>x. error_key (msg_of x)) errs))"
proof -
  obtain es where es: "checkErrors k s e = Done es" "set es = set (tree_errors t)"
    using checkErrors_tree [OF assms(1)] by blast
  have u: "set (unseen {} es) = snd ` set (tree_errors t)" 
    using unseen_set [OF assms(2) [folded es(2)], of "{}"] unfolding es(2) by simp
  let ?errs = "errorSort msg_of (unseen {} es)"
  have set: "set ?errs = snd ` set (tree_errors t)" using u by (simp add: errorSort_eq)
  have "distinct ?errs \<and> sorted (List.map (\<lambda>x. error_key (msg_of x)) ?errs)"
    if "\<forall>x\<in>set ?errs. located (msg_of x)" "inj_on msg_of (set ?errs)"
  proof -
    have "set ?errs = set (unseen {} es)" using u set by simp
    then show ?thesis using errorSort_located that by metis
  qed
  moreover have "GetErrors k msg_of s e = Done ?errs" by (simp add: GetErrors_def es(1))
  ultimately show ?thesis using set by blast
qed

definition wrong_schema :: "entry list" where
  "wrong_schema =
     [blank\<lparr>en_Name := ''m'', en_Kind := DirectoryEntry, en_Dir := Some [(''x'', 1)],
        en_Errors := [(0, ENilStatement ''b''), (1, ENilStatement ''a'')]\<rparr>,
      blank\<lparr>en_Name := ''x'', en_Parent := Some 0, en_Errors := [(1, ENilStatement ''a'')]\<rparr>]"

theorem get_errors_witness:
  "\<exists>errs. GetErrors 2 (\<lambda>_. []) (state_of wrong_schema) 0 = Done errs \<and> set errs = {ENilStatement ''a'', ENilStatement ''b''}"
proof -
  define t where "t = Tree (blank\<lparr>en_Name := ''m'', en_Kind := DirectoryEntry,
        en_Errors := [(0, ENilStatement ''b''), (1, ENilStatement ''a'')]\<rparr>)
      (Some [(''x'', Tree (blank\<lparr>en_Name := ''x'', en_Errors := [(1, ENilStatement ''a'')]\<rparr>) None)])"
  have t: "tree_of 2 (state_of wrong_schema) 0 = Some t"
    by (simp add: t_def state_of_def wrong_schema_def blank_def bare_def eval_nat_numeral)
  have e: "set (tree_errors t) = {(0, ENilStatement ''b''), (1, ENilStatement ''a'')}"
    by (auto simp: t_def)
  show ?thesis using get_errors [OF t, of "\<lambda>_. []"] unfolding e by auto
qed

text \<open>The errors of the input of an rpc are found neither by \<open>GetErrors\<close> nor by \<open>importErrors\<close>.\<close>

definition rpc_schema :: "entry list" where
  "rpc_schema =
     [blank\<lparr>en_Name := ''r'', en_Kind := DirectoryEntry, en_Dir := Some [], en_RPC := Some (Some 1, None)\<rparr>,
      blank\<lparr>en_Name := ''input'', en_Kind := InputEntry, en_Dir := Some [], en_Parent := Some 0,
        en_Errors := [(0, ENilStatement ''a'')]\<rparr>]"

lemma rpc_errors_lost: "GetErrors 5 msg_of (state_of rpc_schema) 0 = Done []"
  by (simp add: GetErrors_def state_of_def rpc_schema_def blank_def dir_def eval_nat_numeral errorSort_def)

end
