(* ===== verification/Frames.thy ===== *)
theory Frames
  imports Process
begin

text \<open>
  What \<open>ToEntry\<close> leaves alone. \<open>frame n s s'\<close>: the entries below \<open>n\<close> keep the fields that
  \<open>retains\<close> lists (directory, augments, deviations, uses, config, mandatory, node, type and others), the store of entries only grows, and the cache loses
  nothing. The helpers of \<open>ToEntry\<close> are parametrised by the recursive call, so the contract of that
  call is a locale and the frames of the helpers are lemmas in it.
\<close>

subsection \<open>The frame\<close>

definition retains :: "entry \<Rightarrow> entry \<Rightarrow> bool" where
  "retains x y \<longleftrightarrow> en_Dir y = en_Dir x \<and> en_Augments y = en_Augments x \<and> en_Augmented y = en_Augmented x
     \<and> en_Deviations y = en_Deviations x \<and> en_Deviate y = en_Deviate x \<and> en_Uses y = en_Uses x
     \<and> en_Config y = en_Config x \<and> en_Mandatory y = en_Mandatory x \<and> en_Node y = en_Node x
     \<and> en_Type y = en_Type x \<and> en_Units y = en_Units x \<and> en_Description y = en_Description x
     \<and> en_Key y = en_Key x \<and> en_Identities y = en_Identities x \<and> en_hasMin y = en_hasMin x
     \<and> en_hasMax y = en_hasMax x \<and> en_Extra y = en_Extra x \<and> en_namespace y = en_namespace x"

definition frame :: "nat \<Rightarrow> estate \<Rightarrow> estate \<Rightarrow> bool" where
  "frame n s s' \<longleftrightarrow> n \<le> length (es_entries s) \<and> length (es_entries s) \<le> length (es_entries s')
     \<and> (\<forall>a<n. retains (ent s a) (ent s' a)) \<and> (\<forall>m e. es_cache s m = Some e \<longrightarrow> es_cache s' m = Some e)"

named_theorems frames \<open>frames of the operations\<close>

lemma retains_refl [simp]: "retains x x" by (simp add: retains_def)

lemma frame_refl: "n \<le> length (es_entries s) \<Longrightarrow> frame n s s" by (simp add: frame_def)

lemma frame_len: "frame n s s' \<Longrightarrow> n \<le> length (es_entries s')" by (simp add: frame_def)

lemma frame_trans: "frame n s s1 \<Longrightarrow> frame n s1 s2 \<Longrightarrow> frame n s s2"
  by (auto simp: frame_def retains_def)

lemma frame_mono: "frame m s s' \<Longrightarrow> n \<le> m \<Longrightarrow> frame n s s'"
  by (auto simp: frame_def)

lemma ent_upd_if: "ent (upd e f s) a = (if a = e \<and> e < length (es_entries s) then f (ent s e) else ent s a)"
  by (cases "e < length (es_entries s)") (auto simp: upd_def list_update_beyond)

lemma frame_upd: "frame n s s' \<Longrightarrow> n \<le> e \<or> (\<forall>x. retains x (f x)) \<Longrightarrow> frame n s (upd e f s')"
  unfolding frame_def ent_upd_if
  by (cases "e < length (es_entries s')") (auto simp: upd_def retains_def)

lemma frame_alloc: "frame n s s' \<Longrightarrow> frame n s (snd (alloc x s'))" "n \<le> length (es_entries s') \<Longrightarrow> n \<le> fst (alloc x s')"
  unfolding frame_def by (auto simp: alloc_def nth_append)

lemma frame_stores [simp]:
  "frame n s (s'\<lparr>es_w := w\<rparr>) = frame n s s'" "frame n s (s'\<lparr>es_attrs := ats\<rparr>) = frame n s s'"
  "frame n s (s'\<lparr>es_extras := ex\<rparr>) = frame n s s'" "frame n s (s'\<lparr>es_merged := mg\<rparr>) = frame n s s'"
  "frame n s (s'\<lparr>es_nextErr := i\<rparr>) = frame n s s'"
  by (simp_all add: frame_def)

lemma frame_errorf: "frame n s s' \<Longrightarrow> frame n s (errorf e err s')"
  unfolding errorf_def add_errs_def by (simp add: frame_upd retains_def)

lemma frame_add_errs: "frame n s s' \<Longrightarrow> frame n s (add_errs e errs s')"
  unfolding add_errs_def by (simp add: frame_upd retains_def)

lemma frame_addError: "frame n s s' \<Longrightarrow> frame n s (addError e err s')"
  by (cases err) (simp_all add: addError_def frame_errorf)

lemma frame_add_errors: "frame n s s' \<Longrightarrow> frame n s (add_errors e errs s')"
  unfolding add_errors_def by (induction errs arbitrary: s') (simp_all add: frame_errorf)

lemma frame_run_list:
  assumes "\<And>x s s'. x \<in> set xs \<Longrightarrow> n \<le> length (es_entries s) \<Longrightarrow> f x s = Done s' \<Longrightarrow> frame n s s'"
    and "run_list f xs s = Done s'" "n \<le> length (es_entries s)"
  shows "frame n s s'"
  using assms
proof (induction xs arbitrary: s)
  case (Cons x xs)
  obtain s1 where s1: "f x s = Done s1" "run_list f xs s1 = Done s'" using Cons.prems(2) by (auto simp: bind_run_Done)
  have f: "frame n s s1" using Cons.prems(1) [OF _ Cons.prems(3) s1(1)] by simp
  have "frame n s1 s'"
    by (rule Cons.IH [OF _ s1(2) frame_len [OF f]]) (use Cons.prems(1) in auto)
  with f show ?case by (rule frame_trans)
qed (simp add: frame_refl)

subsection \<open>Operations on entries\<close>

lemma frame_importErrors:
  "importErrors k e c s = Done s' \<Longrightarrow> n \<le> length (es_entries s) \<Longrightarrow> frame n s s'"
  "import_children k e cs s = Done s' \<Longrightarrow> n \<le> length (es_entries s) \<Longrightarrow> frame n s s'"
proof (induction k e c s and k e cs s arbitrary: s' and s' rule: importErrors_import_children.induct)
  case (2 k e c s)
  let ?s1 = "add_errs e (en_Errors (ent s c)) s"
  have f: "frame n s ?s1" by (rule frame_add_errs [OF frame_refl [OF 2(3)]])
  have "frame n ?s1 s'" using 2(1) [OF refl _ frame_len [OF f]] 2(2) by (simp add: Let_def)
  with f show ?case by (rule frame_trans)
next
  case (4 k e c cs s)
  then obtain s1 where s1: "importErrors k e c s = Done s1" "import_children k e cs s1 = Done s'" by (auto simp: bind_run_Done)
  have f: "frame n s s1" by (rule 4(1) [OF s1(1) 4(4)])
  show ?case by (rule frame_trans [OF f 4(2) [OF s1 frame_len [OF f]]])
qed (simp_all add: frame_refl)

lemma frame_dup:
  "dup k e s = Done (ne, s') \<Longrightarrow> n \<le> length (es_entries s) \<Longrightarrow> frame n s s' \<and> n \<le> ne"
  "dup_children k ne d s = Done s' \<Longrightarrow> n \<le> length (es_entries s) \<Longrightarrow> n \<le> ne \<Longrightarrow> frame n s s'"
proof (induction k e s and k ne d s arbitrary: ne s' and s' rule: dup_dup_children.induct)
  case (2 k e s)
  let ?a = "alloc (ent s e) s"
  have a: "frame n s (snd ?a)" "n \<le> fst ?a" 
    using frame_alloc(1) [OF frame_refl [OF 2(3)]] frame_alloc(2) [OF 2(3)] by blast+
  show ?case
  proof (cases "en_Dir (ent s e)")
    case None
    then show ?thesis using 2(2) a by (cases ?a) auto
  next
    case (Some d)
    define s1 where "s1 = upd (fst ?a) (\<lambda>x. x\<lparr>en_Dir := Some []\<rparr>) (snd ?a)"
    have f: "frame n s s1" unfolding s1_def by (rule frame_upd [OF a(1)]) (use a(2) in simp)
    have d: "dup_children k (fst ?a) d s1 = Done s'" "ne = fst ?a"
      using 2(2) Some by (auto simp: Let_def bind_run_Done s1_def split: prod.splits)
    have "frame n s1 s'"
      unfolding s1_def
      by (rule 2(1) [OF refl _ Some]) (use d(1) frame_len [OF f] a(2) in \<open>simp_all add: s1_def\<close>)
    then show ?thesis using frame_trans [OF f] d(2) a(2) by blast
  qed
next
  case (4 k ne key v d s)
  then obtain de s1 where s1: "dup k v s = Done (de, s1)"
      "dup_children k ne d (upd ne (\<lambda>x. x\<lparr>en_Dir := map_option (\<lambda>dd. AList.update key de dd) (en_Dir x)\<rparr>)
           (upd de (\<lambda>x. x\<lparr>en_Parent := Some ne\<rparr>) s1)) = Done s'" by (auto simp: bind_run_Done)
  let ?s2 = "upd ne (\<lambda>x. x\<lparr>en_Dir := map_option (\<lambda>dd. AList.update key de dd) (en_Dir x)\<rparr>)
           (upd de (\<lambda>x. x\<lparr>en_Parent := Some ne\<rparr>) s1)"
  have f: "frame n s s1" using 4(1) [OF s1(1) 4(4)] by blast
  have f2: "frame n s ?s2" by (intro frame_upd [OF frame_upd [OF f]]) (use 4(5) in \<open>simp_all add: retains_def\<close>)
  show ?case by (rule frame_trans [OF f2 4(2) [OF s1(1) refl s1(2) frame_len [OF f2] 4(5)]])
qed (simp_all add: frame_refl)

lemma frame_shallow_children: "n \<le> ne \<Longrightarrow> frame n s0 s \<Longrightarrow> frame n s0 (shallow_children ne d s)"
proof (induction ne d s rule: shallow_children.induct)
  case (2 ne key v d s)
  let ?a = "alloc ((ent s v)\<lparr>en_Dir := None, en_Parent := Some ne\<rparr>) s"
  have "frame n s0 (upd ne (\<lambda>x. x\<lparr>en_Dir := map_option (\<lambda>dd. AList.update key (fst ?a) dd) (en_Dir x)\<rparr>) (snd ?a))"
    by (rule frame_upd [OF frame_alloc(1) [OF 2(3)]]) (use 2(2) in simp)
  then show ?case using 2(1) [OF refl prod.collapse 2(2)] by (simp add: Let_def split_beta)
qed simp

lemma frame_shallowDup:
  assumes "frame n s0 s"
  shows "frame n s0 (snd (shallowDup e s)) \<and> n \<le> fst (shallowDup e s)"
proof -
  let ?a = "alloc (ent s e) s"
  have a: "frame n s0 (snd ?a)" "n \<le> fst ?a" using frame_alloc(1) [OF assms] frame_alloc(2) [OF frame_len [OF assms]] by blast+
  then show ?thesis
    using frame_shallow_children [OF a(2) frame_upd [OF a(1)]]
    by (auto simp: shallowDup_def split_beta split: option.split)
qed

lemma frame_merge_child:
  assumes "n \<le> e" "n \<le> v" "frame n s0 s"
  shows "frame n s0 (merge_child prefix ns e oe key v s)"
  using assms by (auto simp: merge_child_def Let_def intro!: frame_upd frame_errorf split: option.split)

lemma frame_merge_loop:
  "merge_loop k prefix ns e oe d s = Done s' \<Longrightarrow> n \<le> length (es_entries s) \<Longrightarrow> n \<le> e \<Longrightarrow> frame n s s'"
proof (induction k prefix ns e oe d s rule: merge_loop.induct)
  case (2 k prefix ns e oe key v d s)
  then obtain v' s1 where s1: "dup k v s = Done (v', s1)"
      "merge_loop k prefix ns e oe d (merge_child prefix ns e oe key v' s1) = Done s'" by auto
  have d: "frame n s s1 \<and> n \<le> v'" by (rule frame_dup(1) [OF s1(1) 2(3)])
  then have f: "frame n s (merge_child prefix ns e oe key v' s1)" using frame_merge_child 2(4) by blast
  show ?case by (rule frame_trans [OF f 2(1) [OF s1(1) refl s1(2) frame_len [OF f] 2(4)]])
qed (simp add: frame_refl)

lemma frame_merge:
  assumes "entry_merge k prefix ns e oe s = Done s'" "n \<le> length (es_entries s)" "n \<le> e"
  shows "frame n s s'"
proof -
  obtain s1 where s1: "importErrors k e oe s = Done s1" "merge_loop k prefix ns e oe (dir s1 oe) s1 = Done s'"
    using assms(1) by (auto simp: entry_merge_def split: if_splits)
  have f: "frame n s s1" by (rule frame_importErrors(1) [OF s1(1) assms(2)])
  show ?thesis by (rule frame_trans [OF f frame_merge_loop [OF s1(2) frame_len [OF f] assms(3)]])
qed

lemma frame_add:
  assumes "entry_add e key v s = Done s'" "n \<le> e" "frame n s0 s"
  shows "frame n s0 s'"
  using assms by (auto simp: entry_add_def Let_def retains_def intro!: frame_upd frame_errorf split: option.splits if_splits)

lemma frame_newDirectory: "frame n s0 s \<Longrightarrow> frame n s0 (snd (newDirectory m s)) \<and> n \<le> fst (newDirectory m s)"
  by (auto simp: newDirectory_def new_extra_def intro!: frame_alloc(1) dest: frame_len) (auto simp: alloc_def dest: frame_len)

lemma frame_newLeaf: "frame n s0 s \<Longrightarrow> frame n s0 (snd (newLeaf m s)) \<and> n \<le> fst (newLeaf m s)"
  by (auto simp: newLeaf_def new_extra_def intro!: frame_alloc(1) dest: frame_len) (auto simp: alloc_def dest: frame_len)

lemma frame_newError: "frame n s0 s \<Longrightarrow> frame n s0 (snd (newError m err s)) \<and> n \<le> fst (newError m err s)"
  by (auto simp: newError_def split_beta intro!: frame_errorf frame_alloc dest: frame_len)

end
