(* ===== verification/ToEntryFrame.thy ===== *)
theory ToEntryFrame
  imports Frames
begin

text \<open>
  The frame of \<open>ToEntry\<close>. The helpers of \<open>ToEntry\<close> take the recursive call as an argument; the
  locale \<open>converter\<close> is the contract of that call, and each helper is shown to keep what is below the
  entry \<open>e\<close> it builds.
\<close>

lemma frame_extras:
  assumes "addToExtrasSlice name vs e s = Done s'" "frame n s0 s"
  shows "frame n s0 s'"
  using assms by (auto simp: addToExtrasSlice_def Let_def split: option.splits)

lemma frame_extra_keywords:
  assumes "addExtraKeywordsToLeafEntry m e s = Done s'" "n \<le> length (es_entries s)"
  shows "frame n s s'"
proof -
  have "frame n s s'" if "leaf_extra m e f s = Done s'" "n \<le> length (es_entries s)" for f s s'
    using that by (auto simp: leaf_extra_def split: if_splits intro: frame_extras frame_refl)
  then show ?thesis
    using frame_run_list [OF _ assms(1) [unfolded addExtraKeywordsToLeafEntry_def] assms(2)] by blast
qed

lemma frame_resolve_type: "resolve_type k env t s = Done (errs, s') \<Longrightarrow> frame n s0 s \<Longrightarrow> frame n s0 s'"
  by (auto simp: resolve_type_def split: option.splits)

lemma frame_set_list_attr: "frame n s0 s \<Longrightarrow> frame n s0 (set_list_attr m e s)"
  by (auto simp: set_list_attr_def Let_def split_beta retains_def intro!: frame_addError frame_upd)

lemma frame_leaf_entry:
  assumes "leaf_entry k env m s = Done (r, s')" "n \<le> length (es_entries s)"
  shows "frame n s s'"
proof -
  let ?l = "newLeaf m s"
  have l: "frame n s (snd ?l)" "n \<le> fst ?l" using frame_newLeaf [OF frame_refl [OF assms(2)]] by blast+
  obtain errs s2 where s2: "resolve_type k env (ptr (es_heap (snd ?l)) m ''Type'') (snd ?l) = Done (errs, s2)"
    using assms(1) by (auto simp: leaf_entry_def Let_def split_beta)
  have f2: "frame n s s2" by (rule frame_resolve_type [OF s2 l(1)])
  obtain s5 s6 where s6: "addExtraKeywordsToLeafEntry m (fst ?l) s5 = Done s6" "frame n s s5"
      "s' = addError (fst ?l) (snd (tristateValue (es_heap s2) m (ptr (es_heap s2) m ''Mandatory'')))
         (upd (fst ?l) (\<lambda>x. x\<lparr>en_Mandatory := fst (tristateValue (es_heap s2) m (ptr (es_heap s2) m ''Mandatory''))\<rparr>) s6)"
    using assms(1) s2 l(2) f2
    by (auto simp: leaf_entry_def Let_def split_beta intro!: frame_upd frame_addError frame_add_errors)
  have "frame n s s6"
    by (rule frame_trans [OF s6(2) frame_extra_keywords [OF s6(1) frame_len [OF s6(2)]]])
  then show ?thesis unfolding s6(3) using l(2) by (intro frame_addError frame_upd) simp_all
qed

lemma frame_start_directory:
  assumes "n \<le> length (es_entries s)"
  shows "frame n s (snd (start_directory m s)) \<and> n \<le> fst (start_directory m s)"
  using frame_newDirectory [OF frame_refl [OF assms], of m]
  by (auto simp: start_directory_def Let_def split_beta intro!: frame_upd frame_set_list_attr)

lemma frame_deviate_type:
  assumes "deviate_type k env m e s = Done s'" "n \<le> e" "frame n s0 s"
  shows "frame n s0 s'"
  using assms
  by (auto simp: deviate_type_def intro!: frame_upd frame_errorf split: if_splits option.splits dest: frame_resolve_type)

lemma frame_deviate_elements: "n \<le> e \<Longrightarrow> frame n s0 s \<Longrightarrow> frame n s0 (deviate_elements mx e v s)"
  by (auto simp: deviate_elements_def Let_def split_beta intro!: frame_upd frame_addError split: option.split)

definition steps_frame :: "nat \<Rightarrow> estate \<Rightarrow> (bool \<times> estate) run \<Rightarrow> bool" where
  "steps_frame n s r \<longleftrightarrow> (\<forall>b s'. r = Done (b, s') \<longrightarrow> frame n s s')"

lemma steps_if: "(c \<Longrightarrow> steps_frame n s x) \<Longrightarrow> (\<not> c \<Longrightarrow> steps_frame n s y) \<Longrightarrow> steps_frame n s (if c then x else y)"
  by simp

locale converter =
  fixes te :: toentry
  assumes te_frame: "te a s = Done (r, s') \<Longrightarrow> frame (length (es_entries s)) s s'"
begin

lemma te: "te a s = Done (r, s') \<Longrightarrow> n \<le> length (es_entries s) \<Longrightarrow> frame n s s'"
  by (rule frame_mono [OF te_frame])

lemma child: "add_child te e a s = Done s' \<Longrightarrow> n \<le> e \<Longrightarrow> n \<le> length (es_entries s) \<Longrightarrow> frame n s s'"
  by (auto simp: add_child_def split: option.splits intro: frame_add dest: te)

lemma augment: "add_augment te e a s = Done s' \<Longrightarrow> n \<le> e \<Longrightarrow> n \<le> length (es_entries s) \<Longrightarrow> frame n s s'"
  by (auto simp: add_augment_def retains_def split: option.splits intro!: frame_upd dest: te)

lemma grouping:
  assumes "check_grouping k te e a s = Done s'" "n \<le> length (es_entries s)"
  shows "frame n s s'"
  using assms(1)
  by (auto simp: check_grouping_def split: option.splits dest: te [OF _ assms(2)])
    (meson te [OF _ assms(2)] frame_trans frame_len frame_importErrors(1))

lemma included:
  assumes "add_include k env te e nname i s = Done s'" "n \<le> e" "n \<le> length (es_entries s)"
  shows "frame n s s'"
proof -
  have step: "frame n s s'" if "te m (s\<lparr>es_merged := mg\<rparr>) = Done (Some v, s1)" "entry_merge k p None e v s1 = Done s'" for m mg v s1 p
  proof -
    have "frame n (s\<lparr>es_merged := mg\<rparr>) s1" by (rule te [OF that(1)]) (use assms(3) in simp)
    then have f: "frame n s s1" by (simp add: frame_def)
    show ?thesis by (rule frame_trans [OF f frame_merge [OF that(2) frame_len [OF f] assms(2)]])
  qed
  show ?thesis
    using assms(1) frame_refl [OF assms(3)] step
    by (fastforce simp: add_include_def Let_def split: option.splits if_splits intro: frame_errorf)
qed

lemma rpc:
  assumes "add_rpc te e a s = Done s'" "n \<le> e" "n \<le> length (es_entries s)"
  shows "frame n s s'"
proof -
  obtain v s1 where v: "te a s = Done (Some v, s1)"
      "entry_add e (nd_name (es_heap s ! a)) v
         (if en_RPC (ent s1 v) = None then upd v (\<lambda>x. x\<lparr>en_RPC := Some (None, None)\<rparr>) s1 else s1) = Done s'"
    using assms(1) unfolding add_rpc_def by (auto simp del: if_split split: option.splits)
  have "frame n s s1" by (rule te [OF v(1) assms(3)])
  then have "frame n s (if en_RPC (ent s1 v) = None then upd v (\<lambda>x. x\<lparr>en_RPC := Some (None, None)\<rparr>) s1 else s1)"
    by (simp add: frame_upd retains_def)
  then show ?thesis by (rule frame_add [OF v(2) assms(2)])
qed

lemma inout: "add_inout te out e a s = Done s' \<Longrightarrow> n \<le> e \<Longrightarrow> n \<le> length (es_entries s) \<Longrightarrow> frame n s s'"
  by (auto simp: add_inout_def Let_def retains_def split: option.splits intro!: frame_upd dest: te)

lemma uses:
  assumes "add_uses k env te e a s = Done s'" "n \<le> e" "n \<le> length (es_entries s)"
  shows "frame n s s'"
proof -
  obtain r s1 where r: "te a s = Done (r, s1)" using assms(1) by (auto simp: add_uses_def)
  have f: "frame n s s1" by (rule te [OF r assms(3)])
  show ?thesis
  proof (cases r)
    case None
    then show ?thesis using assms(1) r f by (simp add: add_uses_def)
  next
    case (Some g)
    then obtain s2 where s2: "entry_merge k None None e g s1 = Done s2"
        "s' = (if StoreUses (tv_opts env) then
          upd e (\<lambda>x. x\<lparr>en_Uses := en_Uses x @ [(a, fst (shallowDup g s2))]\<rparr>) (snd (shallowDup g s2)) else s2)"
      using assms(1) r by (cases "StoreUses (tv_opts env)") (auto simp: add_uses_def Let_def split_beta)
    have f2: "frame n s s2" by (rule frame_trans [OF f frame_merge [OF s2(1) frame_len [OF f] assms(2)]])
    then show ?thesis using s2(2) frame_shallowDup [OF f2] assms(2) by (simp add: frame_upd)
  qed
qed

lemma add_deviation_te:
  assumes "add_deviation k env te e d s = Done s'"
  obtains v path s1 where "te d s = Done (Some v, s1)" "node_source_arg (es_heap s1) d = Some path"
proof -
  obtain r s1 where r: "te d s = Done (r, s1)" using assms by (auto simp: add_deviation_def)
  show thesis
    using that r assms by (cases r; cases "node_source_arg (es_heap s1) d") (auto simp: add_deviation_def)
qed

lemma add_deviate_te:
  assumes "add_deviate te m e d s = Done s'"
  obtains v arg s1 where "te d s = Done (Some v, s1)" "node_source_arg (es_heap s1) d = Some arg"
proof -
  obtain r s1 where r: "te d s = Done (r, s1)" using assms by (auto simp: add_deviate_def)
  show thesis
    using that r assms by (cases r; cases "node_source_arg (es_heap s1) d") (auto simp: add_deviate_def)
qed

lemma deviation:
  assumes "add_deviation k env te e d s = Done s'" "n \<le> e" "n \<le> length (es_entries s)"
  shows "frame n s s'"
proof -
  obtain v path s1 where te_d: "te d s = Done (Some v, s1)" "node_source_arg (es_heap s1) d = Some path"
    using assms(1) by (rule add_deviation_te)
  obtain s2 where v: "te d s = Done (Some v, s1)" "importErrors k e v s1 = Done s2"
      "run_list (\<lambda>sd s. case ptr (es_heap s) sd ''Type'' of None \<Rightarrow> Done s
          | Some t \<Rightarrow> bind_run (resolve_type k env (Some t) s) (\<lambda>(_, s'). Done s'))
        (field (es_heap s2) d ''Deviate'') (upd e (\<lambda>x. x\<lparr>en_Deviations := en_Deviations x @ [(path, v)]\<rparr>) s2) = Done s'"
    using assms(1) te_d by (auto simp: add_deviation_def)
  have f: "frame n s s1" by (rule te [OF v(1) assms(3)])
  have f2: "frame n s s2" by (rule frame_trans [OF f frame_importErrors(1) [OF v(2) frame_len [OF f]]])
  let ?s3 = "upd e (\<lambda>x. x\<lparr>en_Deviations := en_Deviations x @ [(path, v)]\<rparr>) s2"
  have f3: "frame n s ?s3" by (rule frame_upd [OF f2]) (use assms(2) in simp)
  have "frame n ?s3 s'"
    by (rule frame_run_list [OF _ v(3) frame_len [OF f3]])
      (auto split: option.splits intro: frame_resolve_type [OF _ frame_refl] frame_refl)
  with f3 show ?thesis by (rule frame_trans)
qed

lemma deviate:
  assumes "add_deviate te m e d s = Done s'" "n \<le> e" "n \<le> length (es_entries s)"
  shows "frame n s s'"
proof -
  obtain v arg s1 where v: "te d s = Done (Some v, s1)" "node_source_arg (es_heap s1) d = Some arg"
    using assms(1) by (rule add_deviate_te)
  have f: "frame n s s1" by (rule te [OF v(1) assms(3)])
  show ?thesis
    using assms(1) v f assms(2)
    by (cases "map_of toDeviation arg") (auto simp: add_deviate_def intro: frame_upd frame_errorf)
qed

lemma field_step_frame:
  assumes "field_step k env te m e f s = Done (b, s')" "n \<le> e" "n \<le> length (es_entries s)"
  shows "frame n s s'"
proof -
  have lists: "frame n s s1" if "run_list g xs s = Done s1" "\<And>x s s'. g x s = Done s' \<Longrightarrow> n \<le> length (es_entries s) \<Longrightarrow> frame n s s'"
    for g xs s1
    by (rule frame_run_list [OF _ that(1) assms(3)]) (rule that(2))
  have self: "frame n s s" by (rule frame_refl [OF assms(3)])
  obtain fname ftype yang where f: "f = (fname, ftype, yang)" by (cases f)
  have "steps_frame n s (field_step k env te m e f s)"
    unfolding field_step_def f Let_def prod.case
    by (intro steps_if)
      (auto simp: steps_frame_def split_beta self assms(2) intro!: frame_upd frame_errorf frame_addError frame_deviate_elements
        intro: lists frame_deviate_type frame_extras
        dest: child [OF _ assms(2)] augment [OF _ assms(2)] grouping included [OF _ assms(2)] rpc [OF _ assms(2)]
          inout [OF _ assms(2)] uses [OF _ assms(2)] deviation [OF _ assms(2)] deviate [OF _ assms(2)])
  then show ?thesis using assms(1) by (simp add: steps_frame_def)
qed

lemma field_loop_frame:
  "field_loop k env te m e fs found s = Done (b, s') \<Longrightarrow> n \<le> e \<Longrightarrow> n \<le> length (es_entries s) \<Longrightarrow> frame n s s'"
proof (induction fs arbitrary: found s)
  case (Cons f fs)
  then obtain c s1 where s1: "field_step k env te m e f s = Done (c, s1)" "field_loop k env te m e fs (found \<or> c) s1 = Done (b, s')"
    by auto
  have f: "frame n s s1" by (rule field_step_frame [OF s1(1) Cons.prems(2,3)])
  show ?case by (rule frame_trans [OF f Cons.IH [OF s1(2) Cons.prems(2) frame_len [OF f]]])
qed (simp add: frame_refl)

lemma directory_frame:
  assumes "directory_entry k env te m s = Done (r, s')" "n \<le> length (es_entries s)"
  shows "frame n s s'"
proof -
  let ?d = "start_directory m s"
  have d: "frame n s (snd ?d)" "n \<le> fst ?d" using frame_start_directory [OF assms(2)] by blast+
  obtain found s2 where s2: "field_loop k env te m (fst ?d) (fields_back (es_heap (snd ?d)) m) False (snd ?d) = Done (found, s2)"
    using assms(1) by (auto simp: directory_entry_def Let_def split_beta)
  have f: "frame n s s2" by (rule frame_trans [OF d(1) field_loop_frame [OF s2 d(2) frame_len [OF d(1)]]])
  show ?thesis
    using assms(1) s2 f d(2) frame_newError [OF f]
    by (auto simp: directory_entry_def Let_def split_beta intro!: frame_upd split: if_splits)
qed

lemma leaf_list_frame:
  assumes "leaf_list_entry te m s = Done (r, s')" "n \<le> length (es_entries s)"
  shows "frame n s s'"
proof -
  let ?l = "alloc_node (leaf_of_list (es_heap s) m) s"
  have l: "frame n s (snd ?l)" using frame_refl [OF assms(2)] by (simp add: alloc_node_def Let_def)
  obtain r1 s2 where s2: "te (fst ?l) (snd ?l) = Done (r1, s2)"
    using assms(1) by (auto simp: leaf_list_entry_def split_beta)
  have f: "frame n s s2" by (rule frame_trans [OF l te [OF s2 frame_len [OF l]]])
  show ?thesis
    using assms(1) s2 frame_set_list_attr [OF f]
    by (cases r1) (auto simp: leaf_list_entry_def split_beta Let_def retains_def intro!: frame_upd)
qed

lemma uses_entry_frame:
  assumes "uses_entry k env te m s = Done (r, s')" "n \<le> length (es_entries s)"
  shows "frame n s s'"
proof (cases "\<exists>g seen. FindGrouping k (es_heap s) (Some m) (nd_name (es_heap s ! m)) {} = Some (Inr (Some g, seen))")
  case False
  then show ?thesis
    using assms(1) frame_refl [OF assms(2)] frame_newError [OF frame_refl [OF assms(2)]]
    by (auto simp: uses_entry_def split_beta split: option.splits sum.splits prod.splits if_splits)
next
  case True
  then obtain g seen where g: "FindGrouping k (es_heap s) (Some m) (nd_name (es_heap s ! m)) {} = Some (Inr (Some g, seen))" by blast
  obtain r1 s1 where s1: "te g s = Done (r1, s1)" using assms(1) g by (auto simp: uses_entry_def)
  have f: "frame n s s1" by (rule te [OF s1 assms(2)])
  obtain ge where "r1 = Some ge" using assms(1) g s1 by (cases r1) (auto simp: uses_entry_def)
  then obtain e s2 where s2: "dup k ge s1 = Done (e, s2)" "addExtraKeywordsToLeafEntry m e s2 = Done s'"
    using assms(1) g s1 by (auto simp: uses_entry_def)
  have f2: "frame n s s2" using frame_trans [OF f] frame_dup(1) [OF s2(1) frame_len [OF f]] by blast
  show ?thesis by (rule frame_trans [OF f2 frame_extra_keywords [OF s2(2) frame_len [OF f2]]])
qed

lemma convert_frame:
  "convert_node k env te m s = Done (r, s') \<Longrightarrow> n \<le> length (es_entries s) \<Longrightarrow> frame n s s'"
  by (auto simp: convert_node_def Let_def split: if_splits
    intro: frame_leaf_entry leaf_list_frame uses_entry_frame directory_frame)

lemma body_frame:
  assumes "ToEntry_body k env te m s = Done (r, s')"
  shows "frame (length (es_entries s)) s s'"
proof (cases "es_cache s m")
  case (Some e)
  then show ?thesis using assms by (auto simp: ToEntry_body_def intro: frame_refl split: if_splits)
next
  case None
  then obtain s1 where s1: "convert_node k env te m s = Done (r, s1)" "s' = finish_entry m r s1"
    using assms by (auto simp: ToEntry_body_def split: if_splits)
  have f: "frame (length (es_entries s)) s s1" by (rule convert_frame [OF s1(1)]) simp
  define s2 where "s2 = (case r of None \<Rightarrow> s1
    | Some e \<Rightarrow> upd e (\<lambda>x. x\<lparr>en_Exts := en_Exts x @ nd_exts (es_heap s1 ! m)\<rparr>) s1)"
  have "frame (length (es_entries s)) s s2"
    using f by (auto simp: s2_def retains_def intro: frame_upd split: option.split)
  then show ?thesis using None by (simp add: s1(2) finish_entry_def s2_def [symmetric] Let_def frame_def)
qed

end

subsection \<open>ToEntry meets its own contract\<close>

lemma ToEntry_converter: "converter (ToEntry k env)"
proof (induction k)
  case 0
  then show ?case by unfold_locales simp
next
  case (Suc k)
  show ?case
    by unfold_locales (use converter.body_frame [OF Suc.IH] in simp)
qed

interpretation to_entry: converter "ToEntry k env" for k env
  by (rule ToEntry_converter)


definition one_uses :: modules where
  "one_uses = NewModules\<lparr>ms_ast := (ms_ast NewModules)\<lparr>ast_nodes :=
     [(new_node ''Module'')\<lparr>nd_name := ''m''\<rparr>, (new_node ''Uses'')\<lparr>nd_name := ''g'', nd_parent := Some 0\<rparr>]\<rparr>\<rparr>"

definition uses_state :: estate where
  "uses_state = \<lparr>es_w = start_world one_uses, es_entries = [], es_attrs = [], es_extras = [], es_cache = (\<lambda>_. None),
     es_merged = {}, es_nextErr = 0\<rparr>"

lemma uses_heap: "es_heap uses_state = [(new_node ''Module'')\<lparr>nd_name := ''m''\<rparr>,
    (new_node ''Uses'')\<lparr>nd_name := ''g'', nd_parent := Some 0\<rparr>]"
  by (simp add: uses_state_def start_world_def one_uses_def)

lemma uses_root: "RootNode (es_heap uses_state) 1 = Some 0"
  by (simp add: uses_heap RootNode_def ParentNode_def new_node_def)

lemma uses_unknown: "FindGrouping 3 (es_heap uses_state) (Some 1) ''g'' {} = Some (Inr (None, {}))"
  by (simp add: uses_heap FindGrouping.simps(1) grouping_up.simps eval_nat_numeral field_def node_field_def ParentNode_def new_node_def
    trimLocalPrefix_def localPrefix_def module_GetPrefix_def RootNode_def ptr_def)


end
