(* ===== verification/Augments.thy ===== *)
theory Augments
  imports ToEntryFrame EntryTrees
begin

text \<open>
  The augments: \<open>entry_Augment\<close> takes the augments that it applies off the list of its entry and no
  others off any list, so that the loop of \<open>Process\<close> ends: every round but the last applies one.
\<close>

declare augment_round.simps [simp del]

subsection \<open>Lists of augments\<close>

definition aframe :: "estate \<Rightarrow> estate \<Rightarrow> bool" where
  "aframe s s' \<longleftrightarrow> length (es_entries s) \<le> length (es_entries s')
     \<and> (\<forall>a<length (es_entries s). en_Augments (ent s' a) = en_Augments (ent s a))
     \<and> (\<forall>m e. es_cache s m = Some e \<longrightarrow> es_cache s' m = Some e)"

lemma aframe_refl [simp]: "aframe s s" by (simp add: aframe_def)

lemma aframe_trans: "aframe s s1 \<Longrightarrow> aframe s1 s2 \<Longrightarrow> aframe s s2"
  by (auto simp: aframe_def)

lemma aframe_frame: "frame (length (es_entries s)) s s' \<Longrightarrow> aframe s s'"
  by (auto simp: frame_def aframe_def retains_def)

lemma aframe_upd: "aframe s s' \<Longrightarrow> (\<And>x. en_Augments (f x) = en_Augments x) \<Longrightarrow> aframe s (upd e f s')"
  by (auto simp: aframe_def ent_upd_if) (simp_all add: upd_def)

lemma aframe_next [simp]: "aframe s (s'\<lparr>es_nextErr := i\<rparr>) = aframe s s'" "aframe s (s'\<lparr>es_w := w\<rparr>) = aframe s s'"
  by (simp_all add: aframe_def)

lemma aframe_errorf: "aframe s s' \<Longrightarrow> aframe s (errorf e err s')"
  unfolding errorf_def add_errs_def by (simp add: aframe_upd)

lemma aframe_merge_child: "aframe s s' \<Longrightarrow> aframe s (merge_child prefix ns e oe key v s')"
  by (auto simp: merge_child_def Let_def intro!: aframe_upd aframe_errorf split: option.split)

lemma aframe_merge_loop: "merge_loop k prefix ns e oe d s = Done s' \<Longrightarrow> aframe s s'"
proof (induction k prefix ns e oe d s rule: merge_loop.induct)
  case (2 k prefix ns e oe key v d s)
  then obtain v' s1 where s1: "dup k v s = Done (v', s1)"
      "merge_loop k prefix ns e oe d (merge_child prefix ns e oe key v' s1) = Done s'" by auto
  have "aframe s s1" using frame_dup(1) [OF s1(1) order_refl] aframe_frame by blast
  then have "aframe s (merge_child prefix ns e oe key v' s1)" by (rule aframe_merge_child)
  then show ?case using 2(1) [OF s1(1) refl s1(2)] by (rule aframe_trans)
qed simp

lemma aframe_merge:
  assumes "entry_merge k prefix ns e oe s = Done s'"
  shows "aframe s s'"
proof -
  obtain s1 where s1: "importErrors k e oe s = Done s1" "merge_loop k prefix ns e oe (dir s1 oe) s1 = Done s'"
    using assms by (auto simp: entry_merge_def split: if_splits)
  show ?thesis
    by (rule aframe_trans [OF aframe_frame [OF frame_importErrors(1) [OF s1(1) order_refl]] aframe_merge_loop [OF s1(2)]])
qed

lemma aframe_find_module:
  assumes "find_module k env ctx prefix rt s = Done (r, s')"
  shows "aframe s s'"
proof -
  obtain c where c: "ctx = Some c" using assms by (cases ctx) (auto simp: find_module_def)
  obtain ms1 md where ms1: "FindModuleByPrefix (tv_fs env) (Some c) prefix (es_ms s) = (ms1, Inr md)"
  proof (cases "FindModuleByPrefix (tv_fs env) (Some c) prefix (es_ms s)")
    case (Pair ms1 r)
    then show thesis using that assms c by (cases r) (auto simp: find_module_def)
  qed
  define s1 where "s1 = s\<lparr>es_w := (es_w s)\<lparr>w_ms := ms1\<rparr>\<rparr>"
  have a1: "aframe s s1" by (simp add: s1_def)
  have conv: "aframe s s'" if "ToEntry k env m s1 = Done (r, s')" for m
    using aframe_trans [OF a1 aframe_frame [OF to_entry.te_frame [OF that]]] .
  show ?thesis
    using assms a1 conv aframe_errorf [OF a1] unfolding find_module_def c
    by (auto simp: ms1 Let_def s1_def [symmetric] split: option.splits sum.splits if_splits)
qed

lemma aframe_Find:
  assumes "entry_Find k env e name s = Done (r, s')"
  shows "aframe s s'"
proof (cases e)
  case (Some a)
  show ?thesis
    using assms unfolding entry_Find_def Some
    by (auto simp: Let_def split: if_splits dest: aframe_find_module)
qed (use assms in \<open>simp add: entry_Find_def\<close>)

subsection \<open>One entry\<close>

lemma augment_loop_counts:
  "augment_loop k env ae e as p un s = Done (p', un', s') \<Longrightarrow> aframe s s' \<and> p \<le> p' \<and> p' + length un' = p + length un + length as"
proof (induction k env ae e as p un s rule: augment_loop.induct)
  case (2 k env ae e a as p un s)
  obtain target s1 where t: "entry_Find k env (Some a) (en_Name (ent s a)) s = Done (target, s1)"
    using 2(3) by auto
  have f: "aframe s s1" by (rule aframe_Find [OF t])
  show ?case
  proof (cases target)
    case None
    define s2 where "s2 = (if \<not> IgnoreModuleResolveErrors (tv_opts env) \<and> ae
      then errorf e (EAugmentNotFound (entry_Source s1 a) (en_Name (ent s1 a))) s1 else s1)"
    have r: "augment_loop k env ae e as p (un @ [a]) s2 = Done (p', un', s')"
      "\<exists>x. Option.bind (en_Node (ent s1 e)) (RootNode (es_heap s1)) = Some x"
      using 2(3) t None by (auto simp: s2_def split: option.splits if_splits)
    have "aframe s s2" using f by (auto simp: s2_def intro: aframe_errorf)
    moreover have "aframe s2 s' \<and> p \<le> p' \<and> p' + length un' = p + length (un @ [a]) + length as"
      using 2(1) [OF t refl None] r unfolding s2_def by blast
    ultimately show ?thesis using aframe_trans by fastforce
  next
    case (Some x)
    obtain ns s2 where s2: "entry_Namespace (Suc (length (es_entries s1))) s1 a = Done ns" "entry_merge k None ns x a s1 = Done s2"
      using 2(3) t Some by auto
    define s3 where "s3 = upd x (\<lambda>y. y\<lparr>en_Augmented := en_Augmented y @ [fst (shallowDup a s2)]\<rparr>) (snd (shallowDup a s2))"
    have r: "augment_loop k env ae e as (Suc p) un s3 = Done (p', un', s')"
      using 2(3) t Some s2 by (simp add: s3_def split_beta)
    have "aframe s s2" by (rule aframe_trans [OF f aframe_merge [OF s2(2)]])
    moreover have "aframe s2 (snd (shallowDup a s2))"
      using frame_shallowDup [OF frame_refl [OF order_refl], of s2 a] aframe_frame by blast
    ultimately have "aframe s s3" unfolding s3_def by (intro aframe_upd [OF aframe_trans]) simp_all
    moreover have "aframe s3 s' \<and> Suc p \<le> p' \<and> p' + length un' = Suc p + length un + length as"
      using 2(2) [OF t refl Some s2 refl prod.collapse r [unfolded s3_def]] unfolding s3_def by simp
    ultimately show ?thesis using aframe_trans by fastforce
  qed
qed simp

lemma Augment_counts:
  assumes "entry_Augment k env ae e s = Done ((p, q), s')" "e < length (es_entries s)"
  shows "p + length (en_Augments (ent s' e)) = length (en_Augments (ent s e))" "q = length (en_Augments (ent s' e))"
    "length (es_entries s) \<le> length (es_entries s')"
    "a < length (es_entries s) \<Longrightarrow> a \<noteq> e \<Longrightarrow> en_Augments (ent s' a) = en_Augments (ent s a)"
    "es_cache s m = Some c \<Longrightarrow> es_cache s' m = Some c"
proof -
  obtain un s1 where l: "augment_loop k env ae e (en_Augments (ent s e)) 0 [] s = Done (p, un, s1)"
      "q = length un" "s' = upd e (\<lambda>x. x\<lparr>en_Augments := un\<rparr>) s1"
    using assms(1) by (auto simp: entry_Augment_def)
  have c: "aframe s s1" "p + length un = length (en_Augments (ent s e))" using augment_loop_counts [OF l(1)] by auto
  have e: "en_Augments (ent s' e) = un" using c(1) assms(2) by (simp add: l(3) ent_upd_if aframe_def)
  show "p + length (en_Augments (ent s' e)) = length (en_Augments (ent s e))" "q = length (en_Augments (ent s' e))"
    using c(2) l(2) e by simp_all
  show "length (es_entries s) \<le> length (es_entries s')" using c(1) by (simp add: l(3) aframe_def upd_def)
  show "en_Augments (ent s' a) = en_Augments (ent s a)" if "a < length (es_entries s)" "a \<noteq> e"
    using c(1) that by (simp add: l(3) ent_upd_if aframe_def)
  show "es_cache s' m = Some c" if "es_cache s m = Some c" using c(1) that by (simp add: l(3) aframe_def upd_def)
qed

subsection \<open>The rounds\<close>

text \<open>The augments that the first \<open>N\<close> entries have left, and the modules converted to one of these.\<close>

definition pending :: "nat \<Rightarrow> estate \<Rightarrow> nat" where
  "pending N s = (\<Sum>a<N. length (en_Augments (ent s a)))"

definition converted :: "nat \<Rightarrow> estate \<Rightarrow> nat list \<Rightarrow> bool" where
  "converted N s mods \<longleftrightarrow> N \<le> length (es_entries s) \<and> (\<forall>m\<in>set mods. \<exists>e<N. es_cache s m = Some e)"

lemma module_entry_cached:
  assumes "module_entry k env m s = Done (e, s1)" "es_cache s m = Some c"
  shows "e = c \<and> s1 = s"
  using assms by (cases k) (auto simp: module_entry_def ToEntry_body_def split: option.splits if_splits)

lemma pending_Augment:
  assumes "entry_Augment k env ae e s = Done ((p, q), s')" "e < N" "N \<le> length (es_entries s)"
  shows "p + pending N s' = pending N s"
proof -
  have e: "e < length (es_entries s)" using assms by simp
  note c = Augment_counts [OF assms(1) e]
  have split: "pending N t = length (en_Augments (ent t e)) + (\<Sum>a\<in>{..<N} - {e}. length (en_Augments (ent t a)))" for t
    unfolding pending_def using assms(2) by (intro sum.remove) auto
  have "(\<Sum>a\<in>{..<N} - {e}. length (en_Augments (ent s' a))) = (\<Sum>a\<in>{..<N} - {e}. length (en_Augments (ent s a)))"
    using c(4) assms(3) by (intro sum.cong) auto
  then show ?thesis using c(1) split [of s'] split [of s] by simp
qed

lemma set_swap_last: "mods \<noteq> [] \<Longrightarrow> set (butlast (mods[i := last mods])) \<subseteq> set mods"
  by (meson in_set_butlastD last_in_set set_update_subsetI subset_refl subset_trans subsetI)

lemma augment_round_counts:
  "augment_round k env i mods p s = Done (p', mods', s') \<Longrightarrow> converted N s mods
   \<Longrightarrow> p \<le> p' \<and> p' + pending N s' = p + pending N s \<and> converted N s' mods'"
proof (induction k env i mods p s rule: augment_round.induct)
  case (1 k env i mods p s)
  show ?case
  proof (cases "length mods \<le> i")
    case True
    then show ?thesis using 1(3,4) by (subst (asm) augment_round.simps) auto
  next
    case False
    then have r: "bind_run (module_entry k env (mods ! i) s) (\<lambda>(e, s1).
        bind_run (entry_Augment k env False e s1) (\<lambda>((pr, sk), s2).
          if sk = 0 then augment_round k env i (butlast (mods[i := last mods])) (p + pr) s2
          else augment_round k env (Suc i) mods (p + pr) s2)) = Done (p', mods', s')"
      using 1(3) by (subst (asm) augment_round.simps) simp
    then obtain e s1 pr sk s2 where m: "module_entry k env (mods ! i) s = Done (e, s1)"
        "entry_Augment k env False e s1 = Done ((pr, sk), s2)"
        "(if sk = 0 then augment_round k env i (butlast (mods[i := last mods])) (p + pr) s2
          else augment_round k env (Suc i) mods (p + pr) s2) = Done (p', mods', s')"
      by auto
    have "mods ! i \<in> set mods" using False by simp
    then obtain c where c: "c < N" "es_cache s (mods ! i) = Some c" using 1(4) unfolding converted_def by blast
    then have e: "e = c" "s1 = s" using module_entry_cached [OF m(1)] by auto
    have N: "N \<le> length (es_entries s)" using 1(4) by (simp add: converted_def)
    have a: "entry_Augment k env False c s = Done ((pr, sk), s2)" using m(2) e by simp
    note cs = Augment_counts [OF a order.strict_trans2 [OF c(1) N]]
    have p: "pr + pending N s2 = pending N s" by (rule pending_Augment [OF a c(1) N])
    have conv: "converted N s2 ms" if "set ms \<subseteq> set mods" for ms
      using 1(4) that cs(3,5) by (fastforce simp: converted_def)
    show ?thesis
    proof (cases "sk = 0")
      case True
      have sub: "set (butlast (mods[i := last mods])) \<subseteq> set mods" using False by (intro set_swap_last) auto
      show ?thesis
        using 1(1) [OF False m(1) refl m(2) refl refl True _ conv [OF sub]] m(3) True p by auto
    next
      case no: False
      show ?thesis using 1(2) [OF False m(1) refl m(2) refl refl no _ conv [OF subset_refl]] m(3) no p by auto
    qed
  qed
qed

lemma augment_rounds_more:
  "converted N s mods \<Longrightarrow> pending N s < r \<Longrightarrow> r \<le> r' \<Longrightarrow> augment_rounds r' k env mods s = augment_rounds r k env mods s"
proof (induction r arbitrary: r' mods s)
  case (Suc r)
  obtain q where q: "r' = Suc q" "r \<le> q" using Suc.prems(3) by (cases r') auto
  show ?case
  proof (cases "augment_round k env 0 mods 0 s")
    case (Done x)
    obtain p mods1 s1 where x: "x = (p, mods1, s1)" by (cases x)
    have c: "p + pending N s1 = pending N s" "converted N s1 mods1"
      using augment_round_counts [OF Done [unfolded x] Suc.prems(1)] by auto
    show ?thesis
    proof (cases "p = 0")
      case False
      then have "augment_rounds q k env mods1 s1 = augment_rounds r k env mods1 s1"
        using c Suc.prems(2) q(2) by (intro Suc.IH) auto
      then show ?thesis by (simp add: q(1) Done x)
    qed (simp add: q(1) Done x)
  qed (simp_all add: q(1))
qed simp

text \<open>The loop as a relation: \<open>n\<close> rounds one after the other, each with modules left and each applying
  an augment, lead from the modules and state \<open>c\<close> to \<open>c'\<close>.\<close>

inductive augment_reach :: "nat \<Rightarrow> tenv \<Rightarrow> nat list \<times> estate \<Rightarrow> nat \<Rightarrow> nat list \<times> estate \<Rightarrow> bool" for k env where
  reach_here: "augment_reach k env c 0 c"
| reach_round: "mods \<noteq> [] \<Longrightarrow> augment_round k env 0 mods 0 s = Done (p, mods1, s1) \<Longrightarrow> 0 < p
    \<Longrightarrow> augment_reach k env (mods1, s1) n c \<Longrightarrow> augment_reach k env (mods, s) (Suc n) c"

text \<open>How the loop stops in \<open>(mods1, s1)\<close>: no modules are left, a round applies nothing, or a round does
  not return.\<close>

definition augment_stop :: "nat \<Rightarrow> tenv \<Rightarrow> nat list \<times> estate \<Rightarrow> (nat list \<times> estate) run \<Rightarrow> bool" where
  "augment_stop k env c r \<longleftrightarrow> (case c of (mods1, s1) \<Rightarrow>
     mods1 = [] \<and> r = Done ([], s1)
     \<or> mods1 \<noteq> [] \<and> (case augment_round k env 0 mods1 0 s1 of
         Done (p, mods2, s2) \<Rightarrow> p = 0 \<and> r = Done (mods2, s2)
       | Panicked \<Rightarrow> r = Panicked
       | NoFuel \<Rightarrow> r = NoFuel))"

lemma augment_rounds_run:
  "converted N s mods \<Longrightarrow> pending N s < r
     \<Longrightarrow> \<exists>n c. n \<le> pending N s \<and> augment_reach k env (mods, s) n c \<and> augment_stop k env c (augment_rounds r k env mods s)"
proof (induction r arbitrary: mods s)
  case (Suc r)
  have here: "\<exists>n c. n \<le> pending N s \<and> augment_reach k env (mods, s) n c \<and> augment_stop k env c x"
    if "augment_stop k env (mods, s) x" for x
    using that reach_here by blast
  show ?case
  proof (cases "mods = []")
    case True
    then show ?thesis by (intro here) (simp add: augment_stop_def)
  next
    case False
    show ?thesis
    proof (cases "augment_round k env 0 mods 0 s")
      case (Done x)
      obtain p mods1 s1 where x: "x = (p, mods1, s1)" by (cases x)
      have c: "p + pending N s1 = pending N s" "converted N s1 mods1"
        using augment_round_counts [OF Done [unfolded x] Suc.prems(1)] by auto
      show ?thesis
      proof (cases "p = 0")
        case True
        then show ?thesis using False by (intro here) (simp add: augment_stop_def Done x)
      next
        case no: False
        then obtain n c where n: "n \<le> pending N s1" "augment_reach k env (mods1, s1) n c"
            "augment_stop k env c (augment_rounds r k env mods1 s1)"
          using Suc.IH [OF c(2)] c(1) Suc.prems(2) by auto
        have "augment_reach k env (mods, s) (Suc n) c"
          using reach_round [OF False Done [unfolded x] _ n(2)] no by simp
        moreover have "Suc n \<le> pending N s" using n(1) c(1) no by simp
        ultimately show ?thesis using n(3) False no by (intro exI conjI) (assumption, assumption, simp add: Done x)
      qed
    qed (use False in \<open>(intro here, simp add: augment_stop_def)+\<close>)
  qed
qed simp

text \<open>C2: The loop of \<open>Process\<close> over the augments ends. Let the modules be converted to entries among
  the first \<open>N\<close>. (1) A round applies as many augments as these entries have fewer afterwards. (2) With a
  fuel of one more than the augments at the start, and with any greater fuel, the loop makes at most as
  many rounds as there are augments, each applying one, and then stops: with no modules left, after a
  round that applies nothing, or because one round by itself panics or does not return. (3) So when every
  round that is reached returns, the loop returns: it never goes on for ever by itself.\<close>

theorem augment_rounds_end:
  assumes "converted N s mods" "pending N s < r"
  shows "(\<forall>p' mods' s'. augment_round k env 0 mods 0 s = Done (p', mods', s') \<longrightarrow> p' + pending N s' = pending N s)
    \<and> (\<exists>n c. n \<le> pending N s \<and> augment_reach k env (mods, s) n c
          \<and> augment_stop k env c (augment_rounds r k env mods s))
    \<and> augment_rounds r k env mods s = augment_rounds (Suc (pending N s)) k env mods s
    \<and> ((\<forall>n mods1 s1. augment_reach k env (mods, s) n (mods1, s1) \<and> mods1 \<noteq> []
            \<longrightarrow> (\<exists>x. augment_round k env 0 mods1 0 s1 = Done x))
        \<longrightarrow> (\<exists>mods' s'. augment_rounds r k env mods s = Done (mods', s')
              \<and> (mods' = [] \<or> (\<exists>mods1 s1. augment_round k env 0 mods1 0 s1 = Done (0, mods', s')))))"
proof (intro conjI allI impI)
  show "p' + pending N s' = pending N s" if "augment_round k env 0 mods 0 s = Done (p', mods', s')" for p' mods' s'
    using augment_round_counts [OF that assms(1)] by simp
  show run: "\<exists>n c. n \<le> pending N s \<and> augment_reach k env (mods, s) n c
      \<and> augment_stop k env c (augment_rounds r k env mods s)"
    by (rule augment_rounds_run [OF assms])
  show "augment_rounds r k env mods s = augment_rounds (Suc (pending N s)) k env mods s"
    by (rule augment_rounds_more [OF assms(1) lessI]) (use assms(2) in simp)
  assume ret: "\<forall>n mods1 s1. augment_reach k env (mods, s) n (mods1, s1) \<and> mods1 \<noteq> []
      \<longrightarrow> (\<exists>x. augment_round k env 0 mods1 0 s1 = Done x)"
  obtain n mods1 s1 where n: "augment_reach k env (mods, s) n (mods1, s1)"
      "augment_stop k env (mods1, s1) (augment_rounds r k env mods s)"
    using run by auto
  show "\<exists>mods' s'. augment_rounds r k env mods s = Done (mods', s')
      \<and> (mods' = [] \<or> (\<exists>mods1 s1. augment_round k env 0 mods1 0 s1 = Done (0, mods', s')))"
  proof (cases "mods1 = []")
    case False
    then obtain x where "augment_round k env 0 mods1 0 s1 = Done x" using ret n(1) by blast
    then show ?thesis using n(2) False by (cases x) (auto simp: augment_stop_def)
  qed (use n(2) in \<open>auto simp: augment_stop_def\<close>)
qed

definition augment_example :: estate where
  "augment_example = (state_of
     [blank\<lparr>en_Name := ''m'', en_Kind := DirectoryEntry, en_Dir := Some [(''c'', 2)], en_Augments := [1], en_Node := Some 0\<rparr>,
      blank\<lparr>en_Name := ''/c'', en_Kind := DirectoryEntry, en_Dir := Some [(''x'', 3)], en_Parent := Some 0, en_namespace := Some NsEmpty\<rparr>,
      blank\<lparr>en_Name := ''c'', en_Kind := DirectoryEntry, en_Dir := Some [], en_Parent := Some 0\<rparr>,
      blank\<lparr>en_Name := ''x'', en_Parent := Some 1\<rparr>])\<lparr>es_w := start_world percent_module, es_cache := (\<lambda>m. if m = 0 then Some 0 else None)\<rparr>"

lemmas example_defs = augment_example_def state_of_def blank_def eval_nat_numeral

lemma example_root: "RootNode (w_heap (start_world percent_module)) 0 = Some 0"
proof -
  have "RootNode (ms_heap percent_module) 0 = Some 0" by code_simp
  then show ?thesis by (simp add: start_world_def)
qed

lemma example_find: "entry_Find 3 no_env (Some 1) ''/c'' augment_example = Done (Some 2, augment_example)"
proof -
  have "entry_root (Suc (length (es_entries augment_example))) augment_example 1 = Done 0"
    by (simp add: example_defs)
  then show ?thesis
    by (simp add: entry_Find_def Let_def go_split_def getPrefix_def go_split2_def)
      (simp add: dir_def example_defs example_root)
qed

lemma example_namespace:
  "entry_Namespace (Suc (length (es_entries augment_example))) augment_example 1 = Done (Some NsEmpty)"
  by (simp add: entry_Namespace_def example_defs)

definition example_merged :: estate where
  "example_merged = augment_example\<lparr>es_entries := (es_entries augment_example)
      [2 := (ent augment_example 2)\<lparr>en_Dir := Some [(''x'', 4)]\<rparr>] @
      [(ent augment_example 3)\<lparr>en_Parent := Some 2, en_namespace := Some NsEmpty\<rparr>]\<rparr>"

lemma example_merge: "entry_merge 3 None (Some NsEmpty) 2 1 augment_example = Done example_merged"
  by (simp add: entry_merge_def example_merged_def add_errs_def upd_def dir_def alloc_def merge_child_def Let_def example_defs)

lemma example_round:
  "\<exists>s'. augment_round 3 no_env 0 [0] 0 augment_example = Done (1, [], s') \<and> dir s' 2 = [(''x'', 4)]"
proof -
  have m: "module_entry 3 no_env 0 augment_example = Done (0, augment_example)"
    by (simp add: module_entry_def ToEntry_body_def numeral_3_eq_3 augment_example_def example_root)
  have a: "en_Augments (ent augment_example 0) = [1]" "en_Name (ent augment_example 1) = ''/c''"
    by (simp_all add: example_defs)
  show ?thesis
    apply (subst augment_round.simps)
    apply (simp add: m entry_Augment_def a [unfolded One_nat_def] example_find [unfolded One_nat_def] example_namespace [unfolded One_nat_def] example_merge [unfolded One_nat_def] split_beta)
    apply (subst augment_round.simps)
    apply (simp add: shallowDup_def example_merged_def alloc_def Let_def upd_def dir_def example_defs)
    done
qed

theorem augment_rounds_end_witness:
  "converted 4 augment_example [0] \<and> pending 4 augment_example = 1
   \<and> (\<exists>s'. augment_rounds 9 3 no_env [0] augment_example = Done ([], s') \<and> pending 4 s' = 0 \<and> dir s' 2 = [(''x'', 4)])"
proof -
  have c: "converted 4 augment_example [0]"
    by (simp add: converted_def augment_example_def state_of_def)
  have p: "pending 4 augment_example = 1"
    by (simp add: pending_def example_defs)
  obtain s' where s': "augment_round 3 no_env 0 [0] 0 augment_example = Done (1, [], s')" "dir s' 2 = [(''x'', 4)]"
    using example_round by blast
  note e = augment_rounds_end [OF c, of 9 3 no_env]
  have "augment_rounds 9 3 no_env [0] augment_example = augment_rounds (Suc (pending 4 augment_example)) 3 no_env [0] augment_example"
    using e p by simp
  also have "\<dots> = Done ([], s')" by (simp add: p s' One_nat_def)
  finally have "augment_rounds 9 3 no_env [0] augment_example = Done ([], s')" .
  moreover have "pending 4 s' = 0" using e p s' by simp
  ultimately show ?thesis using c p s' by blast
qed

end
