(* ===== verification/Deviations.thy ===== *)
theory Deviations
  imports Deviate EntryTrees
begin

text \<open>
  Deviations: what the deviate statements of the kind add do to an entry when they succeed, that a
  delete with the same arguments takes it back, and what sharing list attributes between the copies of
  an entry does.
\<close>

lemma upd_upd: "upd n g (upd n f s) = upd n (\<lambda>x. g (f x)) s"
  by (cases "n < length (es_entries s)") (simp_all add: upd_def list_update_beyond)

lemma upd_id: "f (ent s n) = ent s n \<Longrightarrow> upd n f s = s"
  by (simp add: upd_def)

lemma upd_cong: "f (ent s n) = g (ent s n) \<Longrightarrow> upd n f s = upd n g s"
  by (simp add: upd_def)

lemma upd_if: "(if c then upd n f s else s) = upd n (\<lambda>x. if c then f x else x) s"
  by (simp add: upd_id)

lemma ent_upd_other [simp]: "a \<noteq> n \<Longrightarrow> ent (upd n f s) a = ent s a"
  by (simp add: upd_def)

lemma ent_upd_same: "n < length (es_entries s) \<Longrightarrow> ent (upd n f s) n = f (ent s n)"
  by (simp add: upd_def)

lemma upd_stores [simp]: "es_attrs (upd n f s) = es_attrs s" "es_w (upd n f s) = es_w s"
  "es_extras (upd n f s) = es_extras s" "es_cache (upd n f s) = es_cache s"
  by (simp_all add: upd_def)

lemma attrs_upd: "(upd n f s)\<lparr>es_attrs := ats\<rparr> = upd n f (s\<lparr>es_attrs := ats\<rparr>)"
  by (simp add: upd_def)

text \<open>The bounds that a deviation \<open>d\<close> puts on the list attributes at the index \<open>a\<close>.\<close>

definition bound_attr :: "entry \<Rightarrow> ListAttr \<Rightarrow> ListAttr \<Rightarrow> ListAttr" where
  "bound_attr x b a = a\<lparr>la_MinElements := (if en_hasMin x then la_MinElements b else la_MinElements a),
     la_MaxElements := (if en_hasMax x then la_MaxElements b else la_MaxElements a)\<rparr>"

definition added :: "entry \<Rightarrow> entry \<Rightarrow> entry" where
  "added x y = y\<lparr>
     en_Config := (if en_Config x \<noteq> TSUnset then en_Config x else en_Config y),
     en_Default := (if IsLeafList y then en_Default y @ en_Default x else if en_Default x = [] then en_Default y else en_Default x),
     en_Mandatory := (if en_Mandatory x \<noteq> TSUnset then en_Mandatory x else en_Mandatory y),
     en_Units := (if en_Units x \<noteq> [] then en_Units x else en_Units y),
     en_Type := (if en_Type x \<noteq> None then en_Type x else en_Type y)\<rparr>"

definition set_bounds :: "nat \<Rightarrow> nat \<Rightarrow> estate \<Rightarrow> estate" where
  "set_bounds d n s =
     (if en_hasMin (ent s d) \<or> en_hasMax (ent s d)
      then set_attr n (\<lambda>a. bound_attr (ent s d) (attr_of s d) a) s else s)"

lemma deviate_rest_eq:
  assumes "n \<noteq> d"
  shows "deviate_rest d n s = upd n (\<lambda>y. y\<lparr>en_Units := (if en_Units (ent s d) \<noteq> [] then en_Units (ent s d) else en_Units y),
     en_Type := (if en_Type (ent s d) \<noteq> None then en_Type (ent s d) else en_Type y)\<rparr>) s"
  using assms unfolding deviate_rest_def Let_def upd_if
  by (auto simp: upd_upd intro!: upd_cong)

lemma deviate_default_eq:
  assumes "deviate_default src DeviationAdd d n s = ([], s')"
  shows "s' = upd n (\<lambda>y. y\<lparr>en_Default := (if IsLeafList (ent s n) then en_Default y @ en_Default (ent s d)
      else if en_Default (ent s d) = [] then en_Default y else en_Default (ent s d))\<rparr>) s"
    and "en_Default (ent s d) = [] \<or> IsLeafList (ent s n) \<or> length (en_Default (ent s d)) = 1 \<and> en_Default (ent s n) = []"
proof -
  have "s' = upd n (\<lambda>y. y\<lparr>en_Default := (if IsLeafList (ent s n) then en_Default y @ en_Default (ent s d)
      else if en_Default (ent s d) = [] then en_Default y else en_Default (ent s d))\<rparr>) s
    \<and> (en_Default (ent s d) = [] \<or> IsLeafList (ent s n) \<or> length (en_Default (ent s d)) = 1 \<and> en_Default (ent s n) = [])"
    using assms
    by (cases "en_Default (ent s d)")
      (auto simp: deviate_default_def Let_def upd_id split: if_splits intro: upd_cong)
  then show "s' = upd n (\<lambda>y. y\<lparr>en_Default := (if IsLeafList (ent s n) then en_Default y @ en_Default (ent s d)
      else if en_Default (ent s d) = [] then en_Default y else en_Default (ent s d))\<rparr>) s"
    "en_Default (ent s d) = [] \<or> IsLeafList (ent s n) \<or> length (en_Default (ent s d)) = 1 \<and> en_Default (ent s n) = []"
    by blast+
qed

text \<open>The deviation's bounds are in a \<open>ListAttr\<close> of its own.\<close>

definition own_bounds :: "estate \<Rightarrow> nat \<Rightarrow> nat \<Rightarrow> bool" where
  "own_bounds s d n \<longleftrightarrow> (en_hasMin (ent s d) \<or> en_hasMax (ent s d) \<longrightarrow>
     (\<exists>b. en_ListAttr (ent s d) = Some b \<and> en_ListAttr (ent s n) \<noteq> Some b)
     \<and> (\<forall>a. en_ListAttr (ent s n) = Some a \<longrightarrow> a < length (es_attrs s)))"

lemma list_like_attr: "is_list_like x \<Longrightarrow> \<exists>a. en_ListAttr x = Some a"
  by (auto simp: is_list_like_def IsList_def IsLeafList_def)

lemma set_attr_ent [simp]: "ent (set_attr n f s) a = ent s a"
  by (simp add: set_attr_def split: option.split)

lemma set_attr_attrs: "en_ListAttr (ent s n) = Some a \<Longrightarrow> set_attr n f s = s\<lparr>es_attrs := (es_attrs s)[a := f (es_attrs s ! a)]\<rparr>"
  by (simp add: set_attr_def)

lemma deviate_min_eq:
  assumes "deviate_min d n s = ([], s')" "own_bounds s d n"
  shows "s' = deviate_rest d n (set_bounds d n s)"
    and "en_hasMin (ent s d) \<or> en_hasMax (ent s d) \<Longrightarrow> is_list_like (ent s n)"
proof -
  have "s' = deviate_rest d n (set_bounds d n s) \<and> (en_hasMin (ent s d) \<or> en_hasMax (ent s d) \<longrightarrow> is_list_like (ent s n))"
  proof (cases "en_hasMin (ent s d) \<or> en_hasMax (ent s d)")
    case False
    then show ?thesis using assms(1) by (simp add: deviate_min_def deviate_max_def set_bounds_def)
  next
    case True
    then have l: "is_list_like (ent s n)"
      using assms(1) by (auto simp: deviate_min_def deviate_max_def split: if_splits)
    then obtain a where a: "en_ListAttr (ent s n) = Some a" using list_like_attr by blast
    obtain b where b: "en_ListAttr (ent s d) = Some b" "a \<noteq> b" "a < length (es_attrs s)"
      using assms(2) True a by (auto simp: own_bounds_def)
    show ?thesis
      using assms(1) l a b True
      by (cases "en_hasMin (ent s d)"; cases "en_hasMax (ent s d)")
        (auto simp: deviate_min_def deviate_max_def set_bounds_def set_attr_attrs attr_of_def bound_attr_def)
  qed
  then show "s' = deviate_rest d n (set_bounds d n s)" "en_hasMin (ent s d) \<or> en_hasMax (ent s d) \<Longrightarrow> is_list_like (ent s n)"
    by blast+
qed

lemma set_bounds_upd:
  assumes "n \<noteq> d" "\<And>y. en_ListAttr (f y) = en_ListAttr y" "n < length (es_entries s)"
  shows "set_bounds d n (upd n f s) = upd n f (set_bounds d n s)"
  using assms by (auto simp: set_bounds_def set_attr_def attr_of_def ent_upd_same attrs_upd split: option.split)

lemma deviate_add_eq:
  assumes "deviate_add src DeviationAdd d n s = ([], s')" "n \<noteq> d" "n < length (es_entries s)" "own_bounds s d n"
  shows "s' = upd n (added (ent s d)) (set_bounds d n s)"
    and "en_Default (ent s d) = [] \<or> IsLeafList (ent s n) \<or> length (en_Default (ent s d)) = 1 \<and> en_Default (ent s n) = []"
    and "en_hasMin (ent s d) \<or> en_hasMax (ent s d) \<Longrightarrow> is_list_like (ent s n)"
proof -
  let ?d = "ent s d"
  define s1 where "s1 = upd n (\<lambda>x. if en_Config ?d \<noteq> TSUnset then x\<lparr>en_Config := en_Config ?d\<rparr> else x) s"
  obtain s2 where s2: "deviate_default src DeviationAdd d n s1 = ([], s2)"
      "deviate_min d n (upd n (\<lambda>x. if en_Mandatory (ent s2 d) \<noteq> TSUnset then x\<lparr>en_Mandatory := en_Mandatory (ent s2 d)\<rparr> else x) s2) = ([], s')"
    using assms(1) unfolding deviate_add_def Let_def upd_if s1_def by (auto split: prod.splits)
  have d1: "ent s1 d = ?d" using assms(2) by (simp add: s1_def)
  have ll: "IsLeafList (ent s1 n) = IsLeafList (ent s n)" "en_Default (ent s1 n) = en_Default (ent s n)"
    using assms(3) by (simp_all add: s1_def ent_upd_same IsLeafList_def IsDir_def)
  note def = deviate_default_eq [OF s2(1), unfolded d1 ll]
  have d2: "ent s2 d = ?d" using assms(2) d1 by (simp add: def(1))
  define f where "f = (\<lambda>y :: entry. y\<lparr>en_Config := (if en_Config ?d \<noteq> TSUnset then en_Config ?d else en_Config y),
    en_Default := (if IsLeafList (ent s n) then en_Default y @ en_Default ?d else if en_Default ?d = [] then en_Default y else en_Default ?d),
    en_Mandatory := (if en_Mandatory ?d \<noteq> TSUnset then en_Mandatory ?d else en_Mandatory y)\<rparr>)"
  have s3: "upd n (\<lambda>x. if en_Mandatory (ent s2 d) \<noteq> TSUnset then x\<lparr>en_Mandatory := en_Mandatory (ent s2 d)\<rparr> else x) s2 = upd n f s"
    unfolding d2 unfolding def(1) s1_def upd_upd f_def by (intro upd_cong) (cases "ent s n", simp)
  have keep: "en_ListAttr (f y) = en_ListAttr y" "is_list_like (f y) = is_list_like y" for y
    by (simp_all add: f_def is_list_like_def IsList_def IsLeafList_def IsDir_def)
  have own: "own_bounds (upd n f s) d n"
    using assms(2,3,4) keep(1) by (simp add: own_bounds_def ent_upd_same)
  note min = deviate_min_eq [OF s2(2) [unfolded s3] own]
  have dd: "ent (upd n f (set_bounds d n s)) d = ?d" using assms(2) by (simp add: set_bounds_def)
  have en: "ent (set_bounds d n s) n = ent s n" by (simp add: set_bounds_def)
  have "s' = deviate_rest d n (upd n f (set_bounds d n s))"
    using min(1) set_bounds_upd [OF assms(2) keep(1) assms(3)] by simp
  also have "\<dots> = upd n (added ?d) (set_bounds d n s)"
    unfolding deviate_rest_eq [OF assms(2)] dd upd_upd
    by (intro upd_cong, unfold en) (cases "ent s n", simp add: f_def added_def IsLeafList_def IsDir_def)
  finally show "s' = upd n (added (ent s d)) (set_bounds d n s)" .
  show "en_Default (ent s d) = [] \<or> IsLeafList (ent s n) \<or> length (en_Default (ent s d)) = 1 \<and> en_Default (ent s n) = []"
    by (rule def(2))
  show "is_list_like (ent s n)" if "en_hasMin (ent s d) \<or> en_hasMax (ent s d)"
    using min(2) that keep(2) assms(2,3) by (simp add: ent_upd_same)
qed

subsection \<open>Delete takes it back\<close>

text \<open>The entry has nothing of what the deviation adds, and the deviation adds only what can be deleted.\<close>

definition addable :: "estate \<Rightarrow> nat \<Rightarrow> nat \<Rightarrow> bool" where
  "addable s d n \<longleftrightarrow>
     (let x = ent s d; y = ent s n
      in (en_Config x \<noteq> TSUnset \<longrightarrow> en_Config y = TSUnset) \<and> (en_Mandatory x \<noteq> TSUnset \<longrightarrow> en_Mandatory y = TSUnset)
         \<and> (en_hasMin x \<longrightarrow> la_MinElements (attr_of s n) = 0) \<and> (en_hasMax x \<longrightarrow> la_MaxElements (attr_of s n) = - 1)
         \<and> en_Units x = [] \<and> en_Type x = None \<and> (en_Default x = [] \<or> \<not> IsLeafList y))"

lemma set_attr_upd: "(\<And>y. en_ListAttr (f y) = en_ListAttr y) \<Longrightarrow> n < length (es_entries s) \<Longrightarrow>
    set_attr n g (upd n f s) = upd n f (set_attr n g s)"
  by (simp add: set_attr_def ent_upd_same attrs_upd split: option.split)

lemma attr_of_upd: "(\<And>y. en_ListAttr (f y) = en_ListAttr y) \<Longrightarrow> attr_of (upd n f s) a = attr_of s a"
  by (cases "n < length (es_entries s)"; cases "a = n")
    (simp_all add: attr_of_def ent_upd_same upd_def list_update_beyond)

lemma delete_min_undoes:
  assumes "own_bounds s d n" "addable s d n" "en_hasMin (ent s d) \<or> en_hasMax (ent s d) \<Longrightarrow> is_list_like (ent s n)"
  shows "delete_min path d n (set_bounds d n s) = ([], s)"
proof (cases "en_hasMin (ent s d) \<or> en_hasMax (ent s d)")
  case False
  then show ?thesis by (simp add: delete_min_def delete_max_def set_bounds_def)
next
  case True
  obtain a where a: "en_ListAttr (ent s n) = Some a" using list_like_attr assms(3) True by blast
  obtain b where b: "en_ListAttr (ent s d) = Some b" "a \<noteq> b" "a < length (es_attrs s)"
    using assms(1) True a by (auto simp: own_bounds_def)
  show ?thesis
    using assms(2,3) a b True
    by (cases "en_hasMin (ent s d)"; cases "en_hasMax (ent s d)"; cases "es_attrs s ! a")
      (auto simp: delete_min_def delete_max_def set_bounds_def set_attr_def attr_of_def bound_attr_def addable_def Let_def
        list_update_same_conv)
qed

lemma delete_min_upd:
  assumes "n \<noteq> d" "n < length (es_entries s)" "\<And>y. en_ListAttr (f y) = en_ListAttr y" "\<And>y. is_list_like (f y) = is_list_like y"
    "\<And>y. en_Kind (f y) = en_Kind y"
  shows "delete_min path d n (upd n f s) = (fst (delete_min path d n s), upd n f (snd (delete_min path d n s)))"
proof -
  have max: "delete_max path d n (upd n f s) = (fst (delete_max path d n s), upd n f (snd (delete_max path d n s)))"
    if "n < length (es_entries s)" for s
    using assms(1,3-5) that
    by (simp add: delete_max_def ent_upd_same attr_of_upd set_attr_upd)
  have len: "length (es_entries (set_attr n g s)) = length (es_entries s)" for g
    by (simp add: set_attr_def split: option.split)
  show ?thesis
    using assms max len by (simp add: delete_min_def Let_def split_beta ent_upd_same attr_of_upd set_attr_upd)
qed

lemma deviate_add_delete:
  assumes "deviate_add src DeviationAdd d n s = ([], s')" "n \<noteq> d" "n < length (es_entries s)" "own_bounds s d n" "addable s d n"
  shows "deviate_delete src path d n s' = ([], s)"
proof -
  note eff = deviate_add_eq [OF assms(1-4)]
  let ?d = "ent s d" and ?t = "set_bounds d n s"
  have d: "ent ?t d = ?d" "ent ?t n = ent s n" "length (es_entries ?t) = length (es_entries s)"
    by (simp_all add: set_bounds_def set_attr_def split: option.split)
  have dd: "ent s' d = ?d" using assms(2) d by (simp add: eff(1))
  have nn: "ent s' n = added ?d (ent s n)" using assms(3) d by (simp add: eff(1) ent_upd_same)
  define f1 where "f1 = (\<lambda>x :: entry. if en_Config ?d \<noteq> TSUnset then x\<lparr>en_Config := TSUnset\<rparr> else x)"
  define f2 where "f2 = (\<lambda>x :: entry. if en_Default ?d \<noteq> [] then x\<lparr>en_Default := []\<rparr> else x)"
  define f3 where "f3 = (\<lambda>x :: entry. if en_Mandatory ?d \<noteq> TSUnset then x\<lparr>en_Mandatory := TSUnset\<rparr> else x)"
  have s1: "(if en_Config (ent s' d) \<noteq> TSUnset then upd n (\<lambda>x. x\<lparr>en_Config := TSUnset\<rparr>) s' else s') = upd n f1 s'"
    unfolding upd_if dd f1_def by simp
  have len: "n < length (es_entries s')" using assms(3) d by (simp add: eff(1))
  have e1: "ent (upd n f1 s') n = f1 (added ?d (ent s n))" "ent (upd n f1 s') d = ?d"
    using len nn dd assms(2) by (simp_all add: ent_upd_same)
  have fields: "en_Default (f1 x) = en_Default x" "IsLeafList (f1 x) = IsLeafList x" for x
    by (simp_all add: f1_def IsLeafList_def IsDir_def)
  have ll: "IsLeafList (added ?d x) = IsLeafList x" for x by (simp add: added_def IsLeafList_def IsDir_def)
  have s2: "delete_default src d n (upd n f1 s') = ([], upd n f2 (upd n f1 s'))"
  proof (cases "en_Default ?d = []")
    case True
    then show ?thesis by (simp add: delete_default_def e1 f2_def upd_id)
  next
    case False
    then have "\<not> IsLeafList (ent s n)" "length (en_Default ?d) = 1" using eff(2) assms(5) by (auto simp: addable_def Let_def)
    then show ?thesis
      using False by (simp add: delete_default_def e1 fields ll f2_def Let_def) (simp add: added_def)
  qed
  define g where "g = (\<lambda>x. f3 (f2 (f1 (added ?d x))))"
  have s3: "(if en_Mandatory (ent (upd n f2 (upd n f1 s')) d) \<noteq> TSUnset
      then upd n (\<lambda>x. x\<lparr>en_Mandatory := TSUnset\<rparr>) (upd n f2 (upd n f1 s')) else upd n f2 (upd n f1 s')) = upd n g ?t"
    unfolding upd_if using assms(2) dd by (simp add: eff(1) upd_upd g_def f3_def)
  have keep: "en_ListAttr (g y) = en_ListAttr y" "is_list_like (g y) = is_list_like y" "en_Kind (g y) = en_Kind y" for y
    by (simp_all add: g_def f1_def f2_def f3_def added_def is_list_like_def IsList_def IsLeafList_def IsDir_def)
  have "delete_min path d n (upd n g ?t) = (fst (delete_min path d n ?t), upd n g (snd (delete_min path d n ?t)))"
    using assms(2,3) d keep by (intro delete_min_upd) simp_all
  also have "\<dots> = ([], upd n g s)" using delete_min_undoes [OF assms(4,5) eff(3)] by simp
  also have "upd n g s = s"
  proof (rule upd_id)
    show "g (ent s n) = ent s n"
      using assms(5) eff(2)
      by (cases "ent s n") (auto simp: g_def f1_def f2_def f3_def added_def addable_def Let_def IsLeafList_def IsDir_def)
  qed
  finally show ?thesis
    unfolding deviate_delete_def Let_def s1 s2 by (simp add: s3)
qed

text \<open>C6: What a deviation adds, and when it can be taken back. Let the bounds of the \<open>deviate\<close> statement be
  in a \<open>ListAttr\<close> that the node does not share (\<open>own_bounds\<close>). When \<open>deviate add\<close> succeeds on a node, its
  effect is that of \<open>added\<close> and \<open>set_bounds\<close>: the given properties are set, and no other entry is touched. If
  besides the node was \<open>addable\<close> - the statement gives no units and no type, gives a default only where the
  node is not a leaf-list, and gives config, mandatory, min-elements and max-elements only where the node had
  them unset (for the bounds: 0 and the greatest value) - then a \<open>deviate delete\<close> with the same arguments
  reports no error and restores the state. Without these conditions it does not: delete never removes units
  or a type, rejects the defaults of a leaf-list, and resets a property to unset whatever it was before.\<close>

theorem add_then_delete:
  assumes "deviate_add src DeviationAdd d n s = ([], s')" "n \<noteq> d" "n < length (es_entries s)" "own_bounds s d n"
  shows "s' = upd n (added (ent s d)) (set_bounds d n s)
    \<and> (addable s d n \<longrightarrow> (\<forall>path. deviate_delete src path d n s' = ([], s)))"
  using deviate_add_eq(1) [OF assms] deviate_add_delete [OF assms] by simp

definition a_list :: estate where
  "a_list = (state_of [blank\<lparr>en_Name := ''l'', en_Kind := DirectoryEntry, en_Dir := Some [], en_ListAttr := Some 0\<rparr>,
     blank\<lparr>en_Kind := DeviateEntry, en_ListAttr := Some 1, en_hasMax := True, en_Config := TSFalse, en_Default := [''v'']\<rparr>])
     \<lparr>es_attrs := [\<lparr>la_MinElements = 0, la_MaxElements = - 1, la_OrderedBy = None\<rparr>,
       \<lparr>la_MinElements = 0, la_MaxElements = 7, la_OrderedBy = None\<rparr>]\<rparr>"

theorem add_then_delete_witness:
  "\<exists>s'. deviate_add ''m'' DeviationAdd 1 0 a_list = ([], s') \<and> la_MaxElements (attr_of s' 0) = 7
     \<and> en_Config (ent s' 0) = TSFalse \<and> deviate_delete ''m'' ''p'' 1 0 s' = ([], a_list)"
proof -
  obtain s' where s': "deviate_add ''m'' DeviationAdd 1 0 a_list = ([], s')" "la_MaxElements (attr_of s' 0) = 7"
      "en_Config (ent s' 0) = TSFalse"
    by (simp add: a_list_def state_of_def blank_def deviate_add_def deviate_default_def deviate_min_def deviate_max_def
      deviate_rest_def upd_def set_attr_def attr_of_def is_list_like_def IsList_def IsLeafList_def IsDir_def Let_def)
  have "own_bounds a_list 1 0" "addable a_list 1 0" "0 < length (es_entries a_list)"
    by (simp_all add: a_list_def state_of_def blank_def own_bounds_def addable_def attr_of_def IsLeafList_def Let_def)
  then show ?thesis using s' add_then_delete [OF s'(1)] by auto
qed

text \<open>The copies that \<open>dup\<close> makes have the list attributes of the original, in the same place: to set them
  on a copy, as a deviation of one of the uses of a grouping does, sets them on the original.\<close>

lemma copies_share_bounds:
  assumes "tree_of k s e = Some t" "en_ListAttr (ent s e) = Some a" "a < length (es_attrs s)"
  shows "\<exists>ne s'. dup k e s = Done (ne, s') \<and> ne \<noteq> e \<and> attr_of (set_attr ne f s') e = f (attr_of s e)"
proof -
  obtain ne s' where c: "dup k e s = Done (ne, s')" "extends {} s s'" "fresh_copy k s s' ne t"
    using dup_copies [OF assms(1)] by blast
  have e: "e < length (es_entries s)" using assms(1) by (cases k) (auto split: if_splits)
  then have "ent s' e = ent s e" "es_attrs s' = es_attrs s" "ne \<noteq> e"
    using c(2,3) unfolding extends_def fresh_copy_def by (metis empty_iff, metis estate.select_convs(3) estate.surjective estate.update_convs(2), simp)
  moreover have "bare (ent s' ne) = bare (ent s e)"
    using assms(1) c(3) unfolding fresh_copy_def by (cases k) (auto split: if_splits option.splits)
  then have "en_ListAttr (ent s' ne) = Some a"
    using assms(2) unfolding bare_def by (metis entry.select_convs(16) entry.surjective entry.update_convs(1,12))
  ultimately show ?thesis using c(1) assms(2,3) by (auto simp: set_attr_def attr_of_def)
qed

end
