(* ===== verification/Reports.thy ===== *)
theory Reports
  imports Process Printer
begin

text \<open>
  The output formats \<open>tree\<close> (\<open>tree.go\<close>) and \<open>types\<close> (\<open>types.go\<close>): the text that they write. A child goes
  through an indenting writer of its own, so its text is the indented text of the child.
\<close>

definition fail_nil :: "'a option \<Rightarrow> 'a run" where
  "fail_nil p = (case p of None \<Rightarrow> Panicked | Some x \<Rightarrow> Done x)"

lemma fail_nil_simps [simp]: "fail_nil None = Panicked" "fail_nil (Some x) = Done x"
  by (simp_all add: fail_nil_def)

abbreviation es_type :: "estate \<Rightarrow> nat \<Rightarrow> YangType" where
  "es_type s t \<equiv> w_types (es_w s) ! t"

text \<open>\<open>e.ReadOnly()\<close>; there are no more entries above one than entries.\<close>

definition read_only :: "estate \<Rightarrow> nat \<Rightarrow> bool run" where
  "read_only s e = ReadOnly (Suc (length (es_entries s))) s (Some e)"

subsection \<open>The tree\<close>

definition getTypeName :: "estate \<Rightarrow> nat \<Rightarrow> string run" where
  "getTypeName s e =
     (case en_Type (ent s e) of
        None \<Rightarrow> Done []
      | Some t \<Rightarrow> bind_run (fail_nil (yt_Root (es_type s t))) (\<lambda>r. Done (yt_Name (es_type s r))))"

definition write_exts :: "Statement list \<Rightarrow> string" where
  "write_exts exts =
     (if exts = [] then []
      else ''extensions: {'' @ [nl]
        @ concat (List.map (\<lambda>x. ''  '' @ Kind x @ (if NName x \<noteq> [] then '' '' @ NName x else []) @ '';'' @ [nl]) exts)
        @ ''}'' @ [nl])"

definition write_mode :: "estate \<Rightarrow> nat \<Rightarrow> string run" where
  "write_mode s e =
     (if en_RPC (ent s e) \<noteq> None then Done ''RPC: ''
      else bind_run (read_only s e) (\<lambda>ro. Done (if ro then ''RO: '' else ''rw: '')))"

definition write_name :: "estate \<Rightarrow> nat \<Rightarrow> string" where
  "write_name s e =
     (case en_Prefix (ent s e) of None \<Rightarrow> [] | Some p \<Rightarrow> node_NName (es_heap s) p @ '':'') @ en_Name (ent s e)"

definition entry_head :: "estate \<Rightarrow> nat \<Rightarrow> string run" where
  "entry_head s e =
     bind_run (write_mode s e) (\<lambda>mode.
       bind_run (if en_Type (ent s e) = None then Done [] else bind_run (getTypeName s e) (\<lambda>t. Done (t @ '' ''))) (\<lambda>ty.
         Done ((if en_Description (ent s e) \<noteq> [] then [nl] @ indent_String ''// '' (en_Description (ent s e) @ [nl]) else [])
           @ write_exts (en_Exts (ent s e)) @ mode @ ty)))"

fun Write :: "nat \<Rightarrow> estate \<Rightarrow> nat \<Rightarrow> string run"
  and Write_list :: "nat \<Rightarrow> estate \<Rightarrow> nat list \<Rightarrow> string run" where
  "Write 0 s e = NoFuel"
| "Write (Suc k) s e =
     bind_run (entry_head s e) (\<lambda>head.
       let x = ent s e; name = write_name s e
       in case en_Dir x of
            None \<Rightarrow> Done (head @ (if en_ListAttr x \<noteq> None then ''[]'' else []) @ name @ [nl])
          | Some d \<Rightarrow>
              bind_run (Write_list k s (case en_RPC x of None \<Rightarrow> []
                 | Some (i, out) \<Rightarrow> (case i of None \<Rightarrow> [] | Some a \<Rightarrow> [a]) @ (case out of None \<Rightarrow> [] | Some a \<Rightarrow> [a]))) (\<lambda>io.
                bind_run (Write_list k s (List.map (\<lambda>n. the (map_of d n)) (sort_strings (List.map fst d)))) (\<lambda>body.
                  Done (head @ (if en_ListAttr x \<noteq> None then ''['' @ en_Key x @ '']'' else []) @ name @ '' {'' @ [nl]
                    @ io @ body @ ''}'' @ [nl]))))"
| "Write_list k s [] = Done []"
| "Write_list k s (c # cs) =
     bind_run (Write k s c) (\<lambda>t. bind_run (Write_list k s cs) (\<lambda>ts. Done (indent_String ''  '' t @ ts)))"

fun run_concat :: "('a \<Rightarrow> string run) \<Rightarrow> 'a list \<Rightarrow> string run" where
  "run_concat f [] = Done []"
| "run_concat f (x # xs) = bind_run (f x) (\<lambda>t. bind_run (run_concat f xs) (\<lambda>ts. Done (t @ ts)))"

definition doTree :: "nat \<Rightarrow> estate \<Rightarrow> nat list \<Rightarrow> string run" where
  "doTree k s entries = run_concat (Write k s) entries"

subsection \<open>The types\<close>

text \<open>
  The type \<open>Types\<close>, a set of pointers, each listed once. What \<open>fmt\<close> writes for \<open>%q\<close> depends on the printable
  runes; what it writes for a \<open>String\<close> method that panics is \<open>pp_panic\<close>.
\<close>

record printing =
  pp_print :: "rune \<Rightarrow> bool"
  pp_panic :: string

definition range_text :: "printing \<Rightarrow> yang_range \<Rightarrow> string" where
  "range_text pp r = (case ranges_string r of None \<Rightarrow> pp_panic pp | Some t \<Rightarrow> t)"

fun AddEntry :: "nat \<Rightarrow> estate \<Rightarrow> nat \<Rightarrow> nat option list \<Rightarrow> nat option list run"
  and AddEntries :: "nat \<Rightarrow> estate \<Rightarrow> nat list \<Rightarrow> nat option list \<Rightarrow> nat option list run" where
  "AddEntry 0 s e ts = NoFuel"
| "AddEntry (Suc k) s e ts =
     AddEntries k s (List.map snd (dir s e))
       (case en_Type (ent s e) of None \<Rightarrow> ts | Some t \<Rightarrow> List.insert (yt_Root (es_type s t)) ts)"
| "AddEntries k s [] ts = Done ts"
| "AddEntries k s (c # cs) ts = bind_run (AddEntry k s c ts) (AddEntries k s cs)"

definition type_base :: "estate \<Rightarrow> bool \<Rightarrow> YangType \<Rightarrow> string" where
  "type_base s verbose t =
     (case yt_Base t of
        None \<Rightarrow> []
      | Some b \<Rightarrow>
          (if \<not> verbose then []
           else (let base = (case b of BaseRef n \<Rightarrow> ''unknown'' | NodeRef n \<Rightarrow> Source (es_heap s) (Some n))
                 in (if base = ''unknown'' then ''unnamed type'' else base) @ '': '')))"

definition type_line :: "printing \<Rightarrow> YangType \<Rightarrow> string \<Rightarrow> yang_range \<Rightarrow> string" where
  "type_line pp t rootName baseRange =
     rootName
     @ (if TypeKind_String (yt_Kind t) \<noteq> rootName then ''('' @ TypeKind_String (yt_Kind t) @ '')'' else [])
     @ (if yt_Units t \<noteq> [] then '' units='' @ yt_Units t else [])
     @ (if yt_Default t \<noteq> [] then '' default='' @ go_quote (pp_print pp) (yt_Default t) else [])
     @ (if yt_FractionDigits t \<noteq> 0 then '' fraction-digits='' @ go_itoa (yt_FractionDigits t) else [])
     @ (if yt_Length t \<noteq> [] then '' length='' @ range_text pp (yt_Length t) else [])
     @ (if yt_Kind t = YinstanceIdentifier \<and> \<not> yt_OptionalInstance t then '' required'' else [])
     @ (if yt_Kind t = Yleafref \<and> yt_Path t \<noteq> [] then '' path='' @ go_quote (pp_print pp) (yt_Path t) else [])
     @ (if yt_Pattern t \<noteq> [] then '' pattern='' @ go_join (yt_Pattern t) ''|'' else [])
     @ (if yt_Range t \<noteq> [] \<and> \<not> ranges_Equal (yt_Range t) baseRange then '' range='' @ range_text pp (yt_Range t) else [])"

fun printType :: "nat \<Rightarrow> printing \<Rightarrow> estate \<Rightarrow> nat \<Rightarrow> bool \<Rightarrow> string run"
  and printTypes :: "nat \<Rightarrow> printing \<Rightarrow> estate \<Rightarrow> nat list \<Rightarrow> bool \<Rightarrow> string run" where
  "printType 0 pp s a verbose = NoFuel"
| "printType (Suc k) pp s a verbose =
     (let t = es_type s a
      in bind_run (fail_nil (yt_Root t)) (\<lambda>r.
        bind_run (fail_nil (BaseTypedefs (TypeKind_String (yt_Kind t)))) (\<lambda>b.
          bind_run (if yt_Type t = [] then Done []
                    else bind_run (printTypes k pp s (yt_Type t) verbose) (\<lambda>body. Done (''{'' @ [nl] @ body @ ''}''))) (\<lambda>parts.
            Done (type_base s verbose t @ type_line pp t (yt_Name (es_type s r)) (yt_Range (es_type s b))
              @ parts @ '';'' @ [nl])))))"
| "printTypes k pp s [] verbose = Done []"
| "printTypes k pp s (a # as) verbose =
     bind_run (printType k pp s a verbose) (\<lambda>t. bind_run (printTypes k pp s as verbose) (\<lambda>ts.
       Done (indent_String ''  '' t @ ts)))"

definition node_location :: "estate \<Rightarrow> nat \<Rightarrow> string run" where
  "node_location s e =
     (case en_Node (ent s e) of
        None \<Rightarrow> Done ''unknown''
      | Some n \<Rightarrow> bind_run (fail_nil (nd_source (es_heap s ! n))) (\<lambda>st. Done (Location st)))"

text \<open>\<open>showall\<close>; \<open>ord\<close> is the order in which a range over the map \<open>Dir\<close> goes.\<close>

definition show_one :: "nat \<Rightarrow> printing \<Rightarrow> estate \<Rightarrow> nat \<Rightarrow> string run" where
  "show_one k pp s e =
     (case en_Type (ent s e) of
        None \<Rightarrow> Done []
      | Some t \<Rightarrow>
          bind_run (node_location s e) (\<lambda>l.
            bind_run (fail_nil (yt_Root (es_type s t))) (\<lambda>r.
              bind_run (printType k pp s r False) (\<lambda>p. Done ([nl] @ l @ [nl] @ ''  '' @ p)))))"

fun showall :: "nat \<Rightarrow> printing \<Rightarrow> ((string \<times> nat) list \<Rightarrow> (string \<times> nat) list) \<Rightarrow> estate \<Rightarrow> nat \<Rightarrow> string run"
  and showall_list :: "nat \<Rightarrow> printing \<Rightarrow> ((string \<times> nat) list \<Rightarrow> (string \<times> nat) list) \<Rightarrow> estate \<Rightarrow> nat list \<Rightarrow> string run" where
  "showall 0 pp ord s e = NoFuel"
| "showall (Suc k) pp ord s e =
     bind_run (show_one k pp s e) (\<lambda>t.
       bind_run (showall_list k pp ord s (List.map snd (ord (dir s e)))) (\<lambda>ts. Done (t @ ts)))"
| "showall_list k pp ord s [] = Done []"
| "showall_list k pp ord s (c # cs) =
     bind_run (showall k pp ord s c) (\<lambda>t. bind_run (showall_list k pp ord s cs) (\<lambda>ts. Done (t @ ts)))"

text \<open>\<open>doTypes\<close>; \<open>tord\<close> is the order of the range over the types, \<open>typesVerbose\<close> and \<open>typesDebug\<close> are the flags.\<close>

definition doTypes :: "nat \<Rightarrow> printing \<Rightarrow> (nat option list \<Rightarrow> nat option list) \<Rightarrow> ((string \<times> nat) list \<Rightarrow> (string \<times> nat) list)
    \<Rightarrow> bool \<Rightarrow> bool \<Rightarrow> estate \<Rightarrow> nat list \<Rightarrow> string run" where
  "doTypes k pp tord ord typesVerbose typesDebug s entries =
     bind_run (AddEntries k s entries []) (\<lambda>ts.
       bind_run (run_concat (\<lambda>t. bind_run (fail_nil t) (\<lambda>a. printType k pp s a typesVerbose)) (tord ts)) (\<lambda>out.
         bind_run (if typesDebug then run_concat (showall k pp ord s) entries else Done []) (\<lambda>dbg.
           Done (out @ dbg))))"

end
