(* ===== verification/CrdSchema.thy ===== *)
theory CrdSchema
  imports Reports Names Enums
begin

text \<open>
  The OpenAPI schema that the formats \<open>crd\<close> (\<open>crd.go\<close>) and \<open>rpc\<close> (\<open>crd_rpc.go\<close>) write for an entry.
\<close>

subsection \<open>Lower case\<close>

text \<open>\<open>strings.ToLower\<close>: \<open>lo\<close> is \<open>unicode.ToLower\<close> beyond ASCII; invalid bytes become the replacement character.\<close>

definition lower_rune :: "(rune \<Rightarrow> rune) \<Rightarrow> rune \<Rightarrow> rune" where
  "lower_rune lo r = (if r < 128 then (if 65 \<le> r \<and> r \<le> 90 then r + 32 else r) else lo r)"

function go_to_lower :: "(rune \<Rightarrow> rune) \<Rightarrow> string \<Rightarrow> string" where
  "go_to_lower lo s =
     (case s of
        [] \<Rightarrow> []
      | c # _ \<Rightarrow> (let (r, w) = decode_rune s in string_of_rune (lower_rune lo r) @ go_to_lower lo (drop (max 1 w) s)))"
  by pat_completeness auto
termination
  by (relation "measure (\<lambda>(lo, s). length s)") auto

declare go_to_lower.simps [simp del]

definition lower_char :: "char \<Rightarrow> char" where
  "lower_char c = (if isASCIIUpper c then char_of (byte c + 32) else c)"

lemma go_to_lower_ascii: "\<forall>c\<in>set s. byte c < 128 \<Longrightarrow> go_to_lower lo s = List.map lower_char s"
proof (induction s)
  case (Cons c s)
  then have "decode_rune (c # s) = (byte c, 1)" by (simp add: decode_rune_def)
  moreover have "string_of_rune (lower_rune lo (byte c)) = [lower_char c]"
    using Cons.prems
    by (auto simp: lower_rune_def lower_char_def string_of_rune_def encode_bytes_def valid_rune_def Let_def isASCIIUpper_def byte_def)
  ultimately show ?case using Cons by (subst go_to_lower.simps) simp
qed (subst go_to_lower.simps, simp)

subsection \<open>Leaves\<close>

definition TypeMap :: "(string \<times> string) list" where
  "TypeMap =
     [(''int8'', ''integer''), (''int16'', ''integer''), (''int32'', ''integer''), (''int64'', ''integer''),
      (''uint8'', ''integer''), (''uint16'', ''integer''), (''uint32'', ''integer''), (''uint64'', ''integer''),
      (''bits'', ''integer''), (''decimal64'', ''number''), (''string'', ''string''), (''boolean'', ''boolean''),
      (''leafref'', ''string'')]"

definition BooleanToStringMap :: "(string \<times> string) list" where
  "BooleanToStringMap =
     [(''on'', ''Enable''), (''off'', ''Disable''), (''yes'', ''Enable''), (''no'', ''Disable''),
      (''true'', ''Enable''), (''false'', ''Disable'')]"

definition enum_label :: "(rune \<Rightarrow> rune) \<Rightarrow> string \<Rightarrow> string" where
  "enum_label lo n =
     (case map_of BooleanToStringMap (go_to_lower lo n) of None \<Rightarrow> CamelCase True n | Some b \<Rightarrow> b)"

definition crd_type :: "string \<Rightarrow> string" where
  "crd_type name = (case map_of TypeMap name of None \<Rightarrow> ''string'' | Some t \<Rightarrow> t)"

definition crd_bounds :: "YangType \<Rightarrow> string \<Rightarrow> string \<Rightarrow> string" where
  "crd_bounds t crdType prefix =
     (if crdType = ''integer'' \<and> length (yt_Range t) = 1 \<and> Valid (hd (yt_Range t)) then
        (case (Number_Int (rmin (hd (yt_Range t))), Number_Int (rmax (hd (yt_Range t)))) of
           (Inr mn, Inr mx) \<Rightarrow> prefix @ ''minimum: '' @ go_itoa mn @ [nl] @ prefix @ ''maximum: '' @ go_itoa mx @ [nl]
         | _ \<Rightarrow> [])
      else [])"

definition emitCrdType :: "(rune \<Rightarrow> rune) \<Rightarrow> estate \<Rightarrow> entry \<Rightarrow> string \<Rightarrow> string run" where
  "emitCrdType lo s x prefix =
     (case en_Type x of
        None \<Rightarrow> Done (prefix @ ''type: string'' @ [nl])
      | Some ty \<Rightarrow>
          (let t = es_type s ty
           in bind_run (fail_nil (yt_Root t)) (\<lambda>r.
             let name = yt_Name (es_type s r)
             in if name = [] then Done (prefix @ ''type: string'' @ [nl])
                else if yt_Kind t = Yenum then
                  bind_run (fail_nil (yt_Enum t)) (\<lambda>en.
                    Done (prefix @ ''enum:'' @ [nl]
                      @ concat (List.map (\<lambda>n. prefix @ ''- '' @ enum_label lo n @ [nl]) (enum_Names en))
                      @ prefix @ ''type: string'' @ [nl]))
                else Done (prefix @ ''type: '' @ crd_type name @ [nl] @ crd_bounds t (crd_type name) prefix))))"

subsection \<open>Keys\<close>

definition key_fields :: "string \<Rightarrow> string list" where
  "key_fields key = go_split (go_trim_space key) '' ''"

definition emitCrdRequired :: "entry \<Rightarrow> string \<Rightarrow> string" where
  "emitCrdRequired x prefix =
     (if en_ListAttr x = None then []
      else if en_Key x = [] then []
      else prefix @ ''required:'' @ [nl]
        @ concat (List.map (\<lambda>f. prefix @ ''- '' @ CamelCase False f @ [nl]) (key_fields (en_Key x))))"

subsection \<open>Directories\<close>

definition sorted_children :: "estate \<Rightarrow> nat \<Rightarrow> nat list" where
  "sorted_children s e = List.map (\<lambda>n. the (map_of (dir s e) n)) (sort_strings (List.map fst (dir s e)))"

text \<open>The text before, between and after the children of an entry that is no choice, case or rpc.\<close>

definition crd_node :: "(rune \<Rightarrow> rune) \<Rightarrow> (string \<Rightarrow> string run) \<Rightarrow> estate \<Rightarrow> entry \<Rightarrow> string run" where
  "crd_node lo children s x =
     (let head = CamelCase False (en_Name x) @ '':'' @ [nl]
      in case (en_Dir x, en_ListAttr x) of
           (None, Some _) \<Rightarrow>
             bind_run (emitCrdType lo s x (GetPrefix 4)) (\<lambda>t.
               Done (head @ ''  items:'' @ [nl] @ t @ ''  type: array'' @ [nl]))
         | (None, None) \<Rightarrow> bind_run (emitCrdType lo s x (GetPrefix 2)) (\<lambda>t. Done (head @ t))
         | (Some _, Some _) \<Rightarrow>
             bind_run (children (GetPrefix 6)) (\<lambda>body.
               Done (head @ ''  items:'' @ [nl] @ ''    properties:'' @ [nl] @ body @ emitCrdRequired x (GetPrefix 4)
                 @ GetPrefix 4 @ ''type: object'' @ [nl] @ GetPrefix 2 @ ''type: array'' @ [nl]))
         | (Some _, None) \<Rightarrow>
             bind_run (children (GetPrefix 4)) (\<lambda>body.
               Done (head @ ''  properties:'' @ [nl] @ body @ GetPrefix 2 @ ''type: object'' @ [nl])))"

lemma crd_node_cong [fundef_cong]:
  assumes "lo = lo'" "s = s'" "x = x'" "\<And>ind. en_Dir x' \<noteq> None \<Longrightarrow> f ind = g ind"
  shows "crd_node lo f s x = crd_node lo' g s' x'"
  using assms by (auto simp: crd_node_def Let_def split: option.split)

text \<open>\<open>WriteCrd\<close>; the second function writes the children through writers with the indent \<open>ind\<close>.\<close>

fun WriteCrd :: "nat \<Rightarrow> (rune \<Rightarrow> rune) \<Rightarrow> estate \<Rightarrow> nat \<Rightarrow> string run"
  and WriteCrds :: "nat \<Rightarrow> (rune \<Rightarrow> rune) \<Rightarrow> estate \<Rightarrow> string \<Rightarrow> nat list \<Rightarrow> string run" where
  "WriteCrd 0 lo s e = NoFuel"
| "WriteCrd (Suc k) lo s e =
     (if en_RPC (ent s e) \<noteq> None then Done []
      else if IsChoice (ent s e) then WriteCrds k lo s [] (sorted_children s e)
      else if IsCase (ent s e) then WriteCrds k lo s [] (sorted_children s e)
      else crd_node lo (\<lambda>ind. WriteCrds k lo s ind (sorted_children s e)) s (ent s e))"
| "WriteCrds k lo s ind [] = Done []"
| "WriteCrds k lo s ind (c # cs) =
     bind_run (WriteCrd k lo s c) (\<lambda>t. bind_run (WriteCrds k lo s ind cs) (\<lambda>ts. Done (indent_String ind t @ ts)))"

text \<open>The strings that \<open>generateSpec\<close> and \<open>generateStatus\<close> give to the template.\<close>

definition spec_text :: "nat \<Rightarrow> (rune \<Rightarrow> rune) \<Rightarrow> estate \<Rightarrow> nat \<Rightarrow> string run" where
  "spec_text k lo s e =
     bind_run (WriteCrds k lo s (GetPrefix 4) (sorted_children s e)) (\<lambda>body.
       Done (''spec:'' @ [nl] @ ''  properties:'' @ [nl] @ body @ emitCrdRequired (ent s e) (GetPrefix 2)
         @ ''  type: object'' @ [nl]))"

fun status_children :: "nat \<Rightarrow> (rune \<Rightarrow> rune) \<Rightarrow> estate \<Rightarrow> bool \<Rightarrow> string \<Rightarrow> nat list \<Rightarrow> string run" where
  "status_children k lo s all ind [] = Done []"
| "status_children k lo s all ind (c # cs) =
     bind_run (if all then Done True else read_only s c) (\<lambda>ro.
       bind_run (if ro then bind_run (WriteCrd k lo s c) (\<lambda>t. Done (indent_String ind t)) else Done []) (\<lambda>t.
         bind_run (status_children k lo s all ind cs) (\<lambda>ts. Done (t @ ts))))"

definition generateStatusFields :: "nat \<Rightarrow> (rune \<Rightarrow> rune) \<Rightarrow> estate \<Rightarrow> nat \<Rightarrow> bool \<Rightarrow> string run" where
  "generateStatusFields k lo s e property =
     bind_run (read_only s e) (\<lambda>ro.
       bind_run (status_children k lo s ro (GetPrefix (if property then 2 else 0)) (sorted_children s e)) (\<lambda>body.
         Done ((if property then ''properties:'' @ [nl] else []) @ body
           @ (if property then (if ro then emitCrdRequired (ent s e) [] else []) @ ''type: object'' @ [nl] else []))))"

subsection \<open>Rpcs\<close>

definition WriteIntermediate :: "nat \<Rightarrow> (rune \<Rightarrow> rune) \<Rightarrow> estate \<Rightarrow> int \<Rightarrow> nat \<Rightarrow> string run" where
  "WriteIntermediate k lo s n e =
     (let x = ent s e
      in case (en_Dir x, en_ListAttr x) of
           (None, Some _) \<Rightarrow>
             bind_run (emitCrdType lo s x (GetPrefix (n + 2))) (\<lambda>t.
               Done (GetPrefix n @ ''type: array'' @ [nl] @ GetPrefix n @ ''items:'' @ [nl] @ t))
         | (None, None) \<Rightarrow> emitCrdType lo s x (GetPrefix n)
         | (Some _, Some _) \<Rightarrow>
             bind_run (WriteCrds k lo s (GetPrefix (n + 4)) (sorted_children s e)) (\<lambda>body.
               Done (GetPrefix n @ ''type: array'' @ [nl] @ GetPrefix n @ ''items:'' @ [nl]
                 @ GetPrefix (n + 2) @ ''properties:'' @ [nl] @ body @ GetPrefix (n + 2) @ ''type: object'' @ [nl]))
         | (Some _, None) \<Rightarrow>
             bind_run (WriteCrds k lo s (GetPrefix (n + 2)) (sorted_children s e)) (\<lambda>body.
               Done (GetPrefix n @ ''properties:'' @ [nl] @ body @ GetPrefix n @ ''type: object'' @ [nl])))"

definition rpc_part :: "nat \<Rightarrow> (rune \<Rightarrow> rune) \<Rightarrow> estate \<Rightarrow> int \<Rightarrow> string \<Rightarrow> nat option \<Rightarrow> string run" where
  "rpc_part k lo s n label e =
     (case e of
        None \<Rightarrow> Done []
      | Some a \<Rightarrow> bind_run (WriteIntermediate k lo s (n + 2) a) (\<lambda>t. Done (GetPrefix n @ label @ '':'' @ [nl] @ t)))"

definition processEntry :: "nat \<Rightarrow> (rune \<Rightarrow> rune) \<Rightarrow> estate \<Rightarrow> int \<Rightarrow> nat \<Rightarrow> string run" where
  "processEntry k lo s n e =
     (let name = CamelCase False (en_Name (ent s e))
      in bind_run (fail_nil (en_RPC (ent s e))) (\<lambda>(i, out).
        bind_run (rpc_part k lo s n (name @ ''Input'') i) (\<lambda>ti.
          bind_run (rpc_part k lo s n (name @ ''Output'') out) (\<lambda>to.
            Done (GetPrefix n @ name @ '':'' @ [nl] @ GetPrefix (n + 2) @ ''type: boolean'' @ [nl] @ ti @ to)))))"

text \<open>\<open>doRpcCrd\<close> after the module has been found: the rpcs by their names, which are looked up as keys.\<close>

definition rpc_names :: "estate \<Rightarrow> nat \<Rightarrow> string list" where
  "rpc_names s e =
     sort_strings (List.map (\<lambda>c. en_Name (ent s c)) (filter (\<lambda>c. en_RPC (ent s c) \<noteq> None) (List.map snd (dir s e))))"

definition rpcs_text :: "nat \<Rightarrow> (rune \<Rightarrow> rune) \<Rightarrow> estate \<Rightarrow> nat \<Rightarrow> string run" where
  "rpcs_text k lo s e =
     bind_run (run_concat (\<lambda>n. bind_run (fail_nil (map_of (dir s e) n)) (processEntry k lo s 8)) (rpc_names s e)) (\<lambda>body.
       Done (''spec:'' @ [nl] @ ''  properties:'' @ [nl] @ ''    rpcs:'' @ [nl] @ ''      properties:'' @ [nl]
         @ body @ ''      type: object'' @ [nl]))"

end
