(* ===== verification/CrdOptions.thy ===== *)
theory CrdOptions
  imports CrdSchema
begin

text \<open>
  The options of the format \<open>crd\<close>: \<open>crd_options.go\<close>, and the helpers of \<open>crd_utils.go\<close> that compute names,
  keys and the entry to work on. A function that may index out of range returns a \<open>run\<close>; an error
  is its text.
\<close>

subsection \<open>The variables that hold the flags\<close>

record crd_vars =
  rootNodeModel :: string
  instanceNodeModel :: string
  cv_crdName :: string
  metadataNamespace :: string
  outputDirectory :: string
  noConfig :: bool
  crdTemplate :: string
  crdGroup :: string
  moduleSearchPath :: string

record CrdOptions =
  co_Root :: string
  co_Instance :: string
  co_Name :: string
  co_Group :: string
  co_Key :: string
  co_Config :: bool
  co_SkipReconcile :: bool
  co_Augmentor :: string
  co_ModuleSearchPath :: string

definition DefaultGroupName :: string where "DefaultGroupName = ''netconf.ciena.com''"

definition getDefaultOptions :: "crd_vars \<Rightarrow> CrdOptions" where
  "getDefaultOptions v = \<lparr>co_Root = rootNodeModel v, co_Instance = instanceNodeModel v, co_Name = cv_crdName v,
     co_Group = (if crdGroup v = [] then DefaultGroupName else crdGroup v), co_Key = [], co_Config = \<not> noConfig v,
     co_SkipReconcile = False, co_Augmentor = [], co_ModuleSearchPath = moduleSearchPath v\<rparr>"

text \<open>\<open>kvstore\<close>: what an option of the name \<open>k\<close> sets.\<close>

definition put_option :: "string \<Rightarrow> string \<Rightarrow> CrdOptions \<Rightarrow> CrdOptions option" where
  "put_option k v c =
     (if k = ''root'' then Some (c\<lparr>co_Root := v\<rparr>)
      else if k = ''instance'' then Some (c\<lparr>co_Instance := v\<rparr>)
      else if k = ''name'' then Some (c\<lparr>co_Name := v\<rparr>)
      else if k = ''key'' then Some (c\<lparr>co_Key := v\<rparr>)
      else if k = ''augmentor'' then Some (c\<lparr>co_Augmentor := v\<rparr>)
      else if k = ''group'' then Some (c\<lparr>co_Group := v\<rparr>)
      else None)"

text \<open>The loop over the parts, with what it writes to standard error.\<close>

definition ignoring :: "string \<Rightarrow> string" where
  "ignoring x = ''ignoring invalid option: '' @ x @ [nl]"

fun option_parts :: "string list \<Rightarrow> CrdOptions \<Rightarrow> CrdOptions \<times> string" where
  "option_parts [] c = (c, [])"
| "option_parts (p # ps) c =
     (case go_split p ''='' of
        [k, v] \<Rightarrow>
          (case put_option k v c of
             None \<Rightarrow> (let (c', err) = option_parts ps c in (c', ignoring k @ err))
           | Some c1 \<Rightarrow> option_parts ps c1)
      | _ \<Rightarrow> (let (c', err) = option_parts ps c in (c', ignoring p @ err)))"

definition parseOptions :: "crd_vars \<Rightarrow> string \<Rightarrow> CrdOptions \<times> string" where
  "parseOptions v options =
     (if options = [] then (getDefaultOptions v, [])
      else option_parts (go_split options '','') (getDefaultOptions v))"

text \<open>A file name with its options; \<open>FileOption\<close> and \<open>defaultFileOption\<close> are pairs too.\<close>

definition newFileOption :: "string \<Rightarrow> string \<times> string" where
  "newFileOption filename =
     (let parts = go_split filename '',''
      in (hd parts, if 1 < length parts then go_join (tl parts) '','' else []))"

definition extractFileOptions :: "string list \<Rightarrow> (string \<times> string) list" where
  "extractFileOptions files = List.map newFileOption files"

definition defaultFileOption :: "string \<Rightarrow> string \<times> string" where
  "defaultFileOption name = (name, [])"

subsection \<open>Names\<close>

definition pluralize :: "(rune \<Rightarrow> rune) \<Rightarrow> string \<Rightarrow> string" where
  "pluralize lo s =
     (if s = [] then []
      else (let p = go_to_lower lo s in if last p = CHR ''s'' then p else p @ ''s''))"

definition getShortNames :: "(rune \<Rightarrow> rune) \<Rightarrow> bool \<Rightarrow> string \<Rightarrow> string list run" where
  "getShortNames lo noconfig name =
     (if length name \<le> 5 then
        (let sn = pluralize lo name
         in if noconfig \<and> sn = [] then Panicked
            else Done [if noconfig \<and> hd sn \<noteq> CHR ''q'' then ''q'' @ sn else sn])
      else
        (let s0 = go_to_lower lo (filter isASCIIUpper name)
         in if s0 = [] then Done [string_of_rune (byte (hd name)) @ ''s'']
            else (let s1 = (if noconfig \<and> hd s0 \<noteq> CHR ''q'' then ''q'' @ s0 else s0)
                  in if length s1 = 1 then
                       (let l = go_to_lower lo name in if length l < 3 then Panicked else Done [take 3 l])
                     else if last s1 = CHR ''s'' then Done [s1]
                     else Done [s1, s1 @ ''s''])))"

definition getKeyForEntry :: "bool \<Rightarrow> entry \<Rightarrow> string + string" where
  "getKeyForEntry noconfig x =
     (if en_Key x = [] then Inr (if noconfig then ''name'' else ''internal'')
      else (let keys = key_fields (en_Key x)
            in if 1 < length keys
               then Inl (''multiple keys for yang entry: multiple keys for node '' @ en_Name x
                      @ ''. specify key option with filename'')
               else Inr (hd keys)))"

subsection \<open>The entry to work on\<close>

definition not_found :: "string \<Rightarrow> string" where
  "not_found x = ''node not found in yang model: '' @ x"

fun list_nodes :: "estate \<Rightarrow> (string \<times> nat) list \<Rightarrow> string \<Rightarrow> nat option \<Rightarrow> string + string \<times> nat option" where
  "list_nodes s [] instance' ie = Inr (instance', ie)"
| "list_nodes s ((n, d) # ds) instance' ie =
     (if IsList (ent s d) then
        (if instance' = [] then list_nodes s ds n (Some d)
         else Inl (''node not found in yang model:warning multiple list nodes: '' @ n @ '', instance: '' @ instance' @ [nl]))
      else list_nodes s ds instance' ie)"

text \<open>\<open>ord\<close> is the order of the range over the children.\<close>

definition getRootInstanceEntry :: "((string \<times> nat) list \<Rightarrow> (string \<times> nat) list) \<Rightarrow> estate \<Rightarrow> nat
    \<Rightarrow> string + string \<times> string \<times> nat option" where
  "getRootInstanceEntry ord s e =
     (case dir s e of
        [] \<Rightarrow> Inl (not_found ''could not find root/instance node'')
      | [(name, node)] \<Rightarrow>
          (if IsList (ent s node) then Inr (name, name, Some node)
           else if IsContainer (ent s node) then
             (if dir s node = [] then Inr (name, name, Some node)
              else (case list_nodes s (ord (dir s node)) [] None of
                      Inl err \<Rightarrow> Inl err
                    | Inr (instance', ie) \<Rightarrow>
                        if instance' = [] then Inr (name, name, Some node) else Inr (name, instance', ie)))
           else Inl (not_found ''could not find root/instance node''))
      | _ \<Rightarrow> Inl (not_found ''cannot derive root/instance node as there are multiple root nodes''))"

text \<open>\<open>dumpRootInstanceEntry\<close>, as the lines it prints; \<open>ord\<close> is the order of the ranges.\<close>

definition list_names :: "estate \<Rightarrow> (string \<times> nat) list \<Rightarrow> string" where
  "list_names s ds =
     fold (\<lambda>(n, d) inst. if IsList (ent s d) then (if inst = [] then n else inst @ '','' @ n) else inst) ds []"

definition dump_node :: "((string \<times> nat) list \<Rightarrow> (string \<times> nat) list) \<Rightarrow> estate \<Rightarrow> string \<times> nat \<Rightarrow> string" where
  "dump_node ord s = (\<lambda>(name, node).
     if IsList (ent s node) then ''list root '' @ name @ '' instance '' @ name @ [nl]
     else if IsContainer (ent s node) then
       (if dir s node = [] then ''single-container root '' @ name @ '' instance '' @ name @ [nl]
        else (let inst = list_names s (ord (dir s node))
              in ''container root '' @ name @ '' instance '' @ (if inst = [] then name else inst) @ [nl]))
     else [])"

definition dumpRootInstanceEntry :: "((string \<times> nat) list \<Rightarrow> (string \<times> nat) list) \<Rightarrow> estate \<Rightarrow> nat \<Rightarrow> string" where
  "dumpRootInstanceEntry ord s e = concat (List.map (dump_node ord s) (ord (dir s e)))"

subsection \<open>Arguments and paths\<close>

definition one_file_only :: "string \<Rightarrow> string" where
  "one_file_only what = ''invalid args: '' @ what
     @ '' specified with multiple files. they should be part of each filename separated by comma''"

definition validateArgs :: "crd_vars \<Rightarrow> string list \<Rightarrow> string option" where
  "validateArgs v files =
     (if 1 < length files then
        (if rootNodeModel v \<noteq> [] then Some (one_file_only ''root node'')
         else if instanceNodeModel v \<noteq> [] then Some (one_file_only ''instance node'')
         else if cv_crdName v \<noteq> [] then Some (one_file_only ''crd name'')
         else None)
      else None)"

fun after_base :: "string \<Rightarrow> string list \<Rightarrow> string list" where
  "after_base b [] = []"
| "after_base b (d # ds) = (if d = b then ds else after_base b ds)"

definition getRelativePathWithBase :: "string \<Rightarrow> string \<Rightarrow> string" where
  "getRelativePathWithBase b p =
     (let dirs = filter (\<lambda>d. d \<noteq> []) (go_split p ''/''); rest = after_base b dirs
      in if rest = [] then b else go_join (b # rest) ''/'')"

text \<open>\<open>path.Ext\<close>\<close>

definition path_Ext :: "string \<Rightarrow> string" where
  "path_Ext p =
     (let r = takeWhile (\<lambda>c. \<not> is_slash c) (List.rev p)
      in if CHR ''.'' \<in> set r then CHR ''.'' # List.rev (takeWhile (\<lambda>c. c \<noteq> CHR ''.'') r) else [])"

definition file_base_name :: "string \<Rightarrow> string" where
  "file_base_name filename =
     (let b = filepath_Base filename in take (length b - length (path_Ext b)) b)"

end
