(* ===== verification/Crds.thy ===== *)
theory Crds
  imports CrdOptions
begin

text \<open>
  The formats \<open>crd\<close> and \<open>rpc\<close> as commands: \<open>doCrd\<close> (\<open>crd.go\<close>), \<open>doRpcCrd\<close> (\<open>crd_rpc.go\<close>) and
  \<open>generateMetadata\<close> (\<open>crd_metadata.go\<close>). A command works on the output, the files written and the
  flag variables, and returns, exits, panics or does not end.
\<close>

subsection \<open>Commands\<close>

datatype 'a ending = Returns 'a | Exits int | Panics | Endless

record system =
  sy_out :: string
  sy_err :: string
  sy_files :: "(string \<times> string) list"
  sy_vars :: crd_vars

type_synonym 'a cmd = "system \<Rightarrow> 'a ending \<times> system"

definition give :: "'a \<Rightarrow> 'a cmd" where "give x y = (Returns x, y)"
definition exit_with :: "int \<Rightarrow> 'a cmd" where "exit_with n y = (Exits n, y)"
definition panic :: "'a cmd" where "panic y = (Panics, y)"

definition andthen :: "'a cmd \<Rightarrow> ('a \<Rightarrow> 'b cmd) \<Rightarrow> 'b cmd" where
  "andthen c f y =
     (case c y of
        (Returns x, y') \<Rightarrow> f x y'
      | (Exits n, y') \<Rightarrow> (Exits n, y')
      | (Panics, y') \<Rightarrow> (Panics, y')
      | (Endless, y') \<Rightarrow> (Endless, y'))"

definition of_run :: "'a run \<Rightarrow> 'a cmd" where
  "of_run r = (case r of Done x \<Rightarrow> give x | Panicked \<Rightarrow> panic | NoFuel \<Rightarrow> (\<lambda>y. (Endless, y)))"

definition put_out :: "string \<Rightarrow> unit cmd" where "put_out t y = (Returns (), y\<lparr>sy_out := sy_out y @ t\<rparr>)"
definition put_err :: "string \<Rightarrow> unit cmd" where "put_err t y = (Returns (), y\<lparr>sy_err := sy_err y @ t\<rparr>)"
definition put_file :: "string \<Rightarrow> string \<Rightarrow> unit cmd" where
  "put_file f t y = (Returns (), y\<lparr>sy_files := sy_files y @ [(f, t)]\<rparr>)"
definition flag :: "(crd_vars \<Rightarrow> 'a) \<Rightarrow> 'a cmd" where "flag f y = (Returns (f (sy_vars y)), y)"
definition set_directory :: "string \<Rightarrow> unit cmd" where
  "set_directory d y = (Returns (), y\<lparr>sy_vars := (sy_vars y)\<lparr>outputDirectory := d\<rparr>\<rparr>)"

definition fail_with :: "string \<Rightarrow> 'a cmd" where
  "fail_with t = andthen (put_err t) (\<lambda>_. exit_with 1)"

lemma andthen_simps [simp]:
  "andthen (give x) f = f x" "andthen (exit_with n) f = exit_with n" "andthen panic f = panic"
  "andthen (put_err t) g y = g () (y\<lparr>sy_err := sy_err y @ t\<rparr>)"
  "andthen (put_out t) g y = g () (y\<lparr>sy_out := sy_out y @ t\<rparr>)"
  by (simp_all add: fun_eq_iff andthen_def give_def exit_with_def panic_def put_err_def put_out_def)

lemma andthen_assoc [simp]: "andthen (andthen c f) g = andthen c (\<lambda>x. andthen (f x) g)"
  by (rule ext) (simp add: andthen_def split: prod.split ending.split)

subsection \<open>Outside\<close>

text \<open>
  \<open>text/template\<close>, YAML and the operating system. \<open>ou_stat\<close>: \<open>None\<close> is success, \<open>Some None\<close> a file that
  does not exist. A template is executed with the functions of the program and a configuration; it
  writes text and may then fail. The functions return \<open>Inl\<close> an error text. \<open>ou_create\<close> is \<open>os.Create\<close>, with its error;
  \<open>ou_writeFile\<close> is \<open>os.WriteFile\<close>, which may fail with nothing written, or leave a file with a part of the text.
\<close>

record crdConfig =
  cc_CrdName :: string
  cc_ShortNames :: "string list"
  cc_Group :: string

record template_funcs =
  tf_ToPlural :: "string \<Rightarrow> string"
  tf_GetSpec :: "(int \<Rightarrow> string) option"
  tf_GetStatusFields :: "(int \<Rightarrow> string) option"

datatype yaml = YString string | YBool bool | YOther string | YSeq "yaml list" | YMap "(yaml \<times> yaml) list"

record outside =
  ou_lower :: "rune \<Rightarrow> rune"
  ou_stat :: "string \<Rightarrow> string option option"
  ou_template :: "string \<Rightarrow> template_funcs \<Rightarrow> string + (crdConfig \<Rightarrow> string \<times> string option)"
  ou_getwd :: "string + string"
  ou_mkdirall :: "string \<Rightarrow> bool"   \<comment> \<open>succeeds, or the directory exists\<close>
  ou_create :: "string \<Rightarrow> string option"
  ou_writeFile :: "string \<Rightarrow> string \<Rightarrow> (string option \<times> string) option"   \<comment> \<open>\<open>Some\<close>: what is left of the file, and the error\<close>
  ou_readFile :: "string \<Rightarrow> string + string"
  ou_unmarshal :: "string \<Rightarrow> string + (string \<times> yaml) list option"
  ou_encode :: "(string \<times> yaml) list \<Rightarrow> string + string"

subsection \<open>The output directory\<close>

definition getOutputDirectory :: "outside \<Rightarrow> string cmd" where
  "getOutputDirectory ou =
     andthen (flag outputDirectory) (\<lambda>d.
       if d = [] then
         (case ou_getwd ou of
            Inl _ \<Rightarrow> panic
          | Inr p \<Rightarrow> andthen (set_directory p) (\<lambda>_. give p))
       else if ou_mkdirall ou d then give d else panic)"

text \<open>The callers assign the result to \<open>outputDirectory\<close> again.\<close>

definition output_directory :: "outside \<Rightarrow> string cmd" where
  "output_directory ou = andthen (getOutputDirectory ou) (\<lambda>d. andthen (set_directory d) (\<lambda>_. give d))"

subsection \<open>The template\<close>

definition indent_content :: "string \<Rightarrow> int \<Rightarrow> string" where
  "indent_content content spaces =
     (if content = [] then []
      else indent_String (GetPrefix spaces) (if last content = nl then butlast content else content))"

definition template_functions :: "outside \<Rightarrow> string \<Rightarrow> string \<Rightarrow> template_funcs" where
  "template_functions ou spec status =
     \<lparr>tf_ToPlural = pluralize (ou_lower ou), tf_GetSpec = (if spec = [] then None else Some (indent_content spec)),
      tf_GetStatusFields = (if status = [] then None else Some (indent_content status))\<rparr>"

definition crd_name :: "outside \<Rightarrow> CrdOptions \<Rightarrow> string" where
  "crd_name ou opts =
     (let rootNode = CamelCase False (co_Root opts); crdNode = CamelCase False (co_Instance opts);
          lo = go_to_lower (ou_lower ou)
      in CamelCase True
           (if co_Name opts \<noteq> [] then co_Name opts
            else if lo crdNode @ ''s'' = lo rootNode then crdNode else rootNode))"

text \<open>The end of \<open>executeTemplate\<close>: the file is written by the template \<open>exec\<close>.\<close>

definition write_crd :: "outside \<Rightarrow> CrdOptions \<Rightarrow> (crdConfig \<Rightarrow> string \<times> string option) \<Rightarrow> string \<Rightarrow> string list \<Rightarrow> string
    \<Rightarrow> CrdOptions cmd" where
  "write_crd ou opts exec name short d =
     (let crdFile = d @ ''/'' @ co_Group opts @ ''_'' @ pluralize (ou_lower ou) name @ ''.yaml'';
          (out, err) = exec \<lparr>cc_CrdName = name, cc_ShortNames = short, cc_Group = co_Group opts\<rparr>
      in if ou_create ou crdFile \<noteq> None then panic
         else andthen (put_file crdFile out) (\<lambda>_.
           if err \<noteq> None then panic
           else andthen (put_out (''Generated crd '' @ crdFile @ [nl])) (\<lambda>_. give (opts\<lparr>co_Name := name\<rparr>))))"

text \<open>\<open>executeTemplate\<close> returns the options, whose name it sets.\<close>

definition executeTemplate :: "outside \<Rightarrow> CrdOptions \<Rightarrow> string \<Rightarrow> string \<Rightarrow> CrdOptions cmd" where
  "executeTemplate ou opts spec status =
     andthen (flag crdTemplate) (\<lambda>templateFile.
       case ou_stat ou templateFile of
         Some None \<Rightarrow> fail_with (''template file '' @ templateFile @ '' does not exist'' @ [nl])
       | Some (Some err) \<Rightarrow> fail_with (''error '' @ err @ '' accessing template file '' @ templateFile @ [nl])
       | None \<Rightarrow>
           (case ou_template ou templateFile (template_functions ou spec status) of
              Inl _ \<Rightarrow> panic
            | Inr exec \<Rightarrow>
                andthen (flag noConfig) (\<lambda>nc.
                  andthen (of_run (getShortNames (ou_lower ou) nc (crd_name ou opts))) (\<lambda>short.
                    andthen (output_directory ou) (write_crd ou opts exec (crd_name ou opts) short)))))"

subsection \<open>The metadata\<close>

text \<open>The template \<open>metadataToYaml\<close>, executed.\<close>

definition metadata_text :: "outside \<Rightarrow> string \<Rightarrow> string \<Rightarrow> CrdOptions \<Rightarrow> string" where
  "metadata_text ou filename namespace c =
     (let line = (\<lambda>t. t @ [nl]); quoted = (\<lambda>t. CHR 0x22 # t @ [CHR 0x22])
      in [nl]
         @ line ''apiVersion: netconf.ciena.com/v1alpha1''
         @ line ''kind: YangMetadata''
         @ line ''metadata:''
         @ line (''  namespace: '' @ (if namespace = [] then ''default'' else namespace))
         @ line (''  name: '' @ quoted (go_to_lower (ou_lower ou) (co_Name c) @ ''-meta''))
         @ line ''spec:''
         @ line ''  reference:''
         @ line (''    kind: '' @ co_Name c)
         @ line (''    group: '' @ co_Group c)
         @ line (''    apiVersion: '' @ co_Group c @ ''/v1alpha1'')
         @ line ''  wrapper:''
         @ line (''    config: '' @ (if co_Config c then ''true'' else ''false''))
         @ line (''    xmlRequestName: '' @ quoted (co_Root c))
         @ line (''    xmlName: '' @ quoted (co_Instance c))
         @ line (''    keyField: '' @ quoted (co_Key c))
         @ line (''    module: '' @ quoted (filepath_Base filename))
         @ line (''    moduleSearchPath: '' @ quoted (getRelativePathWithBase ''yang'' (co_ModuleSearchPath c))))"

text \<open>What the code adds to \<open>spec.wrapper\<close>; a value that is no map makes the type assertion panic.\<close>

definition wrapper_extras :: "string list \<Rightarrow> CrdOptions \<Rightarrow> (string \<times> yaml) list option \<Rightarrow> (yaml \<times> yaml) list \<Rightarrow> (yaml \<times> yaml) list" where
  "wrapper_extras dependencies c augmentation w0 =
     (let w1 = (if dependencies = [] then w0
                else AList.update (YString ''moduleDependencies'') (YSeq (List.map YString dependencies)) w0);
          w2 = (if co_Key c = ''internal'' \<and> co_Config c then AList.update (YString ''skipReconcile'') (YBool True) w1 else w1)
      in case augmentation of
           None \<Rightarrow> w2
         | Some a \<Rightarrow> AList.update (YString ''augmentor'') (YMap (List.map (\<lambda>(k, v). (YString k, v)) a)) w2)"

definition extend_metadata :: "((yaml \<times> yaml) list \<Rightarrow> (yaml \<times> yaml) list) \<Rightarrow> (string \<times> yaml) list \<Rightarrow> (string \<times> yaml) list run" where
  "extend_metadata f m =
     (case map_of m ''spec'' of
        Some (YMap spec) \<Rightarrow>
          (case map_of spec (YString ''wrapper'') of
             Some (YMap w) \<Rightarrow>
               Done (AList.update ''spec'' (YMap (AList.update (YString ''wrapper'') (YMap (f w)) spec)) m)
           | _ \<Rightarrow> Panicked)
      | _ \<Rightarrow> Panicked)"

definition read_augmentation :: "outside \<Rightarrow> CrdOptions \<Rightarrow> string + (string \<times> yaml) list option" where
  "read_augmentation ou c =
     (if co_Augmentor c = [] then Inr None
      else case ou_readFile ou (co_Augmentor c) of
             Inl e \<Rightarrow> Inl (e @ '': error reading augmentation data'')
           | Inr d \<Rightarrow>
               (case ou_unmarshal ou d of
                  Inl e \<Rightarrow> Inl (e @ '': error unmarshaling augmentation data'')
                | Inr a \<Rightarrow> Inr a))"

definition generateMetadata :: "outside \<Rightarrow> string \<Rightarrow> string list \<Rightarrow> string \<Rightarrow> CrdOptions \<Rightarrow> string option cmd" where
  "generateMetadata ou filename dependencies namespace c =
     (case ou_unmarshal ou (metadata_text ou filename namespace c) of
        Inl e \<Rightarrow> give (Some (e @ '': error unmarshaling yaml metadata''))
      | Inr m \<Rightarrow>
          (case read_augmentation ou c of
             Inl e \<Rightarrow> give (Some e)
           | Inr a \<Rightarrow>
               andthen (of_run (extend_metadata (wrapper_extras dependencies c a) (case m of None \<Rightarrow> [] | Some x \<Rightarrow> x))) (\<lambda>m'.
                 case ou_encode ou m' of
                   Inl e \<Rightarrow> give (Some (e @ '': error encoding yaml metadata''))
                 | Inr t \<Rightarrow>
                     andthen (output_directory ou) (\<lambda>d.
                       let f = d @ ''/'' @ co_Group c @ ''_'' @ pluralize (ou_lower ou) (co_Name c) @ ''_meta.yaml'';
                           out = ''---'' @ [nl] @ t
                       in case ou_writeFile ou f out of
                            Some (left, e) \<Rightarrow>
                              andthen (case left of None \<Rightarrow> give () | Some part \<Rightarrow> put_file f part) (\<lambda>_.
                                give (Some (e @ '': error writing metadata'')))
                          | None \<Rightarrow>
                              andthen (put_file f out) (\<lambda>_.
                                andthen (put_out (''Generated crd metadata '' @ f @ [nl])) (\<lambda>_. give None))))))"

subsection \<open>doCrd\<close>

definition find_entry :: "estate \<Rightarrow> nat list \<Rightarrow> string \<Rightarrow> nat option" where
  "find_entry s entries name = find (\<lambda>e. en_Name (ent s e) = name) entries"

definition module_entry_for :: "estate \<Rightarrow> nat list \<Rightarrow> string \<Rightarrow> nat cmd" where
  "module_entry_for s entries filename =
     (case find_entry s entries (file_base_name filename) of
        Some e \<Rightarrow>
          (if en_Dir (ent s e) = None
           then fail_with (''Unable to find entry '' @ file_base_name filename @ '' for module:'' @ filename @ [nl])
           else give e)
      | None \<Rightarrow> fail_with (''Unable to find entry '' @ file_base_name filename @ '' for module:'' @ filename @ [nl]))"

text \<open>The loop over the children of the module when both the root and the instance node are given.\<close>

definition given_entry :: "estate \<Rightarrow> nat \<Rightarrow> string \<Rightarrow> string \<Rightarrow> nat option cmd" where
  "given_entry s e rootNode instanceNode =
     (case map_of (dir s e) rootNode of
        None \<Rightarrow> give None
      | Some node \<Rightarrow>
          (if en_Dir (ent s node) = None then give None
           else if \<not> IsContainer (ent s node) \<and> \<not> IsList (ent s node) then
             andthen (put_err (''Node '' @ rootNode @ '' is not a container/list node. Skipping...'' @ [nl])) (\<lambda>_. give None)
           else if rootNode = instanceNode then give (Some node)
           else if IsList (ent s node) then
             andthen (put_err (''Root node '' @ rootNode @ '' is a list and does not match instance node. Skipping...'' @ [nl]))
               (\<lambda>_. give None)
           else give (map_of (dir s node) instanceNode)))"

definition chosen_entry :: "((string \<times> nat) list \<Rightarrow> (string \<times> nat) list) \<Rightarrow> estate \<Rightarrow> nat \<Rightarrow> CrdOptions
    \<Rightarrow> (CrdOptions \<times> nat option) cmd" where
  "chosen_entry ord s e c =
     (if co_Root c = [] \<or> co_Instance c = [] then
        (case getRootInstanceEntry ord s e of
           Inl err \<Rightarrow> fail_with (err @ [nl])
         | Inr (r, i, pe) \<Rightarrow> give (c\<lparr>co_Root := r, co_Instance := i\<rparr>, pe))
      else andthen (given_entry s e (co_Root c) (co_Instance c)) (\<lambda>pe. give (c, pe)))"

definition crd_key :: "estate \<Rightarrow> nat \<Rightarrow> CrdOptions \<Rightarrow> CrdOptions cmd" where
  "crd_key s pe c =
     andthen (flag noConfig) (\<lambda>nc.
       andthen (if co_Key c = [] then
                  (case getKeyForEntry nc (ent s pe) of Inl err \<Rightarrow> fail_with (err @ [nl]) | Inr k \<Rightarrow> give k)
                else give (co_Key c)) (\<lambda>k. give (c\<lparr>co_Key := CamelCase False k\<rparr>)))"

definition generateSpec :: "nat \<Rightarrow> outside \<Rightarrow> estate \<Rightarrow> CrdOptions \<Rightarrow> nat \<Rightarrow> CrdOptions cmd" where
  "generateSpec k ou s c pe = andthen (of_run (spec_text k (ou_lower ou) s pe)) (\<lambda>t. executeTemplate ou c t [])"

definition generateStatus :: "nat \<Rightarrow> outside \<Rightarrow> estate \<Rightarrow> CrdOptions \<Rightarrow> nat \<Rightarrow> CrdOptions cmd" where
  "generateStatus k ou s c pe =
     andthen (of_run (generateStatusFields k (ou_lower ou) s pe True)) (\<lambda>t.
       if t = [] then fail_with (''no status fields to generate'' @ [nl]) else executeTemplate ou c [] t)"

text \<open>The end of \<open>doCrd\<close>.\<close>

definition finish_crd :: "outside \<Rightarrow> string \<Rightarrow> string list \<Rightarrow> string \<Rightarrow> CrdOptions \<Rightarrow> unit cmd" where
  "finish_crd ou filename dependencies namespace c =
     andthen (generateMetadata ou filename dependencies namespace c) (\<lambda>err.
       case err of
         None \<Rightarrow> give ()
       | Some t \<Rightarrow> fail_with (''generating metadata failed with error: '' @ t @ [nl]))"

definition doCrd :: "nat \<Rightarrow> outside \<Rightarrow> ((string \<times> nat) list \<Rightarrow> (string \<times> nat) list) \<Rightarrow> estate \<Rightarrow> nat list \<Rightarrow> string
    \<Rightarrow> string list \<Rightarrow> string \<Rightarrow> unit cmd" where
  "doCrd k ou ord s entries filename dependencies options =
     andthen (flag (\<lambda>v. v)) (\<lambda>v.
       let (c0, ignored) = parseOptions v options
       in andthen (put_err ignored) (\<lambda>_.
         andthen (module_entry_for s entries filename) (\<lambda>e.
           andthen (chosen_entry ord s e c0) (\<lambda>(c1, pe).
             case pe of
               None \<Rightarrow> fail_with (''Unable to find root '' @ co_Root c1 @ '', instance '' @ co_Instance c1 @ '' for module ''
                         @ filename @ [nl])
             | Some p \<Rightarrow>
                 andthen (crd_key s p c1) (\<lambda>c2.
                   andthen (if noConfig v then generateStatus k ou s c2 p else generateSpec k ou s c2 p)
                     (finish_crd ou filename dependencies (metadataNamespace v)))))))"

subsection \<open>doRpcCrd\<close>

definition doRpcCrd :: "nat \<Rightarrow> outside \<Rightarrow> estate \<Rightarrow> nat list \<Rightarrow> string \<Rightarrow> unit cmd" where
  "doRpcCrd k ou s entries filename =
     andthen (module_entry_for s entries filename) (\<lambda>e.
       if rpc_names s e = [] then fail_with (''no rpc entries found'' @ [nl])
       else andthen (of_run (rpcs_text k (ou_lower ou) s e)) (\<lambda>t. put_out (t @ [nl])))"

end
