(* ===== verification/Commands.thy ===== *)
theory Commands
  imports Crds
begin

text \<open>
  The program \<open>yang\<close> (\<open>yang.go\<close>) after the command line has been parsed, and \<open>Parse\<close> of
  \<open>pkg/yangentry\<close>. The package \<open>getopt\<close>, the help text and the trace file are left out.
\<close>

text \<open>What the flags and arguments are; \<open>cl_stdin\<close> is the standard input or the error of reading it.\<close>

record command_line =
  cl_paths :: "string list"
  cl_format :: string
  cl_ignoreCircular :: bool
  cl_ignoreResolve :: bool
  cl_multi :: bool
  cl_args :: "string list"
  cl_stdin :: "string + string"
  cl_typesVerbose :: bool
  cl_typesDebug :: bool

text \<open>
  The world around the package \<open>yang\<close>: the environment of \<open>Process\<close>, the directory walks of
  \<open>PathsWithModules\<close>, the texts of the errors, the fuel, and the orders of ranges over maps:
  \<open>en_modules\<close> over the modules, \<open>en_dir\<close> over the children of an entry, \<open>en_types\<close> over the types.
\<close>

record surroundings =
  en_env :: tenv
  en_orders :: orders
  en_msg :: "process_error \<Rightarrow> string"
  en_fuel :: nat
  en_walk :: "string \<Rightarrow> (string \<times> bool option \<times> string option) list"
  en_outside :: outside
  en_printing :: printing
  en_modules :: "(string \<times> nat) list \<Rightarrow> (string \<times> nat) list"
  en_dir :: "(string \<times> nat) list \<Rightarrow> (string \<times> nat) list"
  en_types :: "nat option list \<Rightarrow> nat option list"

subsection \<open>Formats\<close>

definition formats :: "string list" where
  "formats = [''crd'', ''rpc'', ''tree'', ''types'']"

definition invalid_format :: "string \<Rightarrow> string" where
  "invalid_format f = f @ '': invalid format.  Choices are '' @ go_join formats '', '' @ [nl]"

text \<open>A call of the function of a formatter.\<close>

definition run_format :: "surroundings \<Rightarrow> command_line \<Rightarrow> estate \<Rightarrow> nat list \<Rightarrow> string \<Rightarrow> string list \<Rightarrow> string \<Rightarrow> unit cmd" where
  "run_format en cl s entries filename dependencies options =
     (if cl_format cl = ''crd'' then doCrd (en_fuel en) (en_outside en) (en_dir en) s entries filename dependencies options
      else if cl_format cl = ''rpc'' then doRpcCrd (en_fuel en) (en_outside en) s entries filename
      else if cl_format cl = ''types'' then
        andthen (of_run (doTypes (en_fuel en) (en_printing en) (en_types en) (en_dir en) (cl_typesVerbose cl) (cl_typesDebug cl) s entries)) put_out
      else andthen (of_run (doTree (en_fuel en) s entries)) put_out)"

definition file_options :: "command_line \<Rightarrow> (string \<times> string) list" where
  "file_options cl = (if cl_format cl = ''crd'' then extractFileOptions (cl_args cl) else List.map defaultFileOption (cl_args cl))"

definition validate :: "command_line \<Rightarrow> string list \<Rightarrow> unit cmd" where
  "validate cl files =
     (if cl_format cl = ''crd'' then
        andthen (flag (\<lambda>v. validateArgs v files)) (\<lambda>err. case err of
          None \<Rightarrow> give ()
        | Some t \<Rightarrow> fail_with (cl_format cl @ '': validate error '' @ t))
      else give ())"

definition exitIfError :: "string list \<Rightarrow> unit cmd" where
  "exitIfError errs =
     (if errs = [] then give ()
      else andthen (put_err (concat (List.map (\<lambda>t. t @ [nl]) errs))) (\<lambda>_. exit_with 1))"

subsection \<open>Modules\<close>

fun add_paths :: "surroundings \<Rightarrow> string list \<Rightarrow> modules \<Rightarrow> modules cmd" where
  "add_paths en [] ms = give ms"
| "add_paths en (p # ps) ms =
     (case PathsWithModules (en_walk en p) of
        (_, Some err) \<Rightarrow> andthen (put_err (err @ [nl])) (\<lambda>_. add_paths en ps ms)
      | (expanded, None) \<Rightarrow> add_paths en ps (AddPath expanded ms))"

definition read_file :: "surroundings \<Rightarrow> string \<Rightarrow> estate \<Rightarrow> (string option \<times> estate) cmd" where
  "read_file en name s =
     (case ms_Read (tv_fs (en_env en)) name (es_ms s) of
        (ms1, Some LoadPanic) \<Rightarrow> panic
      | (ms1, Some (LoadErr e)) \<Rightarrow> give (Some e, set_ms ms1 s)
      | (ms1, None) \<Rightarrow> give (None, set_ms ms1 s))"

definition read_stdin :: "command_line \<Rightarrow> estate \<Rightarrow> estate cmd" where
  "read_stdin cl s =
     (case cl_stdin cl of
        Inl e \<Rightarrow> fail_with (e @ [nl])
      | Inr data \<Rightarrow>
          (case ms_Parse data ''<STDIN>'' (es_ms s) of
             (ms1, Some LoadPanic) \<Rightarrow> panic
           | (ms1, Some (LoadErr e)) \<Rightarrow> fail_with (e @ [nl])
           | (ms1, None) \<Rightarrow> give (set_ms ms1 s)))"

text \<open>
  \<open>mods\<close> and \<open>names\<close>: for every name the first module that the range over \<open>ms.Modules\<close> meets; then the
  entries in the order of the names.
\<close>

fun first_modules :: "heap \<Rightarrow> (string \<times> nat) list \<Rightarrow> (string \<times> nat) list \<Rightarrow> (string \<times> nat) list" where
  "first_modules h [] mods = mods"
| "first_modules h ((key, m) # ms) mods =
     (if map_of mods (node_NName h m) = None then first_modules h ms (mods @ [(node_NName h m, m)])
      else first_modules h ms mods)"

fun entries_of :: "surroundings \<Rightarrow> nat list \<Rightarrow> estate \<Rightarrow> (nat list \<times> estate) run" where
  "entries_of en [] s = Done ([], s)"
| "entries_of en (m # ms) s =
     bind_run (module_entry (en_fuel en) (en_env en) m s) (\<lambda>(e, s1).
       bind_run (entries_of en ms s1) (\<lambda>(es, s2). Done (e # es, s2)))"

definition top_modules :: "surroundings \<Rightarrow> estate \<Rightarrow> nat list" where
  "top_modules en s =
     (let mods = first_modules (es_heap s) (en_modules en (ms_Modules (es_ms s))) []
      in List.map (\<lambda>n. the (map_of mods n)) (sort_strings (List.map fst mods)))"

text \<open>\<open>Process\<close>, the end of the program if it has errors, and the entries of the modules.\<close>

definition process_modules :: "surroundings \<Rightarrow> estate \<Rightarrow> (nat list \<times> estate) cmd" where
  "process_modules en s =
     andthen (of_run (ms_Process (en_fuel en) (en_env en) (en_orders en) (en_msg en) s)) (\<lambda>(errs, s1).
       andthen (exitIfError (List.map (en_msg en) errs)) (\<lambda>_. of_run (entries_of en (top_modules en s1) s1)))"

subsection \<open>The two modes\<close>

text \<open>All files together: the first that could be read is the module, the others are dependencies.\<close>

fun read_together :: "surroundings \<Rightarrow> (string \<times> string) list \<Rightarrow> (string \<times> string) \<Rightarrow> string list \<Rightarrow> estate
    \<Rightarrow> ((string \<times> string) \<times> string list \<times> estate) cmd" where
  "read_together en [] mdl deps s = give (mdl, deps, s)"
| "read_together en ((name, opts) # fs) mdl deps s =
     andthen (read_file en name s) (\<lambda>(err, s1).
       if err \<noteq> None then read_together en fs mdl deps s1
       else if fst mdl = [] then read_together en fs (name, opts) deps s1
       else read_together en fs mdl (deps @ [name]) s1)"

definition run_together :: "surroundings \<Rightarrow> command_line \<Rightarrow> (string \<times> string) list \<Rightarrow> estate \<Rightarrow> unit cmd" where
  "run_together en cl fopts s =
     andthen (read_together en fopts ([], []) [] s) (\<lambda>((name, opts), deps, s1).
       andthen (validate cl [name]) (\<lambda>_.
         andthen (process_modules en s1) (\<lambda>(entries, s2). run_format en cl s2 entries name deps opts)))"

text \<open>Each file by itself, on top of those before it.\<close>

fun run_each :: "surroundings \<Rightarrow> command_line \<Rightarrow> (string \<times> string) list \<Rightarrow> estate \<Rightarrow> unit cmd" where
  "run_each en cl [] s = give ()"
| "run_each en cl ((name, opts) # fs) s =
     andthen (read_file en name s) (\<lambda>(err, s1).
       case err of
         Some e \<Rightarrow>
           (if go_index e ''duplicate'' = None then andthen (put_err (e @ [nl])) (\<lambda>_. run_each en cl fs s1)
            else andthen (process_modules en s1) (\<lambda>(entries, s2).
              andthen (run_format en cl s2 entries name [] opts) (\<lambda>_. run_each en cl fs s2)))
       | None \<Rightarrow>
           andthen (process_modules en s1) (\<lambda>(entries, s2).
             andthen (run_format en cl s2 entries name [] opts) (\<lambda>_. run_each en cl fs s2)))"

definition start_state :: "surroundings \<Rightarrow> command_line \<Rightarrow> estate cmd" where
  "start_state en cl = andthen (add_paths en (cl_paths cl) NewModules) (\<lambda>ms. give (set_ms ms new_estate))"

text \<open>The options that \<open>main\<close> sets in \<open>ms.ParseOptions\<close>.\<close>

definition with_options :: "command_line \<Rightarrow> surroundings \<Rightarrow> surroundings" where
  "with_options cl en = en\<lparr>en_env := (en_env en)\<lparr>tv_opts := (tv_opts (en_env en))
     \<lparr>IgnoreSubmoduleCircularDependencies := cl_ignoreCircular cl, IgnoreModuleResolveErrors := cl_ignoreResolve cl\<rparr>\<rparr>\<rparr>"

definition yang_main :: "surroundings \<Rightarrow> command_line \<Rightarrow> unit cmd" where
  "yang_main en0 cl0 =
     (let en = with_options cl0 en0; cl = cl0\<lparr>cl_format := (if cl_format cl0 = [] then ''tree'' else cl_format cl0)\<rparr>
      in andthen (start_state en cl) (\<lambda>s0.
        if cl_format cl \<notin> set formats then fail_with (invalid_format (cl_format cl))
        else andthen (if cl_args cl = [] then read_stdin cl s0 else give s0) (\<lambda>s.
          if \<not> cl_multi cl then run_together en cl (file_options cl) s
          else andthen (validate cl (cl_args cl)) (\<lambda>_. run_each en cl (file_options cl) s))))"

subsection \<open>Package yangentry\<close>

fun read_names :: "surroundings \<Rightarrow> string list \<Rightarrow> estate \<Rightarrow> (string list \<times> estate) cmd" where
  "read_names en [] s = give ([], s)"
| "read_names en (name # names) s =
     andthen (read_file en name s) (\<lambda>(err, s1).
       andthen (read_names en names s1) (\<lambda>(errs, s2). give ((case err of None \<Rightarrow> errs | Some e \<Rightarrow> e # errs), s2)))"

text \<open>The entries by their names, where a later module replaces an earlier one of the same name.\<close>

definition yangentry_Parse :: "surroundings \<Rightarrow> string list \<Rightarrow> string list
    \<Rightarrow> (string list + (string \<times> nat) list \<times> estate) cmd" where
  "yangentry_Parse en yangfiles path =
     andthen (read_names en yangfiles (set_ms (AddPath (List.map (\<lambda>p. p @ ''/...'') path) NewModules) new_estate)) (\<lambda>(errs, s).
       if errs \<noteq> [] then give (Inl errs)
       else andthen (of_run (ms_Process (en_fuel en) (en_env en) (en_orders en) (en_msg en) s)) (\<lambda>(perrs, s1).
         if perrs \<noteq> [] then give (Inl (List.map (en_msg en) perrs))
         else andthen (of_run (entries_of en (List.map snd (en_modules en (ms_Modules (es_ms s1)))) s1)) (\<lambda>(entries, s2).
           give (Inr (fold (\<lambda>e. AList.update (en_Name (ent s2 e)) e) entries [], s2)))))"

end
