(* ===== verification/JsonXml.thy ===== *)
theory JsonXml
  imports CrdSchema
begin

text \<open>
  The transformation of JSON documents in \<open>xml.go\<close>: the keys are folded, and the document is
  rewritten along an entry, with the names and the enumeration values of the schema.
\<close>

text \<open>A decoded document; a number is its text. A nil slice is \<open>JArray []\<close>.\<close>

datatype json = JNull | JBool bool | JNumber string | JString string | JArray "json list" | JObject "(string \<times> json) list"

definition casefold :: "(rune \<Rightarrow> rune) \<Rightarrow> string \<Rightarrow> string" where
  "casefold lo input = filter (\<lambda>c. c \<noteq> CHR ''_'') (filter (\<lambda>c. c \<noteq> CHR ''-'') (go_to_lower lo input))"

text \<open>\<open>ord\<close> is the order of the range over the map: when two keys fold to one, the last of them wins.\<close>

fun transform :: "(rune \<Rightarrow> rune) \<Rightarrow> ((string \<times> json) list \<Rightarrow> (string \<times> json) list) \<Rightarrow> json \<Rightarrow> json" where
  "transform lo ord (JObject m) =
     JObject (fold (\<lambda>(k, v). AList.update (casefold lo k) v) (ord (List.map (\<lambda>(k, v). (k, transform lo ord v)) m)) [])"
| "transform lo ord (JArray js) = JArray (List.map (transform lo ord) js)"
| "transform lo ord j = j"

definition entry_name :: "bool \<Rightarrow> entry \<Rightarrow> string" where
  "entry_name camelCase x = (if camelCase then CamelCase False (en_Name x) else en_Name x)"

definition enum_value :: "(rune \<Rightarrow> rune) \<Rightarrow> bool \<Rightarrow> enum_type \<Rightarrow> string \<Rightarrow> string" where
  "enum_value lo camelCase en v =
     (case find (\<lambda>n. casefold lo n = casefold lo v) (enum_Names en) of
        None \<Rightarrow> v
      | Some n \<Rightarrow> if camelCase then CamelCase True n else n)"

definition process_string :: "(rune \<Rightarrow> rune) \<Rightarrow> bool \<Rightarrow> estate \<Rightarrow> nat \<Rightarrow> string \<Rightarrow> string run" where
  "process_string lo camelCase s e v =
     (case en_Type (ent s e) of
        None \<Rightarrow> Done v
      | Some t \<Rightarrow>
          (if yt_Kind (es_type s t) = Yenum
           then bind_run (fail_nil (yt_Enum (es_type s t))) (\<lambda>en. Done (enum_value lo camelCase en v))
           else Done v))"

text \<open>For the termination proof below: a value is smaller than its map.\<close>

lemma map_of_size: "map_of m k = Some v \<Longrightarrow> size (v :: json) < size_list (size_prod (\<lambda>_. 0) size) m"
  by (induction m) (auto split: if_splits)

text \<open>\<open>process\<close>, its loop over the directory with the output so far, and its loop over the items.\<close>

function (sequential) process :: "(rune \<Rightarrow> rune) \<Rightarrow> bool \<Rightarrow> estate \<Rightarrow> nat \<Rightarrow> json \<Rightarrow> json run"
  and process_dir :: "(rune \<Rightarrow> rune) \<Rightarrow> bool \<Rightarrow> estate \<Rightarrow> nat list \<Rightarrow> (string \<times> json) list \<Rightarrow> (string \<times> json) list
    \<Rightarrow> (string \<times> json) list run"
  and process_items :: "(rune \<Rightarrow> rune) \<Rightarrow> bool \<Rightarrow> estate \<Rightarrow> nat \<Rightarrow> json list \<Rightarrow> json list run" where
  "process lo camelCase s e (JObject m) =
     (case en_Dir (ent s e) of
        None \<Rightarrow> Done (JObject [])
      | Some d \<Rightarrow> bind_run (process_dir lo camelCase s (List.map snd d) m []) (\<lambda>out. Done (JObject out)))"
| "process lo camelCase s e (JArray items) =
     (if en_ListAttr (ent s e) = None then Done (JArray [])
      else bind_run (process_items lo camelCase s e items) (\<lambda>js. Done (JArray js)))"
| "process lo camelCase s e (JString v) = bind_run (process_string lo camelCase s e v) (\<lambda>t. Done (JString t))"
| "process lo camelCase s e j = Done j"
| "process_dir lo camelCase s [] m out = Done out"
| "process_dir lo camelCase s (c # cs) m out =
     (case map_of m (casefold lo (en_Name (ent s c))) of
        None \<Rightarrow> process_dir lo camelCase s cs m out
      | Some v \<Rightarrow>
          bind_run (process lo camelCase s c v) (\<lambda>j.
            process_dir lo camelCase s cs m (AList.update (entry_name camelCase (ent s c)) j out)))"
| "process_items lo camelCase s e [] = Done []"
| "process_items lo camelCase s e (j # js) =
     bind_run (process lo camelCase s e j) (\<lambda>x. bind_run (process_items lo camelCase s e js) (\<lambda>xs. Done (x # xs)))"
  by pat_completeness auto
termination
  by (relation "measures
      [\<lambda>x. case x of Inl (lo, b, s, e, j) \<Rightarrow> size j
         | Inr (Inl (lo, b, s, cs, m, out)) \<Rightarrow> size_list (size_prod (\<lambda>_. 0) size) m
         | Inr (Inr (lo, b, s, e, js)) \<Rightarrow> size_list size js,
       \<lambda>x. case x of Inl _ \<Rightarrow> 0 | Inr (Inl (lo, b, s, cs, m, out)) \<Rightarrow> length cs
         | Inr (Inr (lo, b, s, e, js)) \<Rightarrow> length js]")
    (auto dest: map_of_size)

text \<open>The loop of \<open>decodeJsonToXml\<close> over the top-level entries is that of \<open>process\<close>.\<close>

definition xml_map :: "(rune \<Rightarrow> rune) \<Rightarrow> ((string \<times> json) list \<Rightarrow> (string \<times> json) list) \<Rightarrow> bool \<Rightarrow> estate \<Rightarrow> nat
    \<Rightarrow> (string \<times> json) list \<Rightarrow> (string \<times> json) list run" where
  "xml_map lo ord camelCase s e object =
     (case transform lo ord (JObject object) of
        JObject output \<Rightarrow> process_dir lo camelCase s (List.map snd (dir s e)) output []
      | _ \<Rightarrow> Panicked)"

end
