(* ===== verification/CrdFlat.thy ===== *)
theory CrdFlat
  imports CrdSchema EntryTrees
begin

text \<open>
  Choices, cases and rpcs are invisible in the schema that \<open>WriteCrd\<close> writes: it writes for an entry what a
  writer that knows none of them writes for the entry's tree without them.
\<close>

subsection \<open>The tree without choices, cases and rpcs\<close>

text \<open>The children in the order of their names.\<close>

definition by_name :: "(string \<times> 'a) list \<Rightarrow> 'a list" where
  "by_name d = List.map (\<lambda>n. the (map_of d n)) (sort_strings (List.map fst d))"

fun data_trees :: "etree \<Rightarrow> etree list" where
  "data_trees (Tree x ts) =
     (let us = concat (by_name (List.map (\<lambda>(key, t). (key, data_trees t)) (case ts of None \<Rightarrow> [] | Some d \<Rightarrow> d)))
      in if en_RPC x \<noteq> None then []
         else if IsChoice x \<or> IsCase x then us
         else [Tree x (map_option (\<lambda>_. List.map (\<lambda>u. ([], u)) us) ts)])"

text \<open>The writer for trees without them; the children are indented one by one.\<close>

fun plain_crd :: "(rune \<Rightarrow> rune) \<Rightarrow> estate \<Rightarrow> etree \<Rightarrow> string run" where
  "plain_crd lo s (Tree x ts) =
     crd_node lo (\<lambda>ind. run_concat (\<lambda>r. bind_run r (\<lambda>t. Done (indent_String ind t)))
         (List.map (\<lambda>(key, t). plain_crd lo s t) (case ts of None \<Rightarrow> [] | Some d \<Rightarrow> d)))
       s (x\<lparr>en_Dir := map_option (\<lambda>_. []) ts\<rparr>)"

subsection \<open>Lines\<close>

definition whole_lines :: "string \<Rightarrow> bool" where
  "whole_lines t \<longleftrightarrow> t = [] \<or> last t = nl"

lemma indent_String_append: "whole_lines a \<Longrightarrow> indent_String ind (a @ b) = indent_String ind a @ indent_String ind b"
  by (auto simp: indent_String_spec indent_spec_append whole_lines_def mid_after_def)

lemma whole_lines_append: "whole_lines a \<Longrightarrow> whole_lines b \<Longrightarrow> whole_lines (a @ b)"
  by (auto simp: whole_lines_def last_append)

lemma whole_lines_nl [simp]: "whole_lines (a @ [nl])" "whole_lines [nl]" "whole_lines []"
  by (simp_all add: whole_lines_def)

lemma indent_whole_lines: "whole_lines a \<Longrightarrow> whole_lines (indent_String ind a)"
  by (cases "a = []") (simp_all add: whole_lines_def indent_String_spec indent_spec_last)

lemma indent_Nil [simp]: "indent_String [] t = t" "indent_String ind [] = []"
  by (simp_all add: indent_String_def)

lemma bind_run_return: "bind_run r Done = r" "bind_run r (\<lambda>x. Done x) = r"
  by (cases r; simp)+

lemma run_concat_append:
  "run_concat f (xs @ ys) = bind_run (run_concat f xs) (\<lambda>t. bind_run (run_concat f ys) (\<lambda>u. Done (t @ u)))"
proof (induction xs)
  case Nil
  show ?case by (cases "run_concat f ys") simp_all
next
  case (Cons x xs)
  show ?case
    by (cases "f x"; cases "run_concat f xs"; cases "run_concat f ys") (simp_all add: Cons)
qed

lemma run_concat_map: "run_concat f (List.map g xs) = run_concat (\<lambda>x. f (g x)) xs"
  by (induction xs) simp_all

definition indented :: "string \<Rightarrow> ('a \<Rightarrow> string run) \<Rightarrow> 'a \<Rightarrow> string run" where
  "indented ind f x = bind_run (f x) (\<lambda>t. Done (indent_String ind t))"

lemma run_concat_lines:
  "(\<And>x t. x \<in> set xs \<Longrightarrow> f x = Done t \<Longrightarrow> whole_lines t) \<Longrightarrow> run_concat f xs = Done t \<Longrightarrow> whole_lines t"
  by (induction xs arbitrary: t) (force intro: whole_lines_append)+

lemma run_concat_indent:
  assumes "\<And>x t. x \<in> set xs \<Longrightarrow> f x = Done t \<Longrightarrow> whole_lines t"
  shows "bind_run (run_concat f xs) (\<lambda>t. Done (indent_String ind t)) = run_concat (indented ind f) xs"
  using assms
proof (induction xs)
  case (Cons x xs)
  show ?case
  proof (cases "f x")
    case (Done t)
    then have "whole_lines t" using Cons.prems [of x t] by simp
    moreover have "bind_run (run_concat f xs) (\<lambda>t. Done (indent_String ind t)) = run_concat (indented ind f) xs"
      by (rule Cons.IH) (meson Cons.prems list.set_intros(2))
    note IH = this [symmetric]
    ultimately show ?thesis
      using Done by (cases "run_concat f xs") (simp_all add: IH indented_def [of ind f x] indent_String_append)
  qed (simp_all add: indented_def)
qed simp

lemma emitCrdType_lines: "emitCrdType lo s x prefix = Done t \<Longrightarrow> t \<noteq> [] \<and> last t = nl"
  by (auto simp: emitCrdType_def Let_def crd_bounds_def fail_nil_def split: option.splits if_splits sum.splits)

lemma crd_node_bare:
  assumes "d = None \<longleftrightarrow> en_Dir x = None"
  shows "crd_node lo f s ((bare x)\<lparr>en_Dir := d\<rparr>) = crd_node lo f s x"
proof -
  have "emitCrdType lo s ((bare x)\<lparr>en_Dir := d\<rparr>) p = emitCrdType lo s x p"
    "emitCrdRequired ((bare x)\<lparr>en_Dir := d\<rparr>) p = emitCrdRequired x p" for p
    by (simp_all add: bare_def emitCrdType_def emitCrdRequired_def)
  moreover have "en_Name ((bare x)\<lparr>en_Dir := d\<rparr>) = en_Name x" "en_ListAttr ((bare x)\<lparr>en_Dir := d\<rparr>) = en_ListAttr x"
    by (simp_all add: bare_def)
  ultimately show ?thesis
    using assms unfolding crd_node_def by (cases "en_Dir x"; cases d; cases "en_ListAttr x") simp_all
qed

lemma crd_node_lines: "crd_node lo f s x = Done t \<Longrightarrow> whole_lines t"
  by (cases "en_Dir x"; cases "en_ListAttr x")
    (auto simp: crd_node_def whole_lines_def last_append Let_def dest!: emitCrdType_lines)

lemma plain_crd_lines: "plain_crd lo s u = Done t \<Longrightarrow> whole_lines t"
  by (cases u) (auto dest: crd_node_lines)

subsection \<open>Children\<close>

lemma by_name_map: "by_name (List.map (\<lambda>(key, t). (key, f t)) d) = List.map f (by_name d)"
proof -
  have "map_of (List.map (\<lambda>(key, t). (key, f t)) d) n = map_option f (map_of d n)" for n
    by (induction d) auto
  moreover have "n \<in> set (sort_strings (List.map fst d)) \<Longrightarrow> map_of d n \<noteq> None" for n
    by (simp add: sort_strings_def map_of_eq_None_iff)
  ultimately show ?thesis
    by (auto simp: by_name_def comp_def case_prod_unfold option.map_sel)
qed

lemma by_name_trees:
  assumes "trees_of k s d = Some ts"
  shows "List.map (tree_of k s) (by_name d) = List.map Some (by_name ts)"
proof -
  have keys: "List.map fst ts = List.map fst d"
    using assms by (induction d arbitrary: ts) (auto split: option.splits)
  have "\<exists>v t. map_of d n = Some v \<and> map_of ts n = Some t \<and> tree_of k s v = Some t" if "n \<in> fst ` set d" for n
    using assms that by (induction d arbitrary: ts) (force split: option.splits)+
  then have "\<forall>n\<in>set (sort_strings (List.map fst d)). tree_of k s (the (map_of d n)) = Some (the (map_of ts n))"
    by (fastforce simp: sort_strings_def)
  then show ?thesis by (simp add: by_name_def keys)
qed

lemma sorted_children_by_name: "sorted_children s e = by_name (dir s e)"
  by (simp add: sorted_children_def by_name_def)

lemma WriteCrds_plain:
  assumes "\<And>e t. tree_of k s e = Some t \<Longrightarrow> WriteCrd k lo s e = run_concat (plain_crd lo s) (data_trees t)"
    and "List.map (tree_of k s) cs = List.map Some us"
  shows "WriteCrds k lo s ind cs = run_concat (indented ind (plain_crd lo s)) (concat (List.map data_trees us))"
  using assms(2)
proof (induction cs arbitrary: us)
  case (Cons c cs)
  then obtain u us' where us: "us = u # us'" "tree_of k s c = Some u" "List.map (tree_of k s) cs = List.map Some us'"
    by (cases us) auto
  have c: "bind_run (WriteCrd k lo s c) (\<lambda>t. Done (indent_String ind t)) = run_concat (indented ind (plain_crd lo s)) (data_trees u)"
    unfolding assms(1) [OF us(2)] by (rule run_concat_indent) (rule plain_crd_lines)
  then show ?case
    by (simp add: us(1) Cons.IH [OF us(3)] run_concat_append flip: c)
      (cases "WriteCrd k lo s c"; simp)
qed simp

lemma WriteCrd_plain:
  "tree_of k s e = Some t \<Longrightarrow> WriteCrd k lo s e = run_concat (plain_crd lo s) (data_trees t)"
proof (induction k arbitrary: e t)
  case (Suc k)
  obtain ts where t: "t = Tree (bare (ent s e)) ts" and
      kids: "List.map (tree_of k s) (sorted_children s e) = List.map Some (by_name (case ts of None \<Rightarrow> [] | Some d \<Rightarrow> d))"
      "en_Dir (ent s e) = None \<longleftrightarrow> ts = None"
    using Suc.prems by (auto simp: sorted_children_by_name dir_def by_name_trees split: if_splits option.splits)
  define us where "us = concat (List.map data_trees (by_name (case ts of None \<Rightarrow> [] | Some d \<Rightarrow> d)))"
  have W: "WriteCrds k lo s ind (sorted_children s e) = run_concat (indented ind (plain_crd lo s)) us" for ind
    unfolding us_def by (rule WriteCrds_plain) (use Suc.IH kids(1) in auto)
  have id: "indented [] (plain_crd lo s) = plain_crd lo s"
    by (rule ext) (simp add: indented_def bind_run_def split: run.split)
  have us_None: "ts = None \<Longrightarrow> us = []" by (simp add: us_def by_name_def sort_strings_def)
  define b where "b = bare (ent s e)"
  have b: "en_RPC b = en_RPC (ent s e)" "IsChoice b = IsChoice (ent s e)" "IsCase b = IsCase (ent s e)"
    by (simp_all add: b_def bare_def IsChoice_def IsCase_def)
  have d: "data_trees t = (if en_RPC (ent s e) \<noteq> None then [] else if IsChoice (ent s e) \<or> IsCase (ent s e) then us
      else [Tree b (map_option (\<lambda>_. List.map (\<lambda>u. ([], u)) us) ts)])"
    by (simp add: t us_def by_name_map b Let_def flip: b_def)
  have node: "plain_crd lo s (Tree b (map_option (\<lambda>_. List.map (\<lambda>u. ([], u)) us) ts))
      = crd_node lo (\<lambda>ind. WriteCrds k lo s ind (sorted_children s e)) s (ent s e)"
  proof -
    have f: "(\<lambda>ind. run_concat (\<lambda>r. bind_run r (\<lambda>t. Done (indent_String ind t)))
        (List.map (\<lambda>(key, t). plain_crd lo s t) (case map_option (\<lambda>_. List.map (\<lambda>u. ([], u)) us) ts of None \<Rightarrow> [] | Some d \<Rightarrow> d)))
      = (\<lambda>ind. WriteCrds k lo s ind (sorted_children s e))"
      using us_None by (cases ts) (simp_all add: W run_concat_map indented_def [abs_def])
    show ?thesis
      unfolding plain_crd.simps b_def f by (rule crd_node_bare) (use kids(2) in auto)
  qed
  show ?case
    by (simp add: d node W id bind_run_return del: plain_crd.simps)
qed simp

subsection \<open>What is left\<close>

fun no_choices :: "etree \<Rightarrow> bool" where
  "no_choices (Tree x ts) \<longleftrightarrow> en_RPC x = None \<and> \<not> IsChoice x \<and> \<not> IsCase x
     \<and> (\<forall>(key, u) \<in> set (case ts of None \<Rightarrow> [] | Some d \<Rightarrow> d). no_choices u)"

lemma by_name_set: "set (by_name d) \<subseteq> snd ` set d"
proof
  fix u assume "u \<in> set (by_name d)"
  then obtain n where "n \<in> fst ` set d" "u = the (map_of d n)" by (auto simp: by_name_def sort_strings_def)
  then show "u \<in> snd ` set d" by (induction d) (auto split: if_splits)
qed

lemma data_trees_no_choices: "u \<in> set (data_trees t) \<Longrightarrow> no_choices u"
proof (induction t arbitrary: u rule: data_trees.induct)
  case (1 x ts)
  define us where "us = concat (by_name (List.map (\<lambda>(key, t). (key, data_trees t)) (case ts of None \<Rightarrow> [] | Some d \<Rightarrow> d)))"
  have us: "no_choices v" if v: "v \<in> set us" for v
  proof -
    obtain l where l: "l \<in> set (by_name (List.map (\<lambda>(key, t). (key, data_trees t)) (case ts of None \<Rightarrow> [] | Some d \<Rightarrow> d)))" "v \<in> set l"
      using v unfolding us_def by auto
    from subsetD [OF by_name_set l(1)] obtain key t where
        "(key, t) \<in> set (case ts of None \<Rightarrow> [] | Some d \<Rightarrow> d)" "v \<in> set (data_trees t)"
      using l(2) by auto
    then show ?thesis using 1 by blast
  qed
  have "data_trees (Tree x ts) = (if en_RPC x \<noteq> None then [] else if IsChoice x \<or> IsCase x then us
      else [Tree x (map_option (\<lambda>_. List.map (\<lambda>u. ([], u)) us) ts)])"
    unfolding data_trees.simps us_def [symmetric] Let_def ..
  then show ?case
    using "1.prems" us by (cases ts; cases "en_RPC x") (auto simp del: data_trees.simps split: if_splits)
qed

lemma bind_run_fuel: "r \<noteq> NoFuel \<Longrightarrow> (\<And>x. f x \<noteq> NoFuel) \<Longrightarrow> bind_run r f \<noteq> NoFuel"
  by (cases r) simp_all

lemma run_concat_fuel: "(\<And>x. x \<in> set xs \<Longrightarrow> f x \<noteq> NoFuel) \<Longrightarrow> run_concat f xs \<noteq> NoFuel"
proof (induction xs)
  case (Cons x xs)
  then have "f x \<noteq> NoFuel" "run_concat f xs \<noteq> NoFuel" by simp_all
  then show ?case by (cases "f x"; cases "run_concat f xs") simp_all
qed simp

lemma emitCrdType_fuel: "emitCrdType lo s x p \<noteq> NoFuel"
proof -
  have "fail_nil q \<noteq> NoFuel" for q :: "'a option" by (cases q) simp_all
  moreover have "fail_nil q \<noteq> NoFuel" for q :: "enum_type option" by (cases q) simp_all
  moreover have "fail_nil q \<noteq> NoFuel" for q :: "nat option" by (cases q) simp_all
  ultimately show ?thesis
    unfolding emitCrdType_def Let_def by (cases "en_Type x") (simp_all add: bind_run_fuel)
qed

lemma crd_node_fuel: "(\<And>ind. f ind \<noteq> NoFuel) \<Longrightarrow> crd_node lo f s x \<noteq> NoFuel"
  unfolding crd_node_def Let_def
  by (cases "en_Dir x"; cases "en_ListAttr x") (simp_all add: bind_run_fuel emitCrdType_fuel)

lemma plain_crd_fuel: "plain_crd lo s t \<noteq> NoFuel"
proof (induction t rule: data_trees.induct)
  case (1 x ts)
  have "run_concat (\<lambda>r. bind_run r (\<lambda>t. Done (indent_String ind t)))
      (List.map (\<lambda>(key, t). plain_crd lo s t) (case ts of None \<Rightarrow> [] | Some d \<Rightarrow> d)) \<noteq> NoFuel" for ind
    by (rule run_concat_fuel) (use 1 in \<open>auto simp: bind_run_def split: run.split\<close>)
  then show ?case by (simp add: crd_node_fuel)
qed

text \<open>C10: Choices, cases and rpcs leave no trace in a schema. For an entry whose subtree is a tree, \<open>WriteCrd\<close>
  returns, or panics on a type without a root; and it behaves as a writer that knows no choices, run on
  the list of trees that are left when rpcs are taken out and each choice and case is replaced by its
  children, in the order of the names on every level. No choice, case or rpc is left in these trees.\<close>

theorem write_crd_flat:
  assumes "tree_of k s e = Some t"
  shows "WriteCrd k lo s e = run_concat (plain_crd lo s) (data_trees t) \<and> WriteCrd k lo s e \<noteq> NoFuel
    \<and> (\<forall>u. u \<in> set (data_trees t) \<longrightarrow> no_choices u)"
proof -
  have "run_concat (plain_crd lo s) (data_trees t) \<noteq> NoFuel" by (rule run_concat_fuel) (rule plain_crd_fuel)
  then show ?thesis using WriteCrd_plain [OF assms] data_trees_no_choices by simp
qed

definition with_choice :: "entry list" where
  "with_choice = [blank\<lparr>en_Name := ''ch'', en_Kind := ChoiceEntry, en_Dir := Some [(''b'', 1), (''a'', 2)]\<rparr>,
     blank\<lparr>en_Name := ''b'', en_Kind := CaseEntry, en_Dir := Some [(''y'', 3)]\<rparr>,
     blank\<lparr>en_Name := ''a'', en_Kind := CaseEntry, en_Dir := Some [(''x'', 4)]\<rparr>,
     blank\<lparr>en_Name := ''y''\<rparr>, blank\<lparr>en_Name := ''x''\<rparr>]"

theorem write_crd_flat_witness:
  "WriteCrd (Suc (Suc (Suc 0))) (\<lambda>r. r) (state_of with_choice) 0
     = run_concat (plain_crd (\<lambda>r. r) (state_of with_choice)) [Tree (blank\<lparr>en_Name := ''x''\<rparr>) None, Tree (blank\<lparr>en_Name := ''y''\<rparr>) None]"
proof -
  let ?leaf = "\<lambda>n. Tree (blank\<lparr>en_Name := n\<rparr>) None"
  let ?case = "\<lambda>n l. Tree (blank\<lparr>en_Name := n, en_Kind := CaseEntry\<rparr>) (Some [(l, ?leaf l)])"
  let ?t = "Tree (blank\<lparr>en_Name := ''ch'', en_Kind := ChoiceEntry\<rparr>) (Some [(''b'', ?case ''b'' ''y''), (''a'', ?case ''a'' ''x'')])"
  have t: "tree_of (Suc (Suc (Suc 0))) (state_of with_choice) 0 = Some ?t"
    by (simp add: state_of_def with_choice_def blank_def bare_def)
  have "data_trees ?t = [?leaf ''x'', ?leaf ''y'']"
    by (simp add: by_name_def sort_strings_def string_less_def blank_def IsChoice_def IsCase_def)
  then show ?thesis using write_crd_flat [OF t] by simp
qed

end
