(* ===== verification/JsonRestore.thy ===== *)
theory JsonRestore
  imports JsonXml EntryTrees
begin

text \<open>
  \<open>process\<close> after \<open>transform\<close> restores the spelling of the schema: keys and enumeration values may be
  written in any case, with or without dashes and underscores, and the members in any order.
\<close>

text \<open>
  The names of the document that is restored: those of the schema, or with \<open>camelCase\<close> their CamelCase
  forms, that of an entry with a lower-case and that of an enumeration value with an upper-case initial.
\<close>

definition shown :: "bool \<Rightarrow> estate \<Rightarrow> nat \<Rightarrow> string" where
  "shown cc s c = (if cc then CamelCase False (en_Name (ent s c)) else en_Name (ent s c))"

text \<open>
  \<open>spells lo cc s e v v'\<close>: under the entry \<open>e\<close>, the document \<open>v\<close> uses these names, in the order of the
  schema, and \<open>v'\<close> is a spelling of it with the names of the schema.
\<close>

inductive spells :: "(rune \<Rightarrow> rune) \<Rightarrow> bool \<Rightarrow> estate \<Rightarrow> nat \<Rightarrow> json \<Rightarrow> json \<Rightarrow> bool"
  and spells_dir :: "(rune \<Rightarrow> rune) \<Rightarrow> bool \<Rightarrow> estate \<Rightarrow> nat list \<Rightarrow> (string \<times> json) list \<Rightarrow> (string \<times> json) list \<Rightarrow> bool"
  for lo cc s where
  object: "en_Dir (ent s e) = Some d \<Longrightarrow> distinct (List.map (\<lambda>(key, c). casefold lo (en_Name (ent s c))) d)
    \<Longrightarrow> distinct (List.map (\<lambda>(key, c). shown cc s c) d)
    \<Longrightarrow> spells_dir lo cc s (List.map snd d) m m0 \<Longrightarrow> mset m' = mset m0 \<Longrightarrow> spells lo cc s e (JObject m) (JObject m')"
| array: "en_ListAttr (ent s e) \<noteq> None \<Longrightarrow> list_all2 (spells lo cc s e) js js' \<Longrightarrow> spells lo cc s e (JArray js) (JArray js')"
| plain: "(\<And>t. en_Type (ent s e) = Some t \<Longrightarrow> yt_Kind (es_type s t) \<noteq> Yenum) \<Longrightarrow> spells lo cc s e (JString v) (JString v)"
| enumerated: "en_Type (ent s e) = Some t \<Longrightarrow> yt_Kind (es_type s t) = Yenum \<Longrightarrow> yt_Enum (es_type s t) = Some en
    \<Longrightarrow> n \<in> set (enum_Names en) \<Longrightarrow> inj_on (casefold lo) (set (enum_Names en)) \<Longrightarrow> casefold lo v' = casefold lo n
    \<Longrightarrow> spells lo cc s e (JString (if cc then CamelCase True n else n)) (JString v')"
| null: "spells lo cc s e JNull JNull"
| bool: "spells lo cc s e (JBool b) (JBool b)"
| number: "spells lo cc s e (JNumber n) (JNumber n)"
| none: "spells_dir lo cc s [] [] []"
| missing: "spells_dir lo cc s cs m m0 \<Longrightarrow> spells_dir lo cc s (c # cs) m m0"
| present: "spells lo cc s c v v' \<Longrightarrow> casefold lo k = casefold lo (en_Name (ent s c)) \<Longrightarrow> spells_dir lo cc s cs m m0
    \<Longrightarrow> spells_dir lo cc s (c # cs) ((shown cc s c, v) # m) ((k, v') # m0)"
monos list_all2_mono

subsection \<open>Maps with folded keys\<close>

lemma map_of_update_fold:
  "map_of (fold (\<lambda>(k, v). AList.update (f k) v) xs M) = map_of M ++ map_of (rev (List.map (\<lambda>(k, v). (f k, v)) xs))"
  by (induction xs arbitrary: M) (auto simp: update_conv' map_add_def fun_eq_iff split: option.split)

lemma map_of_permuted:
  assumes "distinct (List.map fst xs)" "mset ys = mset xs"
  shows "map_of ys = map_of xs"
proof -
  have "mset (List.map fst ys) = mset (List.map fst xs)" using assms(2) by (metis mset_map)
  then have "distinct (List.map fst ys)" using assms(1) mset_eq_imp_distinct_iff by blast
  then show ?thesis using assms mset_eq_setD map_of_inject_set by blast
qed

definition folded :: "(rune \<Rightarrow> rune) \<Rightarrow> ((string \<times> json) list \<Rightarrow> (string \<times> json) list) \<Rightarrow> (string \<times> json) list \<Rightarrow> (string \<times> json) list" where
  "folded lo ord m = List.map (\<lambda>(k, v). (casefold lo k, transform lo ord v)) m"

lemma folded_simps [simp]:
  "folded lo ord [] = []" "folded lo ord ((k, v) # m) = (casefold lo k, transform lo ord v) # folded lo ord m"
  by (simp_all add: folded_def)

lemma transform_object:
  assumes "\<And>xs. mset (ord xs) = mset xs" "distinct (List.map fst (folded lo ord m0))" "mset m' = mset m0"
  shows "\<exists>M. transform lo ord (JObject m') = JObject M \<and> map_of M = map_of (folded lo ord m0)"
proof -
  let ?xs = "ord (List.map (\<lambda>(k, v). (k, transform lo ord v)) m')"
  have "mset (rev (List.map (\<lambda>(k, v). (casefold lo k, v)) ?xs)) = image_mset (\<lambda>(k, v). (casefold lo k, v)) (image_mset (\<lambda>(k, v). (k, transform lo ord v)) (mset m0))"
    using assms(1,3) by simp
  also have "\<dots> = mset (folded lo ord m0)"
    by (simp add: folded_def multiset.map_comp comp_def case_prod_unfold)
  finally have "map_of (rev (List.map (\<lambda>(k, v). (casefold lo k, v)) ?xs)) = map_of (folded lo ord m0)"
    by (rule map_of_permuted [OF assms(2)])
  then show ?thesis by (simp add: map_of_update_fold)
qed

lemma spells_dir_keys:
  "spells_dir lo cc s cs m m0 \<Longrightarrow> distinct (List.map (\<lambda>c. casefold lo (en_Name (ent s c))) cs)
    \<Longrightarrow> distinct (List.map fst (folded lo ord m0)) \<and> fst ` set (folded lo ord m0) \<subseteq> (\<lambda>c. casefold lo (en_Name (ent s c))) ` set cs"
  by (induction cs m m0 rule: spells_spells_dir.inducts(2) [where ?P1.0 = "\<lambda>_ _ _. True"])
    auto

subsection \<open>Restoring\<close>

lemma enum_value_restores:
  assumes "n \<in> set (enum_Names en)" "inj_on (casefold lo) (set (enum_Names en))" "casefold lo v' = casefold lo n"
  shows "enum_value lo cc en v' = (if cc then CamelCase True n else n)"
proof -
  obtain m where m: "find (\<lambda>m. casefold lo m = casefold lo v') (enum_Names en) = Some m"
    using assms(1,3) by (cases "find (\<lambda>m. casefold lo m = casefold lo v') (enum_Names en)") (auto simp: find_None_iff)
  then have "m \<in> set (enum_Names en)" "casefold lo m = casefold lo v'" by (auto simp: find_Some_iff)
  then have "m = n" using assms by (simp add: inj_on_eq_iff)
  then show ?thesis using m by (simp add: enum_value_def)
qed

lemma process_items_spells:
  "list_all2 (\<lambda>j j'. process lo cc s e (transform lo ord j') = Done j) js js'
    \<Longrightarrow> process_items lo cc s e (List.map (transform lo ord) js') = Done js"
  by (induction js js' rule: list_all2_induct) simp_all

lemma spells_restored:
  assumes ord: "\<And>xs. mset (ord xs) = mset xs"
  shows "spells lo cc s e v v' \<Longrightarrow> process lo cc s e (transform lo ord v') = Done v"
    and "spells_dir lo cc s cs m m0 \<Longrightarrow> distinct (List.map (\<lambda>c. casefold lo (en_Name (ent s c))) cs)
      \<Longrightarrow> distinct (List.map (shown cc s) cs)
      \<Longrightarrow> (\<And>c. c \<in> set cs \<Longrightarrow> map_of M (casefold lo (en_Name (ent s c))) = map_of (folded lo ord m0) (casefold lo (en_Name (ent s c))))
      \<Longrightarrow> (\<And>c. c \<in> set cs \<Longrightarrow> shown cc s c \<notin> fst ` set out)
      \<Longrightarrow> process_dir lo cc s cs M out = Done (out @ m)"
proof (induction e v v' and cs m m0 arbitrary: and M out rule: spells_spells_dir.inducts)
  case (object e d m m0 m')
  have dist: "distinct (List.map (\<lambda>c. casefold lo (en_Name (ent s c))) (List.map snd d))"
    using object(2) by (simp add: comp_def case_prod_unfold)
  have dist': "distinct (List.map (shown cc s) (List.map snd d))"
    using object(3) by (simp add: comp_def case_prod_unfold)
  obtain M where M: "transform lo ord (JObject m') = JObject M" "map_of M = map_of (folded lo ord m0)"
    using transform_object [OF ord _ object(6)] spells_dir_keys [OF object(4) dist] by blast
  have "process_dir lo cc s (List.map snd d) M [] = Done ([] @ m)"
    by (rule object(5)) (use dist dist' M(2) in simp_all)
  then show ?case using object(1) M(1) by simp
next
  case (array e js js')
  have "list_all2 (\<lambda>j j'. process lo cc s e (transform lo ord j') = Done j) js js'"
    using array(2) by (rule list_all2_mono) simp
  then show ?case using array(1) by (auto simp: process_items_spells)
next
  case (plain e v)
  then show ?case by (auto simp: process_string_def split: option.split)
next
  case (enumerated e t en n v')
  then show ?case by (simp add: process_string_def enum_value_restores)
next
  case (missing cs m m0 c)
  have "casefold lo (en_Name (ent s c)) \<notin> fst ` set (folded lo ord m0)"
    using spells_dir_keys [OF missing(1), of ord] missing(3) by auto
  then have "map_of (folded lo ord m0) (casefold lo (en_Name (ent s c))) = None" by (simp add: map_of_eq_None_iff)
  then show ?case using missing(2) [of M out] missing(3-) by simp
next
  case (present c v v' k cs m m0)
  have "map_of M (casefold lo (en_Name (ent s c))) = Some (transform lo ord v')"
    using present(8) [of c] present(3) by simp
  moreover have up: "AList.update (shown cc s c) v out = out @ [(shown cc s c, v)]"
    using present(9) [of c] by (simp add: update_new)
  moreover have "process_dir lo cc s cs M (out @ [(shown cc s c, v)]) = Done ((out @ [(shown cc s c, v)]) @ m)"
  proof (rule present(5))
    fix c' assume c': "c' \<in> set cs"
    then have "casefold lo (en_Name (ent s c)) \<noteq> casefold lo (en_Name (ent s c'))"
      using present(6) by (metis (mono_tags, lifting) distinct.simps(2) image_eqI list.set_map list.simps(9))
    then show "map_of M (casefold lo (en_Name (ent s c'))) = map_of (folded lo ord m0) (casefold lo (en_Name (ent s c')))"
      using present(3) present(8) [of c'] c' by simp
    have "shown cc s c \<noteq> shown cc s c'" using present(7) c' by auto
    then show "shown cc s c' \<notin> fst ` set (out @ [(shown cc s c, v)])" using present(9) [of c'] c' by auto
  qed (use present(6,7) in simp_all)
  ultimately show ?case using present(2) by (simp add: entry_name_def shown_def)
qed simp_all


definition two_names :: "entry list" where
  "two_names = [blank\<lparr>en_Name := ''c'', en_Kind := DirectoryEntry, en_Dir := Some [(''if-name'', 1), (''m'', 2)]\<rparr>,
     blank\<lparr>en_Name := ''if-name''\<rparr>, blank\<lparr>en_Name := ''m''\<rparr>]"


end
