(* ===== verification/CrdRuns.thy ===== *)
theory CrdRuns
  imports Commands EntryTrees
begin

text \<open>
  Runs of the commands: the options that come with a file name, which files with which content a run of the format \<open>crd\<close> leaves,
  that a run that exits says why, and what is dropped silently.
\<close>

subsection \<open>Options\<close>

definition option_keys :: "string set" where
  "option_keys = {''root'', ''instance'', ''name'', ''key'', ''augmentor'', ''group''}"

definition option_text :: "(string \<times> string) list \<Rightarrow> string" where
  "option_text kvs = go_join (List.map (\<lambda>(k, v). k @ ''='' @ v) kvs) '',''"

definition plain_option :: "string \<times> string \<Rightarrow> bool" where
  "plain_option = (\<lambda>(k, v). k \<in> option_keys \<and> CHR '','' \<notin> set v \<and> CHR ''='' \<notin> set v)"

lemma plain_option_split:
  assumes "plain_option (k, v)"
  shows "go_split (k @ ''='' @ v) ''='' = [k, v]" "CHR '','' \<notin> set (k @ ''='' @ v)" "put_option k v c \<noteq> None" "k \<noteq> []"
proof -
  have k: "CHR ''='' \<notin> set k" "CHR '','' \<notin> set k" "k \<noteq> []" using assms by (auto simp: plain_option_def option_keys_def)
  then show "go_split (k @ ''='' @ v) ''='' = [k, v]"
    using assms go_split_cons [of "''=''" k v] go_split_none [of "''=''" v] by (simp add: plain_option_def)
  show "CHR '','' \<notin> set (k @ ''='' @ v)" "k \<noteq> []" using k assms by (auto simp: plain_option_def)
  show "put_option k v c \<noteq> None" using assms by (auto simp: plain_option_def option_keys_def put_option_def)
qed

lemma option_parts_plain:
  "\<forall>p\<in>set kvs. plain_option p \<Longrightarrow>
    option_parts (List.map (\<lambda>(k, v). k @ ''='' @ v) kvs) c = (fold (\<lambda>(k, v) c. the (put_option k v c)) kvs c, [])"
proof (induction kvs arbitrary: c)
  case (Cons p kvs)
  obtain k v where p: "p = (k, v)" by fastforce
  then have "plain_option (k, v)" using Cons.prems by simp
  note s = plain_option_split [OF this]
  from s(3) [of c] obtain c1 where "put_option k v c = Some c1" by blast
  then show ?case using Cons s(1) by (simp add: p)
qed simp

text \<open>The value given last for the key \<open>k\<close>.\<close>

definition given :: "(string \<times> string) list \<Rightarrow> string \<Rightarrow> string \<Rightarrow> string" where
  "given kvs k d = (case map_of (List.rev kvs) k of None \<Rightarrow> d | Some v \<Rightarrow> v)"

lemma given_simps [simp]: "given [] k d = d" "given ((k', v) # kvs) k d = given kvs k (if k' = k then v else d)"
  by (simp_all add: given_def map_add_def split: option.split)

lemma put_options:
  "\<forall>p\<in>set kvs. plain_option p \<Longrightarrow> fold (\<lambda>(k, v) c. the (put_option k v c)) kvs c =
     c\<lparr>co_Root := given kvs ''root'' (co_Root c), co_Instance := given kvs ''instance'' (co_Instance c),
       co_Name := given kvs ''name'' (co_Name c), co_Group := given kvs ''group'' (co_Group c),
       co_Key := given kvs ''key'' (co_Key c), co_Augmentor := given kvs ''augmentor'' (co_Augmentor c)\<rparr>"
proof (induction kvs arbitrary: c)
  case (Cons p kvs)
  obtain k v where p: "p = (k, v)" by fastforce
  then have "k \<in> option_keys" using Cons.prems by (simp add: plain_option_def)
  then show ?case using Cons by (auto simp: p option_keys_def put_option_def)
qed simp

text \<open>C38: File options are read back. Let a file name without commas be followed by options, at least one, as in
  \<open>name,key=value,...\<close>, each with one of the keys root, instance, name, key, augmentor and group, and with a value
  without commas and equality signs. Then \<open>newFileOption\<close> gives the name and the text of the
  options, and \<open>parseOptions\<close> complains about nothing and returns for each of these keys the value given
  last, for a key that is not given the default from its flag (for the group \<open>netconf.ciena.com\<close> when its flag is
  empty; nothing for key and augmentor), and \<open>Config\<close> and \<open>ModuleSearchPath\<close> from their flags.\<close>

theorem options_read_back:
  assumes "kvs \<noteq> []" "\<forall>p\<in>set kvs. plain_option p" "CHR '','' \<notin> set name"
  shows "newFileOption (name @ '','' @ option_text kvs) = (name, option_text kvs)
    \<and> parseOptions vars (option_text kvs) = (\<lparr>
        co_Root = given kvs ''root'' (rootNodeModel vars),
        co_Instance = given kvs ''instance'' (instanceNodeModel vars),
        co_Name = given kvs ''name'' (cv_crdName vars),
        co_Group = given kvs ''group'' (if crdGroup vars = [] then ''netconf.ciena.com'' else crdGroup vars),
        co_Key = given kvs ''key'' [],
        co_Config = (\<not> noConfig vars),
        co_SkipReconcile = False,
        co_Augmentor = given kvs ''augmentor'' [],
        co_ModuleSearchPath = moduleSearchPath vars\<rparr>, [])"
proof -
  let ?ps = "List.map (\<lambda>(k, v). k @ ''='' @ v) kvs"
  have split: "go_split (option_text kvs) '','' = ?ps"
    unfolding option_text_def
    by (rule go_split_join) (use assms(1,2) plain_option_split(2) in \<open>fastforce simp: option_text_def\<close>)+
  then have "go_split (name @ '','' @ option_text kvs) '','' = name # ?ps"
    using assms(3) go_split_cons [of "'',''" name "option_text kvs"] by simp
  then have "newFileOption (name @ '','' @ option_text kvs) = (name, option_text kvs)"
    using assms(1) by (simp add: newFileOption_def option_text_def Let_def)
  moreover have "option_text kvs \<noteq> []"
  proof -
    obtain k v r where "kvs = (k, v) # r" using assms(1) by (cases kvs) auto
    then show ?thesis using assms(2) plain_option_split(4) [of k v] by (cases r) (auto simp: option_text_def)
  qed
  ultimately show ?thesis
    using option_parts_plain [OF assms(2), of "getDefaultOptions vars"]
    by (simp add: parseOptions_def split put_options [OF assms(2)] getDefaultOptions_def DefaultGroupName_def)
qed

definition no_flags :: crd_vars where
  "no_flags = \<lparr>rootNodeModel = [], instanceNodeModel = [], cv_crdName = [], metadataNamespace = [], outputDirectory = [],
     noConfig = False, crdTemplate = [], crdGroup = [], moduleSearchPath = []\<rparr>"

theorem options_read_back_witness:
  "newFileOption ''m.yang,root=r,key=id,root=q'' = (''m.yang'', ''root=r,key=id,root=q'')
   \<and> parseOptions no_flags ''root=r,key=id,root=q'' = (\<lparr>co_Root = ''q'', co_Instance = [], co_Name = [],
       co_Group = ''netconf.ciena.com'', co_Key = ''id'', co_Config = True, co_SkipReconcile = False, co_Augmentor = [],
       co_ModuleSearchPath = []\<rparr>, [])"
  using options_read_back [of "[(''root'', ''r''), (''key'', ''id''), (''root'', ''q'')]" "''m.yang''" no_flags]
  by (simp add: option_text_def plain_option_def option_keys_def no_flags_def)

subsection \<open>Files and messages\<close>

text \<open>
  Assertions on a command: started in a state with \<open>P\<close> it returns \<open>x\<close> in a state with \<open>Q x\<close>; or exits
  with the status 1 in a state with \<open>E True\<close>; or panics or goes on for ever in a state with \<open>E False\<close>.
\<close>

definition ends :: "('a \<Rightarrow> system \<Rightarrow> bool) \<Rightarrow> (bool \<Rightarrow> system \<Rightarrow> bool) \<Rightarrow> 'a ending \<times> system \<Rightarrow> bool" where
  "ends Q E e = (case e of
      (Returns x, y') \<Rightarrow> Q x y' | (Exits n, y') \<Rightarrow> n = 1 \<and> E True y' | (Panics, y') \<Rightarrow> E False y'
    | (Endless, y') \<Rightarrow> E False y')"

definition runs :: "(system \<Rightarrow> bool) \<Rightarrow> 'a cmd \<Rightarrow> ('a \<Rightarrow> system \<Rightarrow> bool) \<Rightarrow> (bool \<Rightarrow> system \<Rightarrow> bool) \<Rightarrow> bool" where
  "runs P c Q E \<longleftrightarrow> (\<forall>y. P y \<longrightarrow> ends Q E (c y))"

lemma runsD: "runs P c Q E \<Longrightarrow> P y \<Longrightarrow> ends Q E (c y)" by (simp add: runs_def)

lemma runsI: "(\<And>y. P y \<Longrightarrow> ends Q E (c y)) \<Longrightarrow> runs P c Q E" by (simp add: runs_def)

lemma runs_andthen:
  assumes "runs P c M E" "\<And>x. runs (M x) (f x) Q E"
  shows "runs P (andthen c f) Q E"
proof (rule runsI)
  fix y assume "P y"
  then have c: "ends M E (c y)" by (rule runsD [OF assms(1)])
  obtain r z where r: "c y = (r, z)" by fastforce
  show "ends Q E (andthen c f y)"
  proof (cases r)
    case (Returns x)
    then have "M x z" using c r by (simp add: ends_def)
    then show ?thesis using runsD [OF assms(2) [of x]] Returns r unfolding andthen_def by simp
  qed (use c r in \<open>simp_all add: andthen_def ends_def\<close>)
qed

lemma runs_give: "(\<And>y. P y \<Longrightarrow> Q x y) \<Longrightarrow> runs P (give x) Q E" by (simp add: runs_def ends_def give_def)

lemma runs_panic: "(\<And>y. P y \<Longrightarrow> E False y) \<Longrightarrow> runs P panic Q E" by (simp add: runs_def ends_def panic_def)

lemma runs_fail: "(\<And>y. P y \<Longrightarrow> E True (y\<lparr>sy_err := sy_err y @ t\<rparr>)) \<Longrightarrow> runs P (fail_with t) Q E"
  by (simp add: runs_def ends_def fail_with_def exit_with_def)

lemma runs_run:
  "(\<And>x y. r = Done x \<Longrightarrow> P y \<Longrightarrow> Q x y) \<Longrightarrow> (\<And>y. P y \<Longrightarrow> E False y) \<Longrightarrow> runs P (of_run r) Q E"
  by (cases r) (simp_all add: runs_def ends_def of_run_def give_def panic_def)

lemma runs_flag: "(\<And>y. P y \<Longrightarrow> Q (f (sy_vars y)) y) \<Longrightarrow> runs P (flag f) Q E"
  by (simp add: runs_def ends_def flag_def)

lemma runs_put:
  "(\<And>y. P y \<Longrightarrow> Q () (y\<lparr>sy_out := sy_out y @ t\<rparr>)) \<Longrightarrow> runs P (put_out t) Q E"
  "(\<And>y. P y \<Longrightarrow> Q () (y\<lparr>sy_err := sy_err y @ t\<rparr>)) \<Longrightarrow> runs P (put_err t) Q E"
  "(\<And>y. P y \<Longrightarrow> Q () (y\<lparr>sy_files := sy_files y @ [(f, t)]\<rparr>)) \<Longrightarrow> runs P (put_file f t) Q E"
  "(\<And>y. P y \<Longrightarrow> Q () (y\<lparr>sy_vars := (sy_vars y)\<lparr>outputDirectory := t\<rparr>\<rparr>)) \<Longrightarrow> runs P (set_directory t) Q E"
  by (simp_all add: runs_def ends_def put_out_def put_err_def put_file_def set_directory_def)

lemma runs_if: "(b \<Longrightarrow> runs P c Q E) \<Longrightarrow> (\<not> b \<Longrightarrow> runs P d Q E) \<Longrightarrow> runs P (if b then c else d) Q E"
  by simp

lemma runs_weaken: "runs P c Q E \<Longrightarrow> (\<And>y. P' y \<Longrightarrow> P y) \<Longrightarrow> runs P' c Q E"
  by (simp add: runs_def)

lemma runs_post: "runs P c Q E \<Longrightarrow> (\<And>x y. Q x y \<Longrightarrow> Q' x y) \<Longrightarrow> runs P c Q' E"
  by (auto simp: runs_def ends_def split: prod.splits ending.splits)

lemma runs_assume: "(b \<Longrightarrow> runs P c Q E) \<Longrightarrow> runs (\<lambda>y. P y \<and> b) c Q E"
  by (simp add: runs_def)

subsection \<open>What the files are to be\<close>

text \<open>The directory, the options, the names and the contents.\<close>

definition directory_for :: "outside \<Rightarrow> crd_vars \<Rightarrow> string \<Rightarrow> bool" where
  "directory_for ou v d \<longleftrightarrow> (if outputDirectory v = [] then ou_getwd ou = Inr d else d = outputDirectory v)"

definition options_for :: "crd_vars \<Rightarrow> string \<Rightarrow> CrdOptions \<Rightarrow> bool" where
  "options_for v options c \<longleftrightarrow> (\<exists>r i key. c = (fst (parseOptions v options))\<lparr>co_Root := r, co_Instance := i, co_Key := key\<rparr>)"

definition named :: "outside \<Rightarrow> CrdOptions \<Rightarrow> CrdOptions" where
  "named ou c = c\<lparr>co_Name := crd_name ou c\<rparr>"

definition crd_file :: "outside \<Rightarrow> string \<Rightarrow> CrdOptions \<Rightarrow> string" where
  "crd_file ou d c = d @ ''/'' @ co_Group c @ ''_'' @ pluralize (ou_lower ou) (crd_name ou c) @ ''.yaml''"

definition meta_file :: "outside \<Rightarrow> string \<Rightarrow> CrdOptions \<Rightarrow> string" where
  "meta_file ou d c = d @ ''/'' @ co_Group c @ ''_'' @ pluralize (ou_lower ou) (crd_name ou c) @ ''_meta.yaml''"

definition schema_for :: "nat \<Rightarrow> outside \<Rightarrow> estate \<Rightarrow> crd_vars \<Rightarrow> nat \<Rightarrow> CrdOptions \<Rightarrow> string \<Rightarrow> string option \<Rightarrow> bool" where
  "schema_for k ou s v p c out err \<longleftrightarrow> (\<exists>body exec short.
     (if noConfig v then generateStatusFields k (ou_lower ou) s p True = Done body \<and> body \<noteq> []
      else spec_text k (ou_lower ou) s p = Done body)
     \<and> ou_template ou (crdTemplate v) (if noConfig v then template_functions ou [] body else template_functions ou body []) = Inr exec
     \<and> getShortNames (ou_lower ou) (noConfig v) (crd_name ou c) = Done short
     \<and> exec \<lparr>cc_CrdName = crd_name ou c, cc_ShortNames = short, cc_Group = co_Group c\<rparr> = (out, err))"

definition metadata_for :: "outside \<Rightarrow> string \<Rightarrow> string list \<Rightarrow> crd_vars \<Rightarrow> CrdOptions \<Rightarrow> string \<Rightarrow> bool" where
  "metadata_for ou filename deps v c out \<longleftrightarrow> (\<exists>m a m' t.
     ou_unmarshal ou (metadata_text ou filename (metadataNamespace v) c) = Inr m \<and> read_augmentation ou c = Inr a
     \<and> extend_metadata (wrapper_extras deps c a) (case m of None \<Rightarrow> [] | Some x \<Rightarrow> x) = Done m'
     \<and> ou_encode ou m' = Inr t \<and> out = ''---'' @ [nl] @ t)"

text \<open>What a run that returns has written, and what may be left by one that does not.\<close>

definition files_made :: "nat \<Rightarrow> outside \<Rightarrow> estate \<Rightarrow> string \<Rightarrow> string list \<Rightarrow> string \<Rightarrow> crd_vars \<Rightarrow> (string \<times> string) list \<Rightarrow> bool" where
  "files_made k ou s filename deps options v fs \<longleftrightarrow> (\<exists>p c d schema metadata.
     options_for v options c \<and> directory_for ou v d \<and> schema_for k ou s v p c schema None
     \<and> metadata_for ou filename deps v (named ou c) metadata
     \<and> fs = [(crd_file ou d c, schema), (meta_file ou d c, metadata)])"

definition files_left :: "nat \<Rightarrow> outside \<Rightarrow> estate \<Rightarrow> string \<Rightarrow> string list \<Rightarrow> string \<Rightarrow> crd_vars \<Rightarrow> bool \<Rightarrow> (string \<times> string) list \<Rightarrow> bool" where
  "files_left k ou s filename deps options v exits fs \<longleftrightarrow> fs = [] \<or> (\<exists>p c d schema err.
     options_for v options c \<and> directory_for ou v d \<and> schema_for k ou s v p c schema err
     \<and> (fs = [(crd_file ou d c, schema)]
        \<or> exits \<and> (\<exists>metadata part e. metadata_for ou filename deps v (named ou c) metadata
            \<and> ou_writeFile ou (meta_file ou d c) metadata = Some (Some part, e)
            \<and> fs = [(crd_file ou d c, schema), (meta_file ou d c, part)])))"

text \<open>The end of a run that does not return: what it was started with is still there, and an exit comes with a message.\<close>

definition stopped :: "(bool \<Rightarrow> (string \<times> string) list \<Rightarrow> bool) \<Rightarrow> system \<Rightarrow> bool \<Rightarrow> system \<Rightarrow> bool" where
  "stopped F y0 exits y \<longleftrightarrow> (\<exists>fs t. sy_files y = sy_files y0 @ fs \<and> sy_err y = sy_err y0 @ t
     \<and> (exits \<longrightarrow> t \<noteq> []) \<and> F exits fs)"

text \<open>Before the first file, only messages have been written.\<close>

definition quiet :: "system \<Rightarrow> system \<Rightarrow> bool" where
  "quiet y0 y \<longleftrightarrow> (\<exists>t. y = y0\<lparr>sy_err := sy_err y0 @ t\<rparr>)"

definition nothing_left :: "(bool \<Rightarrow> (string \<times> string) list \<Rightarrow> bool) \<Rightarrow> bool" where
  "nothing_left F \<longleftrightarrow> F True [] \<and> F False []"

lemma quiet_refl: "quiet y y" by (simp add: quiet_def exI [of _ "[]"])

lemma quiet_err: "quiet y0 y \<Longrightarrow> quiet y0 (y\<lparr>sy_err := sy_err y @ t\<rparr>)"
  by (auto simp: quiet_def)

lemma quiet_vars: "quiet y0 y \<Longrightarrow> sy_vars y = sy_vars y0" by (auto simp: quiet_def)

lemma quiet_stopped: "quiet y0 y \<Longrightarrow> nothing_left F \<Longrightarrow> stopped F y0 False y"
  by (auto simp: quiet_def stopped_def nothing_left_def)

lemma quiet_exit: "quiet y0 y \<Longrightarrow> nothing_left F \<Longrightarrow> t \<noteq> [] \<Longrightarrow> stopped F y0 True (y\<lparr>sy_err := sy_err y @ t\<rparr>)"
  by (auto simp: quiet_def stopped_def nothing_left_def)

lemma quiet_fail: "nothing_left F \<Longrightarrow> t \<noteq> [] \<Longrightarrow> runs (quiet y0) (fail_with t) Q (stopped F y0)"
  by (rule runs_fail) (rule quiet_exit)

subsection \<open>Up to the schema\<close>

lemma runs_module_entry_for:
  "nothing_left F \<Longrightarrow> runs (quiet y0) (module_entry_for s entries filename) (\<lambda>_. quiet y0) (stopped F y0)"
  unfolding module_entry_for_def by (auto split: option.split intro!: quiet_fail runs_give)

lemma runs_given_entry: "runs (quiet y0) (given_entry s e r i) (\<lambda>_. quiet y0) E"
  unfolding given_entry_def
  by (auto split: option.split intro!: runs_give runs_andthen [where M = "\<lambda>_. quiet y0"] runs_put(2) quiet_err)

lemma runs_chosen_entry:
  assumes "nothing_left F"
  shows "runs (quiet y0) (chosen_entry ord s e c) (\<lambda>(c', p) y. quiet y0 y \<and> (\<exists>r i. c' = c\<lparr>co_Root := r, co_Instance := i\<rparr>))
    (stopped F y0)"
proof -
  have self: "\<exists>r i. c = c\<lparr>co_Root := r, co_Instance := i\<rparr>" by (rule exI [of _ "co_Root c"], rule exI [of _ "co_Instance c"]) simp
  show ?thesis
    unfolding chosen_entry_def using assms self
    by (auto split: sum.split prod.split intro!: quiet_fail runs_give runs_andthen [OF runs_given_entry])
qed

lemma runs_crd_key:
  assumes "nothing_left F"
  shows "runs (quiet y0) (crd_key s p c) (\<lambda>c' y. quiet y0 y \<and> (\<exists>key. c' = c\<lparr>co_Key := key\<rparr>)) (stopped F y0)"
  unfolding crd_key_def using assms
  by (auto split: sum.split intro!: quiet_fail runs_give runs_flag runs_andthen [where M = "\<lambda>_. quiet y0"])

lemma runs_output_directory:
  assumes "\<And>y. P y \<Longrightarrow> sy_vars y = w" "\<And>y. P y \<Longrightarrow> E False y"
    "\<And>d y. directory_for ou w d \<Longrightarrow> P y \<Longrightarrow> Q d (y\<lparr>sy_vars := w\<lparr>outputDirectory := d\<rparr>\<rparr>)"
  shows "runs P (output_directory ou) Q E"
proof (rule runsI)
  fix y assume P: "P y"
  have v: "sy_vars y = w" by (rule assms(1) [OF P])
  show "ends Q E (output_directory ou y)"
  proof (cases "outputDirectory w = []")
    case True
    show ?thesis
    proof (cases "ou_getwd ou")
      case (Inr d)
      then have "directory_for ou w d" using True by (simp add: directory_for_def)
      then show ?thesis using assms(3) [OF _ P] True Inr v
        by (simp add: output_directory_def getOutputDirectory_def andthen_def flag_def set_directory_def give_def ends_def)
    qed (use True v assms(2) [OF P] in
        \<open>simp add: output_directory_def getOutputDirectory_def andthen_def flag_def panic_def ends_def\<close>)
  next
    case False
    then have "directory_for ou w (outputDirectory w)" by (simp add: directory_for_def)
    then have "Q (outputDirectory w) (y\<lparr>sy_vars := w\<rparr>)" using assms(3) [of "outputDirectory w" y] P by simp
    then show ?thesis using assms(2) [OF P] False v
      by (simp add: output_directory_def getOutputDirectory_def andthen_def flag_def set_directory_def give_def panic_def ends_def)
  qed
qed

text \<open>The state before and after the schema is written.\<close>

definition before_schema :: "system \<Rightarrow> string \<Rightarrow> system \<Rightarrow> bool" where
  "before_schema y0 d y \<longleftrightarrow> (\<exists>t. y = y0\<lparr>sy_err := sy_err y0 @ t, sy_vars := (sy_vars y0)\<lparr>outputDirectory := d\<rparr>\<rparr>)"

definition after_schema :: "system \<Rightarrow> string \<Rightarrow> string \<Rightarrow> string \<Rightarrow> system \<Rightarrow> bool" where
  "after_schema y0 d f out y \<longleftrightarrow> sy_files y = sy_files y0 @ [(f, out)] \<and> (\<exists>t. sy_err y = sy_err y0 @ t)
     \<and> sy_vars y = (sy_vars y0)\<lparr>outputDirectory := d\<rparr>"

definition template_run :: "outside \<Rightarrow> crd_vars \<Rightarrow> CrdOptions \<Rightarrow> string \<Rightarrow> string \<Rightarrow> string \<Rightarrow> string option \<Rightarrow> bool" where
  "template_run ou v c spec status out err \<longleftrightarrow> (\<exists>exec short.
     ou_template ou (crdTemplate v) (template_functions ou spec status) = Inr exec
     \<and> getShortNames (ou_lower ou) (noConfig v) (crd_name ou c) = Done short
     \<and> exec \<lparr>cc_CrdName = crd_name ou c, cc_ShortNames = short, cc_Group = co_Group c\<rparr> = (out, err))"

lemma runs_write_crd:
  assumes "nothing_left F" "\<And>out err. exec \<lparr>cc_CrdName = crd_name ou c, cc_ShortNames = short, cc_Group = co_Group c\<rparr> = (out, err)
      \<Longrightarrow> F False [(crd_file ou d c, out)]"
  shows "runs (before_schema y0 d) (write_crd ou c exec (crd_name ou c) short d)
    (\<lambda>c' y. c' = named ou c \<and> (\<exists>out. exec \<lparr>cc_CrdName = crd_name ou c, cc_ShortNames = short, cc_Group = co_Group c\<rparr> = (out, None)
       \<and> after_schema y0 d (crd_file ou d c) out y)) (stopped F y0)"
proof -
  obtain out err where e: "exec \<lparr>cc_CrdName = crd_name ou c, cc_ShortNames = short, cc_Group = co_Group c\<rparr> = (out, err)" by fastforce
  have f: "d @ ''/'' @ co_Group c @ ''_'' @ pluralize (ou_lower ou) (crd_name ou c) @ ''.yaml'' = crd_file ou d c"
    by (simp add: crd_file_def)
  have l: "F False [(crd_file ou d c, out)]" "F False []" using assms(2) [OF e] assms(1) by (simp_all add: nothing_left_def)
  have rest: "runs (after_schema y0 d (crd_file ou d c) out)
      (if err \<noteq> None then panic else andthen (put_out (''Generated crd '' @ crd_file ou d c @ [nl])) (\<lambda>_. give (c\<lparr>co_Name := crd_name ou c\<rparr>)))
      (\<lambda>c' y. c' = named ou c \<and> (\<exists>o'. exec \<lparr>cc_CrdName = crd_name ou c, cc_ShortNames = short, cc_Group = co_Group c\<rparr> = (o', None)
         \<and> after_schema y0 d (crd_file ou d c) o' y)) (stopped F y0)"
  proof (rule runs_if)
    show "runs (after_schema y0 d (crd_file ou d c) out) panic
      (\<lambda>c' y. c' = named ou c \<and> (\<exists>o'. exec \<lparr>cc_CrdName = crd_name ou c, cc_ShortNames = short, cc_Group = co_Group c\<rparr> = (o', None)
         \<and> after_schema y0 d (crd_file ou d c) o' y)) (stopped F y0)"
      by (rule runs_panic) (use l in \<open>auto simp: after_schema_def stopped_def\<close>)
  next
    assume "\<not> err \<noteq> None"
    then show "runs (after_schema y0 d (crd_file ou d c) out)
      (andthen (put_out (''Generated crd '' @ crd_file ou d c @ [nl])) (\<lambda>_. give (c\<lparr>co_Name := crd_name ou c\<rparr>)))
      (\<lambda>c' y. c' = named ou c \<and> (\<exists>o'. exec \<lparr>cc_CrdName = crd_name ou c, cc_ShortNames = short, cc_Group = co_Group c\<rparr> = (o', None)
         \<and> after_schema y0 d (crd_file ou d c) o' y)) (stopped F y0)"
      by (intro runs_andthen [where M = "\<lambda>_. after_schema y0 d (crd_file ou d c) out"] runs_put runs_give)
        (use e in \<open>auto simp: after_schema_def named_def\<close>)
  qed
  show ?thesis
    unfolding write_crd_def Let_def e prod.case f
    by (rule runs_if, rule runs_panic, use l in \<open>force simp: before_schema_def stopped_def\<close>,
      rule runs_andthen [where M = "\<lambda>_. after_schema y0 d (crd_file ou d c) out", OF runs_put(3) rest [unfolded e]])
      (auto simp: before_schema_def after_schema_def)
qed

lemma runs_executeTemplate:
  assumes F: "nothing_left F"
    and left: "\<And>d out err. directory_for ou (sy_vars y0) d \<Longrightarrow> template_run ou (sy_vars y0) c spec status out err
      \<Longrightarrow> F False [(crd_file ou d c, out)]"
  shows "runs (quiet y0) (executeTemplate ou c spec status) (\<lambda>c' y. c' = named ou c \<and> (\<exists>d out.
      directory_for ou (sy_vars y0) d \<and> template_run ou (sy_vars y0) c spec status out None
      \<and> after_schema y0 d (crd_file ou d c) out y)) (stopped F y0)"
proof -
  let ?Q = "\<lambda>c' y. c' = named ou c \<and> (\<exists>d out. directory_for ou (sy_vars y0) d
      \<and> template_run ou (sy_vars y0) c spec status out None \<and> after_schema y0 d (crd_file ou d c) out y)"
  have dir: "runs (quiet y0) (andthen (output_directory ou) (write_crd ou c exec (crd_name ou c) short)) ?Q (stopped F y0)"
    if "ou_template ou (crdTemplate (sy_vars y0)) (template_functions ou spec status) = Inr exec"
      "getShortNames (ou_lower ou) (noConfig (sy_vars y0)) (crd_name ou c) = Done short" for exec short
  proof (rule runs_andthen [where M = "\<lambda>d y. before_schema y0 d y \<and> directory_for ou (sy_vars y0) d"])
    show "runs (quiet y0) (output_directory ou) (\<lambda>d y. before_schema y0 d y \<and> directory_for ou (sy_vars y0) d) (stopped F y0)"
      using F by (intro runs_output_directory [where w = "sy_vars y0"]) (auto simp: quiet_vars quiet_stopped quiet_def before_schema_def)
    fix d
    show "runs (\<lambda>y. before_schema y0 d y \<and> directory_for ou (sy_vars y0) d) (write_crd ou c exec (crd_name ou c) short d) ?Q (stopped F y0)"
    proof (rule runs_assume)
      assume d: "directory_for ou (sy_vars y0) d"
      have t: "template_run ou (sy_vars y0) c spec status out err"
        if "exec \<lparr>cc_CrdName = crd_name ou c, cc_ShortNames = short, cc_Group = co_Group c\<rparr> = (out, err)" for out err
        using that \<open>ou_template _ _ _ = _\<close> \<open>getShortNames _ _ _ = _\<close> by (auto simp: template_run_def)
      have "runs (before_schema y0 d) (write_crd ou c exec (crd_name ou c) short d)
        (\<lambda>c' y. c' = named ou c \<and> (\<exists>out. exec \<lparr>cc_CrdName = crd_name ou c, cc_ShortNames = short, cc_Group = co_Group c\<rparr> = (out, None)
           \<and> after_schema y0 d (crd_file ou d c) out y)) (stopped F y0)"
        by (rule runs_write_crd [OF F left [OF d t]])
      then show "runs (before_schema y0 d) (write_crd ou c exec (crd_name ou c) short d) ?Q (stopped F y0)"
        by (rule runs_post) (use t d in blast)
    qed
  qed
  have short: "runs (quiet y0) (andthen (of_run (getShortNames (ou_lower ou) nc (crd_name ou c))) (\<lambda>short.
      andthen (output_directory ou) (write_crd ou c exec (crd_name ou c) short))) ?Q (stopped F y0)"
    if "ou_template ou (crdTemplate (sy_vars y0)) (template_functions ou spec status) = Inr exec" "nc = noConfig (sy_vars y0)" for exec nc
    by (rule runs_andthen [where M = "\<lambda>x y. quiet y0 y \<and> getShortNames (ou_lower ou) nc (crd_name ou c) = Done x"])
      (use F dir [OF that(1)] that(2) in \<open>auto intro!: runs_run runs_assume quiet_stopped\<close>)
  show ?thesis
    unfolding executeTemplate_def
  proof (rule runs_andthen [where M = "\<lambda>x y. quiet y0 y \<and> x = crdTemplate (sy_vars y0)"])
    show "runs (quiet y0) (flag crdTemplate) (\<lambda>x y. quiet y0 y \<and> x = crdTemplate (sy_vars y0)) (stopped F y0)"
      by (rule runs_flag) (auto simp: quiet_vars)
    fix x
    show "runs (\<lambda>y. quiet y0 y \<and> x = crdTemplate (sy_vars y0)) (case ou_stat ou x of
         Some None \<Rightarrow> fail_with (''template file '' @ x @ '' does not exist'' @ [nl])
       | Some (Some err) \<Rightarrow> fail_with (''error '' @ err @ '' accessing template file '' @ x @ [nl])
       | None \<Rightarrow>
           (case ou_template ou x (template_functions ou spec status) of
              Inl _ \<Rightarrow> panic
            | Inr exec \<Rightarrow>
                andthen (flag noConfig) (\<lambda>nc.
                  andthen (of_run (getShortNames (ou_lower ou) nc (crd_name ou c))) (\<lambda>short.
                    andthen (output_directory ou) (write_crd ou c exec (crd_name ou c) short))))) ?Q (stopped F y0)"
      by (rule runs_assume)
        (use F short in \<open>auto split: option.split sum.split
          intro!: quiet_fail runs_panic quiet_stopped runs_flag runs_assume
            runs_andthen [where M = "\<lambda>x y. quiet y0 y \<and> x = noConfig (sy_vars y0)" and c = "flag noConfig"] simp: quiet_vars\<close>)
  qed
qed

subsection \<open>The metadata\<close>

text \<open>The state after the metadata: both files are written, or the failure has left some.\<close>

definition after_metadata :: "(bool \<Rightarrow> (string \<times> string) list \<Rightarrow> bool) \<Rightarrow> ((string \<times> string) list \<Rightarrow> bool) \<Rightarrow> system \<Rightarrow> string option
    \<Rightarrow> system \<Rightarrow> bool" where
  "after_metadata F G y0 err y \<longleftrightarrow> (\<exists>fs t. sy_files y = sy_files y0 @ fs \<and> sy_err y = sy_err y0 @ t
     \<and> (if err = None then G fs else F True fs))"

lemma runs_generateMetadata:
  assumes dir: "directory_for ou (sy_vars y0) d"
    and F: "F True [(f, out)]" "F False [(f, out)]"
    and part: "\<And>md part e. metadata_for ou filename deps (sy_vars y0) (named ou c) md
      \<Longrightarrow> ou_writeFile ou (meta_file ou d c) md = Some (Some part, e) \<Longrightarrow> F True [(f, out), (meta_file ou d c, part)]"
    and made: "\<And>md. metadata_for ou filename deps (sy_vars y0) (named ou c) md \<Longrightarrow> G [(f, out), (meta_file ou d c, md)]"
  shows "runs (after_schema y0 d f out) (generateMetadata ou filename deps (metadataNamespace (sy_vars y0)) (named ou c))
    (after_metadata F G y0) (stopped F y0)"
proof -
  let ?c = "named ou c" and ?ns = "metadataNamespace (sy_vars y0)"
  have stop: "stopped F y0 False y" if "after_schema y0 d f out y" for y
    using that F(2) by (auto simp: after_schema_def stopped_def)
  have fail: "runs (after_schema y0 d f out) (give (Some e)) (after_metadata F G y0) (stopped F y0)" for e
    by (rule runs_give) (use F(1) in \<open>auto simp: after_schema_def after_metadata_def\<close>)
  have mf: "d @ ''/'' @ co_Group ?c @ ''_'' @ pluralize (ou_lower ou) (co_Name ?c) @ ''_meta.yaml'' = meta_file ou d c"
    by (simp add: meta_file_def named_def)
  let ?two = "\<lambda>t y. sy_files y = sy_files y0 @ [(f, out), (meta_file ou d c, t)] \<and> (\<exists>t. sy_err y = sy_err y0 @ t)"
  have written: "runs (after_schema y0 d f out) (case ou_writeFile ou (meta_file ou d c) md of
       Some (left, e) \<Rightarrow> andthen (case left of None \<Rightarrow> give () | Some part \<Rightarrow> put_file (meta_file ou d c) part) (\<lambda>_.
         give (Some (e @ '': error writing metadata'')))
     | None \<Rightarrow> andthen (put_file (meta_file ou d c) md) (\<lambda>_.
         andthen (put_out (''Generated crd metadata '' @ meta_file ou d c @ [nl])) (\<lambda>_. give None)))
     (after_metadata F G y0) (stopped F y0)"
    if md: "metadata_for ou filename deps (sy_vars y0) ?c md" for md
  proof (cases "ou_writeFile ou (meta_file ou d c) md")
    case None
    have "runs (after_schema y0 d f out) (andthen (put_file (meta_file ou d c) md) (\<lambda>_.
         andthen (put_out (''Generated crd metadata '' @ meta_file ou d c @ [nl])) (\<lambda>_. give None)))
         (after_metadata F G y0) (stopped F y0)"
      by (rule runs_andthen [where M = "\<lambda>_. ?two md", OF runs_put(3)],
          use made [OF md] in \<open>force simp: after_schema_def\<close>,
          rule runs_andthen [where M = "\<lambda>_. ?two md", OF runs_put(1) runs_give])
        (use made [OF md] in \<open>auto simp: after_metadata_def\<close>)
    then show ?thesis using None by simp
  next
    case (Some x)
    obtain left e where x: "x = (left, e)" by fastforce
    show ?thesis
    proof (cases left)
      case None
      then show ?thesis using Some x fail by simp
    next
      case l: (Some t)
      have "runs (after_schema y0 d f out) (andthen (put_file (meta_file ou d c) t) (\<lambda>_. give (Some (e @ '': error writing metadata''))))
          (after_metadata F G y0) (stopped F y0)"
        by (rule runs_andthen [where M = "\<lambda>_. ?two t", OF runs_put(3) runs_give])
          (use part [OF md Some [unfolded x l]] in \<open>auto simp: after_metadata_def after_schema_def\<close>)
      then show ?thesis using Some x l by simp
    qed
  qed
  have dirs: "runs (after_schema y0 d f out) (andthen (output_directory ou) g) (after_metadata F G y0) (stopped F y0)"
    if "runs (after_schema y0 d f out) (g d) (after_metadata F G y0) (stopped F y0)" for g
  proof (rule runs_andthen [where M = "\<lambda>x y. after_schema y0 d f out y \<and> x = d"])
    have "directory_for ou ((sy_vars y0)\<lparr>outputDirectory := d\<rparr>) x \<Longrightarrow> x = d" for x
      using dir by (auto simp: directory_for_def split: if_splits)
    then show "runs (after_schema y0 d f out) (output_directory ou) (\<lambda>x y. after_schema y0 d f out y \<and> x = d) (stopped F y0)"
      using stop by (intro runs_output_directory [where w = "(sy_vars y0)\<lparr>outputDirectory := d\<rparr>"]) (auto simp: after_schema_def)
    show "runs (\<lambda>y. after_schema y0 d f out y \<and> x = d) (g x) (after_metadata F G y0) (stopped F y0)" for x
      by (rule runs_assume) (use that in simp)
  qed
  have encoded: "runs (after_schema y0 d f out) (case ou_encode ou m' of
        Inl e \<Rightarrow> give (Some (e @ '': error encoding yaml metadata''))
      | Inr t \<Rightarrow> andthen (output_directory ou) (\<lambda>d.
          let f = d @ ''/'' @ co_Group ?c @ ''_'' @ pluralize (ou_lower ou) (co_Name ?c) @ ''_meta.yaml''; out = ''---'' @ [nl] @ t
          in case ou_writeFile ou f out of
               Some (left, e) \<Rightarrow> andthen (case left of None \<Rightarrow> give () | Some part \<Rightarrow> put_file f part) (\<lambda>_.
                 give (Some (e @ '': error writing metadata'')))
             | None \<Rightarrow> andthen (put_file f out) (\<lambda>_. andthen (put_out (''Generated crd metadata '' @ f @ [nl])) (\<lambda>_. give None))))
      (after_metadata F G y0) (stopped F y0)"
    if "ou_unmarshal ou (metadata_text ou filename ?ns ?c) = Inr m" "read_augmentation ou ?c = Inr a"
      "extend_metadata (wrapper_extras deps ?c a) (case m of None \<Rightarrow> [] | Some x \<Rightarrow> x) = Done m'" for m a m'
  proof (cases "ou_encode ou m'")
    case (Inr t)
    have "metadata_for ou filename deps (sy_vars y0) ?c (''---'' @ [nl] @ t)"
      using that Inr unfolding metadata_for_def by blast
    from dirs [of "\<lambda>d. let f = d @ ''/'' @ co_Group ?c @ ''_'' @ pluralize (ou_lower ou) (co_Name ?c) @ ''_meta.yaml''; out = ''---'' @ [nl] @ t
          in case ou_writeFile ou f out of
               Some (left, e) \<Rightarrow> andthen (case left of None \<Rightarrow> give () | Some part \<Rightarrow> put_file f part) (\<lambda>_.
                 give (Some (e @ '': error writing metadata'')))
             | None \<Rightarrow> andthen (put_file f out) (\<lambda>_. andthen (put_out (''Generated crd metadata '' @ f @ [nl])) (\<lambda>_. give None))",
        unfolded Let_def mf, OF written [OF this]]
    show ?thesis unfolding Inr sum.case Let_def .
  qed (simp add: fail)
  show ?thesis
  proof (cases "ou_unmarshal ou (metadata_text ou filename ?ns ?c)")
    case m: (Inr m)
    show ?thesis
    proof (cases "read_augmentation ou ?c")
      case a: (Inr a)
      show ?thesis
        unfolding generateMetadata_def m a sum.case
        by (rule runs_andthen [where M = "\<lambda>m' y. after_schema y0 d f out y
            \<and> extend_metadata (wrapper_extras deps ?c a) (case m of None \<Rightarrow> [] | Some x \<Rightarrow> x) = Done m'"])
          (use stop encoded [OF m a] in \<open>auto intro!: runs_run runs_assume\<close>)
    qed (simp add: generateMetadata_def m fail)
  qed (simp add: generateMetadata_def fail)
qed

lemma runs_finish:
  assumes "runs P (generateMetadata ou filename deps ns c) (after_metadata F G y0) (stopped F y0)"
  shows "runs P (finish_crd ou filename deps ns c)
    (\<lambda>_ y. \<exists>fs t. sy_files y = sy_files y0 @ fs \<and> sy_err y = sy_err y0 @ t \<and> G fs) (stopped F y0)"
  unfolding finish_crd_def
proof (rule runs_andthen [OF assms])
  show "runs (after_metadata F G y0 err) (case err of None \<Rightarrow> give ()
      | Some t \<Rightarrow> fail_with (''generating metadata failed with error: '' @ t @ [nl]))
    (\<lambda>_ y. \<exists>fs t. sy_files y = sy_files y0 @ fs \<and> sy_err y = sy_err y0 @ t \<and> G fs) (stopped F y0)" for err
    by (cases err) (auto simp: after_metadata_def stopped_def intro!: runs_give runs_fail)
qed

subsection \<open>The whole run\<close>

lemma files_left_nothing: "nothing_left (files_left k ou s filename deps options v)"
  by (simp add: nothing_left_def files_left_def)

lemma runs_schema_and_metadata:
  fixes k ou s filename deps options y0
  defines "F \<equiv> files_left k ou s filename deps options (sy_vars y0)" and "G \<equiv> files_made k ou s filename deps options (sy_vars y0)"
  assumes c: "options_for (sy_vars y0) options c"
  shows "runs (quiet y0) (andthen (if noConfig (sy_vars y0) then generateStatus k ou s c p else generateSpec k ou s c p)
      (finish_crd ou filename deps (metadataNamespace (sy_vars y0))))
    (\<lambda>_ y. \<exists>fs t. sy_files y = sy_files y0 @ fs \<and> sy_err y = sy_err y0 @ t \<and> G fs) (stopped F y0)"
proof -
  let ?v = "sy_vars y0"
  have nl: "nothing_left F" unfolding F_def by (rule files_left_nothing)
  let ?M = "\<lambda>c' y. c' = named ou c \<and> (\<exists>d out. directory_for ou ?v d \<and> schema_for k ou s ?v p c out None
      \<and> after_schema y0 d (crd_file ou d c) out y)"
  have left: "F False [(crd_file ou d c, out)]" "F True [(crd_file ou d c, out)]"
    if "directory_for ou ?v d" "schema_for k ou s ?v p c out err" for d out err
    unfolding F_def files_left_def using c that by blast+
  have one: "runs (quiet y0) (executeTemplate ou c spec status) ?M (stopped F y0)"
    if "\<And>out err. template_run ou ?v c spec status out err \<Longrightarrow> schema_for k ou s ?v p c out err" for spec status
    by (rule runs_post [OF runs_executeTemplate [OF nl]]) (use left that in blast)+
  have status: "runs (quiet y0) (generateStatus k ou s c p) ?M (stopped F y0)" if nc: "noConfig ?v"
    unfolding generateStatus_def
  proof (rule runs_andthen [where M = "\<lambda>t y. quiet y0 y \<and> generateStatusFields k (ou_lower ou) s p True = Done t"])
    show "runs (\<lambda>y. quiet y0 y \<and> generateStatusFields k (ou_lower ou) s p True = Done t)
      (if t = [] then fail_with (''no status fields to generate'' @ [nl]) else executeTemplate ou c [] t) ?M (stopped F y0)" for t
      by (rule runs_assume, rule runs_if, use nl in \<open>simp add: quiet_fail\<close>, rule one)
        (use nc in \<open>auto simp: template_run_def schema_for_def\<close>)
  qed (auto intro!: runs_run quiet_stopped nl)
  have spec: "runs (quiet y0) (generateSpec k ou s c p) ?M (stopped F y0)" if nc: "\<not> noConfig ?v"
    unfolding generateSpec_def
  proof (rule runs_andthen [where M = "\<lambda>t y. quiet y0 y \<and> spec_text k (ou_lower ou) s p = Done t"])
    show "runs (\<lambda>y. quiet y0 y \<and> spec_text k (ou_lower ou) s p = Done t) (executeTemplate ou c t []) ?M (stopped F y0)" for t
      by (rule runs_assume, rule one) (use nc in \<open>auto simp: template_run_def schema_for_def\<close>)
  qed (auto intro!: runs_run quiet_stopped nl)
  show ?thesis
  proof (rule runs_andthen [where M = ?M])
    show "runs (quiet y0) (if noConfig ?v then generateStatus k ou s c p else generateSpec k ou s c p) ?M (stopped F y0)"
      using status spec by (rule runs_if)
    fix c'
    show "runs (?M c') (finish_crd ou filename deps (metadataNamespace ?v) c')
      (\<lambda>_ y. \<exists>fs t. sy_files y = sy_files y0 @ fs \<and> sy_err y = sy_err y0 @ t \<and> G fs) (stopped F y0)"
    proof (rule runsI)
      fix y assume "?M c' y"
      then obtain d out where d: "c' = named ou c" "directory_for ou ?v d" "schema_for k ou s ?v p c out None"
        "after_schema y0 d (crd_file ou d c) out y" by blast
      have two: "F True [(crd_file ou d c, out), (meta_file ou d c, part)]"
        if "metadata_for ou filename deps ?v (named ou c) md" "ou_writeFile ou (meta_file ou d c) md = Some (Some part, e)" for md part e
        unfolding F_def files_left_def using c d(2,3) that by blast
      have made: "G [(crd_file ou d c, out), (meta_file ou d c, md)]"
        if "metadata_for ou filename deps ?v (named ou c) md" for md
        unfolding G_def files_made_def using c d(2,3) that by blast
      have "runs (after_schema y0 d (crd_file ou d c) out) (finish_crd ou filename deps (metadataNamespace ?v) (named ou c))
          (\<lambda>_ y. \<exists>fs t. sy_files y = sy_files y0 @ fs \<and> sy_err y = sy_err y0 @ t \<and> G fs) (stopped F y0)"
        by (rule runs_finish, rule runs_generateMetadata [where F = F and G = G])
          (use d(2) left [OF d(2,3)] two made in blast)+
      then show "ends (\<lambda>_ y. \<exists>fs t. sy_files y = sy_files y0 @ fs \<and> sy_err y = sy_err y0 @ t \<and> G fs) (stopped F y0)
          (finish_crd ou filename deps (metadataNamespace ?v) c' y)"
        using d(4) by (simp add: runsD d(1))
    qed
  qed
qed

lemma runs_doCrd:
  fixes k ou s filename deps options y0
  defines "F \<equiv> files_left k ou s filename deps options (sy_vars y0)" and "G \<equiv> files_made k ou s filename deps options (sy_vars y0)"
  shows "runs (quiet y0) (doCrd k ou ord s entries filename deps options)
    (\<lambda>_ y. \<exists>fs t. sy_files y = sy_files y0 @ fs \<and> sy_err y = sy_err y0 @ t \<and> G fs) (stopped F y0)"
proof -
  let ?v = "sy_vars y0" and ?Q = "\<lambda>_ y. \<exists>fs t. sy_files y = sy_files y0 @ fs \<and> sy_err y = sy_err y0 @ t \<and> G fs"
  have nl: "nothing_left F" unfolding F_def by (rule files_left_nothing)
  obtain c0 ignored where po: "parseOptions ?v options = (c0, ignored)" by fastforce
  have last: "runs (\<lambda>y. quiet y0 y \<and> (\<exists>key. c2 = c1\<lparr>co_Key := key\<rparr>))
      (andthen (if noConfig ?v then generateStatus k ou s c2 p else generateSpec k ou s c2 p)
        (finish_crd ou filename deps (metadataNamespace ?v))) ?Q (stopped F y0)"
    if "\<exists>r i. c1 = c0\<lparr>co_Root := r, co_Instance := i\<rparr>" for c1 c2 p
  proof (rule runs_assume)
    assume "\<exists>key. c2 = c1\<lparr>co_Key := key\<rparr>"
    then have "options_for ?v options c2" using that po unfolding options_for_def by auto
    then show "runs (quiet y0) (andthen (if noConfig ?v then generateStatus k ou s c2 p else generateSpec k ou s c2 p)
        (finish_crd ou filename deps (metadataNamespace ?v))) ?Q (stopped F y0)"
      unfolding F_def G_def by (rule runs_schema_and_metadata)
  qed
  have chosen: "runs ((\<lambda>(c1, pe) y. quiet y0 y \<and> (\<exists>r i. c1 = c0\<lparr>co_Root := r, co_Instance := i\<rparr>)) q)
      (case q of (c1, pe) \<Rightarrow> (case pe of
         None \<Rightarrow> fail_with (''Unable to find root '' @ co_Root c1 @ '', instance '' @ co_Instance c1 @ '' for module '' @ filename @ [nl])
       | Some p \<Rightarrow> andthen (crd_key s p c1) (\<lambda>c2.
           andthen (if noConfig ?v then generateStatus k ou s c2 p else generateSpec k ou s c2 p)
             (finish_crd ou filename deps (metadataNamespace ?v))))) ?Q (stopped F y0)" for q
  proof (cases q)
    case (Pair c1 pe)
    have "runs (quiet y0) (case pe of
         None \<Rightarrow> fail_with (''Unable to find root '' @ co_Root c1 @ '', instance '' @ co_Instance c1 @ '' for module '' @ filename @ [nl])
       | Some p \<Rightarrow> andthen (crd_key s p c1) (\<lambda>c2.
           andthen (if noConfig ?v then generateStatus k ou s c2 p else generateSpec k ou s c2 p)
             (finish_crd ou filename deps (metadataNamespace ?v)))) ?Q (stopped F y0)"
      if "\<exists>r i. c1 = c0\<lparr>co_Root := r, co_Instance := i\<rparr>"
    proof (cases pe)
      case None
      then show ?thesis by (simp add: quiet_fail [OF nl])
    next
      case (Some p)
      show ?thesis unfolding Some option.case by (rule runs_andthen [OF runs_crd_key [OF nl] last [OF that]])
    qed
    then show ?thesis unfolding Pair prod.case by (rule runs_assume)
  qed
  show ?thesis
    unfolding doCrd_def
  proof (rule runs_andthen [where M = "\<lambda>v y. quiet y0 y \<and> v = ?v"])
    show "runs (quiet y0) (flag (\<lambda>v. v)) (\<lambda>v y. quiet y0 y \<and> v = ?v) (stopped F y0)"
      by (rule runs_flag) (simp add: quiet_vars)
    fix v
    show "runs (\<lambda>y. quiet y0 y \<and> v = ?v) (let (c0, ignored) = parseOptions v options
       in andthen (put_err ignored) (\<lambda>_.
         andthen (module_entry_for s entries filename) (\<lambda>e.
           andthen (chosen_entry ord s e c0) (\<lambda>(c1, pe).
             case pe of
               None \<Rightarrow> fail_with (''Unable to find root '' @ co_Root c1 @ '', instance '' @ co_Instance c1 @ '' for module ''
                         @ filename @ [nl])
             | Some p \<Rightarrow>
                 andthen (crd_key s p c1) (\<lambda>c2.
                   andthen (if noConfig v then generateStatus k ou s c2 p else generateSpec k ou s c2 p)
                     (finish_crd ou filename deps (metadataNamespace v))))))) ?Q (stopped F y0)"
    proof (rule runs_assume)
      assume v: "v = ?v"
      show "runs (quiet y0) (let (c0, ignored) = parseOptions v options
       in andthen (put_err ignored) (\<lambda>_.
         andthen (module_entry_for s entries filename) (\<lambda>e.
           andthen (chosen_entry ord s e c0) (\<lambda>(c1, pe).
             case pe of
               None \<Rightarrow> fail_with (''Unable to find root '' @ co_Root c1 @ '', instance '' @ co_Instance c1 @ '' for module ''
                         @ filename @ [nl])
             | Some p \<Rightarrow>
                 andthen (crd_key s p c1) (\<lambda>c2.
                   andthen (if noConfig v then generateStatus k ou s c2 p else generateSpec k ou s c2 p)
                     (finish_crd ou filename deps (metadataNamespace v))))))) ?Q (stopped F y0)"
        unfolding v po Let_def prod.case
        by (rule runs_andthen [where M = "\<lambda>_. quiet y0", OF runs_put(2)], rule quiet_err, assumption,
          rule runs_andthen [OF runs_module_entry_for [OF nl]], rule runs_andthen [OF runs_chosen_entry [OF nl] chosen])
    qed
  qed
qed


definition working :: outside where
  "working = \<lparr>ou_lower = (\<lambda>r. r), ou_stat = (\<lambda>_. None), ou_template = (\<lambda>_ _. Inr (\<lambda>cc. (cc_CrdName cc, None))),
     ou_getwd = Inr ''/out'', ou_mkdirall = (\<lambda>_. True), ou_create = (\<lambda>_. None), ou_writeFile = (\<lambda>_ _. None),
     ou_readFile = (\<lambda>_. Inl []), ou_unmarshal = (\<lambda>_. Inr (Some [(''spec'', YMap [(YString ''wrapper'', YMap [])])])),
     ou_encode = (\<lambda>_. Inr ''spec'')\<rparr>"

definition idle :: system where
  "idle = \<lparr>sy_out = [], sy_err = [], sy_files = [], sy_vars = no_flags\<rparr>"

definition one_container :: estate where
  "one_container = state_of [blank\<lparr>en_Name := ''m'', en_Kind := DirectoryEntry, en_Dir := Some [(''c'', 1)]\<rparr>,
     blank\<lparr>en_Name := ''c'', en_Kind := DirectoryEntry, en_Dir := Some []\<rparr>]"


subsection \<open>What is dropped silently\<close>

text \<open>Without \<open>--multi\<close> a file that cannot be read is skipped, and nothing is printed.\<close>

lemma read_error_ignored:
  assumes "ms_Read (tv_fs (en_env en)) name (es_ms s) = (ms1, Some (LoadErr e))"
  shows "read_together en ((name, opts) # fs) mdl deps s = read_together en fs mdl deps (set_ms ms1 s)"
  using assms by (simp add: read_file_def)

text \<open>There the check of the arguments is made for one file, for which it never fails.\<close>

lemma validate_single: "validateArgs v [name] = None"
  by (simp add: validateArgs_def)

text \<open>Which revision of a module is shown depends on the order of a range over a map.\<close>

lemma revision_by_order:
  assumes "node_NName h a = node_NName h b"
  shows "first_modules h [(''m'', a), (''m@2020-01-01'', b)] [] = [(node_NName h b, a)]"
    "first_modules h [(''m@2020-01-01'', b), (''m'', a)] [] = [(node_NName h b, b)]"
  using assms by simp_all

text \<open>Two blanks in a key statement give a required property without a name.\<close>

lemma trim_space_ends:
  assumes "s \<noteq> []" "go_graphic (hd s)" "go_graphic (last s)"
  shows "go_trim_space s = s"
proof -
  have "go_drop_any go_spaces s = s"
    by (rule go_drop_any_graphic) (use assms go_spaces_not_graphic in auto)
  moreover have "go_drop_any (List.map rev go_spaces) (rev s) = rev s"
    by (rule go_drop_any_graphic) (use assms go_spaces_not_graphic in \<open>auto simp: hd_rev\<close>)
  ultimately show ?thesis by (simp add: go_trim_space_def go_trim_left_space_def go_trim_right_space_def)
qed

lemma key_with_two_blanks: "key_fields ''a  b'' = [''a'', [], ''b'']"
proof -
  have "go_trim_space ''a  b'' = ''a  b''" by (rule trim_space_ends) (simp_all add: go_graphic_def byte_def)
  moreover have "go_split ''a  b'' '' '' = [''a'', [], ''b'']"
    using go_split_join [of "[''a'', [], ''b'']" "'' ''"] by simp
  ultimately show ?thesis by (simp add: key_fields_def)
qed

end
