(* ===== verification/Spec2Isabelle.thy ===== *)
theory Spec2Isabelle
  imports Prelude Strconv Utf8 Numbers Ranges Enums Names Indent Lexer LexText Parser Printer RoundTrip Statements Schema AstTypes Ast AstBuild Files Nodes ModuleSet ModuleInv Includes Links Identities Errors YangTypes Types TypeBounds Entries Convert Deviate Process EntryTrees EntryMerge Choices EntryWalks EntryErrors Frames ToEntryFrame Augments Deviations Reports CrdSchema CrdOptions Crds Commands JsonXml CrdFlat JsonRestore CrdRuns
begin
text \<open>
  A model of goyang, a YANG parser and compiler in Go, with the theorems that make it correct.

  \<^bold>\<open>The program.\<close> The package \<open>pkg/yang\<close> turns YANG sources into schema trees in these steps: the lexer
  (\<open>lex.go\<close>) delivers tokens; the parser (\<open>parse.go\<close>) makes statement trees of them; \<open>build\<close>
  (\<open>ast.go\<close>) turns statements into the structs of \<open>yang.go\<close>, by tables that it makes by reflection over
  their tags; \<open>Modules\<close> (\<open>modules.go\<close>) collects the modules, reads those that are missing
  (\<open>file.go\<close>), links imports and includes, resolves identities (\<open>identity.go\<close>) and types
  (\<open>types.go\<close>, \<open>yangtype.go\<close>, \<open>types_builtin.go\<close>); \<open>ToEntry\<close> (\<open>entry.go\<close>) makes the tree
  of a module, in which uses are expanded; \<open>Process\<close> then applies augments until nothing changes,
  inserts the cases that YANG leaves out, and applies the deviations. The searches on the way are in
  \<open>node.go\<close> and \<open>find.go\<close>; \<open>camelcase.go\<close> and \<open>pkg/indent\<close> serve the output. The program in the
  root directory reads the files it is given, calls \<open>Process\<close> and prints the trees in a format: as a tree, as the
  list of types, or as a Kubernetes resource definition.

  \<^bold>\<open>Conventions.\<close> A Go string is a list of bytes (\<open>string\<close>). A struct is a record, an integer of fixed width a
  word where it can wrap. An error return is a value of a sum type, with a constructor per message.
  Where the code can panic or recurse without end, the result type is \<open>run\<close>: \<open>Done\<close>,
  \<open>Panicked\<close> or \<open>NoFuel\<close>; what may exit is a \<open>cmd\<close>.
  Structs that are shared are in stores by address: the nodes of the AST in the heap of an \<open>ast\<close>, types in \<open>world\<close>, entries, list attributes and the maps \<open>Extra\<close> in
  \<open>estate\<close>; a nil pointer is \<open>None\<close>. A Go map is an association list, in the order of insertion where
  the code ranges over it; where the order of a range could matter for the result it is a parameter
  (\<open>orders\<close>). Assigning to a nil map panics. Appending to a slice never touches a slice that shares its array.

  \<^bold>\<open>Parameters\<close> stand for what is outside the repository: the file system (\<open>filesystem\<close>),
  \<open>cmp.Equal\<close> on enumerations and \<open>regexp/syntax\<close> (\<open>tenv\<close>), \<open>unicode.IsPrint\<close>, the text of
  an error (\<open>msg_of\<close>, on which the order of errors depends), writers (locale \<open>io_writer\<close>), and
  templates, YAML and the operating system (\<open>outside\<close>). The properties hold for all values of the parameters
  that satisfy their hypotheses.

  \<^bold>\<open>Theories.\<close>
  \<^item> \<open>Prelude\<close>, \<open>Strconv\<close>, \<open>Utf8\<close>: what is used of Go's standard library (strings, sort, strconv,
    utf8), the locales \<open>sort_less\<close> and \<open>sort_total\<close> for \<open>sort.Sort\<close> with their interpretations.
  \<^item> \<open>Numbers\<close>, \<open>Ranges\<close>, \<open>Enums\<close> (\<open>types_builtin.go\<close>): numbers with their order, parsing and printing; the
    coalescing, containment and parsing of ranges, against the set of integers they admit; enumerations as
    bijections.
  \<^item> \<open>Names\<close> (\<open>camelcase.go\<close>), \<open>Indent\<close> (\<open>pkg/indent/indent.go\<close>): CamelCase; the
    indenting writer, whose output does not depend on how the text is cut.
  \<^item> \<open>Lexer\<close> (\<open>lex.go\<close>): every state function of the lexer, its invariant and a potential that bounds its
    tokens; \<open>LexText\<close>: what it makes of given text.
  \<^item> \<open>Statements\<close>, \<open>Parser\<close>, \<open>Printer\<close>, \<open>RoundTrip\<close> (\<open>parse.go\<close>): the statement parser, which always
    returns, and the round trip with \<open>Statement.Write\<close>. The locale \<open>token_source\<close> is the contract of
    lexer and token stack.
  \<^item> \<open>Schema\<close> (the structs of \<open>yang.go\<close>), \<open>AstTypes\<close> (\<open>initTypes\<close>), \<open>Ast\<close> and \<open>AstBuild\<close>
    (\<open>build\<close>): the tables are complete; on statements without the pseudo-keywords Name, Statement and Parent
    (\<open>plain\<close>) \<open>build\<close> accepts exactly the valid ones, with the required keywords listed
    independently of the tables, does not panic on known keywords, and its result mirrors the statement.
  \<^item> \<open>Files\<close> (\<open>file.go\<close>), \<open>Nodes\<close> (\<open>node.go\<close>, methods of \<open>yang.go\<close>), \<open>ModuleSet\<close>, \<open>ModuleInv\<close>,
    \<open>Includes\<close> (\<open>modules.go\<close>): the search for files, also recursive; the module set with the invariant of its
    reachable states; the linking of includes on every graph, once all files are read; namespaces and their cache.
  \<^item> \<open>Links\<close> (searches of \<open>node.go\<close> and \<open>find.go\<close>), \<open>Identities\<close> (\<open>identity.go\<close>): the values of an
    identity are the transitive closure of the derivation, in every order of the maps.
  \<^item> \<open>Errors\<close> (the order of errors in \<open>entry.go\<close>), \<open>YangTypes\<close> (\<open>yangtype.go\<close>), \<open>Types\<close>
    (\<open>types.go\<close>), \<open>TypeBounds\<close>: the resolution of types and typedefs, and the bounds that every type keeps.
  \<^item> \<open>Entries\<close>, \<open>Convert\<close>, \<open>Deviate\<close> (\<open>entry.go\<close>), \<open>Process\<close> (\<open>modules.go\<close>): the operations on
    entries, \<open>ToEntry\<close> with \<open>Find\<close> and \<open>Augment\<close>, \<open>ApplyDeviate\<close>, and the steps of \<open>Process\<close>.
  \<^item> \<open>EntryTrees\<close>: an abstract tree is read off the store; \<open>dup\<close> refines copying it. \<open>EntryMerge\<close>:
    \<open>merge\<close> refines merging trees. \<open>EntryErrors\<close>: \<open>GetErrors\<close> delivers the errors of the tree.
    \<open>EntryWalks\<close>: the walks up, \<open>Path\<close> and \<open>Find\<close>. \<open>Choices\<close>: \<open>FixChoice\<close>, with all it changes. \<open>Frames\<close>
    and \<open>ToEntryFrame\<close>: a node is converted once, and the fields of other entries (\<open>retains\<close>) that \<open>ToEntry\<close>
    keeps, over the locale \<open>converter\<close> for its recursive call. \<open>Augments\<close>: the rounds of the loop over the
    augments as a relation (\<open>augment_reach\<close>) and where it stops. \<open>Deviations\<close>: what is added, and when deleting
    undoes it.
  \<^item> \<open>Reports\<close> (\<open>tree.go\<close>, \<open>types.go\<close>): the formats \<open>tree\<close> and \<open>types\<close>. \<open>CrdSchema\<close> (\<open>crd.go\<close>,
    \<open>crd_rpc.go\<close>): the OpenAPI schema of an entry; \<open>CrdFlat\<close>: choices, cases and rpcs are invisible in it.
    \<open>CrdOptions\<close> (\<open>crd_options.go\<close>, \<open>crd_utils.go\<close>), \<open>Crds\<close> (\<open>crd.go\<close>, \<open>crd_metadata.go\<close>):
    the formats \<open>crd\<close> and \<open>rpc\<close> as commands on the output, the files and the flags. \<open>JsonXml\<close> (\<open>xml.go\<close>) and
    \<open>JsonRestore\<close>: JSON documents get the spelling of the schema, or its CamelCase. \<open>Commands\<close> (\<open>yang.go\<close>,
    \<open>pkg/yangentry\<close>): the program after its command line has been parsed. \<open>CrdRuns\<close>: the options are
    read back; which files, with which content, a run leaves when it returns, exits or panics (\<open>runs\<close>, a
    contract in the style of Hoare logic); and what the program drops silently.

  \<^bold>\<open>Fuel.\<close> The parser gets fuel linear in the tokens left, and more does not change its result; the lexer's loops end
  by measures. \<open>include\<close> has enough with one more than the modules and files. The searches up the parents get
  the number of nodes. \<open>dup\<close>, \<open>merge\<close> and \<open>GetErrors\<close> need the depth of the tree (\<open>tree_of\<close> is defined
  for it), \<open>FixChoice\<close> twice the depth, and the loop of the augments one round more than there are augments
  (its rounds have a fuel of their own).
  \<open>ToEntry\<close>, the resolution of types and the walk over identities do not end on every input (groupings that use
  themselves, typedefs and identities in cycles); there \<open>NoFuel\<close> stands for the recursion without end, and the
  theorems about them hold for every fuel.

  \<^bold>\<open>Not modelled.\<close> Floating-point numbers (\<open>FromFloat\<close>, \<open>Number.Frac\<close>), for which no theory is at hand;
  \<open>PrintNode\<close> and the debug output of the lexer, which are for debugging only; fields that the package only
  carries along (\<open>Annotation\<close>, the JSON tags of \<open>Entry\<close>). In the root package the registration of flags with
  \<open>getopt\<close>, the help text and the trace file; of \<open>decodeJsonToXml\<close>, which nothing calls, only the
  part between the calls of the JSON and XML libraries is modelled. Numbers of 64 or more fraction digits, which the
  parsers do not make, panic in Go where \<open>frac\<close> divides words by 0.
\<close>

end
